(* ===== verification/Prelude.thy ===== *)
theory Prelude
  imports Main "HOL-Library.Word"
begin

text \<open>
  Shared vocabulary of the development: machine types, \<open>size_t\<close> arithmetic with its
  wrap-around, the C allocator, the error-passing state monad that stands for the
  \<open>(r = f()) != 0 || (r = g()) != 0\<close> chains of the sources, and the list lemmas the
  components share.
\<close>

unbundle bit_operations_syntax

section \<open>Machine types\<close>

type_synonym byte = "8 word"
type_synonym u16 = "16 word"
type_synonym u32 = "32 word"
type_synonym u64 = "64 word"
type_synonym size_t = nat

text \<open>
  A \<open>size_t\<close> is a natural number below \<open>SIZE_MOD\<close> (LP64: 64 bits). Additions and
  subtractions that the sources compute on \<open>size_t\<close> are written with \<open>size_add\<close> and
  \<open>size_sub\<close>, which wrap as the C operators do.
\<close>

definition SIZE_MOD :: nat where
  "SIZE_MOD = 2 ^ 64"

definition size_add :: "size_t \<Rightarrow> size_t \<Rightarrow> size_t" where
  "size_add a b = (a + b) mod SIZE_MOD"

definition size_sub :: "size_t \<Rightarrow> size_t \<Rightarrow> size_t" where
  "size_sub a b = (a + (SIZE_MOD - b mod SIZE_MOD)) mod SIZE_MOD"

text \<open>\<open>roundup(x, y)\<close> of \<open>sys/param.h\<close>.\<close>

definition roundup :: "nat \<Rightarrow> nat \<Rightarrow> nat" where
  "roundup x y = ((x + (y - 1)) div y) * y"

lemma size_add_exact: "a + b < SIZE_MOD \<Longrightarrow> size_add a b = a + b"
  by (simp add: size_add_def)

lemma size_sub_exact: "b \<le> a \<Longrightarrow> a < SIZE_MOD \<Longrightarrow> size_sub a b = a - b"
proof -
  assume "b \<le> a" "a < SIZE_MOD"
  then have "a + (SIZE_MOD - b mod SIZE_MOD) = (a - b) + SIZE_MOD" by simp
  then show ?thesis using \<open>a < SIZE_MOD\<close> by (simp add: size_sub_def)
qed

lemma size_sub_zero [simp]: "a < SIZE_MOD \<Longrightarrow> size_sub a 0 = a"
  by (simp add: size_sub_exact)

lemma roundup_ge: "0 < y \<Longrightarrow> x \<le> roundup x y"
  using dividend_less_div_times [of y "x + (y - 1)"] by (simp add: roundup_def)

lemma roundup_less: "0 < y \<Longrightarrow> roundup x y < x + y"
proof -
  assume "0 < y"
  have "roundup x y \<le> x + (y - 1)"
    unfolding roundup_def by (rule div_times_less_eq_dividend)
  also have "\<dots> < x + y" using \<open>0 < y\<close> by simp
  finally show ?thesis .
qed

section \<open>The C allocator\<close>

text \<open>
  \<open>malloc\<close>, \<open>calloc\<close> and \<open>realloc\<close> of \<open>n\<close> bytes either fail (\<open>None\<close>) or give a block; the
  bytes that C leaves indeterminate are whatever the allocator says. Every statement of the
  development is for every allocator.
\<close>

type_synonym allocator = "size_t \<Rightarrow> (nat \<Rightarrow> byte) option"

definition malloc_block :: "allocator \<Rightarrow> size_t \<Rightarrow> byte list option" where
  "malloc_block am n = map_option (\<lambda>f. map f [0..<n]) (am n)"

definition calloc_block :: "allocator \<Rightarrow> size_t \<Rightarrow> byte list option" where
  "calloc_block am n = map_option (\<lambda>_. replicate n 0) (am n)"

definition realloc_block :: "allocator \<Rightarrow> byte list \<Rightarrow> size_t \<Rightarrow> byte list option" where
  "realloc_block am old n = map_option (\<lambda>f. take n old @ map f [length old..<n]) (am n)"

text \<open>An allocator that never fails, used by the witnesses.\<close>

definition alloc_zero :: allocator where
  "alloc_zero n = Some (\<lambda>_. 0)"

lemma length_realloc_block: "realloc_block am old n = Some bs \<Longrightarrow> length bs = n"
  by (auto simp: realloc_block_def)

lemma take_realloc_block:
  "realloc_block am old n = Some bs \<Longrightarrow> k \<le> length old \<Longrightarrow> k \<le> n \<Longrightarrow> take k bs = take k old"
  by (auto simp: realloc_block_def min_def)

lemma length_calloc_block: "calloc_block am n = Some bs \<Longrightarrow> length bs = n"
  by (auto simp: calloc_block_def)

section \<open>Writing into a block\<close>

text \<open>\<open>memcpy(p + i, v, len)\<close> on the block \<open>p\<close>.\<close>

definition write_at :: "nat \<Rightarrow> 'a list \<Rightarrow> 'a list \<Rightarrow> 'a list" where
  "write_at i v xs = take i xs @ v @ drop (i + length v) xs"

lemma length_write_at [simp]: "i + length v \<le> length xs \<Longrightarrow> length (write_at i v xs) = length xs"
  by (simp add: write_at_def)

lemma take_write_at_before [simp]:
  "k \<le> i \<Longrightarrow> i \<le> length xs \<Longrightarrow> take k (write_at i v xs) = take k xs"
  by (simp add: write_at_def min_def)

lemma take_write_at_after:
  "i \<le> length xs \<Longrightarrow> take (i + length v) (write_at i v xs) = take i xs @ v"
  by (simp add: write_at_def)

lemma write_at_append:
  "i \<le> length xs \<Longrightarrow> write_at (i + length v) w (write_at i v xs) = write_at i (v @ w) xs"
  by (simp add: write_at_def ac_simps)

section \<open>Error-passing state\<close>

text \<open>
  A C function that works on a state and returns 0 or an error code is an action: it gives
  an error or a result, and the state after the call in either case. \<open>act_bind\<close> runs the
  second action only when the first returned 0, as the short-circuit chains do.
\<close>

type_synonym ('e, 's, 'a) action = "'s \<Rightarrow> ('e + 'a) \<times> 's"

definition act_return :: "'a \<Rightarrow> ('e, 's, 'a) action" where
  "act_return a = (\<lambda>s. (Inr a, s))"

definition act_fail :: "'e \<Rightarrow> ('e, 's, 'a) action" where
  "act_fail e = (\<lambda>s. (Inl e, s))"

definition act_bind :: "('e, 's, 'a) action \<Rightarrow> ('a \<Rightarrow> ('e, 's, 'b) action) \<Rightarrow> ('e, 's, 'b) action" where
  "act_bind f g = (\<lambda>s. case f s of (Inl e, s') \<Rightarrow> (Inl e, s') | (Inr a, s') \<Rightarrow> g a s')"

definition act_seq :: "('e, 's, 'a) action \<Rightarrow> ('e, 's, 'b) action \<Rightarrow> ('e, 's, 'b) action" where
  "act_seq f g = act_bind f (\<lambda>_. g)"

text \<open>A chain of calls that return nothing but 0 or an error.\<close>

fun act_all :: "('e, 's, unit) action list \<Rightarrow> ('e, 's, unit) action" where
  "act_all [] = act_return ()"
| "act_all (f # fs) = act_seq f (act_all fs)"

text \<open>A counted loop that collects the results of its body.\<close>

fun act_repeat :: "nat \<Rightarrow> ('e, 's, 'a) action \<Rightarrow> ('e, 's, 'a list) action" where
  "act_repeat 0 f = act_return []"
| "act_repeat (Suc n) f = act_bind f (\<lambda>a. act_bind (act_repeat n f) (\<lambda>as. act_return (a # as)))"

named_theorems act_simps \<open>unfolding the error-passing state monad\<close>

lemma act_return_run [act_simps]: "act_return a s = (Inr a, s)"
  by (simp add: act_return_def)

lemma act_fail_run [act_simps]: "act_fail e s = (Inl e, s)"
  by (simp add: act_fail_def)

lemma act_bind_run [act_simps]:
  "act_bind f g s = (case f s of (Inl e, s') \<Rightarrow> (Inl e, s') | (Inr a, s') \<Rightarrow> g a s')"
  by (simp add: act_bind_def)

lemma act_seq_run [act_simps]:
  "act_seq f g s = (case f s of (Inl e, s') \<Rightarrow> (Inl e, s') | (Inr a, s') \<Rightarrow> g s')"
  by (simp add: act_seq_def act_bind_def)

text \<open>An action that keeps a predicate on the state, whatever it returns.\<close>

definition act_keeps :: "('s \<Rightarrow> bool) \<Rightarrow> ('e, 's, 'a) action \<Rightarrow> bool" where
  "act_keeps P f \<longleftrightarrow> (\<forall>s r s'. P s \<longrightarrow> f s = (r, s') \<longrightarrow> P s')"

lemma act_keepsI: "(\<And>s r s'. P s \<Longrightarrow> f s = (r, s') \<Longrightarrow> P s') \<Longrightarrow> act_keeps P f"
  by (auto simp: act_keeps_def)

lemma act_keepsD: "act_keeps P f \<Longrightarrow> P s \<Longrightarrow> f s = (r, s') \<Longrightarrow> P s'"
  by (auto simp: act_keeps_def)

lemma act_keeps_return [intro]: "act_keeps P (act_return a)"
  by (auto simp: act_keeps_def act_simps)

lemma act_keeps_fail [intro]: "act_keeps P (act_fail e)"
  by (auto simp: act_keeps_def act_simps)

lemma act_keeps_bind [intro]:
  assumes "act_keeps P f" and "\<And>a. act_keeps P (g a)"
  shows "act_keeps P (act_bind f g)"
proof (rule act_keepsI)
  fix s r s' assume P: "P s" and run: "act_bind f g s = (r, s')"
  obtain q t where f: "f s = (q, t)" by (cases "f s")
  with assms(1) P have "P t" by (rule act_keepsD)
  then show "P s'" using run f assms(2) by (cases q) (auto simp: act_simps dest: act_keepsD)
qed

lemma act_keeps_seq [intro]:
  assumes "act_keeps P f" and "act_keeps P g"
  shows "act_keeps P (act_seq f g)"
  using assms by (auto simp: act_seq_def)

lemma act_keeps_all: "(\<And>f. f \<in> set fs \<Longrightarrow> act_keeps P f) \<Longrightarrow> act_keeps P (act_all fs)"
  by (induction fs) auto

section \<open>Lists\<close>

lemma take_drop_append_eq:
  "take n xs = ys \<Longrightarrow> drop n xs = zs \<Longrightarrow> xs = ys @ zs"
  using append_take_drop_id by metis

lemma drop_take_shift: "drop i (take (i + n) xs) = take n (drop i xs)"
  by (simp add: drop_take)

section \<open>Strings\<close>

text \<open>Strings as characters and as the bytes of a buffer.\<close>

definition bytes_of :: "string \<Rightarrow> byte list" where
  "bytes_of s = map (\<lambda>c. of_nat (of_char c)) s"

definition string_of :: "byte list \<Rightarrow> string" where
  "string_of bs = map (\<lambda>b. char_of (unat b)) bs"

lemma unat_char: "unat (of_nat (of_char c) :: byte) = of_char c"
  using nat_of_char_less_256 [of c] by (simp add: unsigned_of_nat take_bit_nat_eq_self)

lemma string_of_bytes [simp]: "string_of (bytes_of s) = s"
  by (induction s) (auto simp: string_of_def bytes_of_def unat_char)

lemma bytes_of_nul [simp]: "0 \<in> set (bytes_of s) \<longleftrightarrow> CHR 0x00 \<in> set s"
proof -
  have "0 = (of_nat (of_char c) :: byte) \<longleftrightarrow> c = CHR 0x00" for c
  proof
    assume "0 = (of_nat (of_char c) :: byte)"
    then have "of_char c = (0 :: nat)" using unat_char [of c] by simp
    then have "of_char c = (of_char (CHR 0x00) :: nat)" by simp
    then show "c = CHR 0x00" by (simp only: of_char_eq_iff)
  qed simp
  then show ?thesis by (simp only: bytes_of_def set_map image_iff) blast
qed

lemma length_bytes_of [simp]: "length (bytes_of s) = length s"
  by (simp add: bytes_of_def)

end
