(* ===== verification/Ssh_Err.thy ===== *)
theory Ssh_Err
  imports Prelude
begin

text \<open>
  The error codes of \<open>ssh/err.h\<close> and their texts, \<open>ssh/err.c\<close>. A function that returns 0 on
  success and a negative code on failure returns a value of \<open>ssh_err + 'a\<close> in the model;
  \<open>RAW_RC n\<close> is a non-zero return value that is none of the named codes.
\<close>

datatype ssh_err =
    SSH_ERR_INTERNAL_ERROR | SSH_ERR_ALLOC_FAIL | SSH_ERR_MESSAGE_INCOMPLETE
  | SSH_ERR_INVALID_FORMAT | SSH_ERR_BIGNUM_IS_NEGATIVE | SSH_ERR_BIGNUM_TOO_LARGE
  | SSH_ERR_ECPOINT_TOO_LARGE | SSH_ERR_NO_BUFFER_SPACE | SSH_ERR_INVALID_ARGUMENT
  | SSH_ERR_KEY_BITS_MISMATCH | SSH_ERR_EC_CURVE_INVALID | SSH_ERR_KEY_TYPE_MISMATCH
  | SSH_ERR_KEY_TYPE_UNKNOWN | SSH_ERR_EC_CURVE_MISMATCH | SSH_ERR_EXPECTED_CERT
  | SSH_ERR_KEY_LACKS_CERTBLOB | SSH_ERR_KEY_CERT_UNKNOWN_TYPE
  | SSH_ERR_KEY_CERT_INVALID_SIGN_KEY | SSH_ERR_KEY_INVALID_EC_VALUE
  | SSH_ERR_SIGNATURE_INVALID | SSH_ERR_LIBCRYPTO_ERROR
  | SSH_ERR_UNEXPECTED_TRAILING_DATA | SSH_ERR_SYSTEM_ERROR | SSH_ERR_KEY_CERT_INVALID
  | SSH_ERR_AGENT_COMMUNICATION | SSH_ERR_AGENT_FAILURE | SSH_ERR_DH_GEX_OUT_OF_RANGE
  | SSH_ERR_DISCONNECTED | SSH_ERR_MAC_INVALID | SSH_ERR_NO_CIPHER_ALG_MATCH
  | SSH_ERR_NO_MAC_ALG_MATCH | SSH_ERR_NO_COMPRESS_ALG_MATCH | SSH_ERR_NO_KEX_ALG_MATCH
  | SSH_ERR_NO_HOSTKEY_ALG_MATCH | SSH_ERR_NO_HOSTKEY_LOADED | SSH_ERR_PROTOCOL_MISMATCH
  | SSH_ERR_NO_PROTOCOL_VERSION | SSH_ERR_NEED_REKEY | SSH_ERR_PASSPHRASE_TOO_SHORT
  | SSH_ERR_FILE_CHANGED | SSH_ERR_KEY_UNKNOWN_CIPHER | SSH_ERR_KEY_WRONG_PASSPHRASE
  | SSH_ERR_KEY_BAD_PERMISSIONS | SSH_ERR_KEY_CERT_MISMATCH | SSH_ERR_KEY_NOT_FOUND
  | SSH_ERR_AGENT_NOT_PRESENT | SSH_ERR_AGENT_NO_IDENTITIES | SSH_ERR_BUFFER_READ_ONLY
  | SSH_ERR_KRL_BAD_MAGIC | SSH_ERR_KEY_REVOKED
  | RAW_RC int

type_synonym 'a res = "ssh_err + 'a"

text \<open>The number behind each macro of \<open>err.h\<close>.\<close>

fun err_code :: "ssh_err \<Rightarrow> int" where
  "err_code SSH_ERR_INTERNAL_ERROR = -1"
| "err_code SSH_ERR_ALLOC_FAIL = -2"
| "err_code SSH_ERR_MESSAGE_INCOMPLETE = -3"
| "err_code SSH_ERR_INVALID_FORMAT = -4"
| "err_code SSH_ERR_BIGNUM_IS_NEGATIVE = -5"
| "err_code SSH_ERR_BIGNUM_TOO_LARGE = -6"
| "err_code SSH_ERR_ECPOINT_TOO_LARGE = -7"
| "err_code SSH_ERR_NO_BUFFER_SPACE = -8"
| "err_code SSH_ERR_INVALID_ARGUMENT = -9"
| "err_code SSH_ERR_KEY_BITS_MISMATCH = -10"
| "err_code SSH_ERR_EC_CURVE_INVALID = -11"
| "err_code SSH_ERR_KEY_TYPE_MISMATCH = -12"
| "err_code SSH_ERR_KEY_TYPE_UNKNOWN = -13"
| "err_code SSH_ERR_EC_CURVE_MISMATCH = -14"
| "err_code SSH_ERR_EXPECTED_CERT = -15"
| "err_code SSH_ERR_KEY_LACKS_CERTBLOB = -16"
| "err_code SSH_ERR_KEY_CERT_UNKNOWN_TYPE = -17"
| "err_code SSH_ERR_KEY_CERT_INVALID_SIGN_KEY = -18"
| "err_code SSH_ERR_KEY_INVALID_EC_VALUE = -19"
| "err_code SSH_ERR_SIGNATURE_INVALID = -20"
| "err_code SSH_ERR_LIBCRYPTO_ERROR = -21"
| "err_code SSH_ERR_UNEXPECTED_TRAILING_DATA = -22"
| "err_code SSH_ERR_SYSTEM_ERROR = -23"
| "err_code SSH_ERR_KEY_CERT_INVALID = -24"
| "err_code SSH_ERR_AGENT_COMMUNICATION = -25"
| "err_code SSH_ERR_AGENT_FAILURE = -26"
| "err_code SSH_ERR_DH_GEX_OUT_OF_RANGE = -27"
| "err_code SSH_ERR_DISCONNECTED = -28"
| "err_code SSH_ERR_MAC_INVALID = -29"
| "err_code SSH_ERR_NO_CIPHER_ALG_MATCH = -30"
| "err_code SSH_ERR_NO_MAC_ALG_MATCH = -31"
| "err_code SSH_ERR_NO_COMPRESS_ALG_MATCH = -32"
| "err_code SSH_ERR_NO_KEX_ALG_MATCH = -33"
| "err_code SSH_ERR_NO_HOSTKEY_ALG_MATCH = -34"
| "err_code SSH_ERR_NO_HOSTKEY_LOADED = -35"
| "err_code SSH_ERR_PROTOCOL_MISMATCH = -36"
| "err_code SSH_ERR_NO_PROTOCOL_VERSION = -37"
| "err_code SSH_ERR_NEED_REKEY = -38"
| "err_code SSH_ERR_PASSPHRASE_TOO_SHORT = -39"
| "err_code SSH_ERR_FILE_CHANGED = -40"
| "err_code SSH_ERR_KEY_UNKNOWN_CIPHER = -41"
| "err_code SSH_ERR_KEY_WRONG_PASSPHRASE = -42"
| "err_code SSH_ERR_KEY_BAD_PERMISSIONS = -43"
| "err_code SSH_ERR_KEY_CERT_MISMATCH = -44"
| "err_code SSH_ERR_KEY_NOT_FOUND = -45"
| "err_code SSH_ERR_AGENT_NOT_PRESENT = -46"
| "err_code SSH_ERR_AGENT_NO_IDENTITIES = -47"
| "err_code SSH_ERR_BUFFER_READ_ONLY = -48"
| "err_code SSH_ERR_KRL_BAD_MAGIC = -49"
| "err_code SSH_ERR_KEY_REVOKED = -50"
| "err_code (RAW_RC n) = n"

text \<open>
  \<open>ssh_err(n)\<close>, with the text of \<open>strerror(errno)\<close> as an argument. The switch is on the
  number, and 0 is success.
\<close>

definition ssh_err_table :: "(int \<times> string) list" where
  "ssh_err_table =
    [(0, ''success''),
     (-1, ''unexpected internal error''),
     (-2, ''memory allocation failed''),
     (-3, ''incomplete message''),
     (-4, ''invalid format''),
     (-5, ''bignum is negative''),
     (-6, ''bignum is too large''),
     (-7, ''elliptic curve point is too large''),
     (-8, ''insufficient buffer space''),
     (-9, ''invalid argument''),
     (-10, ''key bits do not match''),
     (-11, ''invalid elliptic curve''),
     (-12, ''key type does not match''),
     (-13, ''unknown or unsupported key type''),
     (-14, ''elliptic curve does not match''),
     (-15, ''plain key provided where certificate required''),
     (-16, ''key lacks certificate data''),
     (-17, ''unknown/unsupported certificate type''),
     (-18, ''invalid certificate signing key''),
     (-19, ''invalid elliptic curve value''),
     (-20, ''incorrect signature''),
     (-21, ''error in libcrypto''),
     (-22, ''unexpected bytes remain after decoding''),
     (-24, ''invalid certificate''),
     (-25, ''communication with agent failed''),
     (-26, ''agent refused operation''),
     (-27, ''DH GEX group out of range''),
     (-28, ''disconnected''),
     (-29, ''message authentication code incorrect''),
     (-30, ''no matching cipher found''),
     (-31, ''no matching MAC found''),
     (-32, ''no matching compression method found''),
     (-33, ''no matching key exchange method found''),
     (-34, ''no matching host key type found''),
     (-36, ''protocol version mismatch''),
     (-37, ''could not read protocol version''),
     (-35, ''could not load host key''),
     (-38, ''rekeying not supported by peer''),
     (-39, ''passphrase is too short (minimum four characters)''),
     (-40, ''file changed while reading''),
     (-41, ''key encrypted using unsupported cipher''),
     (-42, ''incorrect passphrase supplied to decrypt private key''),
     (-43, ''bad permissions''),
     (-44, ''certificate does not match key''),
     (-45, ''key not found''),
     (-46, ''agent not present''),
     (-47, ''agent contains no identities''),
     (-49, ''KRL file has invalid magic number''),
     (-50, ''Key is revoked'')]"

definition ssh_err_text :: "string \<Rightarrow> int \<Rightarrow> string" where
  "ssh_err_text strerr n =
     (if n = -23 then strerr
      else case map_of ssh_err_table n of Some t \<Rightarrow> t | None \<Rightarrow> ''unknown error'')"

lemma err_code_named_negative: "(\<nexists>n. e = RAW_RC n) \<Longrightarrow> err_code e < 0"
  by (cases e) auto

end
