(* ===== verification/Sshbuf.thy ===== *)
theory Sshbuf
  imports Ssh_Err
begin

text \<open>
  The buffer itself, \<open>ssh/sshbuf.c\<close>, seen by one owner: the struct as a record whose data
  block is a list of bytes, and the operations that grow, pack, reset, resize and consume it.
  Pointers into the block are offsets. Reference counts and parents are fields here;
  \<open>Sshbuf_Store\<close> adds the store in which several buffers share them.
\<close>

section \<open>The struct and its constants\<close>

record sshbuf =
  sb_d :: "byte list option"          \<comment> \<open>\<open>d\<close>: the owned block, \<open>None\<close> for NULL\<close>
  sb_cd :: "byte list option"         \<comment> \<open>\<open>cd\<close>: the block readers see\<close>
  sb_off :: size_t
  sb_size :: size_t
  sb_max_size :: size_t
  sb_alloc :: size_t
  sb_readonly :: bool
  sb_refcount :: nat
  sb_parent :: "nat option"           \<comment> \<open>the parent buffer's address\<close>

definition SSHBUF_SIZE_MAX :: nat where "SSHBUF_SIZE_MAX = 0x20000000"
definition SSHBUF_REFS_MAX :: nat where "SSHBUF_REFS_MAX = 0x100000"
definition SSHBUF_SIZE_INIT :: nat where "SSHBUF_SIZE_INIT = 256"
definition SSHBUF_SIZE_INC :: nat where "SSHBUF_SIZE_INC = 256"
definition SSHBUF_PACK_MIN :: nat where "SSHBUF_PACK_MIN = 8192"

lemmas sshbuf_consts =
  SSHBUF_SIZE_MAX_def SSHBUF_REFS_MAX_def SSHBUF_SIZE_INIT_def SSHBUF_SIZE_INC_def
  SSHBUF_PACK_MIN_def

section \<open>Operations\<close>

definition sshbuf_check_sanity :: "sshbuf \<Rightarrow> unit res" where
  "sshbuf_check_sanity b =
     (if (\<not> sb_readonly b \<and> sb_d b \<noteq> sb_cd b) \<or>
         sb_refcount b < 1 \<or> sb_refcount b > SSHBUF_REFS_MAX \<or>
         sb_cd b = None \<or>
         sb_max_size b > SSHBUF_SIZE_MAX \<or>
         sb_alloc b > sb_max_size b \<or>
         sb_size b > sb_alloc b \<or>
         sb_off b > sb_size b
      then Inl SSH_ERR_INTERNAL_ERROR else Inr ())"

text \<open>\<open>d\<close> and \<open>cd\<close> are set together wherever the code moves or writes the owned block.\<close>

definition set_block :: "byte list \<Rightarrow> sshbuf \<Rightarrow> sshbuf" where
  "set_block xs b = b\<lparr>sb_d := Some xs, sb_cd := Some xs\<rparr>"

definition block :: "sshbuf \<Rightarrow> byte list" where
  "block b = (case sb_cd b of Some xs \<Rightarrow> xs | None \<Rightarrow> [])"

definition sshbuf_maybe_pack :: "sshbuf \<Rightarrow> bool \<Rightarrow> sshbuf" where
  "sshbuf_maybe_pack b force =
     (if sb_readonly b \<or> sb_refcount b > 1 then b
      else if force \<or> (sb_off b \<ge> SSHBUF_PACK_MIN \<and> sb_off b \<ge> sb_size b div 2) then
        let n = size_sub (sb_size b) (sb_off b);
            moved = write_at 0 (take n (drop (sb_off b) (block b))) (block b)
        in (set_block moved b)\<lparr>sb_size := n, sb_off := 0\<rparr>
      else b)"

text \<open>\<open>sizeof(struct sshbuf)\<close> where pointers and \<open>size_t\<close> have 64 bits.\<close>

definition sizeof_sshbuf :: size_t where
  "sizeof_sshbuf = 64"

definition sshbuf_new :: "allocator \<Rightarrow> sshbuf option" where
  "sshbuf_new am =
     (if am sizeof_sshbuf = None then None
      else case calloc_block am SSHBUF_SIZE_INIT of None \<Rightarrow> None
      | Some xs \<Rightarrow> Some \<lparr>sb_d = Some xs, sb_cd = Some xs, sb_off = 0, sb_size = 0,
          sb_max_size = SSHBUF_SIZE_MAX, sb_alloc = SSHBUF_SIZE_INIT, sb_readonly = False,
          sb_refcount = 1, sb_parent = None\<rparr>)"

text \<open>
  \<open>sshbuf_from(blob, len)\<close>: \<open>blob\<close> is the caller's memory of \<open>len\<close> bytes, \<open>None\<close> for NULL.
\<close>

definition sshbuf_from :: "allocator \<Rightarrow> byte list option \<Rightarrow> sshbuf option" where
  "sshbuf_from am blob =
     (case blob of None \<Rightarrow> None
      | Some xs \<Rightarrow>
          if length xs > SSHBUF_SIZE_MAX \<or> am sizeof_sshbuf = None then None
          else Some \<lparr>sb_d = None, sb_cd = Some xs, sb_off = 0, sb_size = length xs,
            sb_max_size = length xs, sb_alloc = length xs, sb_readonly = True,
            sb_refcount = 1, sb_parent = None\<rparr>)"

definition sshbuf_reset :: "allocator \<Rightarrow> sshbuf \<Rightarrow> sshbuf" where
  "sshbuf_reset am b =
     (if sb_readonly b \<or> sb_refcount b > 1 then b\<lparr>sb_off := sb_size b\<rparr>
      else
        let b1 = (case sshbuf_check_sanity b of
                    Inr _ \<Rightarrow> set_block (replicate (sb_alloc b) 0) b | Inl _ \<Rightarrow> b);
            b2 = b1\<lparr>sb_off := 0, sb_size := 0\<rparr>
        in if sb_alloc b2 \<noteq> SSHBUF_SIZE_INIT then
             (case realloc_block am (block b2) SSHBUF_SIZE_INIT of
                None \<Rightarrow> b2
              | Some xs \<Rightarrow> (set_block xs b2)\<lparr>sb_alloc := SSHBUF_SIZE_INIT\<rparr>)
           else b2)"

definition sshbuf_len :: "sshbuf \<Rightarrow> size_t" where
  "sshbuf_len b =
     (case sshbuf_check_sanity b of Inl _ \<Rightarrow> 0 | Inr _ \<Rightarrow> size_sub (sb_size b) (sb_off b))"

definition sshbuf_avail :: "sshbuf \<Rightarrow> size_t" where
  "sshbuf_avail b =
     (case sshbuf_check_sanity b of Inl _ \<Rightarrow> 0
      | Inr _ \<Rightarrow> if sb_readonly b \<or> sb_refcount b > 1 then 0
               else size_sub (sb_max_size b) (size_sub (sb_size b) (sb_off b)))"

text \<open>
  \<open>sshbuf_ptr\<close> and \<open>sshbuf_mutable_ptr\<close> give an offset into the block, \<open>None\<close> for NULL.
\<close>

definition sshbuf_ptr :: "sshbuf \<Rightarrow> nat option" where
  "sshbuf_ptr b = (case sshbuf_check_sanity b of Inl _ \<Rightarrow> None | Inr _ \<Rightarrow> Some (sb_off b))"

definition sshbuf_mutable_ptr :: "sshbuf \<Rightarrow> nat option" where
  "sshbuf_mutable_ptr b =
     (case sshbuf_check_sanity b of Inl _ \<Rightarrow> None
      | Inr _ \<Rightarrow> if sb_readonly b \<or> sb_refcount b > 1 then None else Some (sb_off b))"

definition sshbuf_set_max_size :: "allocator \<Rightarrow> size_t \<Rightarrow> (ssh_err, sshbuf, unit) action" where
  "sshbuf_set_max_size am max_size b =
     (case sshbuf_check_sanity b of
        Inl e \<Rightarrow> (Inl e, b)
      | Inr _ \<Rightarrow>
        if max_size = sb_max_size b then (Inr (), b)
        else if sb_readonly b \<or> sb_refcount b > 1 then (Inl SSH_ERR_BUFFER_READ_ONLY, b)
        else if max_size > SSHBUF_SIZE_MAX then (Inl SSH_ERR_NO_BUFFER_SPACE, b)
        else
          let b1 = sshbuf_maybe_pack b (max_size < sb_size b);
              set_max = (\<lambda>b'. if max_size < sb_alloc b' then (Inl SSH_ERR_NO_BUFFER_SPACE, b')
                              else (Inr (), b'\<lparr>sb_max_size := max_size\<rparr>))
          in if max_size < sb_alloc b1 \<and> max_size > sb_size b1 then
               let rlen = sb_size b1;
                   cleared = write_at (sb_size b1)
                     (replicate (size_sub (sb_alloc b1) (sb_size b1)) 0) (block b1);
                   b2 = set_block cleared b1
               in (case realloc_block am cleared rlen of
                     None \<Rightarrow> (Inl SSH_ERR_ALLOC_FAIL, b2)
                   | Some dp \<Rightarrow> set_max ((set_block dp b2)\<lparr>sb_alloc := rlen\<rparr>))
             else set_max b1)"

definition sshbuf_check_reserve :: "sshbuf \<Rightarrow> size_t \<Rightarrow> unit res" where
  "sshbuf_check_reserve b len =
     (case sshbuf_check_sanity b of
        Inl e \<Rightarrow> Inl e
      | Inr _ \<Rightarrow>
        if sb_readonly b \<or> sb_refcount b > 1 then Inl SSH_ERR_BUFFER_READ_ONLY
        else if len > sb_max_size b \<or>
                size_sub (sb_max_size b) len < size_sub (sb_size b) (sb_off b)
        then Inl SSH_ERR_NO_BUFFER_SPACE
        else Inr ())"

text \<open>
  The size \<open>sshbuf_reserve\<close> asks \<open>realloc\<close> for: whole units of \<open>SSHBUF_SIZE_INC\<close>, or just
  what is needed when that would pass \<open>max_size\<close>.
\<close>

definition reserve_rlen :: "sshbuf \<Rightarrow> size_t \<Rightarrow> size_t" where
  "reserve_rlen b len =
     (let need = size_sub (size_add len (sb_size b)) (sb_alloc b);
          rlen = roundup (size_add (sb_alloc b) need) SSHBUF_SIZE_INC
      in if rlen > sb_max_size b then size_add (sb_alloc b) need else rlen)"

text \<open>The result of \<open>sshbuf_reserve\<close> is \<open>*dpp\<close>: the offset of the reserved bytes.\<close>

definition sshbuf_reserve :: "allocator \<Rightarrow> size_t \<Rightarrow> (ssh_err, sshbuf, nat) action" where
  "sshbuf_reserve am len b =
     (case sshbuf_check_reserve b len of
        Inl e \<Rightarrow> (Inl e, b)
      | Inr _ \<Rightarrow>
        let b1 = sshbuf_maybe_pack b (size_add (sb_size b) len > sb_max_size b);
            take_room = (\<lambda>b'. (Inr (sb_size b'), b'\<lparr>sb_size := size_add (sb_size b') len\<rparr>))
        in if size_add len (sb_size b1) > sb_alloc b1 then
             (case realloc_block am (block b1) (reserve_rlen b1 len) of
                None \<Rightarrow> (Inl SSH_ERR_ALLOC_FAIL, b1)
              | Some dp \<Rightarrow>
                  let b2 = (set_block dp b1)\<lparr>sb_alloc := reserve_rlen b1 len\<rparr>
                  in (case sshbuf_check_reserve b2 len of
                        Inl e \<Rightarrow> (Inl e, b2)
                      | Inr _ \<Rightarrow> take_room b2))
           else take_room b1)"

definition sshbuf_consume :: "size_t \<Rightarrow> (ssh_err, sshbuf, unit) action" where
  "sshbuf_consume len b =
     (case sshbuf_check_sanity b of
        Inl e \<Rightarrow> (Inl e, b)
      | Inr _ \<Rightarrow>
        if len = 0 then (Inr (), b)
        else if len > sshbuf_len b then (Inl SSH_ERR_MESSAGE_INCOMPLETE, b)
        else (Inr (), b\<lparr>sb_off := size_add (sb_off b) len\<rparr>))"

definition sshbuf_consume_end :: "size_t \<Rightarrow> (ssh_err, sshbuf, unit) action" where
  "sshbuf_consume_end len b =
     (case sshbuf_check_sanity b of
        Inl e \<Rightarrow> (Inl e, b)
      | Inr _ \<Rightarrow>
        if len = 0 then (Inr (), b)
        else if len > sshbuf_len b then (Inl SSH_ERR_MESSAGE_INCOMPLETE, b)
        else (Inr (), b\<lparr>sb_size := size_sub (sb_size b) len\<rparr>))"

section \<open>Invariant and abstraction\<close>

definition sshbuf_wf :: "sshbuf \<Rightarrow> bool" where
  "sshbuf_wf b \<longleftrightarrow> sshbuf_check_sanity b = Inr () \<and> length (block b) = sb_alloc b"

definition sshbuf_writable :: "sshbuf \<Rightarrow> bool" where
  "sshbuf_writable b \<longleftrightarrow> \<not> sb_readonly b \<and> sb_refcount b \<le> 1"

definition contents :: "sshbuf \<Rightarrow> byte list" where
  "contents b = take (sb_size b - sb_off b) (drop (sb_off b) (block b))"

lemma sanity_iff:
  "sshbuf_check_sanity b = Inr () \<longleftrightarrow>
     (sb_readonly b \<or> sb_d b = sb_cd b) \<and> 1 \<le> sb_refcount b \<and>
     sb_refcount b \<le> SSHBUF_REFS_MAX \<and> sb_cd b \<noteq> None \<and>
     sb_max_size b \<le> SSHBUF_SIZE_MAX \<and> sb_alloc b \<le> sb_max_size b \<and>
     sb_size b \<le> sb_alloc b \<and> sb_off b \<le> sb_size b"
  by (auto simp: sshbuf_check_sanity_def)

lemma sanity_cases: "sshbuf_check_sanity b = Inr () \<or> sshbuf_check_sanity b = Inl SSH_ERR_INTERNAL_ERROR"
  by (auto simp: sshbuf_check_sanity_def)

lemma wf_iff:
  "sshbuf_wf b \<longleftrightarrow>
     (sb_readonly b \<or> sb_d b = sb_cd b) \<and> 1 \<le> sb_refcount b \<and>
     sb_refcount b \<le> SSHBUF_REFS_MAX \<and> sb_cd b = Some (block b) \<and>
     length (block b) = sb_alloc b \<and> sb_max_size b \<le> SSHBUF_SIZE_MAX \<and>
     sb_alloc b \<le> sb_max_size b \<and> sb_size b \<le> sb_alloc b \<and> sb_off b \<le> sb_size b"
  by (auto simp: sshbuf_wf_def sanity_iff block_def)

lemma wf_sane [simp]: "sshbuf_wf b \<Longrightarrow> sshbuf_check_sanity b = Inr ()"
  by (simp add: sshbuf_wf_def)

lemma size_max_mod: "SSHBUF_SIZE_MAX < SIZE_MOD"
  by (simp add: SSHBUF_SIZE_MAX_def SIZE_MOD_def)

lemma wf_bounds:
  assumes "sshbuf_wf b"
  shows "sb_off b \<le> sb_size b" "sb_size b \<le> sb_alloc b" "sb_alloc b \<le> sb_max_size b"
    "sb_max_size b \<le> SSHBUF_SIZE_MAX" "length (block b) = sb_alloc b"
    "sb_max_size b < SIZE_MOD"
  using assms size_max_mod by (auto simp: wf_iff)

lemma length_contents [simp]: "sshbuf_wf b \<Longrightarrow> length (contents b) = sb_size b - sb_off b"
  by (auto simp: contents_def wf_iff)

lemma size_sub_wf:
  "sshbuf_wf b \<Longrightarrow> size_sub (sb_size b) (sb_off b) = sb_size b - sb_off b"
  by (rule size_sub_exact) (use wf_bounds [of b] in auto)

lemma sshbuf_len_wf [simp]: "sshbuf_wf b \<Longrightarrow> sshbuf_len b = length (contents b)"
  by (simp add: sshbuf_len_def size_sub_wf)

lemma block_set_block [simp]: "block (set_block xs b) = xs"
  by (simp add: block_def set_block_def)

lemma set_block_fields [simp]:
  "sb_d (set_block xs b) = Some xs" "sb_cd (set_block xs b) = Some xs"
  "sb_off (set_block xs b) = sb_off b" "sb_size (set_block xs b) = sb_size b"
  "sb_max_size (set_block xs b) = sb_max_size b" "sb_alloc (set_block xs b) = sb_alloc b"
  "sb_readonly (set_block xs b) = sb_readonly b" "sb_refcount (set_block xs b) = sb_refcount b"
  "sb_parent (set_block xs b) = sb_parent b"
  by (simp_all add: set_block_def)

lemma block_upd [simp]:
  "block (b\<lparr>sb_off := x\<rparr>) = block b" "block (b\<lparr>sb_size := x\<rparr>) = block b"
  "block (b\<lparr>sb_alloc := x\<rparr>) = block b" "block (b\<lparr>sb_max_size := x\<rparr>) = block b"
  "block (b\<lparr>sb_refcount := r\<rparr>) = block b" "block (b\<lparr>sb_parent := p\<rparr>) = block b"
  by (simp_all add: block_def)

section \<open>Packing\<close>

lemma maybe_pack_wf [simp]:
  assumes "sshbuf_wf b"
  shows "sshbuf_wf (sshbuf_maybe_pack b force)"
  using assms wf_bounds [OF assms]
  by (auto simp: sshbuf_maybe_pack_def Let_def wf_iff size_sub_exact)

lemma maybe_pack_contents [simp]:
  assumes "sshbuf_wf b"
  shows "contents (sshbuf_maybe_pack b force) = contents b"
  using assms wf_bounds [OF assms]
  by (auto simp: sshbuf_maybe_pack_def Let_def contents_def size_sub_exact write_at_def min_def)

lemma maybe_pack_fields [simp]:
  "sb_max_size (sshbuf_maybe_pack b force) = sb_max_size b"
  "sb_alloc (sshbuf_maybe_pack b force) = sb_alloc b"
  "sb_readonly (sshbuf_maybe_pack b force) = sb_readonly b"
  "sb_refcount (sshbuf_maybe_pack b force) = sb_refcount b"
  "sb_parent (sshbuf_maybe_pack b force) = sb_parent b"
  by (simp_all add: sshbuf_maybe_pack_def Let_def)

lemma maybe_pack_forced:
  assumes "sshbuf_wf b" "sshbuf_writable b"
  shows "sb_off (sshbuf_maybe_pack b True) = 0"
    "sb_size (sshbuf_maybe_pack b True) = sb_size b - sb_off b"
  using assms by (auto simp: sshbuf_maybe_pack_def Let_def sshbuf_writable_def size_sub_wf)

lemma writable_maybe_pack [simp]:
  "sshbuf_writable (sshbuf_maybe_pack b force) = sshbuf_writable b"
  by (simp add: sshbuf_writable_def)

section \<open>Reserving\<close>

lemma check_reserve_wf:
  assumes "sshbuf_wf b"
  shows "sshbuf_check_reserve b len =
    (if \<not> sshbuf_writable b then Inl SSH_ERR_BUFFER_READ_ONLY
     else if length (contents b) + len > sb_max_size b then Inl SSH_ERR_NO_BUFFER_SPACE
     else Inr ())"
proof (cases "len \<le> sb_max_size b")
  case True
  then have "size_sub (sb_max_size b) len = sb_max_size b - len"
    using wf_bounds [OF assms] by (simp add: size_sub_exact)
  then show ?thesis using assms True
    by (auto simp: sshbuf_check_reserve_def size_sub_wf sshbuf_writable_def)
next
  case False
  then show ?thesis using assms by (auto simp: sshbuf_check_reserve_def sshbuf_writable_def)
qed

text \<open>The block grows by whole units, or exactly as far as needed when that would pass the limit.\<close>

lemma reserve_rlen_bounds:
  assumes "sshbuf_wf b" and "sb_size b + len \<le> sb_max_size b" and "sb_size b + len > sb_alloc b"
  shows "sb_size b + len \<le> reserve_rlen b len" "reserve_rlen b len \<le> sb_max_size b"
proof -
  note bnd = wf_bounds [OF assms(1)]
  have "size_add len (sb_size b) = sb_size b + len"
    using assms(2) bnd by (simp add: size_add_def)
  then have need: "size_sub (size_add len (sb_size b)) (sb_alloc b) = sb_size b + len - sb_alloc b"
    using assms(2,3) bnd by (simp add: size_sub_exact)
  have add: "size_add (sb_alloc b) (sb_size b + len - sb_alloc b) = sb_size b + len"
    using assms(2,3) bnd by (simp add: size_add_def)
  have "sb_size b + len \<le> roundup (sb_size b + len) SSHBUF_SIZE_INC"
    by (rule roundup_ge) (simp add: SSHBUF_SIZE_INC_def)
  then show "sb_size b + len \<le> reserve_rlen b len" "reserve_rlen b len \<le> sb_max_size b"
    using assms(2) by (auto simp: reserve_rlen_def Let_def need add)
qed

lemma maybe_pack_room:
  assumes "sshbuf_wf b" "sshbuf_writable b" "length (contents b) + len \<le> sb_max_size b"
  shows "sb_size (sshbuf_maybe_pack b (size_add (sb_size b) len > sb_max_size b)) + len \<le> sb_max_size b"
proof -
  note bnd = wf_bounds [OF assms(1)]
  have "sb_size b + len < SIZE_MOD"
    using assms(1,3) bnd by (simp add: SSHBUF_SIZE_MAX_def SIZE_MOD_def)
  then have add: "size_add (sb_size b) len = sb_size b + len"
    by (rule size_add_exact)
  show ?thesis
  proof (cases "sb_size b + len > sb_max_size b")
    case True
    then show ?thesis using assms add by (simp add: maybe_pack_forced)
  next
    case False
    have "sb_size (sshbuf_maybe_pack b False) \<le> sb_size b"
      using bnd by (auto simp: sshbuf_maybe_pack_def Let_def size_sub_exact)
    then show ?thesis using False add by simp
  qed
qed

text \<open>What no operation but a change of ownership touches.\<close>

definition same_frame :: "sshbuf \<Rightarrow> sshbuf \<Rightarrow> bool" where
  "same_frame b b' \<longleftrightarrow> sb_max_size b' = sb_max_size b \<and> sb_readonly b' = sb_readonly b \<and>
     sb_refcount b' = sb_refcount b \<and> sb_parent b' = sb_parent b"

lemma same_frame_refl [simp]: "same_frame b b"
  by (simp add: same_frame_def)

lemma same_frame_trans: "same_frame a b \<Longrightarrow> same_frame b c \<Longrightarrow> same_frame a c"
  by (simp add: same_frame_def)

lemma same_frame_writable: "same_frame b b' \<Longrightarrow> sshbuf_writable b' = sshbuf_writable b"
  by (simp add: same_frame_def sshbuf_writable_def)

lemma same_frame_max: "same_frame b b' \<Longrightarrow> sb_max_size b' = sb_max_size b"
  by (simp add: same_frame_def)

lemma same_frame_pack [simp]: "same_frame b (sshbuf_maybe_pack b force)"
  by (simp add: same_frame_def)

text \<open>Taking \<open>len\<close> bytes of room at the end of a buffer whose block has them.\<close>

lemma take_room:
  assumes "sshbuf_wf b" "sb_size b + len \<le> sb_alloc b"
  defines "b' \<equiv> b\<lparr>sb_size := size_add (sb_size b) len\<rparr>"
  shows "sshbuf_wf b'" "sb_size b' = sb_size b + len" "sb_off b' = sb_off b"
    "take (length (contents b)) (contents b') = contents b"
    "length (contents b') = length (contents b) + len" "same_frame b b'"
proof -
  note bnd = wf_bounds [OF assms(1)]
  show size: "sb_size b' = sb_size b + len"
    using assms(2) bnd by (simp add: b'_def size_add_def)
  show off: "sb_off b' = sb_off b" by (simp add: b'_def)
  have blk: "block b' = block b" by (simp add: b'_def)
  show wf: "sshbuf_wf b'" using assms(1,2) size off blk
    by (auto simp: wf_iff b'_def)
  show "take (length (contents b)) (contents b') = contents b"
    using assms(1) bnd size off blk by (simp add: contents_def min_def)
  show "length (contents b') = length (contents b) + len"
    using assms(1) wf bnd size off by simp
  show "same_frame b b'" by (simp add: b'_def same_frame_def)
qed

text \<open>Growing the block keeps the data.\<close>

lemma grow_block:
  assumes "sshbuf_wf b" "\<not> sb_readonly b" "realloc_block am (block b) n = Some dp"
    "sb_size b \<le> n" "n \<le> sb_max_size b"
  defines "b' \<equiv> (set_block dp b)\<lparr>sb_alloc := n\<rparr>"
  shows "sshbuf_wf b'" "contents b' = contents b" "sb_size b' = sb_size b" "sb_alloc b' = n"
    "same_frame b b'"
proof -
  note bnd = wf_bounds [OF assms(1)]
  have len: "length dp = n" using assms(3) by (rule length_realloc_block)
  have tk: "take (sb_size b) dp = take (sb_size b) (block b)"
    using assms(3) by (rule take_realloc_block) (use bnd assms(4) in auto)
  show "sshbuf_wf b'" using assms(1,4,5) len by (simp add: wf_iff b'_def)
  have "contents b' = drop (sb_off b) (take (sb_size b) dp)"
    by (simp add: contents_def b'_def drop_take)
  then show "contents b' = contents b" by (simp add: tk contents_def drop_take)
  show "sb_size b' = sb_size b" "sb_alloc b' = n" "same_frame b b'"
    by (simp_all add: b'_def same_frame_def)
qed

text \<open>Past the limit check, \<open>sshbuf_reserve\<close> either has the room or grows the block.\<close>

lemma reserve_unfold:
  assumes wf: "sshbuf_wf b" and wr: "sshbuf_writable b"
    and room: "length (contents b) + len \<le> sb_max_size b"
  defines "b1 \<equiv> sshbuf_maybe_pack b (size_add (sb_size b) len > sb_max_size b)"
  shows "sshbuf_reserve am len b =
    (if sb_size b1 + len \<le> sb_alloc b1
     then (Inr (sb_size b1), b1\<lparr>sb_size := size_add (sb_size b1) len\<rparr>)
     else case realloc_block am (block b1) (reserve_rlen b1 len) of
       None \<Rightarrow> (Inl SSH_ERR_ALLOC_FAIL, b1)
     | Some dp \<Rightarrow> let b2 = (set_block dp b1)\<lparr>sb_alloc := reserve_rlen b1 len\<rparr>
                  in (Inr (sb_size b2), b2\<lparr>sb_size := size_add (sb_size b2) len\<rparr>))"
proof -
  have wf1: "sshbuf_wf b1" and c1: "contents b1 = contents b" and fr1: "same_frame b b1"
    using wf by (simp_all add: b1_def)
  have room1: "sb_size b1 + len \<le> sb_max_size b1"
    using maybe_pack_room [OF wf wr room] same_frame_max [OF fr1] by (simp add: b1_def)
  have add1: "size_add len (sb_size b1) = sb_size b1 + len"
    using room1 wf_bounds [OF wf1] by (simp add: size_add_def)
  have wr1: "sshbuf_writable b1" using wr fr1 by (simp add: same_frame_writable)
  have "sshbuf_check_reserve ((set_block dp b1)\<lparr>sb_alloc := reserve_rlen b1 len\<rparr>) len = Inr ()"
    if "sb_alloc b1 < sb_size b1 + len" "realloc_block am (block b1) (reserve_rlen b1 len) = Some dp"
    for dp
  proof -
    note rl = reserve_rlen_bounds [OF wf1 room1 that(1)]
    have "\<not> sb_readonly b1" using wr1 by (simp add: sshbuf_writable_def)
    note g = grow_block [OF wf1 this that(2)]
    show ?thesis using g rl room c1 wr1 fr1
      by (simp add: check_reserve_wf same_frame_max [OF g(5)] same_frame_writable [OF g(5)] same_frame_max)
  qed
  moreover have "sshbuf_check_reserve b len = Inr ()"
    using wf wr room by (simp add: check_reserve_wf)
  ultimately show ?thesis using add1
    by (auto simp: sshbuf_reserve_def b1_def [symmetric] Let_def split: option.splits)
qed

lemma reserve_cases:
  assumes wf: "sshbuf_wf b" and wr: "sshbuf_writable b"
    and room: "length (contents b) + len \<le> sb_max_size b"
  obtains (fail) b' where "sshbuf_reserve am len b = (Inl SSH_ERR_ALLOC_FAIL, b')"
      "sshbuf_wf b'" "contents b' = contents b" "same_frame b b'" "\<exists>n. am n = None"
  | (ok) i b' where "sshbuf_reserve am len b = (Inr i, b')"
      "sshbuf_wf b'" "same_frame b b'" "sb_off b' \<le> i" "i + len = sb_size b'"
      "take (length (contents b)) (contents b') = contents b"
      "length (contents b') = length (contents b) + len"
proof -
  define b1 where "b1 = sshbuf_maybe_pack b (size_add (sb_size b) len > sb_max_size b)"
  have wf1: "sshbuf_wf b1" and c1: "contents b1 = contents b" and fr1: "same_frame b b1"
    using wf by (simp_all add: b1_def)
  have room1: "sb_size b1 + len \<le> sb_max_size b1"
    using maybe_pack_room [OF wf wr room] same_frame_max [OF fr1] by (simp add: b1_def)
  note run = reserve_unfold [OF wf wr room, of am, folded b1_def]
  have got: thesis
    if "sshbuf_reserve am len b = (Inr (sb_size b2), b2\<lparr>sb_size := size_add (sb_size b2) len\<rparr>)"
      "sshbuf_wf b2" "contents b2 = contents b" "same_frame b b2" "sb_size b2 + len \<le> sb_alloc b2"
    for b2
    using take_room [OF that(2,5)] that wf_bounds [OF that(2)]
    by (intro ok) (auto intro: same_frame_trans)
  show thesis
  proof (cases "sb_size b1 + len \<le> sb_alloc b1")
    case True
    then show thesis using run wf1 c1 fr1 by (intro got [of b1]) auto
  next
    case False
    then have grow: "sb_size b1 + len > sb_alloc b1" by simp
    note rl = reserve_rlen_bounds [OF wf1 room1 grow]
    have ro: "\<not> sb_readonly b1" using wr fr1 by (simp add: sshbuf_writable_def same_frame_def)
    show thesis
    proof (cases "realloc_block am (block b1) (reserve_rlen b1 len)")
      case None
      then show thesis using run False wf1 c1 fr1
        by (intro fail) (auto simp: realloc_block_def)
    next
      case (Some dp)
      note g = grow_block [OF wf1 ro Some]
      show thesis using run False Some g rl c1 fr1
        by (intro got [of "(set_block dp b1)\<lparr>sb_alloc := reserve_rlen b1 len\<rparr>"])
           (auto simp: Let_def intro: same_frame_trans)
    qed
  qed
qed

section \<open>Consuming\<close>

lemma consume_wf:
  assumes "sshbuf_wf b"
  shows "sshbuf_consume len b =
    (if len \<le> length (contents b) then (Inr (), b\<lparr>sb_off := sb_off b + len\<rparr>)
     else (Inl SSH_ERR_MESSAGE_INCOMPLETE, b))"
  using assms wf_bounds [OF assms] by (auto simp: sshbuf_consume_def size_add_def)

lemma consume_end_wf:
  assumes "sshbuf_wf b"
  shows "sshbuf_consume_end len b =
    (if len \<le> length (contents b) then (Inr (), b\<lparr>sb_size := sb_size b - len\<rparr>)
     else (Inl SSH_ERR_MESSAGE_INCOMPLETE, b))"
  using assms wf_bounds [OF assms] by (auto simp: sshbuf_consume_end_def size_sub_exact)

lemma drop_front:
  assumes "sshbuf_wf b" "len \<le> length (contents b)"
  shows "sshbuf_wf (b\<lparr>sb_off := sb_off b + len\<rparr>)"
    "contents (b\<lparr>sb_off := sb_off b + len\<rparr>) = drop len (contents b)"
    "same_frame b (b\<lparr>sb_off := sb_off b + len\<rparr>)"
  using assms by (auto simp: wf_iff contents_def same_frame_def drop_take ac_simps)

lemma drop_back:
  assumes "sshbuf_wf b" "len \<le> length (contents b)"
  shows "sshbuf_wf (b\<lparr>sb_size := sb_size b - len\<rparr>)"
    "contents (b\<lparr>sb_size := sb_size b - len\<rparr>) = take (length (contents b) - len) (contents b)"
    "same_frame b (b\<lparr>sb_size := sb_size b - len\<rparr>)"
proof -
  note bnd = wf_bounds [OF assms(1)]
  have len: "len \<le> sb_size b - sb_off b" using assms by simp
  then show "sshbuf_wf (b\<lparr>sb_size := sb_size b - len\<rparr>)" using assms(1) bnd by (auto simp: wf_iff)
  show "contents (b\<lparr>sb_size := sb_size b - len\<rparr>) = take (length (contents b) - len) (contents b)"
    unfolding length_contents [OF assms(1)] using len
    by (simp add: contents_def min_def add.commute)
  show "same_frame b (b\<lparr>sb_size := sb_size b - len\<rparr>)" by (simp add: same_frame_def)
qed

section \<open>Resetting and resizing\<close>

lemma reset_contents:
  assumes "sshbuf_wf b"
  shows "contents (sshbuf_reset am b) = []" "same_frame b (sshbuf_reset am b)"
  using assms
  by (auto simp: sshbuf_reset_def contents_def Let_def same_frame_def split: option.splits)

lemma reset_wf:
  assumes "sshbuf_wf b" and "SSHBUF_SIZE_INIT \<le> sb_max_size b \<or> \<not> sshbuf_writable b \<or> sb_alloc b = SSHBUF_SIZE_INIT"
  shows "sshbuf_wf (sshbuf_reset am b)"
  using assms
  by (auto simp: sshbuf_reset_def Let_def wf_iff sshbuf_writable_def
      dest!: length_realloc_block split: option.splits)

text \<open>Shrinking the block to the data it holds, as \<open>sshbuf_set_max_size\<close> does.\<close>

lemma shrink_block:
  assumes "sshbuf_wf b" "\<not> sb_readonly b"
  defines "cleared \<equiv> write_at (sb_size b) (replicate (size_sub (sb_alloc b) (sb_size b)) 0) (block b)"
  defines "b2 \<equiv> set_block cleared b"
  shows "sshbuf_wf b2" "contents b2 = contents b"
    "realloc_block am cleared (sb_size b) = Some dp \<Longrightarrow>
       sshbuf_wf ((set_block dp b2)\<lparr>sb_alloc := sb_size b\<rparr>) \<and>
       contents ((set_block dp b2)\<lparr>sb_alloc := sb_size b\<rparr>) = contents b"
proof -
  note bnd = wf_bounds [OF assms(1)]
  have sub: "size_sub (sb_alloc b) (sb_size b) = sb_alloc b - sb_size b"
    using bnd by (simp add: size_sub_exact)
  have len: "length cleared = sb_alloc b" using bnd by (simp add: cleared_def sub)
  have tk: "take (sb_size b) cleared = take (sb_size b) (block b)"
    using bnd by (simp add: cleared_def)
  show wf2: "sshbuf_wf b2" using assms(1) len by (simp add: b2_def wf_iff)
  show c2: "contents b2 = contents b"
    using tk by (simp add: contents_def b2_def drop_take [symmetric])
  assume "realloc_block am cleared (sb_size b) = Some dp"
  then have "realloc_block am (block b2) (sb_size b) = Some dp" by (simp add: b2_def)
  moreover have "\<not> sb_readonly b2" using assms(2) by (simp add: b2_def)
  ultimately show "sshbuf_wf ((set_block dp b2)\<lparr>sb_alloc := sb_size b\<rparr>) \<and>
       contents ((set_block dp b2)\<lparr>sb_alloc := sb_size b\<rparr>) = contents b"
    using grow_block [OF wf2, of am "sb_size b" dp] bnd c2 by (simp add: b2_def)
qed

lemma set_max_size_keeps:
  assumes wf: "sshbuf_wf b" and run: "sshbuf_set_max_size am n b = (r, b')"
  shows "sshbuf_wf b' \<and> contents b' = contents b \<and> sb_readonly b' = sb_readonly b \<and>
    sb_refcount b' = sb_refcount b \<and> sb_parent b' = sb_parent b \<and>
    sb_max_size b' = (if r = Inr () then n else sb_max_size b)"
proof (cases "n = sb_max_size b \<or> \<not> sshbuf_writable b \<or> n > SSHBUF_SIZE_MAX")
  case True
  then show ?thesis using wf run
    by (auto simp: sshbuf_set_max_size_def sshbuf_writable_def split: if_splits)
next
  case False
  define b1 where "b1 = sshbuf_maybe_pack b (n < sb_size b)"
  have b1: "sshbuf_wf b1" "contents b1 = contents b" "\<not> sb_readonly b1" "same_frame b b1"
    using wf False by (auto simp: b1_def sshbuf_writable_def)
  have set_max: "sshbuf_wf (c\<lparr>sb_max_size := n\<rparr>)" "contents (c\<lparr>sb_max_size := n\<rparr>) = contents c"
    if "sshbuf_wf c" "sb_alloc c \<le> n" for c
    using that False by (auto simp: wf_iff contents_def)
  note sh = shrink_block [OF b1(1,3)]
  show ?thesis using run wf False b1 sh set_max
    by (auto simp: sshbuf_set_max_size_def b1_def [symmetric] Let_def sshbuf_writable_def
        same_frame_def split: if_splits option.splits)
qed

section \<open>Writing reserved bytes\<close>

text \<open>\<open>memcpy\<close> or \<open>POKE\<close> through the pointer that \<open>sshbuf_reserve\<close> returned.\<close>

definition poke :: "nat \<Rightarrow> byte list \<Rightarrow> sshbuf \<Rightarrow> sshbuf" where
  "poke i v b = set_block (write_at i v (block b)) b"

lemma poke_frame [simp]: "same_frame b (poke i v b)" "sb_off (poke i v b) = sb_off b"
  "sb_size (poke i v b) = sb_size b"
  by (simp_all add: poke_def same_frame_def)

lemma poke_wf:
  "sshbuf_wf b \<Longrightarrow> \<not> sb_readonly b \<Longrightarrow> i + length v \<le> sb_alloc b \<Longrightarrow> sshbuf_wf (poke i v b)"
  by (auto simp: poke_def wf_iff)

lemma poke_contents:
  assumes "sshbuf_wf b" "sb_off b \<le> i" "i + length v = sb_size b"
  shows "contents (poke i v b) = take (i - sb_off b) (contents b) @ v"
proof -
  note bnd = wf_bounds [OF assms(1)]
  have "take (sb_size b) (write_at i v (block b)) = take i (block b) @ v"
    using bnd assms(3) take_write_at_after [of i "block b" v] by simp
  then have "contents (poke i v b) = drop (sb_off b) (take i (block b) @ v)"
    by (simp add: contents_def poke_def drop_take [symmetric])
  also have "\<dots> = drop (sb_off b) (take i (block b)) @ v"
    using assms bnd by simp
  also have "drop (sb_off b) (take i (block b)) = take (i - sb_off b) (contents b)"
    using assms bnd by (simp add: contents_def drop_take min_def)
  finally show ?thesis .
qed

section \<open>Fresh buffers\<close>

lemma new_wf:
  assumes "sshbuf_new am = Some b"
  shows "sshbuf_wf b" "sshbuf_writable b" "contents b = []" "sb_max_size b = SSHBUF_SIZE_MAX"
    "sb_refcount b = 1" "sb_parent b = None"
  using assms
  by (auto simp: sshbuf_new_def wf_iff sshbuf_writable_def contents_def block_def sshbuf_consts
      dest: length_calloc_block split: option.splits if_splits)

lemma from_wf:
  assumes "sshbuf_from am blob = Some b"
  shows "sshbuf_wf b" "sb_readonly b" "blob = Some (contents b)" "sb_parent b = None"
    "sb_refcount b = 1"
  using assms
  by (auto simp: sshbuf_from_def wf_iff contents_def block_def sshbuf_consts
      split: option.splits if_splits)

text \<open>A buffer as \<open>sshbuf_new\<close> leaves it when memory is not short.\<close>

definition fresh_buf :: sshbuf where
  "fresh_buf = the (sshbuf_new alloc_zero)"

lemma fresh_buf_new: "sshbuf_new alloc_zero = Some fresh_buf"
  by (simp add: fresh_buf_def sshbuf_new_def calloc_block_def alloc_zero_def)

lemmas fresh_buf = new_wf [OF fresh_buf_new]

section \<open>Reachable buffers\<close>

text \<open>
  The values one buffer goes through under its operations, each call with an allocator of
  its own. \<open>sshbuf_reset\<close> is taken where \<open>max_size\<close> leaves room for the initial block.
\<close>

inductive sshbuf_reach :: "sshbuf \<Rightarrow> bool" where
  reach_new: "sshbuf_new am = Some b \<Longrightarrow> sshbuf_reach b"
| reach_from: "sshbuf_from am blob = Some b \<Longrightarrow> sshbuf_reach b"
| reach_reserve: "sshbuf_reach b \<Longrightarrow> sshbuf_reserve am len b = (r, b') \<Longrightarrow> sshbuf_reach b'"
| reach_fill: "sshbuf_reach b \<Longrightarrow> sshbuf_reserve am (length v) b = (Inr i, b') \<Longrightarrow>
    sshbuf_reach (poke i v b')"
| reach_consume: "sshbuf_reach b \<Longrightarrow> sshbuf_consume len b = (r, b') \<Longrightarrow> sshbuf_reach b'"
| reach_consume_end: "sshbuf_reach b \<Longrightarrow> sshbuf_consume_end len b = (r, b') \<Longrightarrow> sshbuf_reach b'"
| reach_set_max: "sshbuf_reach b \<Longrightarrow> sshbuf_set_max_size am n b = (r, b') \<Longrightarrow> sshbuf_reach b'"
| reach_reset: "sshbuf_reach b \<Longrightarrow> SSHBUF_SIZE_INIT \<le> sb_max_size b \<Longrightarrow> sshbuf_reach (sshbuf_reset am b)"

lemma reserve_error:
  assumes "sshbuf_wf b" "\<not> (sshbuf_writable b \<and> length (contents b) + len \<le> sb_max_size b)"
  shows "sshbuf_reserve am len b =
    (Inl (if sshbuf_writable b then SSH_ERR_NO_BUFFER_SPACE else SSH_ERR_BUFFER_READ_ONLY), b)"
  using assms by (auto simp: sshbuf_reserve_def check_reserve_wf)

lemma reserve_wf:
  assumes "sshbuf_wf b" and "sshbuf_reserve am len b = (r, b')"
  shows "sshbuf_wf b'"
proof (cases "sshbuf_writable b \<and> length (contents b) + len \<le> sb_max_size b")
  case True
  then have "sshbuf_writable b" "length (contents b) + len \<le> sb_max_size b" by auto
  from reserve_cases [OF assms(1) this, of am] show ?thesis
    using assms(2) by cases auto
next
  case False
  then show ?thesis using reserve_error [OF assms(1) False, of am] assms by simp
qed

lemma reserve_okD:
  assumes "sshbuf_wf b" and "sshbuf_reserve am len b = (Inr i, b')"
  shows "sshbuf_writable b" "length (contents b) + len \<le> sb_max_size b"
    "sshbuf_wf b'" "same_frame b b'" "sb_off b' \<le> i" "i + len = sb_size b'"
    "i = sb_off b' + length (contents b)"
    "take (length (contents b)) (contents b') = contents b"
    "length (contents b') = length (contents b) + len"
proof -
  have pre: "sshbuf_writable b \<and> length (contents b) + len \<le> sb_max_size b"
    using reserve_error [OF assms(1), of len am] assms(2) by auto
  then show "sshbuf_writable b" "length (contents b) + len \<le> sb_max_size b" by auto
  note run = reserve_cases [OF assms(1) this, of am]
  show r: "sshbuf_wf b'" "same_frame b b'" "sb_off b' \<le> i" "i + len = sb_size b'"
    "take (length (contents b)) (contents b') = contents b"
    "length (contents b') = length (contents b) + len"
    by (rule run; use assms(2) in simp)+
  then show "i = sb_off b' + length (contents b)" using assms(1) by simp
qed

lemma reserve_fill:
  assumes "sshbuf_wf b" and "sshbuf_reserve am (length v) b = (Inr i, b')"
  shows "sshbuf_wf (poke i v b')" "contents (poke i v b') = contents b @ v"
    "same_frame b (poke i v b')"
proof -
  note r = reserve_okD [OF assms]
  have "\<not> sb_readonly b'" using r(1) same_frame_writable [OF r(4)] by (simp add: sshbuf_writable_def)
  then show "sshbuf_wf (poke i v b')" using r wf_bounds [OF r(3)] by (intro poke_wf) auto
  show "contents (poke i v b') = contents b @ v"
    using poke_contents [OF r(3,5,6)] r by simp
  show "same_frame b (poke i v b')" by (rule same_frame_trans [OF r(4)]) simp
qed

lemma reach_wf: "sshbuf_reach b \<Longrightarrow> sshbuf_wf b"
proof (induction rule: sshbuf_reach.induct)
  case (reach_consume b len r b')
  then show ?case using drop_front(1) [of b len] by (simp add: consume_wf split: if_splits)
next
  case (reach_consume_end b len r b')
  then show ?case using drop_back(1) [of b len] by (simp add: consume_end_wf split: if_splits)
next
  case (reach_set_max b am n r b')
  then show ?case using set_max_size_keeps by blast
qed (simp_all add: new_wf from_wf reset_wf reserve_wf reserve_fill)

section \<open>Properties\<close>

text \<open>C24: on a well-formed buffer \<open>sshbuf_reserve\<close> either reserves exactly \<open>len\<close> bytes behind the
  data, which is kept, and returns where they start, or leaves the data as it was and says
  why: the buffer is read-only or shared, the limit would be passed, or memory ran out.\<close>

theorem sshbuf_reserve_correct:
  assumes "sshbuf_wf b"
  shows "case sshbuf_reserve am len b of
      (Inr i, b') \<Rightarrow> sshbuf_writable b \<and> length (contents b) + len \<le> sb_max_size b \<and>
        sshbuf_wf b' \<and> same_frame b b' \<and> i = sb_off b' + length (contents b) \<and>
        take (length (contents b)) (contents b') = contents b \<and>
        length (contents b') = length (contents b) + len
    | (Inl e, b') \<Rightarrow> sshbuf_wf b' \<and> same_frame b b' \<and> contents b' = contents b \<and>
        (if \<not> sshbuf_writable b then e = SSH_ERR_BUFFER_READ_ONLY
         else if length (contents b) + len > sb_max_size b then e = SSH_ERR_NO_BUFFER_SPACE
         else e = SSH_ERR_ALLOC_FAIL \<and> (\<exists>n. am n = None))"
proof (cases "sshbuf_writable b \<and> length (contents b) + len \<le> sb_max_size b")
  case True
  then have pre: "sshbuf_writable b" "length (contents b) + len \<le> sb_max_size b" by auto
  show ?thesis
  proof (rule reserve_cases [OF assms pre, of am])
    fix b' assume "sshbuf_reserve am len b = (Inl SSH_ERR_ALLOC_FAIL, b')" "sshbuf_wf b'"
      "contents b' = contents b" "same_frame b b'" "\<exists>n. am n = None"
    then show ?thesis using pre by simp
  next
    fix i b' assume "sshbuf_reserve am len b = (Inr i, b')"
    then show ?thesis using pre reserve_okD [OF assms, of am len i b'] by simp
  qed
next
  case False
  then show ?thesis using reserve_error [OF assms False, of am] assms by (auto simp: not_le)
qed

theorem sshbuf_reserve_correct_witness:
  "sshbuf_wf fresh_buf \<and>
   (\<exists>i b'. sshbuf_reserve alloc_zero 3 fresh_buf = (Inr i, b') \<and> length (contents b') = 3)"
proof -
  obtain r b' where run: "sshbuf_reserve alloc_zero 3 fresh_buf = (r, b')" by fastforce
  show ?thesis
    using sshbuf_reserve_correct [OF fresh_buf(1), where am = alloc_zero and len = 3] run fresh_buf
    by (cases r) (auto simp: alloc_zero_def SSHBUF_SIZE_MAX_def)
qed



lemma fresh_buf_set_max:
  "sshbuf_set_max_size alloc_zero 100 fresh_buf = (Inr (), snd (sshbuf_set_max_size alloc_zero 100 fresh_buf))"
  using fresh_buf wf_sane [OF fresh_buf(1)]
  by (simp add: sshbuf_set_max_size_def Let_def sshbuf_consts sshbuf_writable_def
      sshbuf_maybe_pack_def realloc_block_def alloc_zero_def fresh_buf_def sshbuf_new_def
      calloc_block_def)

text \<open>\<open>sshbuf_set_max_size\<close> never loses data and keeps the buffer well formed; the limit
  changes exactly when it returns 0, and it is refused for shared buffers, beyond the hard
  maximum, and below the block it cannot shrink.\<close>

theorem sshbuf_set_max_size_correct:
  assumes "sshbuf_wf b" and "sshbuf_set_max_size am n b = (r, b')"
  shows "sshbuf_wf b' \<and> contents b' = contents b \<and> sb_refcount b' = sb_refcount b \<and>
    sb_max_size b' = (if r = Inr () then n else sb_max_size b) \<and>
    (n = sb_max_size b \<longrightarrow> r = Inr ()) \<and>
    (n \<noteq> sb_max_size b \<and> \<not> sshbuf_writable b \<longrightarrow> r = Inl SSH_ERR_BUFFER_READ_ONLY) \<and>
    (sshbuf_writable b \<and> n > SSHBUF_SIZE_MAX \<longrightarrow> r = Inl SSH_ERR_NO_BUFFER_SPACE) \<and>
    (sshbuf_writable b \<and> n \<le> SSHBUF_SIZE_MAX \<and> sb_alloc b \<le> n \<longrightarrow> r = Inr ()) \<and>
    (n < length (contents b) \<longrightarrow> r \<noteq> Inr ())"
proof -
  note k = set_max_size_keeps [OF assms] and bnd = wf_bounds [OF assms(1)]
  have "n = sb_max_size b \<longrightarrow> r = Inr ()"
    "n \<noteq> sb_max_size b \<and> \<not> sshbuf_writable b \<longrightarrow> r = Inl SSH_ERR_BUFFER_READ_ONLY"
    "sshbuf_writable b \<and> n > SSHBUF_SIZE_MAX \<longrightarrow> r = Inl SSH_ERR_NO_BUFFER_SPACE"
    using assms bnd by (auto simp: sshbuf_set_max_size_def sshbuf_writable_def)
  moreover have "sshbuf_writable b \<and> n \<le> SSHBUF_SIZE_MAX \<and> sb_alloc b \<le> n \<longrightarrow> r = Inr ()"
    using assms bnd by (auto simp: sshbuf_set_max_size_def sshbuf_writable_def Let_def split: if_splits)
  moreover have "n < length (contents b) \<longrightarrow> r \<noteq> Inr ()"
    using k wf_bounds [of b'] length_contents [of b'] by auto
  ultimately show ?thesis using k by blast
qed

theorem sshbuf_set_max_size_correct_witness:
  "sshbuf_set_max_size alloc_zero 100 fresh_buf = (Inr (), snd (sshbuf_set_max_size alloc_zero 100 fresh_buf)) \<and>
   sb_max_size (snd (sshbuf_set_max_size alloc_zero 100 fresh_buf)) = 100"
proof -
  have run: "sshbuf_set_max_size alloc_zero 100 fresh_buf = (Inr (), snd (sshbuf_set_max_size alloc_zero 100 fresh_buf))"
    by (rule fresh_buf_set_max)
  show ?thesis using sshbuf_set_max_size_correct [OF fresh_buf(1) run] run by simp
qed

text \<open>C27: resetting a writable buffer whose limit is below the initial allocation makes it
  insane: \<open>sshbuf_reset\<close> reallocates to \<open>SSHBUF_SIZE_INIT\<close> without looking at \<open>max_size\<close>,
  after which every operation answers with an internal error.\<close>

theorem sshbuf_reset_small_limit:
  assumes "sshbuf_wf b" "sshbuf_writable b" "sb_max_size b < SSHBUF_SIZE_INIT"
    and "am SSHBUF_SIZE_INIT \<noteq> None"
  shows "sshbuf_check_sanity (sshbuf_reset am b) = Inl SSH_ERR_INTERNAL_ERROR \<and>
    fst (sshbuf_reserve am' len (sshbuf_reset am b)) = Inl SSH_ERR_INTERNAL_ERROR \<and>
    sshbuf_len (sshbuf_reset am b) = 0"
proof -
  have "sb_alloc b \<noteq> SSHBUF_SIZE_INIT" using assms(1,3) by (auto simp: wf_iff)
  then have "sb_alloc (sshbuf_reset am b) = SSHBUF_SIZE_INIT"
    using assms by (auto simp: sshbuf_reset_def sshbuf_writable_def Let_def realloc_block_def)
  moreover have "sb_max_size (sshbuf_reset am b) = sb_max_size b"
    using reset_contents(2) [OF assms(1), of am] by (rule same_frame_max)
  ultimately have "sshbuf_check_sanity (sshbuf_reset am b) = Inl SSH_ERR_INTERNAL_ERROR"
    using assms(3) by (simp add: sshbuf_check_sanity_def)
  then show ?thesis by (simp add: sshbuf_reserve_def sshbuf_check_reserve_def sshbuf_len_def)
qed

theorem sshbuf_reset_small_limit_witness:
  "sshbuf_check_sanity (sshbuf_reset alloc_zero (snd (sshbuf_set_max_size alloc_zero 100 fresh_buf)))
     = Inl SSH_ERR_INTERNAL_ERROR"
proof -
  define b where "b = snd (sshbuf_set_max_size alloc_zero 100 fresh_buf)"
  have run: "sshbuf_set_max_size alloc_zero 100 fresh_buf = (Inr (), b)"
    unfolding b_def by (rule fresh_buf_set_max)
  have k: "sshbuf_wf b" "sb_readonly b = sb_readonly fresh_buf" "sb_refcount b = 1" "sb_max_size b = 100"
    using set_max_size_keeps [OF fresh_buf(1) run] fresh_buf by auto
  then have "sshbuf_writable b" using fresh_buf by (simp add: sshbuf_writable_def)
  with k have "sshbuf_check_sanity (sshbuf_reset alloc_zero b) = Inl SSH_ERR_INTERNAL_ERROR"
    using sshbuf_reset_small_limit [of b alloc_zero alloc_zero 0]
    by (simp add: SSHBUF_SIZE_INIT_def alloc_zero_def)
  then show ?thesis by (simp add: b_def)
qed

end
