(* ===== verification/Sshbuf_Getput.thy ===== *)
theory Sshbuf_Getput
  imports Sshbuf
begin

text \<open>
  Reading and writing the wire types of a buffer: \<open>ssh/sshbuf-getput-basic.c\<close>,
  \<open>ssh/sshbuf-misc.c\<close> and the integer macros of \<open>ssh/sshbuf.h\<close>. The locale \<open>wire_field\<close> is
  the contract between a writer and its reader; every pair below interprets it.
\<close>

section \<open>Integers\<close>

definition PEEK_U64 :: "byte list \<Rightarrow> u64" where
  "PEEK_U64 p =
     push_bit 56 (ucast (p ! 0)) OR push_bit 48 (ucast (p ! 1)) OR
     push_bit 40 (ucast (p ! 2)) OR push_bit 32 (ucast (p ! 3)) OR
     push_bit 24 (ucast (p ! 4)) OR push_bit 16 (ucast (p ! 5)) OR
     push_bit 8 (ucast (p ! 6)) OR ucast (p ! 7)"

definition PEEK_U32 :: "byte list \<Rightarrow> u32" where
  "PEEK_U32 p =
     push_bit 24 (ucast (p ! 0)) OR push_bit 16 (ucast (p ! 1)) OR
     push_bit 8 (ucast (p ! 2)) OR ucast (p ! 3)"

definition PEEK_U16 :: "byte list \<Rightarrow> u16" where
  "PEEK_U16 p = push_bit 8 (ucast (p ! 0)) OR ucast (p ! 1)"

text \<open>The \<open>POKE\<close> macros widen their argument to 64 bits and store its low bytes.\<close>

definition POKE_U64 :: "u64 \<Rightarrow> byte list" where
  "POKE_U64 v =
     [ucast (drop_bit 56 v AND 0xff), ucast (drop_bit 48 v AND 0xff),
      ucast (drop_bit 40 v AND 0xff), ucast (drop_bit 32 v AND 0xff),
      ucast (drop_bit 24 v AND 0xff), ucast (drop_bit 16 v AND 0xff),
      ucast (drop_bit 8 v AND 0xff), ucast (v AND 0xff)]"

definition POKE_U32 :: "u64 \<Rightarrow> byte list" where
  "POKE_U32 v =
     [ucast (drop_bit 24 v AND 0xff), ucast (drop_bit 16 v AND 0xff),
      ucast (drop_bit 8 v AND 0xff), ucast (v AND 0xff)]"

definition POKE_U16 :: "u64 \<Rightarrow> byte list" where
  "POKE_U16 v = [ucast (drop_bit 8 v AND 0xff), ucast (v AND 0xff)]"

section \<open>Getters\<close>

text \<open>The bytes a pointer into the buffer's block designates; NULL designates none.\<close>

definition bytes_at :: "sshbuf \<Rightarrow> nat option \<Rightarrow> byte list" where
  "bytes_at b p = (case p of None \<Rightarrow> [] | Some i \<Rightarrow> drop i (block b))"

definition sshbuf_get :: "size_t \<Rightarrow> (ssh_err, sshbuf, byte list) action" where
  "sshbuf_get len b =
     (let p = sshbuf_ptr b
      in act_bind (sshbuf_consume len) (\<lambda>_. act_return (take len (bytes_at b p))) b)"

definition sshbuf_get_u64 :: "(ssh_err, sshbuf, u64) action" where
  "sshbuf_get_u64 b =
     (let p = sshbuf_ptr b
      in act_bind (sshbuf_consume 8) (\<lambda>_. act_return (PEEK_U64 (bytes_at b p))) b)"

definition sshbuf_get_u32 :: "(ssh_err, sshbuf, u32) action" where
  "sshbuf_get_u32 b =
     (let p = sshbuf_ptr b
      in act_bind (sshbuf_consume 4) (\<lambda>_. act_return (PEEK_U32 (bytes_at b p))) b)"

definition sshbuf_get_u16 :: "(ssh_err, sshbuf, u16) action" where
  "sshbuf_get_u16 b =
     (let p = sshbuf_ptr b
      in act_bind (sshbuf_consume 2) (\<lambda>_. act_return (PEEK_U16 (bytes_at b p))) b)"

definition sshbuf_get_u8 :: "(ssh_err, sshbuf, byte) action" where
  "sshbuf_get_u8 b =
     (let p = sshbuf_ptr b
      in act_bind (sshbuf_consume 1) (\<lambda>_. act_return (bytes_at b p ! 0)) b)"

text \<open>The offset of the string's first byte and its length; the buffer is not changed.\<close>

definition sshbuf_peek_string_direct :: "sshbuf \<Rightarrow> (nat \<times> size_t) res" where
  "sshbuf_peek_string_direct b =
     (let p = sshbuf_ptr b in
      if sshbuf_len b < 4 then Inl SSH_ERR_MESSAGE_INCOMPLETE
      else let len = unat (PEEK_U32 (bytes_at b p)) in
        if size_sub (sshbuf_len b) 4 < len then Inl SSH_ERR_MESSAGE_INCOMPLETE
        else Inr (the p + 4, len))"

definition sshbuf_get_string_direct :: "(ssh_err, sshbuf, nat \<times> size_t) action" where
  "sshbuf_get_string_direct b =
     (case sshbuf_peek_string_direct b of
        Inl e \<Rightarrow> (Inl e, b)
      | Inr (p, len) \<Rightarrow>
          (case sshbuf_consume (size_add len 4) b of
             (Inl _, b') \<Rightarrow> (Inl SSH_ERR_INTERNAL_ERROR, b')
           | (Inr _, b') \<Rightarrow> (Inr (p, len), b')))"

text \<open>
  \<open>sshbuf_get_string\<close> with both result pointers given: the copied bytes, whose number is
  \<open>*lenp\<close>. The copy is made after the string has been consumed.
\<close>

definition sshbuf_get_string :: "allocator \<Rightarrow> (ssh_err, sshbuf, byte list) action" where
  "sshbuf_get_string am =
     act_bind sshbuf_get_string_direct
       (\<lambda>(p, len) b'. case malloc_block am (size_add len 1) of
            None \<Rightarrow> (Inl SSH_ERR_ALLOC_FAIL, b')
          | Some _ \<Rightarrow> (Inr (take len (drop p (block b'))), b'))"

text \<open>\<open>memchr(s, 0, len)\<close>: the index of the first zero byte.\<close>

fun memchr0 :: "byte list \<Rightarrow> nat option" where
  "memchr0 [] = None"
| "memchr0 (x # xs) = (if x = 0 then Some 0 else map_option Suc (memchr0 xs))"

definition sshbuf_get_cstring :: "allocator \<Rightarrow> (ssh_err, sshbuf, byte list) action" where
  "sshbuf_get_cstring am b =
     (let p = sshbuf_ptr b in
      if sshbuf_len b < 4 then (Inl SSH_ERR_MESSAGE_INCOMPLETE, b)
      else let len = unat (PEEK_U32 (bytes_at b p)) in
        if sshbuf_len b < size_add len 4 then (Inl SSH_ERR_MESSAGE_INCOMPLETE, b)
        else let s = take len (drop 4 (bytes_at b p)) in
          if (case memchr0 s of Some z \<Rightarrow> z < len - 1 | None \<Rightarrow> False)
          then (Inl SSH_ERR_INVALID_FORMAT, b)
          else (case sshbuf_consume (size_add 4 len) b of
                  (Inl _, b') \<Rightarrow> (Inl SSH_ERR_INTERNAL_ERROR, b')
                | (Inr _, b') \<Rightarrow>
                    (case malloc_block am (unat ((of_nat len :: u32) + 1)) of
                       None \<Rightarrow> (Inl SSH_ERR_ALLOC_FAIL, b')
                     | Some _ \<Rightarrow> (Inr s, b'))))"

section \<open>Putters\<close>

definition sshbuf_put :: "allocator \<Rightarrow> byte list \<Rightarrow> (ssh_err, sshbuf, unit) action" where
  "sshbuf_put am v =
     act_bind (sshbuf_reserve am (length v)) (\<lambda>i b. (Inr (), poke i v b))"

text \<open>The bytes \<open>sshbuf_ptr(v)\<close>, \<open>sshbuf_len(v)\<close> designate.\<close>

definition sshbuf_bytes :: "sshbuf \<Rightarrow> byte list" where
  "sshbuf_bytes v = take (sshbuf_len v) (bytes_at v (sshbuf_ptr v))"

definition sshbuf_putb :: "allocator \<Rightarrow> sshbuf \<Rightarrow> (ssh_err, sshbuf, unit) action" where
  "sshbuf_putb am v = sshbuf_put am (sshbuf_bytes v)"

text \<open>
  \<open>sshbuf_putfv\<close>: \<open>text\<close> is what \<open>vsnprintf\<close> formats, \<open>None\<close> when it reports an error; the
  terminating zero byte is written and taken back.
\<close>

definition sshbuf_putfv :: "allocator \<Rightarrow> byte list option \<Rightarrow> (ssh_err, sshbuf, unit) action" where
  "sshbuf_putfv am text =
     (case text of
        None \<Rightarrow> act_fail SSH_ERR_INVALID_ARGUMENT
      | Some t \<Rightarrow>
          if length t = 0 then act_return ()
          else act_bind (sshbuf_reserve am (size_add (length t) 1))
                 (\<lambda>i. act_bind (\<lambda>b. (Inr (), poke i (t @ [0]) b)) (\<lambda>_. sshbuf_consume_end 1)))"

definition sshbuf_put_u64 :: "allocator \<Rightarrow> u64 \<Rightarrow> (ssh_err, sshbuf, unit) action" where
  "sshbuf_put_u64 am v =
     act_bind (sshbuf_reserve am 8) (\<lambda>i b. (Inr (), poke i (POKE_U64 v) b))"

definition sshbuf_put_u32 :: "allocator \<Rightarrow> u32 \<Rightarrow> (ssh_err, sshbuf, unit) action" where
  "sshbuf_put_u32 am v =
     act_bind (sshbuf_reserve am 4) (\<lambda>i b. (Inr (), poke i (POKE_U32 (ucast v)) b))"

definition sshbuf_put_u16 :: "allocator \<Rightarrow> u16 \<Rightarrow> (ssh_err, sshbuf, unit) action" where
  "sshbuf_put_u16 am v =
     act_bind (sshbuf_reserve am 2) (\<lambda>i b. (Inr (), poke i (POKE_U16 (ucast v)) b))"

definition sshbuf_put_u8 :: "allocator \<Rightarrow> byte \<Rightarrow> (ssh_err, sshbuf, unit) action" where
  "sshbuf_put_u8 am v = act_bind (sshbuf_reserve am 1) (\<lambda>i b. (Inr (), poke i [v] b))"

definition sshbuf_put_string :: "allocator \<Rightarrow> byte list \<Rightarrow> (ssh_err, sshbuf, unit) action" where
  "sshbuf_put_string am v =
     (if length v > 0xFFFFFFFF - 4 then act_fail SSH_ERR_NO_BUFFER_SPACE
      else act_bind (sshbuf_reserve am (size_add (length v) 4))
             (\<lambda>i b. (Inr (), poke (i + 4) v (poke i (POKE_U32 (of_nat (length v))) b))))"

text \<open>A C string ends before its first zero byte.\<close>

definition c_str :: "byte list \<Rightarrow> byte list" where
  "c_str v = takeWhile (\<lambda>x. x \<noteq> 0) v"

definition sshbuf_put_cstring :: "allocator \<Rightarrow> byte list \<Rightarrow> (ssh_err, sshbuf, unit) action" where
  "sshbuf_put_cstring am v = sshbuf_put_string am (c_str v)"

definition sshbuf_put_stringb :: "allocator \<Rightarrow> sshbuf \<Rightarrow> (ssh_err, sshbuf, unit) action" where
  "sshbuf_put_stringb am v = sshbuf_put_string am (sshbuf_bytes v)"

text \<open>
  \<open>sshbuf_get_stringb(buf, v)\<close> on the pair of both buffers: the length is consumed before
  room is reserved in \<open>v\<close>.
\<close>

definition sshbuf_get_stringb :: "allocator \<Rightarrow> (ssh_err, sshbuf \<times> sshbuf, unit) action" where
  "sshbuf_get_stringb am bv =
     (case bv of (b, v) \<Rightarrow>
        (case sshbuf_peek_string_direct b of
           Inl e \<Rightarrow> (Inl e, (b, v))
         | Inr _ \<Rightarrow>
           (case sshbuf_get_u32 b of
              (Inl e, b1) \<Rightarrow> (Inl e, (b1, v))
            | (Inr len, b1) \<Rightarrow>
              (case sshbuf_reserve am (unat len) v of
                 (Inl e, v1) \<Rightarrow> (Inl e, (b1, v1))
               | (Inr i, v1) \<Rightarrow>
                 (case sshbuf_get (unat len) b1 of
                    (Inl e, b2) \<Rightarrow> (Inl e, (b2, v1))
                  | (Inr s, b2) \<Rightarrow> (Inr (), (b2, poke i s v1)))))))"

section \<open>Hexadecimal and base64 text\<close>

definition hex_digits :: string where
  "hex_digits = ''0123456789abcdef''"

fun dtob16_loop :: "byte list \<Rightarrow> string" where
  "dtob16_loop [] = []"
| "dtob16_loop (x # xs) =
     hex_digits ! unat (drop_bit 4 x AND 0xf) # hex_digits ! unat (x AND 0xf) # dtob16_loop xs"

definition sshbuf_dtob16 :: "allocator \<Rightarrow> sshbuf \<Rightarrow> string option" where
  "sshbuf_dtob16 am b =
     (let len = sshbuf_len b in
      if len = 0 then map_option (\<lambda>_. []) (am 1)
      else if (SIZE_MOD - 1) div 2 \<le> len then None
      else map_option (\<lambda>_. dtob16_loop (sshbuf_bytes b)) (malloc_block am (len * 2 + 1)))"

text \<open>
  \<open>b64_ntop\<close> and \<open>b64_pton\<close> belong to the C library; they are arguments, \<open>None\<close> for their
  result -1. \<open>ntop\<close> is given the data and the size of the output.
\<close>

definition sshbuf_dtob64 ::
  "allocator \<Rightarrow> (byte list \<Rightarrow> size_t \<Rightarrow> string option) \<Rightarrow> sshbuf \<Rightarrow> string option" where
  "sshbuf_dtob64 am ntop b =
     (let len = sshbuf_len b;
          plen = ((len + 2) div 3) * 4 + 1
      in if len = 0 then map_option (\<lambda>_. []) (am 1)
         else if (SIZE_MOD - 1) div 2 \<le> len then None
         else (case malloc_block am plen of
                 None \<Rightarrow> None
               | Some _ \<Rightarrow> ntop (sshbuf_bytes b) plen))"

definition sshbuf_b64tod ::
  "allocator \<Rightarrow> (string \<Rightarrow> size_t \<Rightarrow> byte list option) \<Rightarrow> string \<Rightarrow> (ssh_err, sshbuf, unit) action" where
  "sshbuf_b64tod am pton b64 =
     (let plen = length b64 in
      if plen = 0 then act_return ()
      else (case malloc_block am plen of
              None \<Rightarrow> act_fail SSH_ERR_ALLOC_FAIL
            | Some _ \<Rightarrow>
                (case pton b64 plen of
                   None \<Rightarrow> act_fail SSH_ERR_INVALID_FORMAT
                 | Some v \<Rightarrow> sshbuf_put am v)))"

section \<open>Integer round trips\<close>

lemma bit_low_byte: "bit (0xff :: u64) n \<longleftrightarrow> n < 8"
proof -
  have "(0xff :: u64) = mask 8" by (simp add: mask_eq_exp_minus_1)
  then have "bit (0xff :: u64) n \<longleftrightarrow> bit (mask 8 :: u64) n" by (rule arg_cong)
  then show ?thesis by (auto simp: bit_mask_iff)
qed

lemma ucast_low_byte: "(ucast (x AND 0xff :: u64) :: byte) = ucast x"
  by (rule bit_word_eqI) (simp only: bit_ucast_iff bit_and_iff bit_low_byte, simp)

lemma bit_push_byte:
  fixes v :: u64
  assumes "n < LENGTH('a)" "k < LENGTH('a)"
  shows "bit (push_bit k (ucast (ucast (drop_bit k v) :: byte) :: 'a::len word)) n \<longleftrightarrow>
    k \<le> n \<and> n < k + 8 \<and> bit v n"
  using assms by (auto simp: bit_simps)

lemma bit_low_byte_ucast:
  fixes v :: u64
  assumes "n < LENGTH('a)"
  shows "bit (ucast (ucast v :: byte) :: 'a::len word) n \<longleftrightarrow> n < 8 \<and> bit v n"
  using assms by (auto simp: bit_simps)

lemmas poke_bits = ucast_low_byte bit_or_iff bit_push_byte bit_low_byte_ucast

lemma peek_poke_u64: "PEEK_U64 (POKE_U64 v @ r) = v"
proof (rule bit_word_eqI)
  fix n assume "n < LENGTH(64)"
  then show "bit (PEEK_U64 (POKE_U64 v @ r)) n = bit v n"
    by (simp add: PEEK_U64_def POKE_U64_def poke_bits) auto
qed

lemma peek_poke_u32: "PEEK_U32 (POKE_U32 v @ r) = ucast v"
proof (rule bit_word_eqI)
  fix n assume "n < LENGTH(32)"
  then show "bit (PEEK_U32 (POKE_U32 v @ r)) n = bit (ucast v :: u32) n"
    by (simp add: PEEK_U32_def POKE_U32_def poke_bits bit_ucast_iff) auto
qed

lemma peek_poke_u16: "PEEK_U16 (POKE_U16 v @ r) = ucast v"
proof (rule bit_word_eqI)
  fix n assume "n < LENGTH(16)"
  then show "bit (PEEK_U16 (POKE_U16 v @ r)) n = bit (ucast v :: u16) n"
    by (simp add: PEEK_U16_def POKE_U16_def poke_bits bit_ucast_iff) auto
qed

lemma peek_take:
  "8 \<le> n \<Longrightarrow> PEEK_U64 (take n p) = PEEK_U64 p"
  "4 \<le> n \<Longrightarrow> PEEK_U32 (take n p) = PEEK_U32 p"
  "2 \<le> n \<Longrightarrow> PEEK_U16 (take n p) = PEEK_U16 p"
  by (simp_all add: PEEK_U64_def PEEK_U32_def PEEK_U16_def)

lemma length_poke [simp]:
  "length (POKE_U64 v) = 8" "length (POKE_U32 v) = 4" "length (POKE_U16 v) = 2"
  by (simp_all add: POKE_U64_def POKE_U32_def POKE_U16_def)
section \<open>Reading\<close>

lemma bytes_at_wf: "sshbuf_wf b \<Longrightarrow> bytes_at b (sshbuf_ptr b) = drop (sb_off b) (block b)"
  by (simp add: bytes_at_def sshbuf_ptr_def)

lemma take_bytes_at:
  "sshbuf_wf b \<Longrightarrow> n \<le> length (contents b) \<Longrightarrow> take n (bytes_at b (sshbuf_ptr b)) = take n (contents b)"
  by (simp add: bytes_at_wf) (simp add: contents_def min_def)

lemma sshbuf_bytes_wf [simp]: "sshbuf_wf b \<Longrightarrow> sshbuf_bytes b = contents b"
  by (simp add: sshbuf_bytes_def take_bytes_at)

lemma peek_at:
  assumes "sshbuf_wf b"
  shows "8 \<le> length (contents b) \<Longrightarrow> PEEK_U64 (bytes_at b (sshbuf_ptr b)) = PEEK_U64 (contents b)"
    "4 \<le> length (contents b) \<Longrightarrow> PEEK_U32 (bytes_at b (sshbuf_ptr b)) = PEEK_U32 (contents b)"
    "2 \<le> length (contents b) \<Longrightarrow> PEEK_U16 (bytes_at b (sshbuf_ptr b)) = PEEK_U16 (contents b)"
    "1 \<le> length (contents b) \<Longrightarrow> bytes_at b (sshbuf_ptr b) ! 0 = contents b ! 0"
  using take_bytes_at [OF assms, of 8] take_bytes_at [OF assms, of 4]
    take_bytes_at [OF assms, of 2] take_bytes_at [OF assms, of 1]
    peek_take(1) [of 8 "bytes_at b (sshbuf_ptr b)"] peek_take(1) [of 8 "contents b"]
    peek_take(2) [of 4 "bytes_at b (sshbuf_ptr b)"] peek_take(2) [of 4 "contents b"]
    peek_take(3) [of 2 "bytes_at b (sshbuf_ptr b)"] peek_take(3) [of 2 "contents b"]
    nth_take [of 0 1 "bytes_at b (sshbuf_ptr b)"] nth_take [of 0 1 "contents b"]
  by simp_all

text \<open>The buffer with \<open>n\<close> bytes consumed from its front.\<close>

definition advance :: "nat \<Rightarrow> sshbuf \<Rightarrow> sshbuf" where
  "advance n b = b\<lparr>sb_off := sb_off b + n\<rparr>"

lemma advance:
  assumes "sshbuf_wf b" "n \<le> length (contents b)"
  shows "sshbuf_wf (advance n b)" "contents (advance n b) = drop n (contents b)"
    "same_frame b (advance n b)"
  using drop_front [OF assms] by (simp_all add: advance_def)

lemma block_advance [simp]: "block (advance n b) = block b"
  by (simp add: advance_def)

lemma consume_advance:
  "sshbuf_wf b \<Longrightarrow> sshbuf_consume len b =
    (if len \<le> length (contents b) then (Inr (), advance len b)
     else (Inl SSH_ERR_MESSAGE_INCOMPLETE, b))"
  by (simp add: consume_wf advance_def)

lemma get_wf:
  assumes "sshbuf_wf b"
  shows "sshbuf_get n b =
    (if n \<le> length (contents b) then (Inr (take n (contents b)), advance n b)
     else (Inl SSH_ERR_MESSAGE_INCOMPLETE, b))"
  using assms take_bytes_at [OF assms]
  by (simp add: sshbuf_get_def act_simps consume_advance)

lemma get_int_wf:
  assumes "sshbuf_wf b"
  shows "sshbuf_get_u64 b =
      (if 8 \<le> length (contents b) then (Inr (PEEK_U64 (contents b)), advance 8 b)
       else (Inl SSH_ERR_MESSAGE_INCOMPLETE, b))"
    "sshbuf_get_u32 b =
      (if 4 \<le> length (contents b) then (Inr (PEEK_U32 (contents b)), advance 4 b)
       else (Inl SSH_ERR_MESSAGE_INCOMPLETE, b))"
    "sshbuf_get_u16 b =
      (if 2 \<le> length (contents b) then (Inr (PEEK_U16 (contents b)), advance 2 b)
       else (Inl SSH_ERR_MESSAGE_INCOMPLETE, b))"
    "sshbuf_get_u8 b =
      (if 1 \<le> length (contents b) then (Inr (contents b ! 0), advance 1 b)
       else (Inl SSH_ERR_MESSAGE_INCOMPLETE, b))"
  using assms peek_at [OF assms]
  by (simp_all add: sshbuf_get_u64_def sshbuf_get_u32_def sshbuf_get_u16_def sshbuf_get_u8_def
      act_simps consume_advance)

section \<open>Strings\<close>

text \<open>What a wire string is: a 32-bit length and that many bytes.\<close>

definition wire_string :: "byte list \<Rightarrow> byte list" where
  "wire_string v = POKE_U32 (of_nat (length v)) @ v"

text \<open>The length prefix of \<open>c\<close>, and whether all of the string is there.\<close>

definition wire_len :: "byte list \<Rightarrow> nat" where
  "wire_len c = unat (PEEK_U32 c)"

definition wire_complete :: "byte list \<Rightarrow> bool" where
  "wire_complete c \<longleftrightarrow> 4 \<le> length c \<and> 4 + wire_len c \<le> length c"

lemma wire_len_string: "length v < 2 ^ 32 \<Longrightarrow> wire_len (wire_string v @ r) = length v"
  by (simp add: wire_len_def wire_string_def peek_poke_u32 unsigned_ucast_eq unsigned_of_nat
      take_bit_nat_eq_self_iff)

lemma length_wire_string [simp]: "length (wire_string v) = 4 + length v"
  by (simp add: wire_string_def)

lemma wire_complete_string: "length v < 2 ^ 32 \<Longrightarrow> wire_complete (wire_string v @ r)"
  by (simp add: wire_complete_def wire_len_string)

lemma drop_wire_string [simp]: "drop 4 (wire_string v @ r) = v @ r"
  by (simp add: wire_string_def)

lemma contents_small: "sshbuf_wf b \<Longrightarrow> length (contents b) \<le> 0x20000000"
  using wf_bounds [of b] by (simp add: SSHBUF_SIZE_MAX_def)

lemma peek_string_wf:
  assumes "sshbuf_wf b"
  shows "sshbuf_peek_string_direct b =
    (if wire_complete (contents b) then Inr (sb_off b + 4, wire_len (contents b))
     else Inl SSH_ERR_MESSAGE_INCOMPLETE)"
proof -
  have "size_sub (length (contents b)) 4 = length (contents b) - 4" if "4 \<le> length (contents b)"
    using that contents_small [OF assms] by (simp add: size_sub_exact SIZE_MOD_def)
  then show ?thesis using assms peek_at(2) [OF assms]
    by (auto simp: sshbuf_peek_string_direct_def Let_def wire_complete_def wire_len_def sshbuf_ptr_def)
qed

lemma wire_add_exact:
  assumes "sshbuf_wf b" "wire_complete (contents b)"
  shows "size_add (wire_len (contents b)) 4 = 4 + wire_len (contents b)"
    "size_add 4 (wire_len (contents b)) = 4 + wire_len (contents b)"
    "size_add (wire_len (contents b)) 1 = wire_len (contents b) + 1"
  using contents_small [OF assms(1)] assms(2)
  by (simp_all add: wire_complete_def size_add_def SIZE_MOD_def)

lemma get_string_direct_wf:
  assumes "sshbuf_wf b"
  shows "sshbuf_get_string_direct b =
    (if wire_complete (contents b)
     then (Inr (sb_off b + 4, wire_len (contents b)), advance (4 + wire_len (contents b)) b)
     else (Inl SSH_ERR_MESSAGE_INCOMPLETE, b))"
  using assms wire_add_exact [OF assms]
  by (simp add: sshbuf_get_string_direct_def peek_string_wf consume_advance wire_complete_def)

lemma drop_block_string:
  assumes "sshbuf_wf b" "wire_complete (contents b)"
  shows "take (wire_len (contents b)) (drop (sb_off b + 4) (block b)) =
    take (wire_len (contents b)) (drop 4 (contents b))"
proof -
  have "take n (drop (i + 4) xs) = take n (drop 4 (take k (drop i xs)))" if "4 + n \<le> k"
    for n i k and xs :: "byte list"
    using that by (simp add: drop_take min_def add.commute)
  moreover have "4 + wire_len (contents b) \<le> sb_size b - sb_off b"
    using assms by (simp add: wire_complete_def)
  ultimately have "take (wire_len (contents b)) (drop (sb_off b + 4) (block b)) =
    take (wire_len (contents b)) (drop 4 (take (sb_size b - sb_off b) (drop (sb_off b) (block b))))"
    by blast
  then show ?thesis by (simp only: contents_def [of b])
qed

lemma get_string_wf:
  assumes "sshbuf_wf b"
  shows "sshbuf_get_string am b =
    (if \<not> wire_complete (contents b) then (Inl SSH_ERR_MESSAGE_INCOMPLETE, b)
     else let b' = advance (4 + wire_len (contents b)) b in
       if am (wire_len (contents b) + 1) = None then (Inl SSH_ERR_ALLOC_FAIL, b')
       else (Inr (take (wire_len (contents b)) (drop 4 (contents b))), b'))"
  using assms wire_add_exact [OF assms] drop_block_string [OF assms]
  by (auto simp: sshbuf_get_string_def act_simps get_string_direct_wf Let_def malloc_block_def
      split: option.splits)

text \<open>A zero byte is allowed at the end of a C string only.\<close>

definition nul_inside :: "byte list \<Rightarrow> bool" where
  "nul_inside s \<longleftrightarrow> 0 \<in> set (butlast s)"

lemma memchr0_inside:
  "(case memchr0 s of Some z \<Rightarrow> z < length s - 1 | None \<Rightarrow> False) \<longleftrightarrow> nul_inside s"
proof (induction s)
  case (Cons x s)
  show ?case using Cons
    by (cases s) (auto simp: nul_inside_def split: option.splits)
qed (simp add: nul_inside_def)

lemma get_cstring_wf:
  assumes "sshbuf_wf b"
  shows "sshbuf_get_cstring am b =
    (let c = contents b; s = take (wire_len c) (drop 4 c); b' = advance (4 + wire_len c) b in
     if \<not> wire_complete c then (Inl SSH_ERR_MESSAGE_INCOMPLETE, b)
     else if nul_inside s then (Inl SSH_ERR_INVALID_FORMAT, b)
     else if am (wire_len c + 1) = None then (Inl SSH_ERR_ALLOC_FAIL, b')
     else (Inr s, b'))"
proof (cases "wire_complete (contents b)")
  case True
  define c where "c = contents b"
  define s where "s = take (wire_len c) (drop 4 c)"
  have len: "length s = wire_len c" using True by (auto simp: s_def c_def wire_complete_def min_def)
  have rd: "take (wire_len c) (drop 4 (bytes_at b (sshbuf_ptr b))) = s"
    using drop_block_string [OF assms True] by (simp add: bytes_at_wf assms s_def c_def ac_simps)
  have small: "wire_len c < 2 ^ 32 - 1"
    using True contents_small [OF assms] by (simp add: c_def wire_complete_def)
  then have u32: "unat ((of_nat (wire_len c) :: u32) + 1) = wire_len c + 1"
    by (simp add: unat_word_ariths unsigned_of_nat take_bit_nat_eq_self)
  have pk: "unat (PEEK_U32 (bytes_at b (sshbuf_ptr b))) = wire_len c"
    using True assms by (simp add: peek_at c_def wire_len_def wire_complete_def)
  have add: "size_add (wire_len c) 4 = 4 + wire_len c" "size_add 4 (wire_len c) = 4 + wire_len c"
    using wire_add_exact [OF assms True] by (simp_all add: c_def)
  have ge: "4 \<le> length c" "4 + wire_len c \<le> length c"
    using True by (simp_all add: c_def wire_complete_def)
  have ch: "(case memchr0 s of Some z \<Rightarrow> z < wire_len c - 1 | None \<Rightarrow> False) = nul_inside s"
    using memchr0_inside [of s] by (simp only: len)
  show ?thesis
    unfolding sshbuf_get_cstring_def Let_def pk rd u32 add ch sshbuf_len_wf [OF assms]
      c_def [symmetric] s_def [symmetric]
    using True ge assms
    by (auto simp: consume_advance c_def [symmetric] malloc_block_def
        simp del: length_contents split: option.splits)
next
  case False
  have pk: "4 \<le> length (contents b) \<Longrightarrow> unat (PEEK_U32 (bytes_at b (sshbuf_ptr b))) = wire_len (contents b)"
    using assms by (simp add: peek_at wire_len_def)
  have "wire_len (contents b) < 2 ^ 32" unfolding wire_len_def by (rule order_less_le_trans [OF unsigned_less]) simp
  then have "size_add (wire_len (contents b)) 4 = wire_len (contents b) + 4"
    by (simp add: size_add_def SIZE_MOD_def)
  then show ?thesis using False assms pk
    by (auto simp: sshbuf_get_cstring_def Let_def wire_complete_def not_le)
qed

section \<open>Writing\<close>

lemma put_cases:
  assumes "sshbuf_wf b" and "sshbuf_put am v b = (r, b')"
  shows "sshbuf_wf b'" "same_frame b b'"
    "contents b' = (case r of Inr _ \<Rightarrow> contents b @ v | Inl _ \<Rightarrow> contents b)"
proof -
  obtain q c where res: "sshbuf_reserve am (length v) b = (q, c)" by fastforce
  have "sshbuf_wf b' \<and> same_frame b b' \<and>
    contents b' = (case r of Inr _ \<Rightarrow> contents b @ v | Inl _ \<Rightarrow> contents b)"
  proof (cases q)
    case (Inl e)
    then have r: "r = Inl e" "b' = c" using assms(2) res by (simp_all add: sshbuf_put_def act_simps)
    show ?thesis
    proof (cases "sshbuf_writable b \<and> length (contents b) + length v \<le> sb_max_size b")
      case True
      then have pre: "sshbuf_writable b" "length (contents b) + length v \<le> sb_max_size b" by auto
      from reserve_cases [OF assms(1) pre, of am] show ?thesis
        using res Inl r by cases auto
    next
      case False
      then show ?thesis using reserve_error [OF assms(1) False, of am] res r assms(1) by simp
    qed
  next
    case (Inr i)
    then show ?thesis using assms(2) res reserve_fill [OF assms(1), of am v i c]
      by (simp add: sshbuf_put_def act_simps) auto
  qed
  then show "sshbuf_wf b'" "same_frame b b'"
    "contents b' = (case r of Inr _ \<Rightarrow> contents b @ v | Inl _ \<Rightarrow> contents b)" by auto
qed

lemma put_error:
  assumes "sshbuf_wf b" and "sshbuf_put am v b = (Inl e, b')"
  shows "if \<not> sshbuf_writable b then e = SSH_ERR_BUFFER_READ_ONLY
    else if length (contents b) + length v > sb_max_size b then e = SSH_ERR_NO_BUFFER_SPACE
    else e = SSH_ERR_ALLOC_FAIL \<and> (\<exists>n. am n = None)"
proof (cases "sshbuf_writable b \<and> length (contents b) + length v \<le> sb_max_size b")
  case True
  then have pre: "sshbuf_writable b" "length (contents b) + length v \<le> sb_max_size b" by auto
  from reserve_cases [OF assms(1) pre, of am] show ?thesis
    using assms(2) pre by cases (auto simp: sshbuf_put_def act_simps)
next
  case False
  then show ?thesis using reserve_error [OF assms(1) False, of am] assms(2)
    by (auto simp: sshbuf_put_def act_simps)
qed

lemma put_int_eq:
  "sshbuf_put_u64 am x = sshbuf_put am (POKE_U64 x)"
  "sshbuf_put_u32 am y = sshbuf_put am (POKE_U32 (ucast y))"
  "sshbuf_put_u16 am z = sshbuf_put am (POKE_U16 (ucast z))"
  "sshbuf_put_u8 am w = sshbuf_put am [w]"
  by (simp_all add: sshbuf_put_u64_def sshbuf_put_u32_def sshbuf_put_u16_def sshbuf_put_u8_def
      sshbuf_put_def)

text \<open>Header and data written one after the other are one write.\<close>

lemma put_string_eq:
  assumes "sshbuf_wf b" "length v \<le> 0xFFFFFFFF - 4"
  shows "sshbuf_put_string am v b = sshbuf_put am (wire_string v) b"
proof -
  have len: "size_add (length v) 4 = 4 + length v"
    using assms(2) by (simp add: size_add_def SIZE_MOD_def)
  have poke2: "poke (i + 4) v (poke i (POKE_U32 x) c) = poke i (POKE_U32 x @ v) c"
    if "i \<le> length (block c)" for i c x
    using that write_at_append [of i "block c" "POKE_U32 x" v]
    by (simp add: poke_def set_block_def block_def)
  have "i \<le> length (block c)" if "sshbuf_reserve am (4 + length v) b = (Inr i, c)" for i c
    using reserve_okD [OF assms(1) that] wf_bounds [of c] by simp
  then show ?thesis using assms(2) len
    by (auto simp: sshbuf_put_string_def sshbuf_put_def act_simps poke2 wire_string_def
        split: prod.splits sum.splits)
qed

lemma put_string_too_long:
  "\<not> length v \<le> 0xFFFFFFFF - 4 \<Longrightarrow> sshbuf_put_string am v b = (Inl SSH_ERR_NO_BUFFER_SPACE, b)"
  by (simp add: sshbuf_put_string_def act_simps)

lemma put_string_cases:
  assumes "sshbuf_wf b" and "sshbuf_put_string am v b = (r, b')"
  shows "sshbuf_wf b'" "same_frame b b'"
    "contents b' = (case r of Inr _ \<Rightarrow> contents b @ wire_string v | Inl _ \<Rightarrow> contents b)"
    "r = Inr () \<Longrightarrow> length v \<le> 0xFFFFFFFF - 4"
  using put_cases [OF assms(1), of am "wire_string v" r b'] put_string_eq [OF assms(1), of v am]
    put_string_too_long [of v am b] assms
  by (cases "length v \<le> 0xFFFFFFFF - 4"; auto)+

lemma widen_narrow [simp]:
  "(ucast (ucast (x :: u32) :: u64) :: u32) = x" "(ucast (ucast (y :: u16) :: u64) :: u16) = y"
  by (rule bit_word_eqI, auto simp: bit_ucast_iff)+

lemma drop_wire_string_end [simp]: "drop 4 (wire_string v) = v"
  using drop_wire_string [of v "[]"] by simp

lemma poke_peek_u32: "4 \<le> length c \<Longrightarrow> POKE_U32 (ucast (PEEK_U32 c)) = take 4 c"
proof -
  assume "4 \<le> length c"
  then have c: "take 4 c = [c ! 0, c ! 1, c ! 2, c ! 3]"
    by (auto simp: list_eq_iff_nth_eq less_Suc_eq numeral_eq_Suc)
  have "(ucast (drop_bit 24 (ucast (PEEK_U32 c) :: u64)) :: byte) = c ! 0"
    "(ucast (drop_bit 16 (ucast (PEEK_U32 c) :: u64)) :: byte) = c ! 1"
    "(ucast (drop_bit 8 (ucast (PEEK_U32 c) :: u64)) :: byte) = c ! 2"
    "(ucast (ucast (PEEK_U32 c) :: u64) :: byte) = c ! 3"
    by (rule bit_word_eqI, auto simp: PEEK_U32_def bit_simps dest: bit_imp_le_length)+
  then show ?thesis by (simp add: POKE_U32_def ucast_low_byte c)
qed

text \<open>Complete data is a wire string followed by the rest.\<close>

lemma wire_complete_split:
  assumes "wire_complete c"
  shows "c = wire_string (take (wire_len c) (drop 4 c)) @ drop (4 + wire_len c) c"
    "length (take (wire_len c) (drop 4 c)) = wire_len c" "wire_len c < 2 ^ 32"
proof -
  show len: "length (take (wire_len c) (drop 4 c)) = wire_len c"
    using assms by (auto simp: wire_complete_def min_def)
  have "(of_nat (wire_len c) :: u64) = ucast (PEEK_U32 c)" by (simp add: wire_len_def)
  then have "wire_string (take (wire_len c) (drop 4 c)) = take 4 c @ take (wire_len c) (drop 4 c)"
    unfolding wire_string_def len using poke_peek_u32 [of c] assms
    by (simp add: wire_complete_def)
  also have "\<dots> = take (4 + wire_len c) c" by (simp only: take_add)
  finally show "c = wire_string (take (wire_len c) (drop 4 c)) @ drop (4 + wire_len c) c" by simp
  show "wire_len c < 2 ^ 32"
    unfolding wire_len_def by (rule order_less_le_trans [OF unsigned_less]) simp
qed

section \<open>The contract of a wire type\<close>

text \<open>
  \<open>put\<close> appends the encoding of a value or leaves the data alone, \<open>get\<close> reads a value back
  from the front of the data. \<open>mem\<close> says that memory does not run out in the reader.
\<close>

locale wire_field =
  fixes put :: "'a \<Rightarrow> (ssh_err, sshbuf, unit) action"
    and get :: "(ssh_err, sshbuf, 'a) action"
    and enc :: "'a \<Rightarrow> byte list"
    and ok :: "'a \<Rightarrow> bool"
    and mem :: bool
  assumes put_appends: "sshbuf_wf b \<Longrightarrow> put v b = (r, b') \<Longrightarrow>
      sshbuf_wf b' \<and> same_frame b b' \<and>
      contents b' = (case r of Inr _ \<Rightarrow> contents b @ enc v | Inl _ \<Rightarrow> contents b)"
    and get_reads: "mem \<Longrightarrow> sshbuf_wf b \<Longrightarrow> ok v \<Longrightarrow> contents b = enc v @ rest \<Longrightarrow>
      \<exists>b'. get b = (Inr v, b') \<and> sshbuf_wf b' \<and> same_frame b b' \<and> contents b' = rest"
begin

lemma put_ok: "sshbuf_wf b \<Longrightarrow> put v b = (Inr (), b') \<Longrightarrow>
    sshbuf_wf b' \<and> same_frame b b' \<and> contents b' = contents b @ enc v"
  using put_appends [of b v "Inr ()" b'] by simp

lemma put_keeps_wf: "act_keeps sshbuf_wf (put v)"
  using put_appends by (intro act_keepsI) blast

text \<open>A value put into an empty buffer is read back, whatever follows it.\<close>

lemma put_get:
  assumes "mem" "ok v" "sshbuf_wf b" "contents b = []" "put v b = (Inr (), b1)"
    and "sshbuf_wf b2" "contents b2 = contents b1 @ rest"
  shows "\<exists>b3. get b2 = (Inr v, b3) \<and> sshbuf_wf b3 \<and> contents b3 = rest"
  using get_reads [of b2 v rest] put_ok [OF assms(3,5)] assms by auto

text \<open>A loop that writes a list of values, and the loop that reads as many back.\<close>

lemma put_list:
  assumes "sshbuf_wf b" "act_all (map put vs) b = (Inr (), b')"
  shows "sshbuf_wf b' \<and> same_frame b b' \<and> contents b' = contents b @ concat (map enc vs)"
  using assms
proof (induction vs arbitrary: b)
  case Nil
  then show ?case by (simp add: act_simps)
next
  case (Cons v vs)
  obtain r b1 where p: "put v b = (r, b1)" by fastforce
  with Cons.prems have r: "r = Inr ()" and rest: "act_all (map put vs) b1 = (Inr (), b')"
    by (cases r; simp add: act_simps)+
  have b1: "sshbuf_wf b1" "same_frame b b1" "contents b1 = contents b @ enc v"
    using put_ok [OF Cons.prems(1)] p r by auto
  show ?case using Cons.IH [OF b1(1) rest] b1 by (auto intro: same_frame_trans)
qed

lemma get_list:
  assumes "mem" "sshbuf_wf b" "\<forall>v\<in>set vs. ok v" "contents b = concat (map enc vs) @ rest"
  shows "\<exists>b'. act_repeat (length vs) get b = (Inr vs, b') \<and> sshbuf_wf b' \<and> same_frame b b' \<and>
    contents b' = rest"
  using assms
proof (induction vs arbitrary: b)
  case Nil
  then show ?case by (simp add: act_simps)
next
  case (Cons v vs)
  have "contents b = enc v @ (concat (map enc vs) @ rest)" using Cons.prems(4) by simp
  from get_reads [OF Cons.prems(1,2) _ this] Cons.prems(3)
  obtain b1 where b1: "get b = (Inr v, b1)" "sshbuf_wf b1" "same_frame b b1"
    "contents b1 = concat (map enc vs) @ rest" by auto
  from Cons.IH [OF Cons.prems(1) b1(2) _ b1(4)] Cons.prems(3)
  obtain b2 where "act_repeat (length vs) get b1 = (Inr vs, b2)" "sshbuf_wf b2"
    "same_frame b1 b2" "contents b2 = rest" by auto
  with b1 show ?case by (auto simp: act_simps intro: same_frame_trans)
qed

end

interpretation u64_field: wire_field "sshbuf_put_u64 am" sshbuf_get_u64 POKE_U64 "\<lambda>_. True" True
  for am
proof unfold_locales
  fix b v r b' assume "sshbuf_wf b" "sshbuf_put_u64 am v b = (r, b')"
  then show "sshbuf_wf b' \<and> same_frame b b' \<and>
      contents b' = (case r of Inr _ \<Rightarrow> contents b @ POKE_U64 v | Inl _ \<Rightarrow> contents b)"
    using put_cases [of b am "POKE_U64 v" r b'] by (simp add: put_int_eq)
next
  fix b v rest assume "sshbuf_wf b" "contents b = POKE_U64 v @ rest"
  then show "\<exists>b'. sshbuf_get_u64 b = (Inr v, b') \<and> sshbuf_wf b' \<and> same_frame b b' \<and> contents b' = rest"
    using advance [of b 8] by (simp add: get_int_wf peek_poke_u64 del: length_contents)
qed

interpretation u32_field:
  wire_field "sshbuf_put_u32 am" sshbuf_get_u32 "\<lambda>v. POKE_U32 (ucast v)" "\<lambda>_. True" True
  for am
proof unfold_locales
  fix b v r b' assume "sshbuf_wf b" "sshbuf_put_u32 am v b = (r, b')"
  then show "sshbuf_wf b' \<and> same_frame b b' \<and>
      contents b' = (case r of Inr _ \<Rightarrow> contents b @ POKE_U32 (ucast v) | Inl _ \<Rightarrow> contents b)"
    using put_cases [of b am "POKE_U32 (ucast v)" r b'] by (simp add: put_int_eq)
next
  fix b and v :: u32 and rest assume "sshbuf_wf b" "contents b = POKE_U32 (ucast v) @ rest"
  then show "\<exists>b'. sshbuf_get_u32 b = (Inr v, b') \<and> sshbuf_wf b' \<and> same_frame b b' \<and> contents b' = rest"
    using advance [of b 4] by (simp add: get_int_wf peek_poke_u32 del: length_contents)
qed

interpretation u16_field:
  wire_field "sshbuf_put_u16 am" sshbuf_get_u16 "\<lambda>v. POKE_U16 (ucast v)" "\<lambda>_. True" True
  for am
proof unfold_locales
  fix b v r b' assume "sshbuf_wf b" "sshbuf_put_u16 am v b = (r, b')"
  then show "sshbuf_wf b' \<and> same_frame b b' \<and>
      contents b' = (case r of Inr _ \<Rightarrow> contents b @ POKE_U16 (ucast v) | Inl _ \<Rightarrow> contents b)"
    using put_cases [of b am "POKE_U16 (ucast v)" r b'] by (simp add: put_int_eq)
next
  fix b and v :: u16 and rest assume "sshbuf_wf b" "contents b = POKE_U16 (ucast v) @ rest"
  then show "\<exists>b'. sshbuf_get_u16 b = (Inr v, b') \<and> sshbuf_wf b' \<and> same_frame b b' \<and> contents b' = rest"
    using advance [of b 2] by (simp add: get_int_wf peek_poke_u16 del: length_contents)
qed

interpretation u8_field: wire_field "sshbuf_put_u8 am" sshbuf_get_u8 "\<lambda>v. [v]" "\<lambda>_. True" True
  for am
proof unfold_locales
  fix b v r b' assume "sshbuf_wf b" "sshbuf_put_u8 am v b = (r, b')"
  then show "sshbuf_wf b' \<and> same_frame b b' \<and>
      contents b' = (case r of Inr _ \<Rightarrow> contents b @ [v] | Inl _ \<Rightarrow> contents b)"
    using put_cases [of b am "[v]" r b'] by (simp add: put_int_eq)
next
  fix b v rest assume "sshbuf_wf b" "contents b = [v] @ rest"
  then show "\<exists>b'. sshbuf_get_u8 b = (Inr v, b') \<and> sshbuf_wf b' \<and> same_frame b b' \<and> contents b' = rest"
    using advance [of b 1] by (simp add: get_int_wf del: length_contents)
qed

lemma get_string_reads:
  assumes "\<forall>n. am n \<noteq> None" "sshbuf_wf b" "length v < 2 ^ 32" "contents b = wire_string v @ rest"
  shows "\<exists>b'. sshbuf_get_string am b = (Inr v, b') \<and> sshbuf_wf b' \<and> same_frame b b' \<and> contents b' = rest"
  using assms wire_len_string [OF assms(3), of rest] wire_complete_string [OF assms(3), of rest]
    advance [OF assms(2), of "4 + length v"]
  by (simp add: get_string_wf Let_def del: length_contents)

lemma get_cstring_reads:
  assumes "\<forall>n. am n \<noteq> None" "sshbuf_wf b" "0 \<notin> set v" "length v < 2 ^ 32"
    "contents b = wire_string v @ rest"
  shows "\<exists>b'. sshbuf_get_cstring am b = (Inr v, b') \<and> sshbuf_wf b' \<and> same_frame b b' \<and> contents b' = rest"
proof -
  have "\<not> nul_inside v" using assms(3) by (auto simp: nul_inside_def dest: in_set_butlastD)
  then show ?thesis
    using assms wire_len_string [OF assms(4), of rest] wire_complete_string [OF assms(4), of rest]
      advance [OF assms(2), of "4 + length v"]
    by (simp add: get_cstring_wf Let_def del: length_contents)
qed

lemma c_str_id [simp]: "0 \<notin> set v \<Longrightarrow> c_str v = v"
  by (auto simp: c_str_def takeWhile_eq_all_conv)

interpretation string_field:
  wire_field "sshbuf_put_string am" "sshbuf_get_string am'" wire_string
    "\<lambda>v. length v < 2 ^ 32" "\<forall>n. am' n \<noteq> None"
  for am am'
  using put_string_cases get_string_reads by unfold_locales blast+

interpretation cstring_field:
  wire_field "sshbuf_put_cstring am" "sshbuf_get_cstring am'" "\<lambda>v. wire_string (c_str v)"
    "\<lambda>v. 0 \<notin> set v \<and> length v < 2 ^ 32" "\<forall>n. am' n \<noteq> None"
  for am am'
proof unfold_locales
  fix b v r b' assume "sshbuf_wf b" "sshbuf_put_cstring am v b = (r, b')"
  then show "sshbuf_wf b' \<and> same_frame b b' \<and>
      contents b' = (case r of Inr _ \<Rightarrow> contents b @ wire_string (c_str v) | Inl _ \<Rightarrow> contents b)"
    using put_string_cases [of b am "c_str v" r b'] by (simp add: sshbuf_put_cstring_def)
next
  fix b v rest assume "\<forall>n. am' n \<noteq> None" "sshbuf_wf b" "0 \<notin> set v \<and> length v < 2 ^ 32"
    "contents b = wire_string (c_str v) @ rest"
  then show "\<exists>b'. sshbuf_get_cstring am' b = (Inr v, b') \<and> sshbuf_wf b' \<and> same_frame b b' \<and> contents b' = rest"
    using get_cstring_reads [of am' b v rest] by simp
qed


section \<open>Messages\<close>

text \<open>A message is a sequence of typed fields, each written and read by the function of its type.\<close>

datatype field = F_u8 byte | F_u16 u16 | F_u32 u32 | F_u64 u64 | F_string "byte list" | F_cstring "byte list"

fun put_field :: "allocator \<Rightarrow> field \<Rightarrow> (ssh_err, sshbuf, unit) action" where
  "put_field am (F_u8 v) = sshbuf_put_u8 am v"
| "put_field am (F_u16 v) = sshbuf_put_u16 am v"
| "put_field am (F_u32 v) = sshbuf_put_u32 am v"
| "put_field am (F_u64 v) = sshbuf_put_u64 am v"
| "put_field am (F_string v) = sshbuf_put_string am v"
| "put_field am (F_cstring v) = sshbuf_put_cstring am v"

text \<open>The reader is chosen by the type of field the message has at this place.\<close>

fun get_field :: "allocator \<Rightarrow> field \<Rightarrow> (ssh_err, sshbuf, field) action" where
  "get_field am (F_u8 _) = act_bind sshbuf_get_u8 (\<lambda>v. act_return (F_u8 v))"
| "get_field am (F_u16 _) = act_bind sshbuf_get_u16 (\<lambda>v. act_return (F_u16 v))"
| "get_field am (F_u32 _) = act_bind sshbuf_get_u32 (\<lambda>v. act_return (F_u32 v))"
| "get_field am (F_u64 _) = act_bind sshbuf_get_u64 (\<lambda>v. act_return (F_u64 v))"
| "get_field am (F_string _) = act_bind (sshbuf_get_string am) (\<lambda>v. act_return (F_string v))"
| "get_field am (F_cstring _) = act_bind (sshbuf_get_cstring am) (\<lambda>v. act_return (F_cstring v))"

fun enc_field :: "field \<Rightarrow> byte list" where
  "enc_field (F_u8 v) = [v]"
| "enc_field (F_u16 v) = POKE_U16 (ucast v)"
| "enc_field (F_u32 v) = POKE_U32 (ucast v)"
| "enc_field (F_u64 v) = POKE_U64 v"
| "enc_field (F_string v) = wire_string v"
| "enc_field (F_cstring v) = wire_string (c_str v)"

fun field_ok :: "field \<Rightarrow> bool" where
  "field_ok (F_string v) \<longleftrightarrow> length v < 2 ^ 32"
| "field_ok (F_cstring v) \<longleftrightarrow> 0 \<notin> set v \<and> length v < 2 ^ 32"
| "field_ok _ \<longleftrightarrow> True"

fun get_fields :: "allocator \<Rightarrow> field list \<Rightarrow> (ssh_err, sshbuf, field list) action" where
  "get_fields am [] = act_return []"
| "get_fields am (f # fs) =
     act_bind (get_field am f) (\<lambda>v. act_bind (get_fields am fs) (\<lambda>vs. act_return (v # vs)))"

lemma get_field_reads:
  assumes "\<forall>n. am n \<noteq> None" "sshbuf_wf b" "field_ok f" "contents b = enc_field f @ rest"
  shows "\<exists>b'. get_field am f b = (Inr f, b') \<and> sshbuf_wf b' \<and> same_frame b b' \<and> contents b' = rest"
proof (cases f)
  case (F_u8 v)
  then show ?thesis using assms u8_field.get_reads [of b v rest] by (auto simp: act_simps)
next
  case (F_u16 v)
  then show ?thesis using assms u16_field.get_reads [of b v rest] by (auto simp: act_simps)
next
  case (F_u32 v)
  then show ?thesis using assms u32_field.get_reads [of b v rest] by (auto simp: act_simps)
next
  case (F_u64 v)
  then show ?thesis using assms u64_field.get_reads [of b v rest] by (auto simp: act_simps)
next
  case (F_string v)
  then show ?thesis using assms string_field.get_reads [of am b v rest] by (auto simp: act_simps)
next
  case (F_cstring v)
  then show ?thesis using assms cstring_field.get_reads [of am b v rest] by (auto simp: act_simps)
qed

lemma put_field_appends:
  assumes "sshbuf_wf b" "put_field am f b = (r, b')"
  shows "sshbuf_wf b' \<and> same_frame b b' \<and>
    contents b' = (case r of Inr _ \<Rightarrow> contents b @ enc_field f | Inl _ \<Rightarrow> contents b)"
proof (cases f)
  case (F_u8 v)
  then show ?thesis using u8_field.put_appends [OF assms(1), of am v r b'] assms(2) by (cases r) auto
next
  case (F_u16 v)
  then show ?thesis using u16_field.put_appends [OF assms(1), of am v r b'] assms(2) by (cases r) auto
next
  case (F_u32 v)
  then show ?thesis using u32_field.put_appends [OF assms(1), of am v r b'] assms(2) by (cases r) auto
next
  case (F_u64 v)
  then show ?thesis using u64_field.put_appends [OF assms(1), of am v r b'] assms(2) by (cases r) auto
next
  case (F_string v)
  then show ?thesis using string_field.put_appends [OF assms(1), of am v r b'] assms(2) by (cases r) auto
next
  case (F_cstring v)
  then show ?thesis using cstring_field.put_appends [OF assms(1), of am v r b'] assms(2) by (cases r) auto
qed

interpretation message_field:
  wire_field "put_field am" "get_field am' f" enc_field "\<lambda>v. v = f \<and> field_ok f" "\<forall>n. am' n \<noteq> None"
  for am am' f
  using put_field_appends get_field_reads by unfold_locales blast+

lemma get_fields_read:
  assumes "\<forall>n. am n \<noteq> None" "sshbuf_wf b" "\<forall>f\<in>set fs. field_ok f"
    "contents b = concat (map enc_field fs) @ rest"
  shows "\<exists>b'. get_fields am fs b = (Inr fs, b') \<and> sshbuf_wf b' \<and> same_frame b b' \<and> contents b' = rest"
  using assms
proof (induction fs arbitrary: b)
  case Nil
  then show ?case by (simp add: act_simps)
next
  case (Cons f fs)
  have "contents b = enc_field f @ (concat (map enc_field fs) @ rest)" using Cons.prems(4) by simp
  from get_field_reads [OF Cons.prems(1,2) _ this] Cons.prems(3)
  obtain b1 where b1: "get_field am f b = (Inr f, b1)" "sshbuf_wf b1" "same_frame b b1"
    "contents b1 = concat (map enc_field fs) @ rest" by auto
  from Cons.IH [OF Cons.prems(1) b1(2) _ b1(4)] Cons.prems(3)
  obtain b2 where "get_fields am fs b1 = (Inr fs, b2)" "sshbuf_wf b2"
    "same_frame b1 b2" "contents b2 = rest" by auto
  with b1 show ?case by (auto simp: act_simps intro: same_frame_trans)
qed

lemma put_succeeds:
  assumes "sshbuf_wf b" "sshbuf_writable b" "length (contents b) + length v \<le> sb_max_size b"
    "\<forall>n. am n \<noteq> None"
  shows "fst (sshbuf_put am v b) = Inr ()"
  using put_error [OF assms(1), of am v] assms
  by (cases "sshbuf_put am v b"; cases "fst (sshbuf_put am v b)") auto

lemma put_field_eq:
  assumes "sshbuf_wf b" "length (enc_field f) \<le> SSHBUF_SIZE_MAX"
  shows "put_field am f b = sshbuf_put am (enc_field f) b"
  using assms put_string_eq [OF assms(1)]
  by (cases f) (simp_all add: put_int_eq sshbuf_put_cstring_def SSHBUF_SIZE_MAX_def)

text \<open>Writing a message that fits succeeds when memory does not run out.\<close>

lemma put_fields_succeed:
  assumes "sshbuf_wf b" "sshbuf_writable b" "\<forall>n. am n \<noteq> None"
    "length (contents b) + length (concat (map enc_field fs)) \<le> sb_max_size b"
  shows "fst (act_all (map (put_field am) fs) b) = Inr ()"
  using assms
proof (induction fs arbitrary: b)
  case Nil
  then show ?case by (simp add: act_simps)
next
  case (Cons f fs)
  obtain r b1 where p: "put_field am f b = (r, b1)" by fastforce
  have "length (enc_field f) \<le> SSHBUF_SIZE_MAX" using Cons.prems(4) wf_bounds [OF Cons.prems(1)] by simp
  then have "sshbuf_put am (enc_field f) b = (r, b1)" using p put_field_eq [OF Cons.prems(1)] by simp
  then have r: "r = Inr ()" using put_succeeds [OF Cons.prems(1,2) _ Cons.prems(3), of "enc_field f"] Cons.prems(4) by simp
  then have b1: "sshbuf_wf b1" "same_frame b b1" "contents b1 = contents b @ enc_field f"
    using put_field_appends [OF Cons.prems(1) p] by auto
  then have "sshbuf_writable b1" "sb_max_size b1 = sb_max_size b"
    using Cons.prems(2) by (auto simp: same_frame_def sshbuf_writable_def)
  then have "fst (act_all (map (put_field am) fs) b1) = Inr ()"
    using Cons.IH [OF b1(1) _ Cons.prems(3)] Cons.prems(4) b1(3) by (simp del: length_contents)
  then show ?case using p r by (simp add: act_simps)
qed

text \<open>A buffer with given data, for examples.\<close>

definition filled_buf :: "byte list \<Rightarrow> sshbuf" where
  "filled_buf c = snd (sshbuf_put alloc_zero c fresh_buf)"

lemma filled_buf:
  assumes "length c \<le> SSHBUF_SIZE_MAX"
  shows "sshbuf_wf (filled_buf c)" "contents (filled_buf c) = c" "sshbuf_writable (filled_buf c)"
    "sb_max_size (filled_buf c) = SSHBUF_SIZE_MAX"
proof -
  have ok: "fst (sshbuf_put alloc_zero c fresh_buf) = Inr ()"
    using put_succeeds [OF fresh_buf(1)] fresh_buf assms by (simp add: alloc_zero_def del: length_contents)
  then have "sshbuf_put alloc_zero c fresh_buf = (Inr (), filled_buf c)"
    by (simp add: filled_buf_def prod_eq_iff)
  note p = put_cases [OF fresh_buf(1) this]
  show "sshbuf_wf (filled_buf c)" "contents (filled_buf c) = c" "sshbuf_writable (filled_buf c)"
    "sb_max_size (filled_buf c) = SSHBUF_SIZE_MAX"
    using p fresh_buf by (auto simp: same_frame_def sshbuf_writable_def)
qed

lemma alloc_zero_total: "\<forall>n. alloc_zero n \<noteq> None"
  by (simp add: alloc_zero_def)

section \<open>Copying a string between buffers\<close>

lemma get_stringb_wf:
  assumes "sshbuf_wf b" "sshbuf_wf v"
  shows "sshbuf_get_stringb am (b, v) =
    (let c = contents b; s = take (wire_len c) (drop 4 c) in
     if \<not> wire_complete c then (Inl SSH_ERR_MESSAGE_INCOMPLETE, (b, v))
     else case sshbuf_put am s v of
         (Inl e, v') \<Rightarrow> (Inl e, (advance 4 b, v'))
       | (Inr _, v') \<Rightarrow> (Inr (), (advance (4 + wire_len c) b, v')))"
proof (cases "wire_complete (contents b)")
  case True
  then have le: "4 \<le> length (contents b)" "4 + wire_len (contents b) \<le> length (contents b)"
    by (simp_all add: wire_complete_def)
  note adv = advance [OF assms(1) le(1)]
  have len: "unat (PEEK_U32 (contents b)) = wire_len (contents b)" by (simp add: wire_len_def)
  have twice: "advance n (advance 4 b) = advance (4 + n) b" for n by (simp add: advance_def ac_simps)
  have s: "length (take (wire_len (contents b)) (drop 4 (contents b))) = wire_len (contents b)"
    using le by simp
  show ?thesis using True le assms adv s
    by (auto simp: sshbuf_get_stringb_def peek_string_wf get_int_wf get_wf len twice Let_def
        sshbuf_put_def act_simps simp del: length_contents length_take length_drop
        split: prod.splits sum.splits)
next
  case False
  then show ?thesis using assms by (simp add: sshbuf_get_stringb_def peek_string_wf Let_def)
qed

section \<open>Properties\<close>

text \<open>\<open>sshbuf_put\<close> either appends exactly the given bytes or leaves the data as it was; it
  fails only for a read-only or shared buffer, past the limit, or when memory runs out.\<close>

theorem sshbuf_put_correct:
  assumes "sshbuf_wf b" and "sshbuf_put am v b = (r, b')"
  shows "sshbuf_wf b' \<and> same_frame b b' \<and>
    (case r of
       Inr _ \<Rightarrow> contents b' = contents b @ v \<and> length (contents b @ v) \<le> sb_max_size b'
     | Inl e \<Rightarrow> contents b' = contents b \<and>
         (if \<not> sshbuf_writable b then e = SSH_ERR_BUFFER_READ_ONLY
          else if length (contents b @ v) > sb_max_size b then e = SSH_ERR_NO_BUFFER_SPACE
          else e = SSH_ERR_ALLOC_FAIL \<and> (\<exists>n. am n = None)))"
proof (cases r)
  case (Inl e)
  then show ?thesis using put_cases [OF assms] put_error [OF assms(1), of am v e b'] assms(2) by simp
next
  case (Inr u)
  then have "length (contents b') \<le> sb_max_size b'"
    using put_cases(1) [OF assms] wf_bounds [of b'] by simp
  then show ?thesis using put_cases [OF assms] Inr by simp
qed

theorem sshbuf_put_correct_witness:
  "contents (snd (sshbuf_put alloc_zero [1, 2, 3] fresh_buf)) = [1, 2, 3]"
proof -
  obtain r b' where run: "sshbuf_put alloc_zero [1, 2, 3] fresh_buf = (r, b')" by fastforce
  show ?thesis using sshbuf_put_correct [OF fresh_buf(1) run] run fresh_buf
    by (cases r) (simp_all add: SSHBUF_SIZE_MAX_def alloc_zero_def)
qed


text \<open>C19: a message of any fields that fits an empty writable buffer is written, and read back
  field by field, in the same order and with nothing left over.\<close>

theorem sshbuf_message_roundtrip:
  assumes "sshbuf_wf b" "contents b = []" "sshbuf_writable b"
    and "\<forall>f\<in>set fs. field_ok f" "length (concat (map enc_field fs)) \<le> sb_max_size b"
    and "\<forall>n. am n \<noteq> None" "\<forall>n. am' n \<noteq> None"
  shows "\<exists>b' b''. act_all (map (put_field am) fs) b = (Inr (), b') \<and>
    contents b' = concat (map enc_field fs) \<and>
    get_fields am' fs b' = (Inr fs, b'') \<and> sshbuf_wf b'' \<and> contents b'' = []"
proof -
  have "fst (act_all (map (put_field am) fs) b) = Inr ()"
    using put_fields_succeed [OF assms(1,3,6)] assms(2,5) by (simp del: length_contents)
  then obtain b' where w: "act_all (map (put_field am) fs) b = (Inr (), b')"
    by (metis prod.collapse)
  have b': "sshbuf_wf b'" "contents b' = concat (map enc_field fs) @ []"
    using message_field.put_list [OF assms(1) w] assms(2) by auto
  from get_fields_read [OF assms(7) b'(1) assms(4) b'(2)] w b' show ?thesis by auto
qed

theorem sshbuf_message_roundtrip_witness:
  "\<exists>b' b''. act_all (map (put_field alloc_zero) [F_u8 20, F_string [1, 2], F_u32 7, F_cstring [65]]) fresh_buf
      = (Inr (), b') \<and>
    get_fields alloc_zero [F_u8 20, F_string [1, 2], F_u32 7, F_cstring [65]] b'
      = (Inr [F_u8 20, F_string [1, 2], F_u32 7, F_cstring [65]], b'') \<and> contents b'' = []"
  using sshbuf_message_roundtrip [OF fresh_buf(1), of "[F_u8 20, F_string [1, 2], F_u32 7, F_cstring [65]]"
      alloc_zero alloc_zero] fresh_buf
  by (auto simp: alloc_zero_def SSHBUF_SIZE_MAX_def simp del: length_contents)

text \<open>\<open>sshbuf_get_string\<close> on data of any kind: it returns exactly the bytes a complete length
  prefix announces and moves behind them, and without such a prefix it fails and consumes
  nothing.\<close>

theorem sshbuf_get_string_correct:
  assumes "sshbuf_wf b" "sshbuf_get_string am b = (r, b')"
  shows "sshbuf_wf b' \<and>
    (case r of
       Inr s \<Rightarrow> contents b = wire_string s @ contents b' \<and> length s < 2 ^ 32
     | Inl e \<Rightarrow> if wire_complete (contents b) then e = SSH_ERR_ALLOC_FAIL
              else e = SSH_ERR_MESSAGE_INCOMPLETE \<and> b' = b)"
proof (cases "wire_complete (contents b)")
  case True
  note w = wire_complete_split [OF True]
  have adv: "sshbuf_wf (advance (4 + wire_len (contents b)) b)"
    "contents (advance (4 + wire_len (contents b)) b) = drop (4 + wire_len (contents b)) (contents b)"
    using advance [OF assms(1), of "4 + wire_len (contents b)"] True by (simp_all add: wire_complete_def)
  show ?thesis using assms adv w True
    by (auto simp: get_string_wf Let_def simp del: length_contents split: if_splits)
next
  case False
  then show ?thesis using assms by (auto simp: get_string_wf)
qed

theorem sshbuf_get_string_correct_witness:
  "\<exists>b'. sshbuf_get_string alloc_zero (filled_buf [0, 0, 0, 2, 5, 6, 9]) = (Inr [5, 6], b') \<and>
     [0, 0, 0, 2, 5, 6, 9] = wire_string [5, 6] @ contents b'"
proof -
  have wf: "sshbuf_wf (filled_buf [0, 0, 0, 2, 5, 6, 9])"
    and c: "contents (filled_buf [0, 0, 0, 2, 5, 6, 9]) = [0, 0, 0, 2, 5, 6, 9]"
    by (rule filled_buf; simp add: SSHBUF_SIZE_MAX_def)+
  have "contents (filled_buf [0, 0, 0, 2, 5, 6, 9]) = wire_string [5, 6] @ [9]"
    unfolding c by code_simp
  from get_string_reads [OF alloc_zero_total wf _ this]
  obtain b' where run: "sshbuf_get_string alloc_zero (filled_buf [0, 0, 0, 2, 5, 6, 9]) = (Inr [5, 6], b')"
    by auto
  show ?thesis using sshbuf_get_string_correct [OF wf run] run c by simp
qed

text \<open>a C string that \<open>sshbuf_get_cstring\<close> returns has no zero byte before its last one; it
  refuses every other string without consuming it.\<close>

theorem sshbuf_get_cstring_correct:
  assumes "sshbuf_wf b" "sshbuf_get_cstring am b = (r, b')"
  shows "sshbuf_wf b' \<and>
    (case r of
       Inr s \<Rightarrow> contents b = wire_string s @ contents b' \<and> length s < 2 ^ 32 \<and> 0 \<notin> set (butlast s)
     | Inl e \<Rightarrow>
         if \<not> wire_complete (contents b) then e = SSH_ERR_MESSAGE_INCOMPLETE \<and> b' = b
         else if 0 \<in> set (butlast (take (wire_len (contents b)) (drop 4 (contents b))))
         then e = SSH_ERR_INVALID_FORMAT \<and> b' = b
         else e = SSH_ERR_ALLOC_FAIL)"
proof (cases "wire_complete (contents b)")
  case True
  note w = wire_complete_split [OF True]
  have adv: "sshbuf_wf (advance (4 + wire_len (contents b)) b)"
    "contents (advance (4 + wire_len (contents b)) b) = drop (4 + wire_len (contents b)) (contents b)"
    using advance [OF assms(1), of "4 + wire_len (contents b)"] True by (simp_all add: wire_complete_def)
  define s where "s = take (wire_len (contents b)) (drop 4 (contents b))"
  have rd: "sshbuf_get_cstring am b =
    (if nul_inside s then (Inl SSH_ERR_INVALID_FORMAT, b)
     else if am (wire_len (contents b) + 1) = None then (Inl SSH_ERR_ALLOC_FAIL, advance (4 + wire_len (contents b)) b)
     else (Inr s, advance (4 + wire_len (contents b)) b))"
    using True assms(1) by (simp add: get_cstring_wf Let_def s_def)
  have whole: "contents b = wire_string s @ drop (4 + wire_len (contents b)) (contents b)" "length s < 2 ^ 32"
    using w by (simp_all add: s_def)
  show ?thesis unfolding s_def [symmetric] using assms adv rd whole True
    by (cases "nul_inside s") (auto simp: nul_inside_def split: if_splits)
next
  case False
  then show ?thesis using assms by (auto simp: get_cstring_wf Let_def)
qed

theorem sshbuf_get_cstring_correct_witness:
  "fst (sshbuf_get_cstring alloc_zero (filled_buf [0, 0, 0, 3, 5, 0, 9])) = Inl SSH_ERR_INVALID_FORMAT"
proof -
  have wf: "sshbuf_wf (filled_buf [0, 0, 0, 3, 5, 0, 9])"
    and c: "contents (filled_buf [0, 0, 0, 3, 5, 0, 9]) = [0, 0, 0, 3, 5, 0, 9]"
    by (rule filled_buf; simp add: SSHBUF_SIZE_MAX_def)+
  have w: "wire_complete [0, 0, 0, 3, 5, 0, 9]" "wire_len [0, 0, 0, 3, 5, 0, 9] = 3" by code_simp+
  have nul: "s = [5, 0, 9]" if "[0, 0, 0, 3, 5, 0, 9] = wire_string s @ r" "length s < 2 ^ 32" for s r
  proof -
    have "length s = 3" using that(1) wire_len_string [OF that(2), of r] w(2) by metis
    moreover have "s @ r = [5, 0, 9]" using drop_wire_string [of s r] unfolding that(1) [symmetric] by simp
    then have "take 3 (s @ r) = [5, 0, 9]" by simp
    ultimately show ?thesis by simp
  qed
  obtain r b' where run: "sshbuf_get_cstring alloc_zero (filled_buf [0, 0, 0, 3, 5, 0, 9]) = (r, b')" by fastforce
  show ?thesis using sshbuf_get_cstring_correct [OF wf run] run c w nul by (cases r) fastforce+
qed

text \<open>\<open>sshbuf_get_stringb\<close> moves a string from the front of one buffer to the end of another:
  on success both lose nothing else. When room cannot be reserved the target is unchanged,
  but the length prefix of the source is already gone.\<close>

theorem sshbuf_get_stringb_correct:
  assumes "sshbuf_wf b" "sshbuf_wf v" "sshbuf_get_stringb am (b, v) = (r, (b', v'))"
  shows "sshbuf_wf b' \<and> sshbuf_wf v' \<and>
    (case r of
       Inr _ \<Rightarrow> (\<exists>s. contents b = wire_string s @ contents b' \<and> contents v' = contents v @ s)
     | Inl e \<Rightarrow> contents v' = contents v \<and>
         (if wire_complete (contents b) then contents b' = drop 4 (contents b)
          else e = SSH_ERR_MESSAGE_INCOMPLETE \<and> b' = b))"
proof (cases "wire_complete (contents b)")
  case True
  define s where "s = take (wire_len (contents b)) (drop 4 (contents b))"
  obtain q w where put: "sshbuf_put am s v = (q, w)" by fastforce
  note pc = put_cases [OF assms(2) put]
  have adv: "n \<le> length (contents b) \<Longrightarrow> sshbuf_wf (advance n b) \<and> contents (advance n b) = drop n (contents b)" for n
    using advance [OF assms(1)] by simp
  have le: "4 \<le> length (contents b)" "4 + wire_len (contents b) \<le> length (contents b)"
    using True by (simp_all add: wire_complete_def)
  have whole: "contents b = wire_string s @ drop (4 + wire_len (contents b)) (contents b)"
    using wire_complete_split [OF True] by (simp add: s_def)
  show ?thesis
  proof (cases q)
    case (Inl e)
    then have "r = Inl e" "b' = advance 4 b" "v' = w"
      using assms(3) put True by (simp_all add: get_stringb_wf [OF assms(1,2)] Let_def s_def)
    then show ?thesis using pc adv [OF le(1)] True Inl by simp
  next
    case (Inr u)
    then have "r = Inr ()" "b' = advance (4 + wire_len (contents b)) b" "v' = w"
      using assms(3) put True by (simp_all add: get_stringb_wf [OF assms(1,2)] Let_def s_def)
    moreover have "contents w = contents v @ s" using pc(3) Inr by simp
    ultimately show ?thesis using pc(1) adv [OF le(2)] whole by auto
  qed
next
  case False
  then show ?thesis using assms by (auto simp: get_stringb_wf)
qed

theorem sshbuf_get_stringb_correct_witness:
  "sshbuf_wf (filled_buf [0, 0, 0, 1, 5]) \<and> sshbuf_wf (filled_buf [7]) \<and>
   (\<exists>b' v' s. sshbuf_get_stringb alloc_zero (filled_buf [0, 0, 0, 1, 5], filled_buf [7]) = (Inr (), (b', v')) \<and>
      [0, 0, 0, 1, 5] = wire_string s @ contents b' \<and> contents v' = [7] @ s)"
proof -
  have b: "sshbuf_wf (filled_buf [0, 0, 0, 1, 5])" "contents (filled_buf [0, 0, 0, 1, 5]) = [0, 0, 0, 1, 5]"
    and v: "sshbuf_wf (filled_buf [7])" "contents (filled_buf [7]) = [7]" "sshbuf_writable (filled_buf [7])"
      "sb_max_size (filled_buf [7]) = SSHBUF_SIZE_MAX"
    by (rule filled_buf; simp add: SSHBUF_SIZE_MAX_def)+
  have w: "wire_complete [0, 0, 0, 1, 5]" "wire_len [0, 0, 0, 1, 5] = 1" by code_simp+
  have "fst (sshbuf_put alloc_zero [5] (filled_buf [7])) = Inr ()"
    using put_succeeds [OF v(1,3) _ alloc_zero_total, of "[5]"] v(2,4) by (simp add: SSHBUF_SIZE_MAX_def)
  then obtain x where "sshbuf_put alloc_zero [5] (filled_buf [7]) = (Inr (), x)" by (metis prod.collapse)
  then obtain b' v' where run: "sshbuf_get_stringb alloc_zero (filled_buf [0, 0, 0, 1, 5], filled_buf [7]) = (Inr (), (b', v'))"
    using w by (auto simp: get_stringb_wf b v Let_def split: prod.splits sum.splits)
  show ?thesis using sshbuf_get_stringb_correct [OF b(1) v(1) run] run b v by auto
qed

text \<open>The reading of a hexadecimal digit, for the statement below.\<close>

definition hex_value :: "char \<Rightarrow> nat" where
  "hex_value c = (if of_char c \<le> (57 :: nat) then of_char c - 48 else of_char c - 87)"

fun unhex :: "string \<Rightarrow> byte list" where
  "unhex (a # b # cs) = of_nat (16 * hex_value a + hex_value b) # unhex cs"
| "unhex _ = []"


lemma hex_value_digit: "i < 16 \<Longrightarrow> hex_value (hex_digits ! i) = i"
proof -
  have "\<forall>i \<in> set [0..<16]. hex_value (hex_digits ! i) = i" by code_simp
  then show "i < 16 \<Longrightarrow> hex_value (hex_digits ! i) = i" by simp
qed

lemma unat_nibbles:
  fixes x :: byte
  shows "unat (drop_bit 4 x AND 0xf) < 16" "unat (x AND 0xf) < 16"
    "16 * unat (drop_bit 4 x AND 0xf) + unat (x AND 0xf) = unat x"
proof -
  have m: "(0xf :: byte) = mask 4" by (simp add: mask_eq_exp_minus_1)
  have tb: "unat (y AND 0xf) = unat y mod 16" for y :: byte
    unfolding m take_bit_eq_mask [symmetric] by (simp add: unsigned_take_bit_eq) (simp add: take_bit_eq_mod)
  have ub: "unat x < 256" by (rule order_less_le_trans [OF unsigned_less]) simp
  have lo: "unat (x AND 0xf) = unat x mod 16" by (rule tb)
  have hi: "unat (drop_bit 4 x AND 0xf) = unat x div 16 mod 16"
    unfolding tb by (simp add: unsigned_drop_bit_eq) (simp add: drop_bit_eq_div take_bit_nat_eq_self ub)
  have "unat x div 16 < 16" using ub by simp
  then show "unat (drop_bit 4 x AND 0xf) < 16" "unat (x AND 0xf) < 16"
    "16 * unat (drop_bit 4 x AND 0xf) + unat (x AND 0xf) = unat x"
    by (simp_all add: lo hi)
qed

lemma unhex_dtob16: "unhex (dtob16_loop xs) = xs"
  by (induction xs) (simp_all add: hex_value_digit unat_nibbles)

lemma length_dtob16_loop: "length (dtob16_loop xs) = 2 * length xs"
  by (induction xs) simp_all

lemma set_dtob16_loop: "set (dtob16_loop xs) \<subseteq> set hex_digits"
proof (induction xs)
  case (Cons x xs)
  have "length hex_digits = 16" by (simp add: hex_digits_def)
  then show ?case using Cons unat_nibbles(1,2) [of x] by simp
qed simp

text \<open>\<open>sshbuf_dtob16\<close> writes two hexadecimal digits for each byte, from which the data can be
  read back.\<close>

theorem sshbuf_dtob16_correct:
  assumes "sshbuf_wf b" "\<forall>n. am n \<noteq> None"
  shows "\<exists>s. sshbuf_dtob16 am b = Some s \<and> length s = 2 * length (contents b) \<and>
    set s \<subseteq> set hex_digits \<and> unhex s = contents b"
proof (cases "contents b = []")
  case True
  then show ?thesis using assms by (auto simp: sshbuf_dtob16_def Let_def simp del: length_contents)
next
  case False
  then have "sshbuf_dtob16 am b = Some (dtob16_loop (contents b))"
    using contents_small [OF assms(1)] assms
    by (auto simp: sshbuf_dtob16_def Let_def sshbuf_bytes_wf malloc_block_def SIZE_MOD_def
        simp del: length_contents)
  then show ?thesis by (simp add: unhex_dtob16 length_dtob16_loop set_dtob16_loop del: length_contents)
qed

theorem sshbuf_dtob16_correct_witness:
  "\<exists>s. sshbuf_dtob16 alloc_zero (filled_buf [202, 254]) = Some s \<and> length s = 4 \<and> unhex s = [202, 254]"
proof -
  have wf: "sshbuf_wf (filled_buf [202, 254])" and c: "contents (filled_buf [202, 254]) = [202, 254]"
    by (rule filled_buf; simp add: SSHBUF_SIZE_MAX_def)+
  from sshbuf_dtob16_correct [OF wf alloc_zero_total] show ?thesis
    by (auto simp: c simp del: length_contents)
qed

end
