(* ===== verification/Sshbuf_Store.thy ===== *)
theory Sshbuf_Store
  imports Sshbuf_Getput "HOL-Library.Monad_Syntax"
begin

text \<open>
  Buffers that share data: \<open>sshbuf_set_parent\<close>, \<open>sshbuf_fromb\<close>, \<open>sshbuf_free\<close> of
  \<open>ssh/sshbuf.c\<close> and \<open>sshbuf_froms\<close> of \<open>ssh/sshbuf-getput-basic.c\<close>, on a store of buffers. A
  buffer made by \<open>sshbuf_fromb\<close> or \<open>sshbuf_froms\<close> is a view: its data lies in the block of
  another buffer, which its reference count is meant to keep alive.
\<close>

section \<open>The store\<close>

type_synonym addr = nat

text \<open>
  \<open>nd_base\<close> records in whose block the data pointer of the buffer lies: the buffer itself for
  a block of its own, for a view the buffer that owned the block when the view was made.
\<close>

record node =
  nd_buf :: sshbuf
  nd_base :: addr

type_synonym heap = "addr \<Rightarrow> node option"

text \<open>
  Results are \<open>None\<close> where the code reads a freed buffer or recurses for ever. The sanity check
  of a pointer: NULL is insane.
\<close>

definition sane_at :: "heap \<Rightarrow> addr option \<Rightarrow> unit res option" where
  "sane_at h p =
     (case p of None \<Rightarrow> Some (Inl SSH_ERR_INTERNAL_ERROR)
      | Some a \<Rightarrow> map_option (\<lambda>n. sshbuf_check_sanity (nd_buf n)) (h a))"

definition upd_buf :: "(sshbuf \<Rightarrow> sshbuf) \<Rightarrow> addr \<Rightarrow> heap \<Rightarrow> heap option" where
  "upd_buf f a h = map_option (\<lambda>n. h(a \<mapsto> n\<lparr>nd_buf := f (nd_buf n)\<rparr>)) (h a)"

section \<open>Operations\<close>

definition sshbuf_set_parent :: "addr option \<Rightarrow> addr option \<Rightarrow> heap \<Rightarrow> (unit res \<times> heap) option" where
  "sshbuf_set_parent child parent h = do {
     rc \<leftarrow> sane_at h child;
     case rc of Inl e \<Rightarrow> Some (Inl e, h)
     | Inr _ \<Rightarrow> do {
         rp \<leftarrow> sane_at h parent;
         case rp of Inl e \<Rightarrow> Some (Inl e, h)
         | Inr _ \<Rightarrow> do {
             h1 \<leftarrow> upd_buf (\<lambda>b. b\<lparr>sb_parent := parent\<rparr>) (the child) h;
             h2 \<leftarrow> upd_buf (\<lambda>b. b\<lparr>sb_refcount := sb_refcount b + 1\<rparr>) (the parent) h1;
             Some (Inr (), h2) } } }"

text \<open>The parent is released before the buffer's own count is looked at.\<close>

partial_function (option) sshbuf_free :: "addr option \<Rightarrow> heap \<Rightarrow> heap option" where
  "sshbuf_free p h =
     (case p of None \<Rightarrow> Some h
      | Some a \<Rightarrow> do {
          n \<leftarrow> h a;
          case sshbuf_check_sanity (nd_buf n) of Inl _ \<Rightarrow> Some h
          | Inr _ \<Rightarrow> do {
              h1 \<leftarrow> (case sb_parent (nd_buf n) of None \<Rightarrow> Some h
                    | Some q \<Rightarrow> do {
                        h' \<leftarrow> sshbuf_free (Some q) h;
                        upd_buf (\<lambda>b. b\<lparr>sb_parent := None\<rparr>) a h' });
              h2 \<leftarrow> upd_buf (\<lambda>b. b\<lparr>sb_refcount := sb_refcount b - 1\<rparr>) a h1;
              n2 \<leftarrow> h2 a;
              if sb_refcount (nd_buf n2) > 0 then Some h2 else Some (h2(a := None)) } })"

text \<open>\<open>a\<close> is the address at which the struct of the view is allocated.\<close>

definition sshbuf_fromb :: "allocator \<Rightarrow> addr \<Rightarrow> addr option \<Rightarrow> heap \<Rightarrow> (addr option \<times> heap) option" where
  "sshbuf_fromb am a p h = do {
     r \<leftarrow> sane_at h p;
     case r of Inl _ \<Rightarrow> Some (None, h)
     | Inr _ \<Rightarrow> do {
         n \<leftarrow> h (the p);
         let (q, h1) = (case sshbuf_from am (Some (sshbuf_bytes (nd_buf n))) of
             None \<Rightarrow> (None, h)
           | Some c \<Rightarrow> (Some a, h(a \<mapsto> \<lparr>nd_buf = c, nd_base = nd_base n\<rparr>)));
         (rr, h2) \<leftarrow> sshbuf_set_parent q p h1;
         case rr of Inl _ \<Rightarrow> do { h3 \<leftarrow> sshbuf_free q h2; Some (None, h3) }
         | Inr _ \<Rightarrow> Some (q, h2) } }"

definition sshbuf_froms :: "allocator \<Rightarrow> addr \<Rightarrow> addr option \<Rightarrow> heap \<Rightarrow> (addr res \<times> heap) option" where
  "sshbuf_froms am a p h =
     (case p of None \<Rightarrow> Some (Inl SSH_ERR_INVALID_ARGUMENT, h)
      | Some buf \<Rightarrow> do {
          n \<leftarrow> h buf;
          case sshbuf_peek_string_direct (nd_buf n) of Inl e \<Rightarrow> Some (Inl e, h)
          | Inr (i, len) \<Rightarrow>
            (case sshbuf_from am (Some (take len (drop i (block (nd_buf n))))) of
               None \<Rightarrow> Some (Inl SSH_ERR_ALLOC_FAIL, h)
             | Some c \<Rightarrow>
               (let h1 = h(a \<mapsto> \<lparr>nd_buf = c, nd_base = nd_base n\<rparr>);
                    (r, b') = sshbuf_consume (size_add len 4) (nd_buf n);
                    h2 = h1(buf \<mapsto> n\<lparr>nd_buf := b'\<rparr>)
                in do {
                  (r2, h3) \<leftarrow> (case r of Inl e \<Rightarrow> Some (Inl e, h2)
                              | Inr _ \<Rightarrow> sshbuf_set_parent (Some a) p h2);
                  case r2 of Inl e \<Rightarrow> do { h4 \<leftarrow> sshbuf_free (Some a) h3; Some (Inl e, h4) }
                  | Inr _ \<Rightarrow> Some (Inr a, h3) })) })"

section \<open>Releasing\<close>

definition release :: "addr \<Rightarrow> heap \<Rightarrow> heap" where
  "release a h =
     (case h a of None \<Rightarrow> h
      | Some n \<Rightarrow>
          if sb_refcount (nd_buf n) - 1 > 0
          then h(a \<mapsto> n\<lparr>nd_buf := (nd_buf n)\<lparr>sb_refcount := sb_refcount (nd_buf n) - 1\<rparr>\<rparr>)
          else h(a := None))"

lemma free_root:
  assumes "h a = Some n" "sshbuf_check_sanity (nd_buf n) = Inr ()" "sb_parent (nd_buf n) = None"
  shows "sshbuf_free (Some a) h = Some (release a h)"
  by (subst sshbuf_free.simps) (use assms in \<open>simp add: upd_buf_def release_def\<close>)

lemma free_view:
  assumes "h a = Some n" "sshbuf_check_sanity (nd_buf n) = Inr ()" "sb_parent (nd_buf n) = Some p"
    and "sb_refcount (nd_buf n) = 1" "p \<noteq> a"
    and "h p = Some m" "sshbuf_check_sanity (nd_buf m) = Inr ()" "sb_parent (nd_buf m) = None"
  shows "sshbuf_free (Some a) h = Some ((release p h)(a := None))"
  by (subst sshbuf_free.simps)
    (use assms in \<open>simp add: free_root [of h p m, OF assms(6-8)], simp add: upd_buf_def release_def\<close>)

section \<open>Who keeps a buffer alive\<close>

definition children :: "heap \<Rightarrow> addr \<Rightarrow> addr set" where
  "children h a = {c. \<exists>n. h c = Some n \<and> sb_parent (nd_buf n) = Some a}"

text \<open>
  \<open>own\<close> are the buffers somebody still has to free. A root has its own block and counts its
  owner and its views; a view lies in the block of a live root.
\<close>

definition node_ok :: "heap \<Rightarrow> addr set \<Rightarrow> addr \<Rightarrow> node \<Rightarrow> bool" where
  "node_ok h own a n \<longleftrightarrow>
     sshbuf_wf (nd_buf n) \<and>
     sb_refcount (nd_buf n) = (if a \<in> own then 1 else 0) + card (children h a) \<and>
     (case sb_parent (nd_buf n) of None \<Rightarrow> nd_base n = a
      | Some p \<Rightarrow> nd_base n = p \<and> a \<in> own \<and> (\<exists>m. h p = Some m \<and> sb_parent (nd_buf m) = None))"

definition views_ok :: "heap \<Rightarrow> addr set \<Rightarrow> bool" where
  "views_ok h own \<longleftrightarrow> finite (dom h) \<and> own \<subseteq> dom h \<and> (\<forall>a n. h a = Some n \<longrightarrow> node_ok h own a n)"

lemma views_okD: "views_ok h own \<Longrightarrow> h a = Some n \<Longrightarrow> node_ok h own a n"
  by (simp add: views_ok_def)

lemma children_sub: "children h a \<subseteq> dom h"
  by (auto simp: children_def)

lemma view_no_children:
  assumes "views_ok h own" "h a = Some n" "sb_parent (nd_buf n) = Some p"
  shows "children h a = {}" "sb_refcount (nd_buf n) = 1" "a \<in> own" "p \<noteq> a"
    "\<exists>m. h p = Some m \<and> sb_parent (nd_buf m) = None \<and> sshbuf_wf (nd_buf m)" "nd_base n = p"
proof -
  note ok = views_okD [OF assms(1)]
  show c: "children h a = {}"
  proof (rule ccontr)
    assume "children h a \<noteq> {}"
    then obtain c m where "h c = Some m" "sb_parent (nd_buf m) = Some a"
      by (auto simp: children_def)
    then show False using ok [of c m] assms by (auto simp: node_ok_def)
  qed
  show "a \<in> own" "nd_base n = p" using ok [OF assms(2)] assms(3) by (auto simp: node_ok_def)
  then show "sb_refcount (nd_buf n) = 1" using ok [OF assms(2)] c by (simp add: node_ok_def)
  from ok [OF assms(2)] assms(3) obtain m where m: "h p = Some m" "sb_parent (nd_buf m) = None"
    by (auto simp: node_ok_def)
  then show "p \<noteq> a" using assms by auto
  show "\<exists>m. h p = Some m \<and> sb_parent (nd_buf m) = None \<and> sshbuf_wf (nd_buf m)"
    using m ok [OF m(1)] by (auto simp: node_ok_def)
qed


lemma wf_refcount:
  "sshbuf_wf b \<Longrightarrow> 1 \<le> k \<Longrightarrow> k \<le> SSHBUF_REFS_MAX \<Longrightarrow> sshbuf_wf (b\<lparr>sb_refcount := k\<rparr>)"
  by (auto simp: wf_iff block_def)

lemma wf_parent: "sshbuf_wf b \<Longrightarrow> sshbuf_wf (b\<lparr>sb_parent := q\<rparr>)"
  by (auto simp: wf_iff block_def)

lemma wf_refs: "sshbuf_wf b \<Longrightarrow> 1 \<le> sb_refcount b \<and> sb_refcount b \<le> SSHBUF_REFS_MAX"
  by (auto simp: wf_iff)

lemma children_release:
  "h p = Some m \<Longrightarrow> sb_parent (nd_buf m) = None \<Longrightarrow> children (release p h) x = children h x"
  by (auto simp: children_def release_def)

lemma children_del: "children (h(a := None)) x = children h x - {a}"
  by (auto simp: children_def)

lemma finite_children: "views_ok h own \<Longrightarrow> finite (children h a)"
  unfolding views_ok_def by (blast intro: finite_subset [OF children_sub])

text \<open>A root with a reference besides the one given back survives its release.\<close>

lemma release_keeps:
  assumes "h p = Some m" "sb_refcount (nd_buf m) \<ge> 2"
  shows "release p h p = Some (m\<lparr>nd_buf := (nd_buf m)\<lparr>sb_refcount := sb_refcount (nd_buf m) - 1\<rparr>\<rparr>)"
  using assms by (auto simp: release_def)

lemma release_other: "b \<noteq> p \<Longrightarrow> release p h b = h b"
  by (auto simp: release_def split: option.splits)

lemma release_dead:
  assumes "h p = Some m" "sb_refcount (nd_buf m) = 1"
  shows "release p h p = None"
  using assms by (auto simp: release_def)

lemma views_ok_release:
  assumes ok: "views_ok h own" and a: "a \<in> own" "h a = Some n" "sb_parent (nd_buf n) = None"
  shows "views_ok (release a h) (own - {a})"
proof -
  have node: "node_ok (release a h) (own - {a}) b m" if b: "release a h b = Some m" for b m
  proof (cases "b = a")
    case True
    have na: "node_ok h own a n" by (rule views_okD [OF ok a(2)])
    then have r: "sb_refcount (nd_buf n) = 1 + card (children h a)" using a(1) by (simp add: node_ok_def)
    with b True release_dead [of h a n, OF a(2)] have two: "sb_refcount (nd_buf n) \<ge> 2" by (cases "card (children h a)") auto
    then have m: "m = n\<lparr>nd_buf := (nd_buf n)\<lparr>sb_refcount := sb_refcount (nd_buf n) - 1\<rparr>\<rparr>"
      using release_keeps [of h a n, OF a(2)] b True by simp
    have "sshbuf_wf (nd_buf m)"
      using na two wf_refs [of "nd_buf n"] by (auto simp: m node_ok_def intro: wf_refcount)
    then show ?thesis using na a r True by (simp add: node_ok_def m children_release [of h a n, OF a(2,3)])
  next
    case False
    then have hb: "h b = Some m" using b by (simp add: release_other)
    note nb = views_okD [OF ok hb]
    have "\<exists>m'. release a h p = Some m' \<and> sb_parent (nd_buf m') = None"
      if p: "sb_parent (nd_buf m) = Some p" for p
    proof (cases "p = a")
      case True
      then have "b \<in> children h a" using hb p by (auto simp: children_def)
      then have "card (children h a) \<ge> 1"
        using finite_children [OF ok, of a] card_gt_0_iff [of "children h a"] by auto
      then have "sb_refcount (nd_buf n) \<ge> 2" using views_okD [OF ok a(2)] a(1) by (simp add: node_ok_def)
      then show ?thesis using release_keeps [of h a n, OF a(2)] a(3) True by simp
    next
      case False
      then show ?thesis using nb p by (auto simp: node_ok_def release_other)
    qed
    then show ?thesis using nb False
      by (auto simp: node_ok_def children_release [of h a n, OF a(2,3)] split: option.splits)
  qed
  have "dom (release a h) \<subseteq> dom h" "dom h - {a} \<subseteq> dom (release a h)"
    using a(2) by (auto simp: release_def split: if_splits)
  then have "finite (dom (release a h))" "own - {a} \<subseteq> dom (release a h)"
    using ok unfolding views_ok_def by (blast intro: finite_subset)+
  then show ?thesis using node by (simp add: views_ok_def)
qed

lemma views_ok_free_view:
  assumes ok: "views_ok h own" and a: "h a = Some n" "sb_parent (nd_buf n) = Some p"
  shows "views_ok ((release p h)(a := None)) (own - {a})"
proof -
  note v = view_no_children [OF ok a]
  obtain m where m: "h p = Some m" "sb_parent (nd_buf m) = None" using v(5) by blast
  note np = views_okD [OF ok m(1)]
  have ap: "a \<in> children h p" using a by (auto simp: children_def)
  have cp: "card (children h p - {a}) = card (children h p) - 1" "card (children h p) \<ge> 1"
    using ap finite_children [OF ok, of p] card_gt_0_iff [of "children h p"] by auto
  have rp: "sb_refcount (nd_buf m) = (if p \<in> own then 1 else 0) + card (children h p)"
    using np by (simp add: node_ok_def)
  let ?h = "(release p h)(a := None)"
  have ch: "children ?h x = children h x - {a}" for x
    by (simp add: children_del children_release [of h p m, OF m])
  have ch_other: "children ?h x = children h x" if "x \<noteq> p" for x
  proof -
    have "a \<notin> children h x" using that a by (auto simp: children_def)
    then show ?thesis by (simp add: ch)
  qed
  have node: "node_ok ?h (own - {a}) b k" if b: "?h b = Some k" for b k
  proof (cases "b = p")
    case True
    have two: "sb_refcount (nd_buf m) \<ge> 2"
      using b True v(4) release_dead [of h p m, OF m(1)] wf_refs [of "nd_buf m"] np by (cases "sb_refcount (nd_buf m) = 1") (auto simp: node_ok_def)
    then have k: "k = m\<lparr>nd_buf := (nd_buf m)\<lparr>sb_refcount := sb_refcount (nd_buf m) - 1\<rparr>\<rparr>"
      using release_keeps [of h p m, OF m(1)] b True v(4) by simp
    have "sshbuf_wf (nd_buf k)"
      using np two wf_refs [of "nd_buf m"] by (auto simp: k node_ok_def intro: wf_refcount)
    then show ?thesis using np m rp cp True v(4) by (simp add: node_ok_def k ch)
  next
    case False
    then have hb: "h b = Some k" "b \<noteq> a" using b by (auto simp: release_other split: if_splits)
    note nb = views_okD [OF ok hb(1)]
    have "\<exists>m'. ?h q = Some m' \<and> sb_parent (nd_buf m') = None" if q: "sb_parent (nd_buf k) = Some q" for q
    proof (cases "q = p")
      case True
      then have "{a, b} \<subseteq> children h p" using hb q ap by (auto simp: children_def)
      then have "card {a, b} \<le> card (children h p)" by (rule card_mono [OF finite_children [OF ok]])
      then have "sb_refcount (nd_buf m) \<ge> 2" using rp hb(2) by simp
      then show ?thesis using release_keeps [of h p m, OF m(1)] m(2) True v(4) by simp
    next
      case False
      have "q \<noteq> a" using v(1) hb(1) q by (auto simp: children_def)
      then show ?thesis using nb q False by (auto simp: node_ok_def release_other)
    qed
    then show ?thesis using nb False hb(2)
      by (auto simp: node_ok_def ch_other split: option.splits)
  qed
  have "dom ?h \<subseteq> dom h" using m(1) by (auto simp: release_def split: if_splits)
  moreover have "own - {a} \<subseteq> dom ?h"
  proof
    fix x assume x: "x \<in> own - {a}"
    have "x = p \<Longrightarrow> sb_refcount (nd_buf m) \<ge> 2" using rp cp x by simp
    then show "x \<in> dom ?h"
      using x ok release_keeps [of h p m, OF m(1)] by (cases "x = p") (auto simp: views_ok_def release_other)
  qed
  ultimately show ?thesis using ok node finite_subset unfolding views_ok_def by blast
qed


text \<open>Freeing an owned buffer always comes to an end and touches live buffers only.\<close>

lemma views_free:
  assumes ok: "views_ok h own" and a: "a \<in> own"
  shows "\<exists>h'. sshbuf_free (Some a) h = Some h' \<and> views_ok h' (own - {a})"
proof -
  obtain n where n: "h a = Some n" using ok a by (auto simp: views_ok_def)
  then have sane: "sshbuf_check_sanity (nd_buf n) = Inr ()"
    using views_okD [OF ok n] wf_sane by (simp add: node_ok_def)
  show ?thesis
  proof (cases "sb_parent (nd_buf n)")
    case None
    then show ?thesis using free_root [of h a n, OF n sane None] views_ok_release [OF ok a n None] by blast
  next
    case (Some p)
    note v = view_no_children [OF ok n Some]
    then obtain m where m: "h p = Some m" "sb_parent (nd_buf m) = None" "sshbuf_wf (nd_buf m)" by blast
    have "sshbuf_free (Some a) h = Some ((release p h)(a := None))"
      by (rule free_view [of h a n p m, OF n sane Some v(2) v(4) m(1) _ m(2)])
        (use m(3) in \<open>simp add: wf_sane\<close>)
    then show ?thesis using views_ok_free_view [OF ok n Some] by blast
  qed
qed

section \<open>Making views\<close>

definition add_view :: "addr \<Rightarrow> sshbuf \<Rightarrow> addr \<Rightarrow> node \<Rightarrow> sshbuf \<Rightarrow> heap \<Rightarrow> heap" where
  "add_view a c p n b h =
     h(a \<mapsto> \<lparr>nd_buf = c\<lparr>sb_parent := Some p\<rparr>, nd_base = nd_base n\<rparr>,
       p \<mapsto> n\<lparr>nd_buf := b\<lparr>sb_refcount := sb_refcount b + 1\<rparr>\<rparr>)"

lemma set_parent_add_view:
  assumes "a \<noteq> p" "sshbuf_wf c" "sshbuf_wf b"
  shows "sshbuf_set_parent (Some a) (Some p) (h(a \<mapsto> \<lparr>nd_buf = c, nd_base = nd_base n\<rparr>, p \<mapsto> n\<lparr>nd_buf := b\<rparr>))
    = Some (Inr (), add_view a c p n b h)"
  using assms by (auto simp: sshbuf_set_parent_def sane_at_def wf_sane upd_buf_def add_view_def fun_eq_iff)

lemma from_bytes:
  assumes "length xs \<le> SSHBUF_SIZE_MAX" "am sizeof_sshbuf \<noteq> None"
  obtains c where "sshbuf_from am (Some xs) = Some c" "contents c = xs"
  using assms from_wf(3) [of am "Some xs"] by (auto simp: sshbuf_from_def)

lemma fromb_run:
  assumes "h p = Some n" "sshbuf_wf (nd_buf n)" "h a = None"
  shows "am sizeof_sshbuf = None \<Longrightarrow> sshbuf_fromb am a (Some p) h = Some (None, h)"
    "am sizeof_sshbuf \<noteq> None \<Longrightarrow> \<exists>c. sshbuf_from am (Some (contents (nd_buf n))) = Some c \<and>
       sshbuf_fromb am a (Some p) h = Some (Some a, add_view a c p n (nd_buf n) h)"
proof -
  note frees = sshbuf_free.simps [of None]
  show "am sizeof_sshbuf = None \<Longrightarrow> sshbuf_fromb am a (Some p) h = Some (None, h)"
    using assms
    by (simp add: sshbuf_fromb_def sane_at_def wf_sane sshbuf_from_def sshbuf_set_parent_def frees)
  assume mem: "am sizeof_sshbuf \<noteq> None"
  have "length (contents (nd_buf n)) \<le> SSHBUF_SIZE_MAX" using wf_bounds [OF assms(2)] assms(2) by simp
  from from_bytes [of _ am, OF this mem] obtain c where c: "sshbuf_from am (Some (contents (nd_buf n))) = Some c" by blast
  have "a \<noteq> p" using assms by auto
  have "h(a \<mapsto> \<lparr>nd_buf = c, nd_base = nd_base n\<rparr>) =
      h(a \<mapsto> \<lparr>nd_buf = c, nd_base = nd_base n\<rparr>, p \<mapsto> n\<lparr>nd_buf := nd_buf n\<rparr>)"
    using assms(1) \<open>a \<noteq> p\<close> by auto
  then have "sshbuf_set_parent (Some a) (Some p) (h(a \<mapsto> \<lparr>nd_buf = c, nd_base = nd_base n\<rparr>)) =
      Some (Inr (), add_view a c p n (nd_buf n) h)"
    using set_parent_add_view [OF \<open>a \<noteq> p\<close> from_wf(1) [OF c] assms(2), of h n] by (simp only:)
  then show "\<exists>c. sshbuf_from am (Some (contents (nd_buf n))) = Some c \<and>
       sshbuf_fromb am a (Some p) h = Some (Some a, add_view a c p n (nd_buf n) h)"
    using c assms by (auto simp: sshbuf_fromb_def sane_at_def wf_sane sshbuf_bytes_wf)
qed


lemma froms_run:
  assumes "h p = Some n" "sshbuf_wf (nd_buf n)" "h a = None"
  shows "\<not> wire_complete (contents (nd_buf n)) \<Longrightarrow>
      sshbuf_froms am a (Some p) h = Some (Inl SSH_ERR_MESSAGE_INCOMPLETE, h)"
    "wire_complete (contents (nd_buf n)) \<Longrightarrow> am sizeof_sshbuf = None \<Longrightarrow>
      sshbuf_froms am a (Some p) h = Some (Inl SSH_ERR_ALLOC_FAIL, h)"
    "wire_complete (contents (nd_buf n)) \<Longrightarrow> am sizeof_sshbuf \<noteq> None \<Longrightarrow>
      \<exists>c. sshbuf_from am (Some (take (wire_len (contents (nd_buf n))) (drop 4 (contents (nd_buf n))))) = Some c \<and>
       sshbuf_froms am a (Some p) h =
         Some (Inr a, add_view a c p n (advance (4 + wire_len (contents (nd_buf n))) (nd_buf n)) h)"
proof -
  let ?b = "nd_buf n"
  show "\<not> wire_complete (contents ?b) \<Longrightarrow>
      sshbuf_froms am a (Some p) h = Some (Inl SSH_ERR_MESSAGE_INCOMPLETE, h)"
    "wire_complete (contents ?b) \<Longrightarrow> am sizeof_sshbuf = None \<Longrightarrow>
      sshbuf_froms am a (Some p) h = Some (Inl SSH_ERR_ALLOC_FAIL, h)"
    using assms by (simp_all add: sshbuf_froms_def peek_string_wf sshbuf_from_def)
  assume w: "wire_complete (contents ?b)" and mem: "am sizeof_sshbuf \<noteq> None"
  let ?s = "take (wire_len (contents ?b)) (drop 4 (contents ?b))" and ?k = "4 + wire_len (contents ?b)"
  have le: "?k \<le> length (contents ?b)" using w by (simp add: wire_complete_def)
  have "length ?s \<le> SSHBUF_SIZE_MAX"
    using wire_complete_split(2) [OF w] le wf_bounds [OF assms(2)] assms(2) by simp
  from from_bytes [of _ am, OF this mem] obtain c where c: "sshbuf_from am (Some ?s) = Some c" by blast
  have "a \<noteq> p" using assms by auto
  note sp = set_parent_add_view [OF this from_wf(1) [OF c] advance(1) [OF assms(2) le], of h n]
  have "sshbuf_consume (size_add (wire_len (contents ?b)) 4) ?b = (Inr (), advance ?k ?b)"
    using consume_advance [OF assms(2), of ?k] le wire_add_exact(1) [OF assms(2) w] by simp
  then show "\<exists>c. sshbuf_from am (Some ?s) = Some c \<and>
       sshbuf_froms am a (Some p) h = Some (Inr a, add_view a c p n (advance ?k ?b) h)"
    using c assms w sp drop_block_string [OF assms(2) w]
    by (simp add: sshbuf_froms_def peek_string_wf)
qed

lemma dead_no_children:
  assumes "views_ok h own" "h a = None"
  shows "children h a = {}"
proof (rule ccontr)
  assume "children h a \<noteq> {}"
  then obtain c m where "h c = Some m" "sb_parent (nd_buf m) = Some a" by (auto simp: children_def)
  then show False using views_okD [OF assms(1), of c m] assms(2) by (auto simp: node_ok_def)
qed

lemma views_ok_add:
  assumes ok: "views_ok h own" and a: "h a = None" and p: "h p = Some n" "sb_parent (nd_buf n) = None"
    and c: "sshbuf_wf c" "sb_refcount c = 1"
    and b: "sshbuf_wf b" "sb_refcount b = sb_refcount (nd_buf n)" "sb_parent b = None"
    and lim: "sb_refcount (nd_buf n) < SSHBUF_REFS_MAX"
  shows "views_ok (add_view a c p n b h) (insert a own)"
proof -
  let ?h = "add_view a c p n b h"
  have ap: "a \<noteq> p" using a p by auto
  have np: "node_ok h own p n" by (rule views_okD [OF ok p(1)])
  have no: "a \<notin> own" using ok a by (auto simp: views_ok_def)
  have ch: "children ?h x = (if x = p then insert a (children h p) else children h x)" for x
    using a p b(3) ap by (auto simp: children_def add_view_def)
  have ca: "children h a = {}" by (rule dead_no_children [OF ok a])
  have anot: "a \<notin> children h p" using a by (auto simp: children_def)
  have node: "node_ok ?h (insert a own) x k" if x: "?h x = Some k" for x k
  proof -
    consider "x = a" | "x = p" | "x \<noteq> a" "x \<noteq> p" by blast
    then show ?thesis
    proof cases
      case 1
      then have "k = \<lparr>nd_buf = c\<lparr>sb_parent := Some p\<rparr>, nd_base = nd_base n\<rparr>"
        using x ap by (simp add: add_view_def)
      then show ?thesis using 1 c np p b ap ca
        by (simp add: node_ok_def ch wf_parent) (simp add: add_view_def)
    next
      case 2
      then have "k = n\<lparr>nd_buf := b\<lparr>sb_refcount := sb_refcount b + 1\<rparr>\<rparr>" using x by (simp add: add_view_def)
      then show ?thesis using 2 np p b lim ap anot finite_children [OF ok, of p]
        by (simp add: node_ok_def ch wf_refcount)
    next
      case 3
      then have hx: "h x = Some k" using x by (simp add: add_view_def)
      have "\<exists>m. ?h q = Some m \<and> sb_parent (nd_buf m) = None"
        if "sb_parent (nd_buf k) = Some q" for q
        using views_okD [OF ok hx] that a p b(3) ap by (auto simp: node_ok_def add_view_def)
      then show ?thesis using views_okD [OF ok hx] 3 ap
        by (auto simp: node_ok_def ch split: option.splits)
    qed
  qed
  have "finite (dom ?h)" "insert a own \<subseteq> dom ?h" using ok by (auto simp: views_ok_def add_view_def)
  then show ?thesis using node by (simp add: views_ok_def)
qed

lemma views_ok_upd:
  assumes ok: "views_ok h own" and a: "h a = Some n"
    and b: "sshbuf_wf b" "sb_refcount b = sb_refcount (nd_buf n)" "sb_parent b = sb_parent (nd_buf n)"
  shows "views_ok (h(a \<mapsto> n\<lparr>nd_buf := b\<rparr>)) own"
proof -
  let ?h = "h(a \<mapsto> n\<lparr>nd_buf := b\<rparr>)"
  have ch: "children ?h x = children h x" for x using a b(3) by (auto simp: children_def)
  have par: "(\<exists>m. ?h q = Some m \<and> sb_parent (nd_buf m) = None) \<longleftrightarrow>
      (\<exists>m. h q = Some m \<and> sb_parent (nd_buf m) = None)" for q
    using a b(3) by auto
  have "node_ok ?h own x k" if "?h x = Some k" for x k
  proof (cases "x = a")
    case True
    then have "k = n\<lparr>nd_buf := b\<rparr>" using that by simp
    then show ?thesis using True views_okD [OF ok a] b
      by (cases "sb_parent (nd_buf n)") (simp_all add: node_ok_def ch par del: fun_upd_apply)
  next
    case False
    then have "h x = Some k" using that by simp
    then show ?thesis using views_okD [OF ok, of x k]
      by (cases "sb_parent (nd_buf k)") (simp_all add: node_ok_def ch par del: fun_upd_apply)
  qed
  then show ?thesis using ok by (simp add: views_ok_def) auto
qed

lemma views_ok_new:
  assumes ok: "views_ok h own" and a: "h a = None" and b: "sshbuf_wf b" "sb_refcount b = 1" "sb_parent b = None"
  shows "views_ok (h(a \<mapsto> \<lparr>nd_buf = b, nd_base = a\<rparr>)) (insert a own)"
proof -
  let ?h = "h(a \<mapsto> \<lparr>nd_buf = b, nd_base = a\<rparr>)"
  have ch: "children ?h x = children h x" for x using a b(3) by (auto simp: children_def)
  have ca: "children h a = {}" by (rule dead_no_children [OF ok a])
  have "node_ok ?h (insert a own) x k" if "?h x = Some k" for x k
  proof (cases "x = a")
    case True
    then have k: "k = \<lparr>nd_buf = b, nd_base = a\<rparr>" using that by simp
    show ?thesis unfolding node_ok_def k True ch using b ca by simp
  next
    case False
    then have hx: "h x = Some k" using that by simp
    have "\<exists>m. ?h q = Some m \<and> sb_parent (nd_buf m) = None"
      if "h q = Some m \<and> sb_parent (nd_buf m) = None" for q m
      using that a by auto
    then show ?thesis using views_okD [OF ok hx] False
      by (cases "sb_parent (nd_buf k)") (auto simp: node_ok_def ch simp del: fun_upd_apply)
  qed
  then show ?thesis using ok by (auto simp: views_ok_def)
qed

section \<open>Histories\<close>

text \<open>
  What programs do with buffers: make them, take views of buffers that have their own block,
  work on them, and free each once. Any operation of a single buffer is covered by
  \<open>hist_work\<close>, which asks for what those operations keep.
\<close>

inductive history :: "heap \<Rightarrow> addr set \<Rightarrow> bool" where
  hist_start: "history Map.empty {}"
| hist_new: "history h own \<Longrightarrow> h a = None \<Longrightarrow> sshbuf_new am = Some b \<Longrightarrow>
    history (h(a \<mapsto> \<lparr>nd_buf = b, nd_base = a\<rparr>)) (insert a own)"
| hist_fromb: "history h own \<Longrightarrow> h a = None \<Longrightarrow> h p = Some n \<Longrightarrow> sb_parent (nd_buf n) = None \<Longrightarrow>
    sb_refcount (nd_buf n) < SSHBUF_REFS_MAX \<Longrightarrow> sshbuf_fromb am a (Some p) h = Some (q, h') \<Longrightarrow>
    history h' (own \<union> set_option q)"
| hist_froms: "history h own \<Longrightarrow> h a = None \<Longrightarrow> h p = Some n \<Longrightarrow> sb_parent (nd_buf n) = None \<Longrightarrow>
    sb_refcount (nd_buf n) < SSHBUF_REFS_MAX \<Longrightarrow> sshbuf_froms am a (Some p) h = Some (r, h') \<Longrightarrow>
    history h' (case r of Inr q \<Rightarrow> insert q own | Inl _ \<Rightarrow> own)"
| hist_work: "history h own \<Longrightarrow> h a = Some n \<Longrightarrow> sshbuf_wf b \<Longrightarrow>
    sb_refcount b = sb_refcount (nd_buf n) \<Longrightarrow> sb_parent b = sb_parent (nd_buf n) \<Longrightarrow>
    history (h(a \<mapsto> n\<lparr>nd_buf := b\<rparr>)) own"
| hist_free: "history h own \<Longrightarrow> a \<in> own \<Longrightarrow> sshbuf_free (Some a) h = Some h' \<Longrightarrow>
    history h' (own - {a})"

lemma history_ok: "history h own \<Longrightarrow> views_ok h own"
proof (induction rule: history.induct)
  case hist_start
  then show ?case by (simp add: views_ok_def)
next
  case (hist_new h own a am b)
  show ?case by (rule views_ok_new [OF hist_new.IH hist_new.hyps(2)]) (rule new_wf [OF hist_new.hyps(3)])+
next
  case (hist_fromb h own a p n am q h')
  note wf = views_okD [OF hist_fromb.IH hist_fromb.hyps(3)]
  then have wfn: "sshbuf_wf (nd_buf n)" by (simp add: node_ok_def)
  note run = fromb_run [of h p n a, OF hist_fromb.hyps(3) wfn hist_fromb.hyps(2)]
  show ?case
  proof (cases "am sizeof_sshbuf = None")
    case True
    then show ?thesis using run(1) [of am, OF True] hist_fromb by simp
  next
    case False
    then obtain c where c: "sshbuf_from am (Some (contents (nd_buf n))) = Some c"
      "q = Some a" "h' = add_view a c p n (nd_buf n) h" using run(2) [of am] hist_fromb.hyps(6) by auto
    show ?thesis using views_ok_add [OF hist_fromb.IH hist_fromb.hyps(2-4) from_wf(1,5) [OF c(1)] wfn _ _ hist_fromb.hyps(5)]
        hist_fromb.hyps(4) c by simp
  qed
next
  case (hist_froms h own a p n am r h')
  note wf = views_okD [OF hist_froms.IH hist_froms.hyps(3)]
  then have wfn: "sshbuf_wf (nd_buf n)" by (simp add: node_ok_def)
  note run = froms_run [of h p n a, OF hist_froms.hyps(3) wfn hist_froms.hyps(2)]
  show ?case
  proof (cases "wire_complete (contents (nd_buf n)) \<and> am sizeof_sshbuf \<noteq> None")
    case True
    then have w: "wire_complete (contents (nd_buf n))" "am sizeof_sshbuf \<noteq> None" by auto
    let ?b = "advance (4 + wire_len (contents (nd_buf n))) (nd_buf n)"
    have adv: "sshbuf_wf ?b" "same_frame (nd_buf n) ?b"
      using advance [OF wfn] w(1) by (simp_all add: wire_complete_def)
    obtain c s where c: "sshbuf_from am (Some s) = Some c" "r = Inr a" "h' = add_view a c p n ?b h"
      using run(3) [of am, OF w] hist_froms.hyps(6) by auto
    show ?thesis
      using views_ok_add [OF hist_froms.IH hist_froms.hyps(2-4) from_wf(1,5) [OF c(1)] adv(1) _ _ hist_froms.hyps(5)]
        hist_froms.hyps(4) c adv(2) by (simp add: same_frame_def)
  next
    case False
    then show ?thesis using run(1,2) [of am] hist_froms by (cases "wire_complete (contents (nd_buf n))") auto
  qed
next
  case (hist_work h own a n b)
  then show ?case by (intro views_ok_upd)
next
  case (hist_free h own a h')
  then show ?case using views_free [OF hist_free.IH hist_free.hyps(2)] by auto
qed

section \<open>Properties\<close>



text \<open>C28: as long as a buffer has views, no operation on it writes to its block: writes are
  refused, and reading, consuming and resetting only move the offsets.\<close>

theorem sshbuf_shared_frozen:
  assumes "sshbuf_wf b" "sb_refcount b > 1"
  shows "sshbuf_reserve am len b = (Inl SSH_ERR_BUFFER_READ_ONLY, b) \<and>
    sshbuf_put am v b = (Inl SSH_ERR_BUFFER_READ_ONLY, b) \<and>
    sshbuf_mutable_ptr b = None \<and>
    block (snd (sshbuf_get len b)) = block b \<and>
    block (snd (sshbuf_consume len b)) = block b \<and>
    block (snd (sshbuf_consume_end len b)) = block b \<and>
    block (sshbuf_reset am b) = block b \<and>
    block (snd (sshbuf_set_max_size am len b)) = block b"
proof -
  have nw: "\<not> sshbuf_writable b" using assms(2) by (simp add: sshbuf_writable_def)
  then have res: "sshbuf_reserve am k b = (Inl SSH_ERR_BUFFER_READ_ONLY, b)" for k
    using reserve_error [OF assms(1), of k am] by simp
  have "sshbuf_mutable_ptr b = None" "block (sshbuf_reset am b) = block b"
    "block (snd (sshbuf_set_max_size am len b)) = block b"
    using assms wf_sane [OF assms(1)]
    by (simp_all add: sshbuf_mutable_ptr_def sshbuf_reset_def sshbuf_set_max_size_def block_def)
  moreover have "block (snd (sshbuf_consume len b)) = block b" "block (snd (sshbuf_get len b)) = block b"
    using assms(1) by (simp_all add: consume_advance get_wf)
  moreover have "block (snd (sshbuf_consume_end len b)) = block b"
    by (auto simp: sshbuf_consume_end_def block_def split: sum.splits)
  moreover have "sshbuf_put am v b = (Inl SSH_ERR_BUFFER_READ_ONLY, b)"
    by (simp add: sshbuf_put_def act_simps res)
  ultimately show ?thesis using res by blast
qed

theorem sshbuf_shared_frozen_witness:
  "sshbuf_put alloc_zero [1] (fresh_buf\<lparr>sb_refcount := 2\<rparr>) =
     (Inl SSH_ERR_BUFFER_READ_ONLY, fresh_buf\<lparr>sb_refcount := 2\<rparr>)"
proof -
  have "sshbuf_wf (fresh_buf\<lparr>sb_refcount := 2\<rparr>)"
    by (rule wf_refcount [OF fresh_buf(1)]) (simp_all add: SSHBUF_REFS_MAX_def)
  then show ?thesis using sshbuf_shared_frozen [of "fresh_buf\<lparr>sb_refcount := 2\<rparr>" alloc_zero 0 "[1]"] by simp
qed

text \<open>C29: a view of a view can outlive its data. After making \<open>B\<close> from \<open>A\<close> and \<open>C\<close> from \<open>B\<close>,
  freeing \<open>B\<close> gives up its hold on \<open>A\<close> although \<open>B\<close> itself stays alive for \<open>C\<close>; freeing \<open>A\<close>
  then frees the block that the live buffer \<open>C\<close> reads.\<close>

theorem sshbuf_free_view_of_view:
  assumes "sshbuf_wf b" "sb_refcount b = 1" "sb_parent b = None"
  shows "\<exists>h1 h2 h3 h4 n.
    sshbuf_fromb alloc_zero 4 (Some 3) [3 \<mapsto> \<lparr>nd_buf = b, nd_base = 3\<rparr>] = Some (Some 4, h1) \<and>
    sshbuf_fromb alloc_zero 5 (Some 4) h1 = Some (Some 5, h2) \<and>
    sshbuf_free (Some 4) h2 = Some h3 \<and> sshbuf_free (Some 3) h3 = Some h4 \<and>
    h4 5 = Some n \<and> sshbuf_check_sanity (nd_buf n) = Inr () \<and> contents (nd_buf n) = contents b \<and>
    nd_base n = 3 \<and> h4 3 = None"
proof -
  let ?h = "[3 \<mapsto> \<lparr>nd_buf = b, nd_base = 3\<rparr>] :: heap"
  from fromb_run(2) [of ?h 3 "\<lparr>nd_buf = b, nd_base = 3\<rparr>" 4 alloc_zero] assms(1)
  obtain c where c: "sshbuf_from alloc_zero (Some (contents b)) = Some c"
    and run1: "sshbuf_fromb alloc_zero 4 (Some 3) ?h = Some (Some 4, add_view 4 c 3 \<lparr>nd_buf = b, nd_base = 3\<rparr> b ?h)"
    by (auto simp: alloc_zero_def)
  define h1 where "h1 = add_view 4 c 3 \<lparr>nd_buf = b, nd_base = 3\<rparr> b ?h"
  define n2 where "n2 = \<lparr>nd_buf = c\<lparr>sb_parent := Some 3\<rparr>, nd_base = 3\<rparr>"
  note wc = from_wf [OF c]
  have w2: "sshbuf_wf (nd_buf n2)" "contents (nd_buf n2) = contents b" "h1 4 = Some n2" "h1 5 = None"
    using wc by (simp_all add: n2_def h1_def add_view_def wf_parent contents_def block_def)
  from fromb_run(2) [of h1 4 n2 5 alloc_zero, OF w2(3,1,4)] w2(2)
  obtain d where d: "sshbuf_from alloc_zero (Some (contents b)) = Some d"
    and run2: "sshbuf_fromb alloc_zero 5 (Some 4) h1 = Some (Some 5, add_view 5 d 4 n2 (nd_buf n2) h1)"
    by (auto simp: alloc_zero_def)
  define h2 where "h2 = add_view 5 d 4 n2 (nd_buf n2) h1"
  note wd = from_wf [OF d]
  have h2: "h2 3 = Some \<lparr>nd_buf = b\<lparr>sb_refcount := 2\<rparr>, nd_base = 3\<rparr>"
    "h2 4 = Some \<lparr>nd_buf = c\<lparr>sb_parent := Some 3, sb_refcount := 2\<rparr>, nd_base = 3\<rparr>"
    "h2 5 = Some \<lparr>nd_buf = d\<lparr>sb_parent := Some 4\<rparr>, nd_base = 3\<rparr>"
    using wc assms by (simp_all add: h2_def h1_def n2_def add_view_def)
  have sane: "sshbuf_check_sanity (b\<lparr>sb_refcount := 2\<rparr>) = Inr ()"
    "sshbuf_check_sanity (c\<lparr>sb_parent := Some 3, sb_refcount := 2\<rparr>) = Inr ()"
    "sshbuf_check_sanity b = Inr ()"
    using assms wc by (auto intro!: wf_sane wf_refcount wf_parent simp: SSHBUF_REFS_MAX_def)
  let ?h3 = "h2(3 \<mapsto> \<lparr>nd_buf = b, nd_base = 3\<rparr>, 4 \<mapsto> \<lparr>nd_buf = c\<lparr>sb_parent := None, sb_refcount := 1\<rparr>, nd_base = 3\<rparr>)"
  have "b\<lparr>sb_refcount := Suc 0\<rparr> = b" using assms(2) by (cases b) simp
  then have "sshbuf_free (Some 3) h2 = Some (h2(3 \<mapsto> \<lparr>nd_buf = b, nd_base = 3\<rparr>))"
    using free_root [of h2 3, OF h2(1)] sane(1) assms(3) by (simp add: release_def h2(1))
  then have run3: "sshbuf_free (Some 4) h2 = Some ?h3"
    by (subst sshbuf_free.simps) (simp add: h2(2) sane(2) upd_buf_def fun_upd_twist)
  have "?h3 3 = Some \<lparr>nd_buf = b, nd_base = 3\<rparr>" by simp
  then have run4: "sshbuf_free (Some 3) ?h3 = Some (?h3(3 := None))"
    using free_root [of ?h3 3 "\<lparr>nd_buf = b, nd_base = 3\<rparr>"] sane(3) assms by (simp add: release_def)
  have "sshbuf_check_sanity (d\<lparr>sb_parent := Some 4\<rparr>) = Inr ()" "contents (d\<lparr>sb_parent := Some 4\<rparr>) = contents b"
    using wd by (auto intro!: wf_sane wf_parent simp: contents_def block_def)
  then show ?thesis using run1 run2 run3 run4 h2(3) unfolding h1_def [symmetric] h2_def [symmetric]
    by (intro exI [of _ h1] exI [of _ h2] exI [of _ ?h3] exI [of _ "?h3(3 := None)"]) simp
qed

theorem sshbuf_free_view_of_view_witness:
  "\<exists>h1 h2 h3 h4 n.
    sshbuf_fromb alloc_zero 4 (Some 3) [3 \<mapsto> \<lparr>nd_buf = fresh_buf, nd_base = 3\<rparr>] = Some (Some 4, h1) \<and>
    sshbuf_fromb alloc_zero 5 (Some 4) h1 = Some (Some 5, h2) \<and>
    sshbuf_free (Some 4) h2 = Some h3 \<and> sshbuf_free (Some 3) h3 = Some h4 \<and>
    h4 5 = Some n \<and> nd_base n = 3 \<and> h4 3 = None"
  using sshbuf_free_view_of_view [OF fresh_buf(1,5,6)] by blast

end
