(* ===== verification/Match.thy ===== *)
theory Match
  imports Prelude
begin

text \<open>
  Wildcard patterns, pattern lists and algorithm lists: \<open>ssh/match.c\<close>. C strings are lists of
  characters without the terminating zero.
\<close>

section \<open>Patterns\<close>

text \<open>
  \<open>match_pattern\<close> with its two inner loops: \<open>match_next\<close> looks for instances of the character that
  follows an asterisk, \<open>match_anywhere\<close> tries every position of the string that is not its end.
\<close>

fun match_pattern :: "string \<Rightarrow> string \<Rightarrow> bool"
  and match_next :: "string \<Rightarrow> char \<Rightarrow> string \<Rightarrow> bool"
  and match_anywhere :: "string \<Rightarrow> string \<Rightarrow> bool" where
  "match_pattern s [] = (s = [])"
| "match_pattern s (p # ps) =
     (if p = CHR ''*'' then
        (case ps of [] \<Rightarrow> True
         | q # qs \<Rightarrow>
             if q \<noteq> CHR ''?'' \<and> q \<noteq> CHR ''*'' then match_next s q qs else match_anywhere s (q # qs))
      else
        (case s of [] \<Rightarrow> False
         | c # cs \<Rightarrow> if p \<noteq> CHR ''?'' \<and> p \<noteq> c then False else match_pattern cs ps))"
| "match_next [] q qs = False"
| "match_next (c # cs) q qs = ((c = q \<and> match_pattern cs qs) \<or> match_next cs q qs)"
| "match_anywhere [] ps = False"
| "match_anywhere (c # cs) ps = (match_pattern (c # cs) ps \<or> match_anywhere cs ps)"

section \<open>Pattern lists\<close>

text \<open>\<open>isupper\<close> and \<open>tolower\<close> of the C locale.\<close>

definition c_tolower :: "char \<Rightarrow> char" where
  "c_tolower c = (if 65 \<le> (of_char c :: nat) \<and> (of_char c :: nat) \<le> 90 then char_of (of_char c + 32 :: nat) else c)"

definition lower_sub :: "bool \<Rightarrow> string \<Rightarrow> string" where
  "lower_sub dolower sub = (if dolower then map c_tolower sub else sub)"

definition SUB_MAX :: nat where "SUB_MAX = 1023"

text \<open>
  The loop of \<open>match_pattern_list\<close> on the rest of the list, after the negation sign; \<open>sub\<close> stops at
  a comma or when the local array of 1024 bytes is full.
\<close>

definition strip_neg :: "string \<Rightarrow> string" where
  "strip_neg pat = (case pat of c # cs \<Rightarrow> if c = CHR ''!'' then cs else pat | [] \<Rightarrow> [])"

definition sub_of :: "string \<Rightarrow> string" where
  "sub_of pat = take SUB_MAX (takeWhile (\<lambda>c. c \<noteq> CHR '','') pat)"

definition skip_comma :: "string \<Rightarrow> string" where
  "skip_comma rest = (case rest of c # cs \<Rightarrow> if c = CHR '','' then cs else rest | [] \<Rightarrow> [])"

lemma length_strip_neg: "length (strip_neg pat) \<le> length pat"
  by (auto simp: strip_neg_def split: list.splits)

lemma length_skip_comma: "length (skip_comma rest) \<le> length rest"
  by (auto simp: skip_comma_def split: list.splits)

lemma list_step_shorter:
  assumes "pat \<noteq> []" "length (sub_of (strip_neg pat)) < SUB_MAX"
  shows "length (skip_comma (drop (length (sub_of (strip_neg pat))) (strip_neg pat))) < length pat"
proof (cases "strip_neg pat")
  case Nil
  then show ?thesis using assms(1) by (simp add: skip_comma_def)
next
  case (Cons c cs)
  then show ?thesis using length_strip_neg [of pat] length_skip_comma [of "drop (length (sub_of (c # cs))) (c # cs)"]
    by (cases "c = CHR '',''") (auto simp: sub_of_def skip_comma_def SUB_MAX_def)
qed

function match_list_loop :: "string \<Rightarrow> string \<Rightarrow> bool \<Rightarrow> int \<Rightarrow> int" where
  "match_list_loop s pat dolower got_positive =
     (if pat = [] then got_positive
      else
        let negated = hd pat = CHR ''!'';
            pat1 = strip_neg pat;
            sub = sub_of pat1;
            rest = skip_comma (drop (length sub) pat1)
        in if length sub \<ge> SUB_MAX then 0
           else if match_pattern s (lower_sub dolower sub) then
             if negated then - 1 else match_list_loop s rest dolower 1
           else match_list_loop s rest dolower got_positive)"
  by pat_completeness auto
termination
  by (relation "measure (\<lambda>(s, pat, d, g). length pat)") (auto simp: list_step_shorter not_le)

declare match_list_loop.simps [simp del]

text \<open>\<open>len\<close> is the number of characters of \<open>pattern\<close> to look at.\<close>

definition match_pattern_list :: "string \<Rightarrow> string \<Rightarrow> nat \<Rightarrow> bool \<Rightarrow> int" where
  "match_pattern_list s pattern len dolower = match_list_loop s (take len pattern) dolower 0"

definition match_hostname :: "string \<Rightarrow> string \<Rightarrow> nat \<Rightarrow> int" where
  "match_hostname host pattern len = match_pattern_list host pattern len True"

section \<open>Algorithm lists\<close>

definition MAX_PROP :: nat where "MAX_PROP = 40"

text \<open>The tokens \<open>strsep\<close> with a comma as separator gives.\<close>

fun comma_split :: "string \<Rightarrow> string list" where
  "comma_split [] = [[]]"
| "comma_split (c # cs) =
     (if c = CHR '','' then [] # comma_split cs
      else (case comma_split cs of t # ts \<Rightarrow> (c # t) # ts | [] \<Rightarrow> [[c]]))"

fun collect_props :: "nat \<Rightarrow> string list \<Rightarrow> string list" where
  "collect_props i [] = []"
| "collect_props i (p # ps) = (if p = [] \<or> \<not> i < MAX_PROP then [] else p # collect_props (i + 1) ps)"

text \<open>
  The loop over the client's tokens. \<open>off\<close> is where the current token starts; \<open>first\<close> is
  \<open>strlen(c)\<close>, which ends at the first separator since \<open>strsep\<close> has overwritten it.
\<close>

fun match_client :: "(string \<Rightarrow> string option) \<Rightarrow> string list \<Rightarrow> nat \<Rightarrow> nat \<Rightarrow> string list \<Rightarrow> string option \<times> nat" where
  "match_client dup sprops first off [] = (None, first)"
| "match_client dup sprops first off (p # ps) =
     (if p = [] then (None, first)
      else if list_ex (\<lambda>sp. p = sp) sprops then
        (dup p, if ps = [] then first else off + length p + 1)
      else match_client dup sprops first (off + length p + 1) ps)"

text \<open>
  \<open>dup\<close> is \<open>strdup\<close>. The second component is what is stored in \<open>*next\<close>, \<open>None\<close> when it is not
  touched.
\<close>

definition match_list ::
  "(string \<Rightarrow> string option) \<Rightarrow> string \<Rightarrow> string \<Rightarrow> string option \<times> nat option" where
  "match_list dup client server =
     (if dup client = None \<or> dup server = None then (None, None)
      else
        let sprops = collect_props 0 (comma_split server);
            (ret, next) = match_client dup sprops (length (hd (comma_split client))) 0 (comma_split client)
        in (ret, Some next))"

section \<open>What patterns mean\<close>

text \<open>A question mark stands for one character, an asterisk for any number of them.\<close>

fun glob :: "string \<Rightarrow> string \<Rightarrow> bool" where
  "glob s [] \<longleftrightarrow> s = []"
| "glob s (p # ps) \<longleftrightarrow>
     (if p = CHR ''*'' then \<exists>k\<le>length s. glob (drop k s) ps
      else s \<noteq> [] \<and> (p = CHR ''?'' \<or> p = hd s) \<and> glob (tl s) ps)"

fun no_double_star :: "string \<Rightarrow> bool" where
  "no_double_star (p # q # ps) \<longleftrightarrow> \<not> (p = CHR ''*'' \<and> q = CHR ''*'') \<and> no_double_star (q # ps)"
| "no_double_star _ \<longleftrightarrow> True"

lemma no_double_tl: "no_double_star (p # ps) \<Longrightarrow> no_double_star ps"
  by (cases ps) auto

lemma drop_ex_Cons: "(\<exists>k\<le>length (c # cs). P (drop k (c # cs))) \<longleftrightarrow> P (c # cs) \<or> (\<exists>k\<le>length cs. P (drop k cs))"
  (is "?L \<longleftrightarrow> ?R")
proof
  assume ?L
  then obtain k where "k \<le> Suc (length cs)" "P (drop k (c # cs))" by auto
  then show ?R by (cases k) auto
next
  assume ?R
  moreover have ?L if "k \<le> length cs" "P (drop k cs)" for k
    using that by (intro exI [of _ "Suc k"]) simp
  moreover have ?L if "P (c # cs)" using that by (intro exI [of _ 0]) simp
  ultimately show ?L by blast
qed

lemma match_sound:
  "match_pattern s p \<Longrightarrow> glob s p"
  "match_next t q qs \<Longrightarrow> q \<noteq> CHR ''*'' \<Longrightarrow> \<exists>k\<le>length t. glob (drop k t) (q # qs)"
  "match_anywhere u ps \<Longrightarrow> \<exists>k\<le>length u. glob (drop k u) ps"
proof (induction s p and t q qs and u ps rule: match_pattern_match_next_match_anywhere.induct)
  case (2 s p ps)
  then show ?case by (cases s) (auto split: if_splits list.splits)
next
  case (4 c cs q qs)
  have "glob (c # cs) (q # qs) \<or> (\<exists>k\<le>length cs. glob (drop k cs) (q # qs))"
  proof (cases "c = q \<and> match_pattern cs qs")
    case True
    then have "glob cs qs" using 4(1) by blast
    then show ?thesis using True 4(4) by simp
  next
    case False
    then have "match_next cs q qs" using "4.prems"(1) by auto
    then show ?thesis using 4(2) "4.prems"(2) by blast
  qed
  then show ?case using drop_ex_Cons [of c cs "\<lambda>s. glob s (q # qs)"] by blast
next
  case (6 c cs ps)
  then have "glob (c # cs) ps \<or> (\<exists>k\<le>length cs. glob (drop k cs) ps)"
    using match_anywhere.simps(2) by blast
  then show ?case using drop_ex_Cons [of c cs "\<lambda>s. glob s ps"] by blast
qed auto

lemma match_complete:
  "glob s p \<Longrightarrow> no_double_star p \<Longrightarrow> match_pattern s p"
  "k \<le> length t \<Longrightarrow> glob (drop k t) (q # qs) \<Longrightarrow> q \<noteq> CHR ''?'' \<Longrightarrow> q \<noteq> CHR ''*'' \<Longrightarrow> no_double_star qs \<Longrightarrow>
    match_next t q qs"
  "k \<le> length u \<Longrightarrow> glob (drop k u) ps \<Longrightarrow> no_double_star ps \<Longrightarrow> ps \<noteq> [] \<Longrightarrow> hd ps \<noteq> CHR ''*'' \<Longrightarrow>
    match_anywhere u ps"
proof (induction s p and t q qs and u ps arbitrary: and k and k rule: match_pattern_match_next_match_anywhere.induct)
  case (2 s p ps)
  show ?case
  proof (cases "p = CHR ''*''")
    case star: True
    show ?thesis
    proof (cases ps)
      case (Cons q qs)
      have q: "q \<noteq> CHR ''*''" "no_double_star (q # qs)" "no_double_star qs"
        using "2.prems" star Cons no_double_tl [of q qs] by auto
      from "2.prems"(1) star Cons obtain k where k: "k \<le> length s" "glob (drop k s) (q # qs)" by auto
      show ?thesis
      proof (cases "q = CHR ''?''")
        case True
        then show ?thesis using 2(2) [OF star Cons, of k] k q star Cons by simp
      next
        case False
        then show ?thesis using 2(1) [OF star Cons, of k] k q star Cons by simp
      qed
    next
      case Nil
      then show ?thesis using star by simp
    qed
  next
    case False
    then obtain c cs where s: "s = c # cs" using "2.prems"(1) by (cases s) auto
    then show ?thesis using 2(3) [OF False s] "2.prems" False no_double_tl [of p ps] by auto
  qed
next
  case (3 q qs)
  then show ?case by auto
next
  case (4 c cs q qs)
  show ?case
  proof (cases k)
    case 0
    then show ?thesis using 4 by auto
  next
    case (Suc j)
    then show ?thesis using 4(2) [of j] 4 by auto
  qed
next
  case (5 ps)
  then show ?case by (cases ps) auto
next
  case (6 c cs ps)
  show ?case
  proof (cases k)
    case 0
    then show ?thesis using 6 by auto
  next
    case (Suc j)
    then show ?thesis using 6(2) [of j] 6 by auto
  qed
qed auto

lemma match_double_star_end:
  assumes "CHR ''*'' \<notin> set s" "CHR ''?'' \<notin> set s"
  shows "\<not> match_pattern s (s @ ''**'')"
  using assms by (induction s) auto

lemma glob_double_star_end: "glob s (s @ ''**'')"
  by (induction s) auto


section \<open>What lists mean\<close>

lemma comma_split_unfold:
  "comma_split p = takeWhile (\<lambda>c. c \<noteq> CHR '','') p #
     (case dropWhile (\<lambda>c. c \<noteq> CHR '','') p of [] \<Rightarrow> [] | _ # cs \<Rightarrow> comma_split cs)"
  by (induction p) (auto split: list.splits)

lemma comma_split_nonempty [simp]: "comma_split p \<noteq> []"
  by (subst comma_split_unfold) simp

text \<open>The items of a pattern list; an empty item at the end is not one.\<close>

definition pattern_items :: "string \<Rightarrow> string list" where
  "pattern_items p = (if last (comma_split p) = [] then butlast (comma_split p) else comma_split p)"

definition negated :: "string \<Rightarrow> bool" where
  "negated t \<longleftrightarrow> t \<noteq> [] \<and> hd t = CHR ''!''"

definition item_matches :: "string \<Rightarrow> bool \<Rightarrow> string \<Rightarrow> bool" where
  "item_matches s dolower t \<longleftrightarrow> match_pattern s (lower_sub dolower (strip_neg t))"

text \<open>A negated item that matches decides, wherever it stands.\<close>

definition list_verdict :: "string \<Rightarrow> bool \<Rightarrow> string list \<Rightarrow> int" where
  "list_verdict s dolower ts =
     (if \<exists>t\<in>set ts. negated t \<and> item_matches s dolower t then - 1
      else if \<exists>t\<in>set ts. \<not> negated t \<and> item_matches s dolower t then 1 else 0)"

lemma pattern_items_nil: "pattern_items [] = []"
  by (simp add: pattern_items_def)

lemma pattern_items_step:
  assumes "p \<noteq> []"
  shows "pattern_items p = takeWhile (\<lambda>c. c \<noteq> CHR '','') p #
    pattern_items (skip_comma (dropWhile (\<lambda>c. c \<noteq> CHR '','') p))"
proof (cases "dropWhile (\<lambda>c. c \<noteq> CHR '','') p")
  case Nil
  then have all: "takeWhile (\<lambda>c. c \<noteq> CHR '','') p = p" by (metis append_Nil2 takeWhile_dropWhile_id)
  have "comma_split p = [p]" by (subst comma_split_unfold) (simp only: Nil all list.case)
  then show ?thesis unfolding Nil all using assms
    by (simp add: pattern_items_def skip_comma_def)
next
  case (Cons c cs)
  then have "c = CHR '',''" using hd_dropWhile [of "\<lambda>c. c \<noteq> CHR '',''" p] by auto
  then show ?thesis using Cons comma_split_unfold [of p]
    by (simp add: pattern_items_def skip_comma_def)
qed

lemma strip_neg_item:
  "takeWhile (\<lambda>c. c \<noteq> CHR '','') (strip_neg p) = strip_neg (takeWhile (\<lambda>c. c \<noteq> CHR '','') p)"
  "dropWhile (\<lambda>c. c \<noteq> CHR '','') (strip_neg p) = dropWhile (\<lambda>c. c \<noteq> CHR '','') p"
  "p \<noteq> [] \<Longrightarrow> hd p = CHR ''!'' \<longleftrightarrow> negated (takeWhile (\<lambda>c. c \<noteq> CHR '','') p)"
  by (cases p; auto simp: strip_neg_def negated_def)+

lemma match_list_loop_verdict:
  assumes "\<forall>t\<in>set (pattern_items p). length (strip_neg t) < SUB_MAX" "g = 0 \<or> g = 1"
  shows "match_list_loop s p d g =
    (if list_verdict s d (pattern_items p) = 0 then g else list_verdict s d (pattern_items p))"
  using assms
proof (induction s p d g rule: match_list_loop.induct)
  case (1 s p d g)
  show ?case
  proof (cases "p = []")
    case True
    then show ?thesis by (simp add: match_list_loop.simps pattern_items_nil list_verdict_def)
  next
    case False
    let ?t = "takeWhile (\<lambda>c. c \<noteq> CHR '','') p"
    let ?r = "skip_comma (dropWhile (\<lambda>c. c \<noteq> CHR '','') p)"
    have items: "pattern_items p = ?t # pattern_items ?r" by (rule pattern_items_step [OF False])
    then have short: "length (strip_neg ?t) < SUB_MAX" using "1.prems"(1) by simp
    then have sub: "sub_of (strip_neg p) = strip_neg ?t" by (simp add: sub_of_def strip_neg_item(1))
    have rest: "drop (length (strip_neg ?t)) (strip_neg p) = dropWhile (\<lambda>c. c \<noteq> CHR '','') p"
      by (metis dropWhile_eq_drop strip_neg_item(1,2))
    have m: "match_pattern s (lower_sub d (strip_neg ?t)) = item_matches s d ?t" by (simp add: item_matches_def)
    have loop: "match_list_loop s p d g =
      (if item_matches s d ?t then if negated ?t then - 1 else match_list_loop s ?r d 1
       else match_list_loop s ?r d g)"
      using False short by (simp add: match_list_loop.simps [of s p d g] Let_def sub rest m strip_neg_item(3))
    have IH1: "item_matches s d ?t \<Longrightarrow> \<not> negated ?t \<Longrightarrow> match_list_loop s ?r d 1 =
       (if list_verdict s d (pattern_items ?r) = 0 then 1 else list_verdict s d (pattern_items ?r))"
      using 1(1) [OF False refl refl refl refl] "1.prems" items sub rest m short strip_neg_item(3) [OF False] by simp
    have IH2: "\<not> item_matches s d ?t \<Longrightarrow> match_list_loop s ?r d g =
       (if list_verdict s d (pattern_items ?r) = 0 then g else list_verdict s d (pattern_items ?r))"
      using 1(2) [OF False refl refl refl refl] "1.prems" items sub rest m short by simp
    show ?thesis unfolding loop items
      using IH1 IH2 by (auto simp: list_verdict_def)
  qed
qed


lemma comma_split_drop:
  assumes "comma_split s = p # ps" "ps \<noteq> []"
  shows "comma_split (drop (length p + 1) s) = ps"
proof (cases "dropWhile (\<lambda>c. c \<noteq> CHR '','') s")
  case Nil
  have "ps = (case dropWhile (\<lambda>c. c \<noteq> CHR '','') s of [] \<Rightarrow> [] | _ # cs \<Rightarrow> comma_split cs)"
    using assms(1) comma_split_unfold [of s] by simp
  then show ?thesis using assms(2) unfolding Nil by simp
next
  case (Cons c cs)
  have u: "p = takeWhile (\<lambda>c. c \<noteq> CHR '','') s" "ps = comma_split cs"
    using assms(1) comma_split_unfold [of s] unfolding Cons by auto
  have "drop (length p) s = c # cs" using Cons u(1) by (metis dropWhile_eq_drop)
  then have "drop (length p + 1) s = cs" by (metis drop_drop drop_Suc_Cons drop0 Suc_eq_plus1 add.commute)
  then show ?thesis by (simp add: u(2))
qed

lemma collect_props_take: "collect_props i ts = take (MAX_PROP - i) (takeWhile (\<lambda>t. t \<noteq> []) ts)"
  by (induction ts arbitrary: i) (auto simp: take_Cons' Suc_diff_Suc)

text \<open>The names in a list: the tokens before the first empty one.\<close>

definition list_names :: "string \<Rightarrow> string list" where
  "list_names s = takeWhile (\<lambda>t. t \<noteq> []) (comma_split s)"

lemma match_client_find:
  "fst (match_client dup sprops first off ts) =
     (case find (\<lambda>p. p \<in> set sprops) (takeWhile (\<lambda>t. t \<noteq> []) ts) of None \<Rightarrow> None | Some p \<Rightarrow> dup p)"
  by (induction ts arbitrary: off) (auto simp: list_ex_iff)

lemma match_client_next:
  assumes "comma_split (drop off client) = ts" "fst (match_client Some sprops first off ts) = Some p"
    and "snd (match_client Some sprops first off ts) = n"
  shows "\<exists>k<length ts. ts ! k = p \<and> (if Suc k < length ts then comma_split (drop n client) = drop (Suc k) ts else n = first)"
  using assms
proof (induction ts arbitrary: off)
  case (Cons t ts)
  show ?case
  proof (cases "list_ex (\<lambda>sp. t = sp) sprops")
    case True
    then have "t = p" "n = (if ts = [] then first else off + length t + 1)" "t \<noteq> []"
      using Cons.prems by (auto split: if_splits)
    moreover have "comma_split (drop (length t + 1) (drop off client)) = ts" if "ts \<noteq> []"
      using comma_split_drop [OF Cons.prems(1) that] .
    ultimately show ?thesis by (intro exI [of _ 0]) (auto simp: add.commute add.left_commute)
  next
    case False
    then have t: "t \<noteq> []" "fst (match_client Some sprops first (off + length t + 1) ts) = Some p"
      "snd (match_client Some sprops first (off + length t + 1) ts) = n"
      using Cons.prems by (auto split: if_splits)
    then have "ts \<noteq> []" by auto
    then have "comma_split (drop (length t + 1) (drop off client)) = ts"
      using comma_split_drop [OF Cons.prems(1)] by blast
    then have "comma_split (drop (off + length t + 1) client) = ts" by (simp add: add.commute add.left_commute)
    from Cons.IH [OF this t(2,3)] obtain k where k: "k < length ts" "ts ! k = p"
      "if Suc k < length ts then comma_split (drop n client) = drop (Suc k) ts else n = first" by blast
    then show ?thesis by (intro exI [of _ "Suc k"]) auto
  qed
qed simp

section \<open>Properties\<close>

text \<open>C22: \<open>match_pattern\<close> accepts only strings the wildcards allow, and without two asterisks in a
  row it accepts all of them.\<close>

theorem match_pattern_correct:
  "(match_pattern s p \<longrightarrow> glob s p) \<and> (no_double_star p \<longrightarrow> match_pattern s p = glob s p)"
  using match_sound(1) match_complete(1) by blast

theorem match_pattern_correct_witness:
  "no_double_star ''a*?z'' \<and> match_pattern ''abcz'' ''a*?z'' = glob ''abcz'' ''a*?z''"
  using match_pattern_correct [of "''abcz''" "''a*?z''"] by simp

text \<open>two asterisks in a row want at least one character: no string matches itself followed by
  them, although the empty string is among what they stand for.\<close>

theorem match_pattern_double_star:
  assumes "CHR ''*'' \<notin> set s" "CHR ''?'' \<notin> set s"
  shows "\<not> match_pattern s (s @ ''**'') \<and> glob s (s @ ''**'') \<and> match_pattern s (s @ ''*'')"
proof -
  have "match_pattern s (s @ ''*'')" using assms by (induction s) auto
  then show ?thesis using match_double_star_end [OF assms] glob_double_star_end by blast
qed

theorem match_pattern_double_star_witness:
  "\<not> match_pattern ''foo'' ''foo**'' \<and> match_pattern ''foo'' ''foo*''"
  using match_pattern_double_star [of "''foo''"] by simp



text \<open>\<open>match_list\<close> returns the first name of the client's list among the first 40 names of the
  server's, and tells where the rest of the client's list starts.\<close>

theorem match_list_correct:
  "\<exists>n. match_list Some client server =
     (find (\<lambda>p. p \<in> set (take MAX_PROP (list_names server))) (list_names client), Some n) \<and>
   (\<forall>p. fst (match_list Some client server) = Some p \<longrightarrow>
     (\<exists>k<length (comma_split client). comma_split client ! k = p \<and>
       (if Suc k < length (comma_split client)
        then comma_split (drop n client) = drop (Suc k) (comma_split client)
        else n = length (hd (comma_split client)))))"
proof -
  define sp where "sp = collect_props 0 (comma_split server)"
  define f where "f = length (hd (comma_split client))"
  define n where "n = snd (match_client Some sp f 0 (comma_split client))"
  have set: "set sp = set (take MAX_PROP (list_names server))"
    by (simp add: sp_def collect_props_take list_names_def)
  have run: "match_list Some client server = (fst (match_client Some sp f 0 (comma_split client)), Some n)"
    by (simp add: match_list_def sp_def f_def n_def Let_def split_beta)
  have find: "fst (match_client Some sp f 0 (comma_split client)) =
      find (\<lambda>p. p \<in> set (take MAX_PROP (list_names server))) (list_names client)"
    unfolding match_client_find set list_names_def [symmetric] by (simp split: option.splits)
  have nx: "\<exists>k<length (comma_split client). comma_split client ! k = p \<and>
       (if Suc k < length (comma_split client)
        then comma_split (drop n client) = drop (Suc k) (comma_split client) else n = f)"
    if "fst (match_list Some client server) = Some p" for p
    by (rule match_client_next [of 0 client _ sp]) (use that in \<open>simp_all add: run n_def\<close>)
  show ?thesis unfolding f_def [symmetric]
    by (rule exI [of _ n]) (use run find nx in \<open>simp only: prod.inject, blast\<close>)
qed

theorem match_list_correct_witness:
  "fst (match_list Some ''a,b,c'' ''c,b'') = Some ''b''"
proof -
  have "list_names ''a,b,c'' = [''a'', ''b'', ''c'']" "list_names ''c,b'' = [''c'', ''b'']"
    by (simp_all add: list_names_def)
  then show ?thesis using match_list_correct [of "''a,b,c''" "''c,b''"] by (auto simp: MAX_PROP_def)
qed

end
