(* ===== verification/Addrmatch.thy ===== *)
theory Addrmatch
  imports Match
begin

text \<open>
  Network addresses, CIDR blocks and address lists: \<open>ssh/addrmatch.c\<close>, and the two functions of
  \<open>ssh/match.c\<close> that call it. \<open>getaddrinfo\<close> belongs to the C library and is the argument \<open>gai\<close>.
\<close>

section \<open>Addresses\<close>

datatype sa_family = AF_UNSPEC | AF_INET | AF_INET6 | AF_OTHER nat

text \<open>The union of \<open>struct xaddr\<close> as its 16 bytes, an IPv4 address in the first four.\<close>

record xaddr =
  xa_af :: sa_family
  xa_addr :: "byte list"
  xa_scope :: u32

text \<open>A socket address with the length the library reports for it.\<close>

datatype sockaddr = Sin "byte list" | Sin6 "byte list" u32 | Sother sa_family

definition SIZEOF_SIN :: nat where "SIZEOF_SIN = 16"
definition SIZEOF_SIN6 :: nat where "SIZEOF_SIN6 = 28"

text \<open>\<open>None\<close> for an error, \<open>Some None\<close> for a result without an address.\<close>

type_synonym resolver = "string \<Rightarrow> (sockaddr \<times> nat) option option"

fun addr_unicast_masklen :: "sa_family \<Rightarrow> int" where
  "addr_unicast_masklen AF_INET = 32"
| "addr_unicast_masklen AF_INET6 = 128"
| "addr_unicast_masklen _ = - 1"

text \<open>Functions that return 0 or -1 give a truth value or an option.\<close>

fun masklen_valid :: "sa_family \<Rightarrow> nat \<Rightarrow> bool" where
  "masklen_valid AF_INET masklen = (masklen \<le> 32)"
| "masklen_valid AF_INET6 masklen = (masklen \<le> 128)"
| "masklen_valid _ masklen = False"

fun addr_sa_to_xaddr :: "sockaddr \<Rightarrow> nat \<Rightarrow> xaddr option" where
  "addr_sa_to_xaddr (Sin a) slen =
     (if slen < SIZEOF_SIN then None
      else Some \<lparr>xa_af = AF_INET, xa_addr = a @ replicate 12 0, xa_scope = 0\<rparr>)"
| "addr_sa_to_xaddr (Sin6 a scope) slen =
     (if slen < SIZEOF_SIN6 then None
      else Some \<lparr>xa_af = AF_INET6, xa_addr = a, xa_scope = scope\<rparr>)"
| "addr_sa_to_xaddr (Sother _) slen = None"

text \<open>The bytes of \<open>htonl(w)\<close> in memory.\<close>

definition htonl_bytes :: "u32 \<Rightarrow> byte list" where
  "htonl_bytes w = [ucast (drop_bit 24 w), ucast (drop_bit 16 w), ucast (drop_bit 8 w), ucast w]"

text \<open>The words of an IPv6 netmask of \<open>l\<close> bits, for the words still to fill.\<close>

fun mask_words :: "nat \<Rightarrow> nat \<Rightarrow> u32 list" where
  "mask_words 0 l = []"
| "mask_words (Suc k) l =
     (if l \<ge> 32 then 0xffffffff # mask_words k (l - 32)
      else (if l \<noteq> 0 then push_bit (32 - l) 0xffffffff else 0) # replicate k 0)"

definition addr_netmask :: "sa_family \<Rightarrow> nat \<Rightarrow> xaddr option" where
  "addr_netmask af l =
     (if \<not> masklen_valid af l then None
      else case af of
          AF_INET \<Rightarrow>
            Some \<lparr>xa_af = AF_INET,
              xa_addr = htonl_bytes (if l = 0 then 0 else push_bit (32 - l) 0xffffffff) @ replicate 12 0,
              xa_scope = 0\<rparr>
        | AF_INET6 \<Rightarrow>
            Some \<lparr>xa_af = AF_INET6, xa_addr = concat (map htonl_bytes (mask_words 4 l)), xa_scope = 0\<rparr>
        | _ \<Rightarrow> None)"

definition bytes_and :: "byte list \<Rightarrow> byte list \<Rightarrow> byte list" where
  "bytes_and xs ys = map2 (AND) xs ys"

definition addr_and :: "xaddr \<Rightarrow> xaddr \<Rightarrow> xaddr option" where
  "addr_and a b =
     (if xa_af a \<noteq> xa_af b then None
      else case xa_af a of
          AF_INET \<Rightarrow> Some (a\<lparr>xa_addr := bytes_and (take 4 (xa_addr a)) (take 4 (xa_addr b)) @ drop 4 (xa_addr a)\<rparr>)
        | AF_INET6 \<Rightarrow> Some (a\<lparr>xa_addr := bytes_and (xa_addr a) (xa_addr b)\<rparr>)
        | _ \<Rightarrow> None)"

fun bytes_cmp :: "byte list \<Rightarrow> byte list \<Rightarrow> int" where
  "bytes_cmp (x # xs) (y # ys) = (if x \<noteq> y then if x > y then 1 else - 1 else bytes_cmp xs ys)"
| "bytes_cmp _ _ = 0"

text \<open>\<open>ntohl\<close> of an IPv4 address is compared by its bytes, most significant first.\<close>

definition addr_cmp :: "xaddr \<Rightarrow> xaddr \<Rightarrow> int" where
  "addr_cmp a b =
     (if xa_af a \<noteq> xa_af b then if xa_af a = AF_INET6 then 1 else - 1
      else case xa_af a of
          AF_INET \<Rightarrow> bytes_cmp (take 4 (xa_addr a)) (take 4 (xa_addr b))
        | AF_INET6 \<Rightarrow>
            (if bytes_cmp (xa_addr a) (xa_addr b) \<noteq> 0 then bytes_cmp (xa_addr a) (xa_addr b)
             else if xa_scope a = xa_scope b then 0
             else if xa_scope a > xa_scope b then 1 else - 1)
        | _ \<Rightarrow> - 1)"

definition addr_pton :: "resolver \<Rightarrow> string \<Rightarrow> xaddr option" where
  "addr_pton gai p =
     (case gai p of
        Some (Some (sa, slen)) \<Rightarrow> addr_sa_to_xaddr sa slen
      | _ \<Rightarrow> None)"

definition addr_invert :: "xaddr \<Rightarrow> xaddr option" where
  "addr_invert n =
     (case xa_af n of
        AF_INET \<Rightarrow> Some (n\<lparr>xa_addr := map (\<lambda>x. NOT x) (take 4 (xa_addr n)) @ drop 4 (xa_addr n)\<rparr>)
      | AF_INET6 \<Rightarrow> Some (n\<lparr>xa_addr := map (\<lambda>x. NOT x) (xa_addr n)\<rparr>)
      | _ \<Rightarrow> None)"

definition addr_hostmask :: "sa_family \<Rightarrow> nat \<Rightarrow> xaddr option" where
  "addr_hostmask af l = Option.bind (addr_netmask af l) addr_invert"

definition addr_is_all0s :: "xaddr \<Rightarrow> bool" where
  "addr_is_all0s a =
     (case xa_af a of
        AF_INET \<Rightarrow> list_all (\<lambda>x. x = 0) (take 4 (xa_addr a))
      | AF_INET6 \<Rightarrow> list_all (\<lambda>x. x = 0) (xa_addr a)
      | _ \<Rightarrow> False)"

definition addr_host_is_all0s :: "xaddr \<Rightarrow> nat \<Rightarrow> bool" where
  "addr_host_is_all0s a masklen =
     (case addr_hostmask (xa_af a) masklen of None \<Rightarrow> False
      | Some tmp_mask \<Rightarrow> (case addr_and a tmp_mask of None \<Rightarrow> False | Some r \<Rightarrow> addr_is_all0s r))"

section \<open>CIDR blocks\<close>

definition is_space :: "char \<Rightarrow> bool" where
  "is_space c \<longleftrightarrow> c = CHR '' '' \<or> (9 \<le> (of_char c :: nat) \<and> (of_char c :: nat) \<le> 13)"

definition is_digit :: "char \<Rightarrow> bool" where
  "is_digit c \<longleftrightarrow> 48 \<le> (of_char c :: nat) \<and> (of_char c :: nat) \<le> 57"

definition ULONG_MAX :: nat where "ULONG_MAX = 2 ^ 64 - 1"

text \<open>\<open>strtoul(s, &end, 10)\<close>: its value and the rest of the string behind the number.\<close>

definition strtoul10 :: "string \<Rightarrow> nat \<times> string" where
  "strtoul10 s =
     (let t = dropWhile is_space s;
          neg = (t \<noteq> [] \<and> hd t = CHR ''-'');
          u = (if t \<noteq> [] \<and> (hd t = CHR ''-'' \<or> hd t = CHR ''+'') then tl t else t);
          ds = takeWhile is_digit u;
          v = foldl (\<lambda>a c. a * 10 + (of_char c - 48)) 0 ds
      in if ds = [] then (0, s)
         else if v > ULONG_MAX then (ULONG_MAX, dropWhile is_digit u)
         else if neg then ((2 ^ 64 - v) mod 2 ^ 64, dropWhile is_digit u)
         else (v, dropWhile is_digit u))"

datatype cidr = Cidr xaddr nat | Cidr_parse_error | Cidr_inconsistent

definition addr_pton_cidr :: "resolver \<Rightarrow> string \<Rightarrow> cidr" where
  "addr_pton_cidr gai p =
     (if length p \<ge> 64 then Cidr_parse_error
      else
        let a = takeWhile (\<lambda>c. c \<noteq> CHR ''/'') p;
            slash = CHR ''/'' \<in> set p;
            mp = drop (length a + 1) p;
            (masklen, cp) = strtoul10 mp
        in if slash \<and> (mp = [] \<or> cp \<noteq> [] \<or> masklen > 128) then Cidr_parse_error
           else case addr_pton gai a of None \<Rightarrow> Cidr_parse_error
             | Some tmp \<Rightarrow>
                 let l = (if slash then masklen else nat (addr_unicast_masklen (xa_af tmp))) in
                 if \<not> masklen_valid (xa_af tmp) l then Cidr_inconsistent
                 else if \<not> addr_host_is_all0s tmp l then Cidr_inconsistent
                 else Cidr tmp l)"

definition addr_netmatch :: "xaddr \<Rightarrow> xaddr \<Rightarrow> nat \<Rightarrow> int" where
  "addr_netmatch host net masklen =
     (if xa_af host \<noteq> xa_af net then - 1
      else case addr_netmask (xa_af host) masklen of None \<Rightarrow> - 1
        | Some tmp_mask \<Rightarrow> (case addr_and host tmp_mask of None \<Rightarrow> - 1 | Some r \<Rightarrow> addr_cmp r net))"

section \<open>Address lists\<close>

text \<open>
  The loop of \<open>addr_match_list\<close> over the tokens of the list. \<open>try_addr\<close> is the address to match with
  its text, \<open>None\<close> when only the list is checked.
\<close>

fun addr_list_loop :: "resolver \<Rightarrow> (string \<times> xaddr) option \<Rightarrow> string list \<Rightarrow> int \<Rightarrow> int" where
  "addr_list_loop gai try_addr [] ret = ret"
| "addr_list_loop gai try_addr (t # ts) ret =
     (let neg = (t \<noteq> [] \<and> hd t = CHR ''!''); cp = (if neg then tl t else t) in
      if cp = [] then - 2
      else
        let found = (if neg then - 1 else addr_list_loop gai try_addr ts 1);
            next = addr_list_loop gai try_addr ts ret
        in case addr_pton_cidr gai cp of
             Cidr_inconsistent \<Rightarrow> - 2
           | Cidr match_addr masklen \<Rightarrow>
               (case try_addr of None \<Rightarrow> next
                | Some (_, a) \<Rightarrow> if addr_netmatch a match_addr masklen = 0 then found else next)
           | Cidr_parse_error \<Rightarrow>
               (case try_addr of None \<Rightarrow> next
                | Some (addr, _) \<Rightarrow> if match_pattern addr cp then found else next))"

text \<open>\<open>mem\<close> says whether \<open>strdup\<close> succeeds; \<open>addr\<close> is \<open>None\<close> for NULL.\<close>

definition addr_match_list :: "resolver \<Rightarrow> bool \<Rightarrow> string option \<Rightarrow> string \<Rightarrow> int" where
  "addr_match_list gai mem addr list =
     (case addr of
        None \<Rightarrow> if \<not> mem then - 1 else addr_list_loop gai None (comma_split list) 0
      | Some s \<Rightarrow>
          (case addr_pton gai s of None \<Rightarrow> 0
           | Some a \<Rightarrow> if \<not> mem then - 1 else addr_list_loop gai (Some (s, a)) (comma_split list) 0))"

definition INET6_ADDRSTRLEN :: nat where "INET6_ADDRSTRLEN = 46"

definition VALID_CIDR_CHARS :: string where "VALID_CIDR_CHARS = ''0123456789abcdefABCDEF.:/''"

fun cidr_list_loop :: "resolver \<Rightarrow> xaddr option \<Rightarrow> string list \<Rightarrow> int \<Rightarrow> int" where
  "cidr_list_loop gai try_addr [] ret = ret"
| "cidr_list_loop gai try_addr (cp # ts) ret =
     (if cp = [] then - 1
      else if length cp > INET6_ADDRSTRLEN + 3 then - 1
      else
        let ret1 = (if list_all (\<lambda>c. c \<in> set VALID_CIDR_CHARS) cp then ret else - 1) in
        case addr_pton_cidr gai cp of
          Cidr_parse_error \<Rightarrow> - 1
        | Cidr_inconsistent \<Rightarrow> - 1
        | Cidr match_addr masklen \<Rightarrow>
            (case try_addr of None \<Rightarrow> cidr_list_loop gai try_addr ts ret1
             | Some a \<Rightarrow>
                 cidr_list_loop gai try_addr ts
                   (if addr_netmatch a match_addr masklen = 0 then 1 else ret1)))"

definition addr_match_cidr_list :: "resolver \<Rightarrow> bool \<Rightarrow> string option \<Rightarrow> string \<Rightarrow> int" where
  "addr_match_cidr_list gai mem addr list =
     (case addr of
        None \<Rightarrow> if \<not> mem then - 1 else cidr_list_loop gai None (comma_split list) 0
      | Some s \<Rightarrow>
          (case addr_pton gai s of None \<Rightarrow> 0
           | Some a \<Rightarrow> if \<not> mem then - 1 else cidr_list_loop gai (Some a) (comma_split list) 0))"

section \<open>Hosts and users\<close>

definition match_host_and_ip :: "resolver \<Rightarrow> bool \<Rightarrow> string \<Rightarrow> string \<Rightarrow> string \<Rightarrow> int" where
  "match_host_and_ip gai mem host ipaddr patterns =
     (let mip = addr_match_list gai mem (Some ipaddr) patterns in
      if mip = - 2 then - 1
      else if mip = - 1 then 0
      else
        let mhost = match_hostname host patterns (length patterns) in
        if mhost = - 1 then 0
        else if mhost = 0 \<and> mip = 0 then 0
        else 1)"

definition match_user :: "resolver \<Rightarrow> bool \<Rightarrow> string \<Rightarrow> string \<Rightarrow> string \<Rightarrow> string \<Rightarrow> int" where
  "match_user gai mem user host ipaddr pattern =
     (if CHR ''@'' \<notin> set pattern then of_bool (match_pattern user pattern)
      else if \<not> mem then 0
      else
        let pat = takeWhile (\<lambda>c. c \<noteq> CHR ''@'') pattern;
            p = drop (length pat + 1) pattern
        in if match_pattern user pat then match_host_and_ip gai mem host ipaddr p else 0)"

section \<open>Addresses as bits\<close>

text \<open>Bit \<open>i\<close> of a sequence of bytes, the most significant bit of the first byte being bit 0.\<close>

definition lbit :: "byte list \<Rightarrow> nat \<Rightarrow> bool" where
  "lbit xs i \<longleftrightarrow> bit (xs ! (i div 8)) (7 - i mod 8)"

fun addr_width :: "sa_family \<Rightarrow> nat" where
  "addr_width AF_INET = 32"
| "addr_width AF_INET6 = 128"
| "addr_width _ = 0"

definition xaddr_wf :: "xaddr \<Rightarrow> bool" where
  "xaddr_wf a \<longleftrightarrow> (xa_af a = AF_INET \<or> xa_af a = AF_INET6) \<and> length (xa_addr a) = 16"

lemma below_width: "7 - (n :: nat) < 8" "31 - (n :: nat) < 32"
  by (rule order_le_less_trans [OF diff_le_self]; simp)+

lemma byte_eq_bits: "(x :: byte) = y \<longleftrightarrow> (\<forall>j<8. bit x (7 - j) = bit y (7 - j))"
proof
  assume *: "\<forall>j<8. bit x (7 - j) = bit y (7 - j)"
  show "x = y"
  proof (rule bit_word_eqI)
    fix n assume "n < LENGTH(8)"
    then show "bit x n = bit y n" using * [rule_format, of "7 - n"] by simp
  qed
qed simp

lemma bytes_eq_bits:
  assumes "length xs = n" "length ys = n"
  shows "xs = ys \<longleftrightarrow> (\<forall>i<8 * n. lbit xs i = lbit ys i)"
proof
  assume *: "\<forall>i<8 * n. lbit xs i = lbit ys i"
  show "xs = ys"
  proof (rule nth_equalityI)
    fix k assume k: "k < length xs"
    have "bit (xs ! k) (7 - j) = bit (ys ! k) (7 - j)" if "j < 8" for j
      using * [rule_format, of "8 * k + j"] that k assms by (simp add: lbit_def)
    then show "xs ! k = ys ! k" using byte_eq_bits by blast
  qed (use assms in simp)
qed simp

lemma bit_index: "i div 8 < n \<longleftrightarrow> i < 8 * (n :: nat)"
  by auto

lemma lbit_map2:
  "i < 8 * length xs \<Longrightarrow> i < 8 * length ys \<Longrightarrow> lbit (bytes_and xs ys) i \<longleftrightarrow> lbit xs i \<and> lbit ys i"
  by (simp add: lbit_def bytes_and_def bit_and_iff bit_index less_mult_imp_div_less mult.commute)

lemma lbit_not: "i < 8 * length xs \<Longrightarrow> lbit (map (\<lambda>x. NOT x) xs) i \<longleftrightarrow> \<not> lbit xs i"
  by (simp add: lbit_def bit_not_iff below_width bit_index less_mult_imp_div_less mult.commute)

lemma lbit_take: "i < 8 * n \<Longrightarrow> lbit (take n xs) i = lbit xs i"
  by (simp add: lbit_def less_mult_imp_div_less mult.commute)

lemma lbit_append: "lbit (xs @ ys) i = (if i < 8 * length xs then lbit xs i else lbit ys (i - 8 * length xs))"
proof (cases "i < 8 * length xs")
  case True
  then show ?thesis by (simp add: lbit_def nth_append less_mult_imp_div_less mult.commute)
next
  case False
  then obtain k where "i = 8 * length xs + k" by (metis le_Suc_ex not_less)
  then show ?thesis by (simp add: lbit_def nth_append)
qed

lemma lbit_zero: "i < 8 * n \<Longrightarrow> \<not> lbit (replicate n 0) i"
  by (simp add: lbit_def less_mult_imp_div_less mult.commute)

lemma lbit_htonl: "i < 32 \<Longrightarrow> lbit (htonl_bytes w) i = bit w (31 - i)"
proof -
  assume i: "i < 32"
  have m: "i = 8 * (i div 8) + i mod 8" "i mod 8 < 8" by simp_all
  have "i div 8 < 4" using i by simp
  then consider "i div 8 = 0" | "i div 8 = 1" | "i div 8 = 2" | "i div 8 = 3" by linarith
  then show ?thesis
  proof cases
    case 1
    then have "31 - i = 24 + (7 - i mod 8)" using m by linarith
    then show ?thesis using 1 by (simp add: lbit_def htonl_bytes_def bit_simps below_width)
  next
    case 2
    then have "31 - i = 16 + (7 - i mod 8)" using m by linarith
    then show ?thesis using 2 by (simp add: lbit_def htonl_bytes_def bit_simps below_width)
  next
    case 3
    then have "31 - i = 8 + (7 - i mod 8)" using m by linarith
    then show ?thesis using 3 by (simp add: lbit_def htonl_bytes_def bit_simps below_width)
  next
    case 4
    then have "31 - i = 7 - i mod 8" using m by linarith
    then show ?thesis using 4 by (simp add: lbit_def htonl_bytes_def bit_simps below_width)
  qed
qed

lemma bit_mask_word:
  assumes "i < 32" "l \<le> 32" "l \<noteq> 0"
  shows "bit (push_bit (32 - l) (0xffffffff :: u32)) (31 - i) \<longleftrightarrow> i < l"
proof -
  have "(0xffffffff :: u32) = - 1" by simp
  then have "bit (push_bit (32 - l) (0xffffffff :: u32)) (31 - i) \<longleftrightarrow> 32 - l \<le> 31 - i"
    using assms by (simp only: bit_push_bit_iff) (auto simp: bit_minus_1_iff below_width)
  then show ?thesis using assms by auto
qed

lemma length_htonl [simp]: "length (htonl_bytes w) = 4"
  by (simp add: htonl_bytes_def)

lemma length_concat_htonl [simp]: "length (concat (map htonl_bytes ws)) = 4 * length ws"
  by (induction ws) simp_all

lemma length_mask_words [simp]: "length (mask_words k l) = k"
  by (induction k arbitrary: l) auto

lemma lbit_zero_words: "i < 32 * k \<Longrightarrow> \<not> lbit (concat (map htonl_bytes (replicate k 0))) i"
  by (induction k arbitrary: i) (auto simp: lbit_append lbit_htonl)

lemma lbit_mask_words: "i < 32 * k \<Longrightarrow> lbit (concat (map htonl_bytes (mask_words k l))) i \<longleftrightarrow> i < l"
proof (induction k arbitrary: i l)
  case (Suc k)
  have one: "bit (0xffffffff :: u32) (31 - i)" if "i < 32" for i
    using bit_mask_word [of i 32] that by simp
  show ?case
  proof (cases "l \<ge> 32")
    case True
    then show ?thesis using Suc.IH [of "i - 32" "l - 32"] Suc.prems one [of i]
      by (auto simp: lbit_append lbit_htonl)
  next
    case False
    then show ?thesis using lbit_zero_words [of "i - 32" k] Suc.prems bit_mask_word [of i l]
      by (auto simp: lbit_append lbit_htonl)
  qed
qed simp

lemma netmask_bits:
  assumes "af = AF_INET \<or> af = AF_INET6" "l \<le> addr_width af"
  shows "\<exists>m. addr_netmask af l = Some m \<and> xa_af m = af \<and> length (xa_addr m) = 16 \<and>
    (\<forall>i<addr_width af. lbit (xa_addr m) i \<longleftrightarrow> i < l)"
  using assms bit_mask_word [of _ l] lbit_mask_words [of _ 4 l]
  by (auto simp: addr_netmask_def lbit_append lbit_htonl)

lemma bytes_cmp_0: "length xs = length ys \<Longrightarrow> bytes_cmp xs ys = 0 \<longleftrightarrow> xs = ys"
  by (induction xs ys rule: bytes_cmp.induct) auto

text \<open>Matching a block compares every bit with the masked address.\<close>

lemma netmatch_bits:
  assumes host: "xaddr_wf host" and net: "xaddr_wf net" "xa_af net = xa_af host"
    and l: "l \<le> addr_width (xa_af host)"
  shows "addr_netmatch host net l = 0 \<longleftrightarrow>
    (\<forall>i<addr_width (xa_af host). lbit (xa_addr net) i \<longleftrightarrow> i < l \<and> lbit (xa_addr host) i) \<and>
    (xa_af host = AF_INET6 \<longrightarrow> xa_scope host = xa_scope net)"
proof -
  have af: "xa_af host = AF_INET \<or> xa_af host = AF_INET6" using host by (simp add: xaddr_wf_def)
  from netmask_bits [OF af l] obtain m where m: "addr_netmask (xa_af host) l = Some m"
    "xa_af m = xa_af host" "length (xa_addr m) = 16"
    "\<forall>i<addr_width (xa_af host). lbit (xa_addr m) i \<longleftrightarrow> i < l" by blast
  have len: "length (xa_addr host) = 16" "length (xa_addr net) = 16" using host net by (simp_all add: xaddr_wf_def)
  from af show ?thesis
  proof
    assume 4: "xa_af host = AF_INET"
    let ?r = "bytes_and (take 4 (xa_addr host)) (take 4 (xa_addr m))"
    have lr: "length ?r = 4" using len m(3) by (simp add: bytes_and_def)
    have "addr_netmatch host net l = 0 \<longleftrightarrow> ?r = take 4 (xa_addr net)"
      using 4 net(2) m(1,2) lr len by (simp add: addr_netmatch_def addr_and_def addr_cmp_def bytes_cmp_0)
    also have "\<dots> \<longleftrightarrow> (\<forall>i<8 * 4. lbit ?r i = lbit (take 4 (xa_addr net)) i)"
      by (rule bytes_eq_bits [OF lr]) (use len in simp)
    also have "\<dots> \<longleftrightarrow> (\<forall>i<32. (lbit (xa_addr host) i \<and> i < l) = lbit (xa_addr net) i)"
      using len m(3,4) 4 by (simp add: lbit_map2 lbit_take)
    finally show ?thesis using 4 by auto
  next
    assume 6: "xa_af host = AF_INET6"
    let ?r = "bytes_and (xa_addr host) (xa_addr m)"
    have lr: "length ?r = 16" using len m(3) by (simp add: bytes_and_def)
    have "addr_netmatch host net l = 0 \<longleftrightarrow> ?r = xa_addr net \<and> xa_scope host = xa_scope net"
      using 6 net(2) m(1,2) lr len by (simp add: addr_netmatch_def addr_and_def addr_cmp_def bytes_cmp_0)
    also have "?r = xa_addr net \<longleftrightarrow> (\<forall>i<8 * 16. lbit ?r i = lbit (xa_addr net) i)"
      by (rule bytes_eq_bits [OF lr]) (use len in simp)
    also have "\<dots> \<longleftrightarrow> (\<forall>i<128. (lbit (xa_addr host) i \<and> i < l) = lbit (xa_addr net) i)"
      using len m(3,4) 6 by (simp add: lbit_map2)
    finally show ?thesis using 6 by auto
  qed
qed


lemma all0_bits:
  assumes "length xs = n"
  shows "list_all (\<lambda>x. x = 0) xs \<longleftrightarrow> (\<forall>i<8 * n. \<not> lbit xs i)"
proof -
  have "list_all (\<lambda>x. x = 0) xs \<longleftrightarrow> xs = replicate n 0"
    using assms by (induction xs arbitrary: n) auto
  then show ?thesis using bytes_eq_bits [OF assms, of "replicate n 0"] lbit_zero [of _ n] by simp
qed

lemma host_all0_bits:
  assumes a: "xaddr_wf a" and l: "l \<le> addr_width (xa_af a)"
  shows "addr_host_is_all0s a l \<longleftrightarrow> (\<forall>i<addr_width (xa_af a). l \<le> i \<longrightarrow> \<not> lbit (xa_addr a) i)"
proof -
  have af: "xa_af a = AF_INET \<or> xa_af a = AF_INET6" and len: "length (xa_addr a) = 16"
    using a by (simp_all add: xaddr_wf_def)
  from netmask_bits [OF af l] obtain m where m: "addr_netmask (xa_af a) l = Some m"
    "xa_af m = xa_af a" "length (xa_addr m) = 16"
    "\<forall>i<addr_width (xa_af a). lbit (xa_addr m) i \<longleftrightarrow> i < l" by blast
  from af show ?thesis
  proof
    assume 4: "xa_af a = AF_INET"
    let ?r = "bytes_and (take 4 (xa_addr a)) (map (\<lambda>x. NOT x) (take 4 (xa_addr m)))"
    have lr: "length ?r = 4" using len m(3) by (simp add: bytes_and_def)
    have "addr_host_is_all0s a l \<longleftrightarrow> list_all (\<lambda>x. x = 0) ?r"
      using 4 m(1-3) lr by (simp add: addr_host_is_all0s_def addr_hostmask_def addr_invert_def addr_and_def addr_is_all0s_def)
    also have "\<dots> \<longleftrightarrow> (\<forall>i<32. lbit (xa_addr a) i \<longrightarrow> i < l)"
      using all0_bits [OF lr] len m(3,4) 4 by (simp add: lbit_map2 lbit_take lbit_not)
    finally show ?thesis using 4 by (auto simp: not_le)
  next
    assume 6: "xa_af a = AF_INET6"
    let ?r = "bytes_and (xa_addr a) (map (\<lambda>x. NOT x) (xa_addr m))"
    have lr: "length ?r = 16" using len m(3) by (simp add: bytes_and_def)
    have "addr_host_is_all0s a l \<longleftrightarrow> list_all (\<lambda>x. x = 0) ?r"
      using 6 m(1-3) by (simp add: addr_host_is_all0s_def addr_hostmask_def addr_invert_def addr_and_def addr_is_all0s_def)
    also have "\<dots> \<longleftrightarrow> (\<forall>i<128. lbit (xa_addr a) i \<longrightarrow> i < l)"
      using all0_bits [OF lr] len m(3,4) 6 by (simp add: lbit_map2 lbit_not)
    finally show ?thesis using 6 by (auto simp: not_le)
  qed
qed

text \<open>What the C library promises of the addresses it returns.\<close>

definition resolver_ok :: "resolver \<Rightarrow> bool" where
  "resolver_ok gai \<longleftrightarrow>
     (\<forall>p sa slen. gai p = Some (Some (sa, slen)) \<longrightarrow>
        (case sa of Sin a \<Rightarrow> length a = 4 | Sin6 a _ \<Rightarrow> length a = 16 | Sother _ \<Rightarrow> True))"

lemma pton_wf: "resolver_ok gai \<Longrightarrow> addr_pton gai p = Some a \<Longrightarrow> xaddr_wf a"
proof -
  assume ok: "resolver_ok gai" and p: "addr_pton gai p = Some a"
  from p obtain sa slen where g: "gai p = Some (Some (sa, slen))" "addr_sa_to_xaddr sa slen = Some a"
    by (auto simp: addr_pton_def split: option.splits)
  have "case sa of Sin a \<Rightarrow> length a = 4 | Sin6 a _ \<Rightarrow> length a = 16 | Sother _ \<Rightarrow> True"
    using ok g(1) unfolding resolver_ok_def by blast
  then show ?thesis using g(2) by (cases sa) (auto simp: xaddr_wf_def split: if_splits)
qed

lemma masklen_width: "xaddr_wf a \<Longrightarrow> masklen_valid (xa_af a) l \<longleftrightarrow> l \<le> addr_width (xa_af a)"
  by (auto simp: xaddr_wf_def)

lemma pton_cidr_okD:
  assumes "resolver_ok gai" "addr_pton_cidr gai p = Cidr net l"
  shows "xaddr_wf net" "l \<le> addr_width (xa_af net)" "addr_host_is_all0s net l"
proof -
  obtain q where q: "addr_pton gai q = Some net" "masklen_valid (xa_af net) l" "addr_host_is_all0s net l"
    using assms(2) by (auto simp: addr_pton_cidr_def Let_def split: if_splits option.splits prod.splits)
  show wf: "xaddr_wf net" by (rule pton_wf [OF assms(1) q(1)])
  show "l \<le> addr_width (xa_af net)" using masklen_width [OF wf] q(2) by simp
  show "addr_host_is_all0s net l" by (rule q(3))
qed

section \<open>Address lists as verdicts\<close>

definition addr_item_bad :: "resolver \<Rightarrow> string \<Rightarrow> bool" where
  "addr_item_bad gai t \<longleftrightarrow> strip_neg t = [] \<or> addr_pton_cidr gai (strip_neg t) = Cidr_inconsistent"

definition addr_item_hit :: "resolver \<Rightarrow> string \<Rightarrow> xaddr \<Rightarrow> string \<Rightarrow> bool" where
  "addr_item_hit gai addr a t \<longleftrightarrow>
     (case addr_pton_cidr gai (strip_neg t) of
        Cidr net l \<Rightarrow> addr_netmatch a net l = 0
      | Cidr_parse_error \<Rightarrow> match_pattern addr (strip_neg t)
      | Cidr_inconsistent \<Rightarrow> False)"

text \<open>The first bad item or matching negated item decides, then any match.\<close>

definition addr_verdict :: "resolver \<Rightarrow> string \<Rightarrow> xaddr \<Rightarrow> string list \<Rightarrow> int" where
  "addr_verdict gai addr a ts =
     (case find (\<lambda>t. addr_item_bad gai t \<or> negated t \<and> addr_item_hit gai addr a t) ts of
        Some t \<Rightarrow> if addr_item_bad gai t then - 2 else - 1
      | None \<Rightarrow> if \<exists>t\<in>set ts. addr_item_hit gai addr a t then 1 else 0)"

lemma strip_neg_if: "(if t \<noteq> [] \<and> hd t = CHR ''!'' then tl t else t) = strip_neg t"
  by (cases t) (auto simp: strip_neg_def)

lemma addr_list_loop_step:
  "addr_list_loop gai (Some (addr, a)) (t # ts) ret =
     (if addr_item_bad gai t then - 2
      else if addr_item_hit gai addr a t then
        if negated t then - 1 else addr_list_loop gai (Some (addr, a)) ts 1
      else addr_list_loop gai (Some (addr, a)) ts ret)"
  unfolding addr_list_loop.simps Let_def strip_neg_if
  by (auto simp: addr_item_bad_def addr_item_hit_def negated_def split: cidr.splits)

lemma addr_list_loop_verdict:
  "g = 0 \<or> g = 1 \<Longrightarrow> addr_list_loop gai (Some (addr, a)) ts g =
    (if addr_verdict gai addr a ts = 0 then g else addr_verdict gai addr a ts)"
proof (induction ts arbitrary: g)
  case (Cons t ts)
  show ?case unfolding addr_list_loop_step using Cons.IH [of 1] Cons.IH [OF Cons.prems]
    by (auto simp: addr_verdict_def split: option.splits)
qed (simp add: addr_verdict_def)

section \<open>Properties\<close>


definition gai_example :: resolver where
  "gai_example p =
     (if p = ''10.1.2.3'' then Some (Some (Sin [10, 1, 2, 3], 16))
      else if p = ''10.0.0.0'' then Some (Some (Sin [10, 0, 0, 0], 16)) else None)"

lemma gai_example_ok: "resolver_ok gai_example"
  by (auto simp: resolver_ok_def gai_example_def split: if_splits)

lemma strtoul_8: "strtoul10 ''8'' = (8, [])" "strtoul10 ''+8'' = (8, [])"
  by (simp_all add: strtoul10_def is_space_def is_digit_def ULONG_MAX_def Let_def)

lemma host_zero_example:
  "addr_host_is_all0s \<lparr>xa_af = AF_INET, xa_addr = [10, 0, 0, 0] @ replicate 12 0, xa_scope = 0\<rparr> 8"
  by code_simp

lemma cidr_example:
  "addr_pton_cidr gai_example ''10.0.0.0/8'' = Cidr \<lparr>xa_af = AF_INET, xa_addr = [10, 0, 0, 0] @ replicate 12 0, xa_scope = 0\<rparr> 8"
  "addr_pton_cidr gai_example ''10.0.0.0/+8'' = Cidr \<lparr>xa_af = AF_INET, xa_addr = [10, 0, 0, 0] @ replicate 12 0, xa_scope = 0\<rparr> 8"
  using host_zero_example
  by (simp_all add: addr_pton_cidr_def strtoul_8 addr_pton_def gai_example_def SIZEOF_SIN_def)

lemma pton_example:
  "addr_pton gai_example ''10.1.2.3'' = Some \<lparr>xa_af = AF_INET, xa_addr = [10, 1, 2, 3] @ replicate 12 0, xa_scope = 0\<rparr>"
  by (simp add: addr_pton_def gai_example_def SIZEOF_SIN_def)

lemma netmatch_example:
  "addr_netmatch \<lparr>xa_af = AF_INET, xa_addr = [10, 1, 2, 3] @ replicate 12 0, xa_scope = 0\<rparr>
     \<lparr>xa_af = AF_INET, xa_addr = [10, 0, 0, 0] @ replicate 12 0, xa_scope = 0\<rparr> 8 = 0"
  by code_simp


text \<open>the verdict of an address list for an address that can be parsed: the first item that is
  malformed or a matching negation decides, -2 or -1; otherwise it is 1 if an item matches,
  as a CIDR block or, failing that, as a pattern, and 0 if none does.\<close>

theorem addr_match_list_correct:
  assumes "addr_pton gai addr = Some a"
  shows "addr_match_list gai True (Some addr) list = addr_verdict gai addr a (comma_split list)"
  using assms addr_list_loop_verdict [of 0 gai addr a "comma_split list"]
  by (simp add: addr_match_list_def)

theorem addr_match_list_correct_witness:
  "addr_match_list gai_example True (Some ''10.1.2.3'') ''!10.1.2.*,10.0.0.0/8'' = - 1"
proof -
  have "addr_pton_cidr gai_example ''10.1.2.*'' = Cidr_parse_error"
    by (simp add: addr_pton_cidr_def strtoul10_def addr_pton_def gai_example_def split: prod.splits)
  then show ?thesis using addr_match_list_correct [OF pton_example]
    by (simp add: addr_verdict_def addr_item_bad_def addr_item_hit_def strip_neg_def negated_def)
qed

text \<open>a CIDR list accepts an entry with forbidden characters: the check reports it but does not
  stop, so the entry is resolved and its match overrides the error.\<close>

theorem addr_match_cidr_list_junk:
  assumes "addr_pton gai addr = Some a" "addr_pton_cidr gai entry = Cidr net l" "addr_netmatch a net l = 0"
    and "entry \<noteq> []" "length entry \<le> INET6_ADDRSTRLEN + 3" "CHR '','' \<notin> set entry"
    and "\<not> list_all (\<lambda>c. c \<in> set VALID_CIDR_CHARS) entry"
  shows "addr_match_cidr_list gai True (Some addr) entry = 1"
proof -
  have "comma_split entry = [entry]" using assms(6) by (induction entry) auto
  then show ?thesis using assms by (simp add: addr_match_cidr_list_def)
qed

theorem addr_match_cidr_list_junk_witness:
  "addr_match_cidr_list gai_example True (Some ''10.1.2.3'') ''10.0.0.0/+8'' = 1"
  by (rule addr_match_cidr_list_junk [OF pton_example cidr_example(2) netmatch_example])
    (simp_all add: INET6_ADDRSTRLEN_def VALID_CIDR_CHARS_def)

end
