(* ===== verification/Sshbuf_Crypto.thy ===== *)
theory Sshbuf_Crypto
  imports Sshbuf_Getput
begin

text \<open>
  Big numbers and elliptic curve points in buffers: \<open>ssh/sshbuf-getput-crypto.c\<close>. OpenSSL's
  \<open>BIGNUM\<close> and \<open>EC_POINT\<close> are not part of the repository; the functions the code calls are the
  fields of the records below, and what their documentation says of them is \<open>bn_lib_ok\<close> and
  \<open>ec_lib_ok\<close>.
\<close>

section \<open>The libraries\<close>

text \<open>\<open>bin2bn\<close> gives \<open>None\<close> when memory runs out.\<close>

record 'bn bn_lib =
  BN_num_bits :: "'bn \<Rightarrow> int"
  BN_bn2bin :: "'bn \<Rightarrow> byte list"
  BN_bin2bn :: "byte list \<Rightarrow> 'bn option"
  BN_is_negative :: "'bn \<Rightarrow> bool"

definition BN_num_bytes :: "'bn bn_lib \<Rightarrow> 'bn \<Rightarrow> int" where
  "BN_num_bytes L v = (BN_num_bits L v + 7) div 8"

definition bn_lib_ok :: "'bn bn_lib \<Rightarrow> bool" where
  "bn_lib_ok L \<longleftrightarrow>
     (\<forall>v. 0 \<le> BN_num_bits L v \<and> int (length (BN_bn2bin L v)) = BN_num_bytes L v) \<and>
     (\<forall>v. \<not> BN_is_negative L v \<longrightarrow> BN_bin2bn L (BN_bn2bin L v) = Some v) \<and>
     (\<forall>bs. BN_bin2bn L (0 # bs) = BN_bin2bn L bs)"

text \<open>
  \<open>oct_len\<close> is the result of \<open>EC_POINT_point2oct\<close> without a buffer, \<open>point2oct\<close> what it writes
  into a buffer of the given size. Memory: \<open>ctx_new\<close> and \<open>point_new\<close>.
\<close>

record ('g, 'p, 'k) ec_lib =
  EC_oct2point :: "'g \<Rightarrow> byte list \<Rightarrow> 'p option"
  EC_oct_len :: "'g \<Rightarrow> 'p \<Rightarrow> size_t"
  EC_point2oct :: "'g \<Rightarrow> 'p \<Rightarrow> size_t \<Rightarrow> byte list"
  EC_key_group :: "'k \<Rightarrow> 'g"
  EC_key_public :: "'k \<Rightarrow> 'p"
  EC_key_set_public :: "'k \<Rightarrow> 'p \<Rightarrow> 'k option"
  EC_ctx_new :: bool
  EC_point_new :: "'g \<Rightarrow> bool"

definition POINT_CONVERSION_UNCOMPRESSED :: byte where "POINT_CONVERSION_UNCOMPRESSED = 4"

definition ec_lib_ok :: "('g, 'p, 'k) ec_lib \<Rightarrow> 'g \<Rightarrow> 'p \<Rightarrow> bool" where
  "ec_lib_ok L g p \<longleftrightarrow>
     (let d = EC_point2oct L g p (EC_oct_len L g p) in
      length d = EC_oct_len L g p \<and> d \<noteq> [] \<and> hd d = POINT_CONVERSION_UNCOMPRESSED \<and>
      EC_oct2point L g d = Some p)"

definition SSHBUF_MAX_BIGNUM :: nat where "SSHBUF_MAX_BIGNUM = 8192 div 8"
definition SSHBUF_MAX_ECPOINT :: nat where "SSHBUF_MAX_ECPOINT = 528 * 2 div 8 + 1"

section \<open>Operations\<close>

text \<open>
  \<open>want\<close> says whether the caller passes a place for the value; the result is \<open>None\<close> when not.
\<close>

definition read_bn :: "'bn bn_lib \<Rightarrow> bool \<Rightarrow> byte list \<Rightarrow> 'bn option res" where
  "read_bn L want d =
     (if \<not> want then Inr None
      else case BN_bin2bn L d of None \<Rightarrow> Inl SSH_ERR_ALLOC_FAIL | Some v \<Rightarrow> Inr (Some v))"

definition sshbuf_get_bignum2 :: "'bn bn_lib \<Rightarrow> bool \<Rightarrow> (ssh_err, sshbuf, 'bn option) action" where
  "sshbuf_get_bignum2 L want b =
     (case sshbuf_peek_string_direct b of Inl e \<Rightarrow> (Inl e, b)
      | Inr (i, len) \<Rightarrow>
          let d = take len (drop i (block b)) in
          if len \<noteq> 0 \<and> d ! 0 AND 0x80 \<noteq> 0 then (Inl SSH_ERR_BIGNUM_IS_NEGATIVE, b)
          else if len > SSHBUF_MAX_BIGNUM then (Inl SSH_ERR_BIGNUM_TOO_LARGE, b)
          else (case read_bn L want d of Inl e \<Rightarrow> (Inl e, b)
                | Inr v \<Rightarrow>
                    (case sshbuf_get_string_direct b of
                       (Inl _, b') \<Rightarrow> (Inl SSH_ERR_INTERNAL_ERROR, b')
                     | (Inr _, b') \<Rightarrow> (Inr v, b'))))"

definition sshbuf_get_bignum1 :: "'bn bn_lib \<Rightarrow> bool \<Rightarrow> (ssh_err, sshbuf, 'bn option) action" where
  "sshbuf_get_bignum1 L want b =
     (if sshbuf_len b < 2 then (Inl SSH_ERR_MESSAGE_INCOMPLETE, b)
      else
        let d = bytes_at b (sshbuf_ptr b);
            len_bits = unat (PEEK_U16 d);
            len_bytes = (len_bits + 7) div 8
        in if len_bytes > SSHBUF_MAX_BIGNUM + 1 then (Inl SSH_ERR_BIGNUM_TOO_LARGE, b)
           else if sshbuf_len b < 2 + len_bytes then (Inl SSH_ERR_MESSAGE_INCOMPLETE, b)
           else (case read_bn L want (take len_bytes (drop 2 d)) of Inl e \<Rightarrow> (Inl e, b)
                 | Inr v \<Rightarrow>
                     (case sshbuf_consume (2 + len_bytes) b of
                        (Inl _, b') \<Rightarrow> (Inl SSH_ERR_INTERNAL_ERROR, b')
                      | (Inr _, b') \<Rightarrow> (Inr v, b'))))"

definition get_ec :: "('g, 'p, 'k) ec_lib \<Rightarrow> byte list \<Rightarrow> bool \<Rightarrow> 'g \<Rightarrow> 'p option res" where
  "get_ec L d want g =
     (if length d = 0 \<or> length d > SSHBUF_MAX_ECPOINT then Inl SSH_ERR_ECPOINT_TOO_LARGE
      else if d ! 0 \<noteq> POINT_CONVERSION_UNCOMPRESSED then Inl SSH_ERR_INVALID_FORMAT
      else if \<not> want then Inr None
      else case EC_oct2point L g d of None \<Rightarrow> Inl SSH_ERR_INVALID_FORMAT | Some p \<Rightarrow> Inr (Some p))"

definition sshbuf_get_ec ::
  "('g, 'p, 'k) ec_lib \<Rightarrow> bool \<Rightarrow> 'g \<Rightarrow> (ssh_err, sshbuf, 'p option) action" where
  "sshbuf_get_ec L want g b =
     (case sshbuf_peek_string_direct b of Inl e \<Rightarrow> (Inl e, b)
      | Inr (i, len) \<Rightarrow>
          (case get_ec L (take len (drop i (block b))) want g of Inl e \<Rightarrow> (Inl e, b)
           | Inr v \<Rightarrow>
               (case sshbuf_get_string_direct b of
                  (Inl _, b') \<Rightarrow> (Inl SSH_ERR_INTERNAL_ERROR, b')
                | (Inr _, b') \<Rightarrow> (Inr v, b'))))"

text \<open>The key with its public part set; on an error the caller's key is as before.\<close>

definition sshbuf_get_eckey :: "('g, 'p, 'k) ec_lib \<Rightarrow> 'k \<Rightarrow> (ssh_err, sshbuf, 'k) action" where
  "sshbuf_get_eckey L k b =
     (if \<not> EC_point_new L (EC_key_group L k) then (Inl SSH_ERR_ALLOC_FAIL, b)
      else
        case sshbuf_peek_string_direct b of Inl e \<Rightarrow> (Inl e, b)
        | Inr (i, len) \<Rightarrow>
            (case get_ec L (take len (drop i (block b))) True (EC_key_group L k) of
               Inl e \<Rightarrow> (Inl e, b)
             | Inr v \<Rightarrow>
                 (case EC_key_set_public L k (the v) of None \<Rightarrow> (Inl SSH_ERR_ALLOC_FAIL, b)
                  | Some k' \<Rightarrow>
                      (case sshbuf_get_string_direct b of
                         (Inl _, b') \<Rightarrow> (Inl SSH_ERR_INTERNAL_ERROR, b')
                       | (Inr _, b') \<Rightarrow> (Inr k', b')))))"

definition sshbuf_put_bignum2 :: "'bn bn_lib \<Rightarrow> allocator \<Rightarrow> 'bn \<Rightarrow> (ssh_err, sshbuf, unit) action" where
  "sshbuf_put_bignum2 L am v =
     (let len = BN_num_bytes L v; d = BN_bn2bin L v in
      if len < 0 \<or> len > int SSHBUF_MAX_BIGNUM then act_fail SSH_ERR_INVALID_ARGUMENT
      else if int (length d) \<noteq> len then act_fail SSH_ERR_INTERNAL_ERROR
      else if len > 0 \<and> d ! 0 AND 0x80 \<noteq> 0 then sshbuf_put_string am (0 # d)
      else sshbuf_put_string am d)"

definition sshbuf_put_bignum1 :: "'bn bn_lib \<Rightarrow> allocator \<Rightarrow> 'bn \<Rightarrow> (ssh_err, sshbuf, unit) action" where
  "sshbuf_put_bignum1 L am v =
     (let len_bits = BN_num_bits L v; len_bytes = nat ((len_bits + 7) div 8); d = BN_bn2bin L v in
      if len_bits < 0 \<or> len_bytes > SSHBUF_MAX_BIGNUM then act_fail SSH_ERR_INVALID_ARGUMENT
      else if length d \<noteq> len_bytes then act_fail SSH_ERR_INTERNAL_ERROR
      else act_bind (sshbuf_reserve am (len_bytes + 2))
             (\<lambda>i b. (Inr (), poke (i + 2) d (poke i (POKE_U16 (of_int len_bits)) b))))"

definition sshbuf_put_ec ::
  "('g, 'p, 'k) ec_lib \<Rightarrow> allocator \<Rightarrow> 'p \<Rightarrow> 'g \<Rightarrow> (ssh_err, sshbuf, unit) action" where
  "sshbuf_put_ec L am v g =
     (let len = EC_oct_len L g v; d = EC_point2oct L g v len in
      if \<not> EC_ctx_new L then act_fail SSH_ERR_ALLOC_FAIL
      else if len > SSHBUF_MAX_ECPOINT then act_fail SSH_ERR_INVALID_ARGUMENT
      else if length d \<noteq> len then act_fail SSH_ERR_INTERNAL_ERROR
      else sshbuf_put_string am d)"

definition sshbuf_put_eckey ::
  "('g, 'p, 'k) ec_lib \<Rightarrow> allocator \<Rightarrow> 'k \<Rightarrow> (ssh_err, sshbuf, unit) action" where
  "sshbuf_put_eckey L am k = sshbuf_put_ec L am (EC_key_public L k) (EC_key_group L k)"

section \<open>Encodings\<close>

text \<open>The bytes of a nonnegative number of the second protocol: a zero keeps the sign bit free.\<close>

definition mpint :: "'bn bn_lib \<Rightarrow> 'bn \<Rightarrow> byte list" where
  "mpint L v =
     (let d = BN_bn2bin L v in if d \<noteq> [] \<and> hd d AND 0x80 \<noteq> 0 then 0 # d else d)"

definition mpint1 :: "'bn bn_lib \<Rightarrow> 'bn \<Rightarrow> byte list" where
  "mpint1 L v = POKE_U16 (of_int (BN_num_bits L v)) @ BN_bn2bin L v"

lemma mpint_sign: "mpint L v = [] \<or> hd (mpint L v) AND 0x80 = 0"
  by (auto simp: mpint_def Let_def split: if_splits)

lemma get_bignum2_wf:
  assumes "sshbuf_wf b"
  shows "sshbuf_get_bignum2 L want b =
    (let c = contents b; d = take (wire_len c) (drop 4 c) in
     if \<not> wire_complete c then (Inl SSH_ERR_MESSAGE_INCOMPLETE, b)
     else if d \<noteq> [] \<and> hd d AND 0x80 \<noteq> 0 then (Inl SSH_ERR_BIGNUM_IS_NEGATIVE, b)
     else if length d > SSHBUF_MAX_BIGNUM then (Inl SSH_ERR_BIGNUM_TOO_LARGE, b)
     else case read_bn L want d of Inl e \<Rightarrow> (Inl e, b)
          | Inr v \<Rightarrow> (Inr v, advance (4 + wire_len c) b))"
proof (cases "wire_complete (contents b)")
  case True
  define d where "d = take (wire_len (contents b)) (drop 4 (contents b))"
  have len: "length d = wire_len (contents b)" using wire_complete_split(2) [OF True] by (simp add: d_def)
  then show ?thesis using True assms drop_block_string [OF assms True]
    by (auto simp: sshbuf_get_bignum2_def peek_string_wf get_string_direct_wf Let_def d_def [symmetric]
        hd_conv_nth split: sum.splits)
next
  case False
  then show ?thesis using assms by (simp add: sshbuf_get_bignum2_def peek_string_wf Let_def)
qed


lemma put_bignum2_cases:
  "sshbuf_put_bignum2 L am v = sshbuf_put_string am (mpint L v) \<or>
   (\<exists>e. sshbuf_put_bignum2 L am v = act_fail e)"
  "0 \<le> BN_num_bytes L v \<Longrightarrow> length (BN_bn2bin L v) \<le> SSHBUF_MAX_BIGNUM \<Longrightarrow>
   int (length (BN_bn2bin L v)) = BN_num_bytes L v \<Longrightarrow>
   sshbuf_put_bignum2 L am v = sshbuf_put_string am (mpint L v)"
  by (cases "BN_bn2bin L v"; auto simp: sshbuf_put_bignum2_def mpint_def Let_def)+

lemma read_bn_mpint:
  "bn_lib_ok L \<Longrightarrow> \<not> BN_is_negative L v \<Longrightarrow> read_bn L True (mpint L v) = Inr (Some v)"
  by (simp add: read_bn_def mpint_def bn_lib_ok_def Let_def)

text \<open>Readers return an optional value; callers that pass a place get the value.\<close>

definition value_of :: "(ssh_err, sshbuf, 'a option) action \<Rightarrow> (ssh_err, sshbuf, 'a) action" where
  "value_of get = act_bind get (\<lambda>v. act_return (the v))"

interpretation bignum2_field:
  wire_field "sshbuf_put_bignum2 L am" "value_of (sshbuf_get_bignum2 L True)"
    "\<lambda>v. wire_string (mpint L v)"
    "\<lambda>v. \<not> BN_is_negative L v \<and> length (mpint L v) \<le> SSHBUF_MAX_BIGNUM" "bn_lib_ok L"
  for L am
proof unfold_locales
  fix b v r b' assume "sshbuf_wf b" "sshbuf_put_bignum2 L am v b = (r, b')"
  then show "sshbuf_wf b' \<and> same_frame b b' \<and>
      contents b' = (case r of Inr _ \<Rightarrow> contents b @ wire_string (mpint L v) | Inl _ \<Rightarrow> contents b)"
    using put_bignum2_cases(1) [of L am v] put_string_cases [of b am "mpint L v" r b']
    by (auto simp: act_simps)
next
  fix b v rest
  assume L: "bn_lib_ok L" and wf: "sshbuf_wf b"
    and v: "\<not> BN_is_negative L v \<and> length (mpint L v) \<le> SSHBUF_MAX_BIGNUM"
    and c: "contents b = wire_string (mpint L v) @ rest"
  have len: "length (mpint L v) < 2 ^ 32" using v by (simp add: SSHBUF_MAX_BIGNUM_def)
  show "\<exists>b'. value_of (sshbuf_get_bignum2 L True) b = (Inr v, b') \<and> sshbuf_wf b' \<and> same_frame b b' \<and> contents b' = rest"
    using L v c len wf wire_len_string [OF len, of rest] wire_complete_string [OF len, of rest]
      advance [OF wf, of "4 + length (mpint L v)"] mpint_sign [of L v] read_bn_mpint [OF L, of v]
    by (simp add: value_of_def act_simps get_bignum2_wf Let_def del: length_contents)
qed

lemma put_bignum1_cases:
  "sshbuf_wf b \<Longrightarrow> sshbuf_put_bignum1 L am v b = sshbuf_put am (mpint1 L v) b \<or>
   (\<exists>e. sshbuf_put_bignum1 L am v b = (Inl e, b))"
proof -
  assume wf: "sshbuf_wf b"
  have poke2: "poke (Suc (Suc i)) d (poke i (POKE_U16 x) c) = poke i (POKE_U16 x @ d) c"
    if "i \<le> length (block c)" for i c x d
    using that write_at_append [of i "block c" "POKE_U16 x" d]
    by (simp add: poke_def set_block_def block_def)
  have "i \<le> length (block c)" if "sshbuf_reserve am n b = (Inr i, c)" for i c n
    using reserve_okD [OF wf that] wf_bounds [of c] by simp
  then show ?thesis
    by (auto simp: sshbuf_put_bignum1_def sshbuf_put_def act_simps poke2 mpint1_def Let_def
        split: prod.splits sum.splits)
qed

lemma get_bignum1_wf:
  assumes "sshbuf_wf b" "length d = (n + 7) div 8" "n \<le> 8192"
    and c: "contents b = POKE_U16 (of_nat n) @ d @ rest"
  shows "sshbuf_get_bignum1 L want b =
    (case read_bn L want d of Inl e \<Rightarrow> (Inl e, b) | Inr v \<Rightarrow> (Inr v, advance (2 + length d) b))"
proof -
  have pk: "unat (PEEK_U16 (bytes_at b (sshbuf_ptr b))) = n"
    using assms(1,3) peek_at [OF assms(1)]
    by (simp add: c peek_poke_u16 unsigned_ucast_eq unsigned_of_nat take_bit_nat_eq_self del: length_contents)
  have dr: "take (length d) (drop 2 (bytes_at b (sshbuf_ptr b))) = d"
  proof -
    have "take (2 + length d) (bytes_at b (sshbuf_ptr b)) = take (2 + length d) (contents b)"
      using take_bytes_at [OF assms(1), of "2 + length d"] c by (simp del: length_contents)
    then have "drop 2 (take (2 + length d) (bytes_at b (sshbuf_ptr b))) = d" by (simp add: c)
    then show ?thesis by (simp add: drop_take)
  qed
  have len: "sshbuf_len b = 2 + length d + length rest" using assms(1) c by (simp del: length_contents)
  have bound: "(n + 7) div 8 \<le> SSHBUF_MAX_BIGNUM + 1" using assms(3) by (simp add: SSHBUF_MAX_BIGNUM_def)
  have con: "sshbuf_consume (2 + length d) b = (Inr (), advance (2 + length d) b)"
    using consume_advance [OF assms(1), of "2 + length d"] c by (simp del: length_contents)
  show ?thesis unfolding sshbuf_get_bignum1_def pk Let_def assms(2) [symmetric] dr con
    using len bound assms(2) by (simp split: sum.splits)
qed

interpretation bignum1_field:
  wire_field "sshbuf_put_bignum1 L am" "value_of (sshbuf_get_bignum1 L True)" "mpint1 L"
    "\<lambda>v. \<not> BN_is_negative L v \<and> BN_num_bits L v \<le> 8192" "bn_lib_ok L"
  for L am
proof unfold_locales
  fix b v r b' assume "sshbuf_wf b" "sshbuf_put_bignum1 L am v b = (r, b')"
  then show "sshbuf_wf b' \<and> same_frame b b' \<and>
      contents b' = (case r of Inr _ \<Rightarrow> contents b @ mpint1 L v | Inl _ \<Rightarrow> contents b)"
    using put_bignum1_cases [of b L am v] put_cases [of b am "mpint1 L v" r b'] by auto
next
  fix b v rest
  assume L: "bn_lib_ok L" and wf: "sshbuf_wf b"
    and v: "\<not> BN_is_negative L v \<and> BN_num_bits L v \<le> 8192" and c: "contents b = mpint1 L v @ rest"
  define n where "n = nat (BN_num_bits L v)"
  have n: "BN_num_bits L v = int n" "length (BN_bn2bin L v) = (n + 7) div 8" "n \<le> 8192"
  proof -
    have "0 \<le> BN_num_bits L v" "int (length (BN_bn2bin L v)) = (BN_num_bits L v + 7) div 8"
      using L by (auto simp: bn_lib_ok_def BN_num_bytes_def)
    then show "BN_num_bits L v = int n" "length (BN_bn2bin L v) = (n + 7) div 8" "n \<le> 8192"
      using v by (auto simp: n_def)
  qed
  have "contents b = POKE_U16 (of_nat n) @ BN_bn2bin L v @ rest" using c by (simp add: mpint1_def n)
  note run = get_bignum1_wf [OF wf n(2,3) this, of L True]
  have "read_bn L True (BN_bn2bin L v) = Inr (Some v)" using L v by (simp add: read_bn_def bn_lib_ok_def)
  with run advance [OF wf, of "2 + length (BN_bn2bin L v)"] c
  show "\<exists>b'. value_of (sshbuf_get_bignum1 L True) b = (Inr v, b') \<and> sshbuf_wf b' \<and> same_frame b b' \<and> contents b' = rest"
    by (simp add: value_of_def act_simps mpint1_def del: length_contents)
qed

lemma put_ec_cases:
  "sshbuf_put_ec L am v g = sshbuf_put_string am (EC_point2oct L g v (EC_oct_len L g v)) \<or>
   (\<exists>e. sshbuf_put_ec L am v g = act_fail e)"
  by (auto simp: sshbuf_put_ec_def Let_def)

interpretation ec_field:
  wire_field "\<lambda>v. sshbuf_put_ec L am v g" "value_of (sshbuf_get_ec L True g)"
    "\<lambda>v. wire_string (EC_point2oct L g v (EC_oct_len L g v))"
    "\<lambda>v. ec_lib_ok L g v \<and> EC_oct_len L g v \<le> SSHBUF_MAX_ECPOINT" True
  for L am g
proof unfold_locales
  fix b v r b' assume "sshbuf_wf b" "sshbuf_put_ec L am v g b = (r, b')"
  then show "sshbuf_wf b' \<and> same_frame b b' \<and> contents b' =
      (case r of Inr _ \<Rightarrow> contents b @ wire_string (EC_point2oct L g v (EC_oct_len L g v)) | Inl _ \<Rightarrow> contents b)"
    using put_ec_cases [of L am v g] put_string_cases [of b am "EC_point2oct L g v (EC_oct_len L g v)" r b']
    by (auto simp: act_simps)
next
  fix b v rest
  assume wf: "sshbuf_wf b" and v: "ec_lib_ok L g v \<and> EC_oct_len L g v \<le> SSHBUF_MAX_ECPOINT"
    and c: "contents b = wire_string (EC_point2oct L g v (EC_oct_len L g v)) @ rest"
  define d where "d = EC_point2oct L g v (EC_oct_len L g v)"
  have d: "length d \<le> SSHBUF_MAX_ECPOINT" "d \<noteq> []" "d ! 0 = POINT_CONVERSION_UNCOMPRESSED"
    "EC_oct2point L g d = Some v"
    using v by (auto simp: ec_lib_ok_def Let_def d_def hd_conv_nth)
  then have len: "length d < 2 ^ 32" by (simp add: SSHBUF_MAX_ECPOINT_def)
  have c': "contents b = wire_string d @ rest" using c by (simp add: d_def)
  have w: "wire_complete (contents b)" "wire_len (contents b) = length d"
    using c' wire_len_string [OF len, of rest] wire_complete_string [OF len, of rest] by simp_all
  have "take (length d) (drop (sb_off b + 4) (block b)) = d"
    using drop_block_string [OF wf w(1)] w(2) c' by simp
  moreover have "get_ec L d True g = Inr (Some v)" using d by (simp add: get_ec_def)
  ultimately have "sshbuf_get_ec L True g b = (Inr (Some v), advance (4 + length d) b)"
    using wf w by (simp add: sshbuf_get_ec_def peek_string_wf get_string_direct_wf)
  then show "\<exists>b'. value_of (sshbuf_get_ec L True g) b = (Inr v, b') \<and> sshbuf_wf b' \<and> same_frame b b' \<and> contents b' = rest"
    using advance [OF wf, of "4 + length d"] c' by (simp add: value_of_def act_simps del: length_contents)
qed

section \<open>Natural numbers as big numbers\<close>

text \<open>An instance of the library, for examples: natural numbers and their big-endian bytes.\<close>

fun nat_bytes :: "nat \<Rightarrow> byte list" where
  "nat_bytes n = (if n = 0 then [] else nat_bytes (n div 256) @ [of_nat n])"

fun nat_bits :: "nat \<Rightarrow> nat" where
  "nat_bits n = (if n = 0 then 0 else Suc (nat_bits (n div 2)))"

declare nat_bytes.simps [simp del] nat_bits.simps [simp del]

definition bn_nat :: "nat bn_lib" where
  "bn_nat = \<lparr>BN_num_bits = \<lambda>n. int (nat_bits n), BN_bn2bin = nat_bytes,
     BN_bin2bn = \<lambda>bs. Some (foldl (\<lambda>a b. a * 256 + unat b) 0 bs), BN_is_negative = \<lambda>_. False\<rparr>"

lemma nat_bits_le: "n < 2 ^ k \<Longrightarrow> nat_bits n \<le> k"
  by (induction k arbitrary: n) (auto simp: nat_bits.simps)

lemma nat_bits_256:
  assumes "n \<ge> 256"
  shows "nat_bits n = nat_bits (n div 256) + 8"
proof -
  have st: "nat_bits m = Suc (nat_bits (m div 2))" if "m > 0" for m using that by (simp add: nat_bits.simps)
  have "nat_bits n = 8 + nat_bits (n div 2 div 2 div 2 div 2 div 2 div 2 div 2 div 2)"
    using assms by (simp add: st)
  then show ?thesis by (simp add: div_mult2_eq [symmetric])
qed

lemma length_nat_bytes: "length (nat_bytes n) = (nat_bits n + 7) div 8"
proof (induction n rule: nat_bytes.induct)
  case (1 n)
  consider "n = 0" | "0 < n" "n < 256" | "n \<ge> 256" by linarith
  then show ?case
  proof cases
    case 2
    have "nat_bits n \<le> 8" using nat_bits_le [of n 8] 2 by simp
    moreover have "nat_bits n > 0" using 2 by (simp add: nat_bits.simps)
    ultimately have "(nat_bits n + 7) div 8 = 1" by auto
    then show ?thesis using 2 by (simp add: nat_bytes.simps [of n] nat_bytes.simps [of 0])
  next
    case 3
    then show ?thesis using 1 nat_bits_256 [OF 3] by (simp add: nat_bytes.simps [of n])
  qed (simp add: nat_bytes.simps nat_bits.simps)
qed

lemma foldl_nat_bytes: "foldl (\<lambda>a b. a * 256 + unat b) 0 (nat_bytes n) = n"
proof (induction n rule: nat_bytes.induct)
  case (1 n)
  have "unat (of_nat n :: byte) = n mod 256" by (simp add: unsigned_of_nat take_bit_eq_mod)
  then show ?case using 1 by (cases "n = 0") (simp_all add: nat_bytes.simps [of n] nat_bytes.simps [of 0])
qed

lemma bn_nat_ok: "bn_lib_ok bn_nat"
  by (simp add: bn_lib_ok_def bn_nat_def BN_num_bytes_def length_nat_bytes foldl_nat_bytes zdiv_int)


lemma put_bignum2_okD:
  assumes "sshbuf_put_bignum2 L am v b = (Inr u, b')"
  shows "sshbuf_put_bignum2 L am v = sshbuf_put_string am (mpint L v)"
    "length (BN_bn2bin L v) \<le> SSHBUF_MAX_BIGNUM"
proof -
  have len: "0 \<le> BN_num_bytes L v" "BN_num_bytes L v \<le> int SSHBUF_MAX_BIGNUM"
    "int (length (BN_bn2bin L v)) = BN_num_bytes L v"
    using assms by (auto simp: sshbuf_put_bignum2_def Let_def act_simps split: if_splits)
  then show "length (BN_bn2bin L v) \<le> SSHBUF_MAX_BIGNUM" by simp
  then show "sshbuf_put_bignum2 L am v = sshbuf_put_string am (mpint L v)"
    using put_bignum2_cases(2) [of L v am] len by simp
qed

section \<open>Properties\<close>

text \<open>C30: a number the writer of the second protocol puts into an empty buffer comes back from the
  reader unless its encoding has more than \<open>SSHBUF_MAX_BIGNUM\<close> bytes. That happens for
  numbers of exactly \<open>SSHBUF_MAX_BIGNUM\<close> bytes with the top bit set: they are written, with a
  zero byte in front, and refused by the reader.\<close>

theorem sshbuf_bignum2_roundtrip:
  assumes "bn_lib_ok L" "\<not> BN_is_negative L v" "sshbuf_wf b" "contents b = []"
    and "sshbuf_put_bignum2 L am v b = (Inr (), b')"
  shows "contents b' = wire_string (mpint L v) \<and>
    (if length (mpint L v) \<le> SSHBUF_MAX_BIGNUM
     then \<exists>b''. sshbuf_get_bignum2 L True b' = (Inr (Some v), b'') \<and> contents b'' = []
     else sshbuf_get_bignum2 L True b' = (Inl SSH_ERR_BIGNUM_TOO_LARGE, b') \<and>
       length (BN_bn2bin L v) = SSHBUF_MAX_BIGNUM \<and> hd (BN_bn2bin L v) AND 0x80 \<noteq> 0)"
proof -
  note p = put_bignum2_okD [OF assms(5)]
  have wf: "sshbuf_wf b'" and c: "contents b' = wire_string (mpint L v)"
    using bignum2_field.put_ok [OF assms(3,5)] assms(4) by auto
  have len: "length (mpint L v) < 2 ^ 32" using p(2) by (auto simp: mpint_def Let_def SSHBUF_MAX_BIGNUM_def)
  have w: "wire_complete (contents b')" "wire_len (contents b') = length (mpint L v)"
    "take (wire_len (contents b')) (drop 4 (contents b')) = mpint L v"
    using wire_len_string [OF len, of "[]"] wire_complete_string [OF len, of "[]"] by (simp_all add: c)
  note rd = get_bignum2_wf [OF wf, of L True, unfolded Let_def w(3)]
  have "read_bn L True (mpint L v) = Inr (Some v)" by (rule read_bn_mpint [OF assms(1,2)])
  moreover have "contents (advance (4 + length (mpint L v)) b') = []"
    using advance(2) [OF wf, of "4 + length (mpint L v)"] c by (simp del: length_contents)
  moreover have "length (BN_bn2bin L v) = SSHBUF_MAX_BIGNUM \<and> hd (BN_bn2bin L v) AND 0x80 \<noteq> 0"
    if "\<not> length (mpint L v) \<le> SSHBUF_MAX_BIGNUM"
    using that p(2) by (auto simp: mpint_def Let_def split: if_splits)
  ultimately show ?thesis using rd w c mpint_sign [of L v] by simp
qed

theorem sshbuf_bignum2_roundtrip_witness:
  "\<exists>b' b''. sshbuf_put_bignum2 bn_nat alloc_zero 70000 fresh_buf = (Inr (), b') \<and>
     sshbuf_get_bignum2 bn_nat True b' = (Inr (Some 70000), b'') \<and> contents b'' = []"
proof -
  have bs: "nat_bytes 70000 = [1, 17, 112]" "nat_bits 70000 = 17"
    by (simp_all add: nat_bytes.simps nat_bits.simps)
  then have mp: "mpint bn_nat 70000 = [1, 17, 112]" by (simp add: mpint_def bn_nat_def)
  have "sshbuf_put_bignum2 bn_nat alloc_zero 70000 = sshbuf_put_string alloc_zero [1, 17, 112]"
    using put_bignum2_cases(2) [of bn_nat 70000 alloc_zero] bs
    by (simp add: bn_nat_def BN_num_bytes_def SSHBUF_MAX_BIGNUM_def mp [unfolded bn_nat_def])
  then have "sshbuf_put_bignum2 bn_nat alloc_zero 70000 fresh_buf =
      sshbuf_put alloc_zero (wire_string [1, 17, 112]) fresh_buf"
    by (simp add: put_string_eq [OF fresh_buf(1)])
  then have "fst (sshbuf_put_bignum2 bn_nat alloc_zero 70000 fresh_buf) = Inr ()"
    using put_succeeds [OF fresh_buf(1,2) _ alloc_zero_total, of "wire_string [1, 17, 112]"] fresh_buf
    by (simp add: SSHBUF_SIZE_MAX_def del: length_contents)
  then obtain b' where run: "sshbuf_put_bignum2 bn_nat alloc_zero 70000 fresh_buf = (Inr (), b')"
    by (metis prod.collapse)
  have "\<not> BN_is_negative bn_nat 70000" by (simp add: bn_nat_def)
  from sshbuf_bignum2_roundtrip [OF bn_nat_ok this fresh_buf(1,3) run] run mp show ?thesis
    by (auto simp: SSHBUF_MAX_BIGNUM_def)
qed

text \<open>What \<open>sshbuf_get_bignum2\<close> accepts has no sign bit and at most \<open>SSHBUF_MAX_BIGNUM\<close> bytes;
  whatever it refuses stays in the buffer.\<close>

theorem sshbuf_get_bignum2_strict:
  assumes "sshbuf_wf b" "sshbuf_get_bignum2 L want b = (r, b')"
  shows "case r of
      Inr v \<Rightarrow> (\<exists>d. contents b = wire_string d @ contents b' \<and> length d \<le> SSHBUF_MAX_BIGNUM \<and>
        (d = [] \<or> hd d AND 0x80 = 0) \<and> v = (if want then BN_bin2bn L d else None))
    | Inl e \<Rightarrow> b' = b"
proof (cases "wire_complete (contents b)")
  case True
  define d where "d = take (wire_len (contents b)) (drop 4 (contents b))"
  have c: "contents b = wire_string d @ contents (advance (4 + wire_len (contents b)) b)"
    using wire_complete_split(1) [OF True] advance(2) [OF assms(1), of "4 + wire_len (contents b)"] True
    by (simp add: d_def wire_complete_def del: length_contents)
  have run: "sshbuf_get_bignum2 L want b =
     (if d \<noteq> [] \<and> hd d AND 0x80 \<noteq> 0 then (Inl SSH_ERR_BIGNUM_IS_NEGATIVE, b)
      else if length d > SSHBUF_MAX_BIGNUM then (Inl SSH_ERR_BIGNUM_TOO_LARGE, b)
      else case read_bn L want d of Inl e \<Rightarrow> (Inl e, b)
           | Inr v \<Rightarrow> (Inr v, advance (4 + wire_len (contents b)) b))"
    using get_bignum2_wf [OF assms(1), of L want, unfolded Let_def, folded d_def] True by (simp del: length_contents)
  show ?thesis
  proof (cases r)
    case (Inl e)
    then show ?thesis using assms(2) run by (auto split: if_splits sum.splits)
  next
    case (Inr v)
    then have "read_bn L want d = Inr v" "b' = advance (4 + wire_len (contents b)) b"
      "d = [] \<or> hd d AND 0x80 = 0" "length d \<le> SSHBUF_MAX_BIGNUM"
      using assms(2) run by (auto split: if_splits sum.splits)
    then show ?thesis using c Inr by (auto simp: read_bn_def split: if_splits option.splits)
  qed
next
  case False
  then show ?thesis using assms get_bignum2_wf [OF assms(1), of L want] by (auto simp: Let_def)
qed

theorem sshbuf_get_bignum2_strict_witness:
  "sshbuf_get_bignum2 bn_nat True (filled_buf [0, 0, 0, 1, 200]) =
     (Inl SSH_ERR_BIGNUM_IS_NEGATIVE, filled_buf [0, 0, 0, 1, 200])"
proof -
  have wf: "sshbuf_wf (filled_buf [0, 0, 0, 1, 200])"
    and c: "contents (filled_buf [0, 0, 0, 1, 200]) = [0, 0, 0, 1, 200]"
    by (rule filled_buf; simp add: SSHBUF_SIZE_MAX_def)+
  have w: "wire_complete [0, 0, 0, 1, 200]" "wire_len [0, 0, 0, 1, 200] = 1" "(200 :: byte) AND 0x80 \<noteq> 0"
    by code_simp+
  obtain r b' where run: "sshbuf_get_bignum2 bn_nat True (filled_buf [0, 0, 0, 1, 200]) = (r, b')" by fastforce
  have "r = Inl SSH_ERR_BIGNUM_IS_NEGATIVE"
    using run w get_bignum2_wf [OF wf, of bn_nat True] by (simp add: c)
  then show ?thesis using sshbuf_get_bignum2_strict [OF wf run] run by simp
qed

end
