(* ===== verification/Algs.thy ===== *)
theory Algs
  imports Match Ssh_Err
begin

text \<open>
  The tables of algorithm names and what the code looks up in them: key exchange methods of
  \<open>ssh/kex.c\<close>, ciphers of \<open>ssh/cipher.c\<close>, message authentication codes of \<open>ssh/mac.c\<close> and key types
  of \<open>ssh/key.c\<close>. The functions of OpenSSL the tables point to are named by constructors.
\<close>

datatype evp_md = EVP_md5 | EVP_sha1 | EVP_ripemd160 | EVP_sha256 | EVP_sha384 | EVP_sha512

datatype evp_cipher =
    EVP_enc_null | EVP_des_cbc | evp_ssh1_3des | evp_ssh1_bf | EVP_des_ede3_cbc | EVP_bf_cbc
  | EVP_cast5_cbc | EVP_rc4 | EVP_aes_128_cbc | EVP_aes_192_cbc | EVP_aes_256_cbc
  | EVP_aes_128_ctr | EVP_aes_192_ctr | EVP_aes_256_ctr | EVP_aes_128_gcm | EVP_aes_256_gcm

text \<open>The numbers OpenSSL gives the curves.\<close>

definition NID_X9_62_prime256v1 :: int where "NID_X9_62_prime256v1 = 415"
definition NID_secp384r1 :: int where "NID_secp384r1 = 715"
definition NID_secp521r1 :: int where "NID_secp521r1 = 716"

section \<open>Lists of names\<close>

text \<open>
  The loop that joins names, with a line feed between two of them; \<open>None\<close> is NULL. Every name
  needs room for itself and two more bytes.
\<close>

fun alg_list_loop :: "allocator \<Rightarrow> string option \<Rightarrow> string list \<Rightarrow> string option" where
  "alg_list_loop am ret [] = ret"
| "alg_list_loop am ret (n # ns) =
     (let s = (case ret of None \<Rightarrow> [] | Some s \<Rightarrow> s @ [CHR 0x0A]) in
      if am (length s + length n + 2) = None then None
      else alg_list_loop am (Some (s @ n)) ns)"

text \<open>The loop over the tokens of a list that stops at the first name that is not accepted.\<close>

fun valid_loop :: "(string \<Rightarrow> bool) \<Rightarrow> string list \<Rightarrow> bool" where
  "valid_loop P [] = True"
| "valid_loop P (p # ps) = (if p = [] then True else if P p then valid_loop P ps else False)"

section \<open>Key exchange methods\<close>

datatype kex_exchange =
  KEX_DH_GRP1_SHA1 | KEX_DH_GRP14_SHA1 | KEX_DH_GEX_SHA1 | KEX_DH_GEX_SHA256 | KEX_ECDH_SHA2

record kexalg =
  ka_name :: string
  ka_type :: kex_exchange
  ka_ec_nid :: int
  ka_mdfunc :: evp_md

definition kexalgs :: "kexalg list" where
  "kexalgs =
    [\<lparr>ka_name = ''diffie-hellman-group1-sha1'', ka_type = KEX_DH_GRP1_SHA1, ka_ec_nid = 0, ka_mdfunc = EVP_sha1\<rparr>,
     \<lparr>ka_name = ''diffie-hellman-group14-sha1'', ka_type = KEX_DH_GRP14_SHA1, ka_ec_nid = 0, ka_mdfunc = EVP_sha1\<rparr>,
     \<lparr>ka_name = ''diffie-hellman-group-exchange-sha1'', ka_type = KEX_DH_GEX_SHA1, ka_ec_nid = 0, ka_mdfunc = EVP_sha1\<rparr>,
     \<lparr>ka_name = ''diffie-hellman-group-exchange-sha256'', ka_type = KEX_DH_GEX_SHA256, ka_ec_nid = 0, ka_mdfunc = EVP_sha256\<rparr>,
     \<lparr>ka_name = ''ecdh-sha2-nistp256'', ka_type = KEX_ECDH_SHA2, ka_ec_nid = NID_X9_62_prime256v1, ka_mdfunc = EVP_sha256\<rparr>,
     \<lparr>ka_name = ''ecdh-sha2-nistp384'', ka_type = KEX_ECDH_SHA2, ka_ec_nid = NID_secp384r1, ka_mdfunc = EVP_sha384\<rparr>,
     \<lparr>ka_name = ''ecdh-sha2-nistp521'', ka_type = KEX_ECDH_SHA2, ka_ec_nid = NID_secp521r1, ka_mdfunc = EVP_sha512\<rparr>]"

definition kex_alg_list :: "allocator \<Rightarrow> string option" where
  "kex_alg_list am = alg_list_loop am None (map ka_name kexalgs)"

definition kex_alg_by_name :: "string \<Rightarrow> kexalg option" where
  "kex_alg_by_name name = find (\<lambda>k. ka_name k = name) kexalgs"

text \<open>\<open>names\<close> is \<open>None\<close> for NULL; \<open>mem\<close> says whether \<open>strdup\<close> succeeds.\<close>

definition kex_names_valid :: "bool \<Rightarrow> string option \<Rightarrow> bool" where
  "kex_names_valid mem names =
     (case names of None \<Rightarrow> False
      | Some s \<Rightarrow>
          if s = [] then False
          else if \<not> mem then False
          else valid_loop (\<lambda>p. kex_alg_by_name p \<noteq> None) (comma_split s))"

section \<open>Ciphers\<close>

record sshcipher =
  ci_name :: string
  ci_number :: int
  ci_block_size :: nat
  ci_key_len :: nat
  ci_iv_len :: nat
  ci_auth_len :: nat
  ci_discard_len :: nat
  ci_cbc_mode :: bool
  ci_evptype :: evp_cipher

definition SSH_CIPHER_SSH2 :: int where "SSH_CIPHER_SSH2 = - 3"
definition SSH_CIPHER_NONE :: int where "SSH_CIPHER_NONE = 0"
definition SSH_CIPHER_DES :: int where "SSH_CIPHER_DES = 2"
definition SSH_CIPHER_3DES :: int where "SSH_CIPHER_3DES = 3"
definition SSH_CIPHER_BLOWFISH :: int where "SSH_CIPHER_BLOWFISH = 6"

text \<open>One row of the table, its columns in the order of the struct.\<close>

definition cipher_row ::
  "string \<Rightarrow> int \<Rightarrow> nat \<Rightarrow> nat \<Rightarrow> nat \<Rightarrow> nat \<Rightarrow> nat \<Rightarrow> bool \<Rightarrow> evp_cipher \<Rightarrow> sshcipher" where
  "cipher_row name number bs kl ivl al dl cbc evp =
     \<lparr>ci_name = name, ci_number = number, ci_block_size = bs, ci_key_len = kl, ci_iv_len = ivl,
      ci_auth_len = al, ci_discard_len = dl, ci_cbc_mode = cbc, ci_evptype = evp\<rparr>"

definition ciphers :: "sshcipher list" where
  "ciphers =
    [cipher_row ''none'' SSH_CIPHER_NONE 8 0 0 0 0 False EVP_enc_null,
     cipher_row ''des'' SSH_CIPHER_DES 8 8 0 0 0 True EVP_des_cbc,
     cipher_row ''3des'' SSH_CIPHER_3DES 8 16 0 0 0 True evp_ssh1_3des,
     cipher_row ''blowfish'' SSH_CIPHER_BLOWFISH 8 32 0 0 0 True evp_ssh1_bf,
     cipher_row ''3des-cbc'' SSH_CIPHER_SSH2 8 24 0 0 0 True EVP_des_ede3_cbc,
     cipher_row ''blowfish-cbc'' SSH_CIPHER_SSH2 8 16 0 0 0 True EVP_bf_cbc,
     cipher_row ''cast128-cbc'' SSH_CIPHER_SSH2 8 16 0 0 0 True EVP_cast5_cbc,
     cipher_row ''arcfour'' SSH_CIPHER_SSH2 8 16 0 0 0 False EVP_rc4,
     cipher_row ''arcfour128'' SSH_CIPHER_SSH2 8 16 0 0 1536 False EVP_rc4,
     cipher_row ''arcfour256'' SSH_CIPHER_SSH2 8 32 0 0 1536 False EVP_rc4,
     cipher_row ''aes128-cbc'' SSH_CIPHER_SSH2 16 16 0 0 0 True EVP_aes_128_cbc,
     cipher_row ''aes192-cbc'' SSH_CIPHER_SSH2 16 24 0 0 0 True EVP_aes_192_cbc,
     cipher_row ''aes256-cbc'' SSH_CIPHER_SSH2 16 32 0 0 0 True EVP_aes_256_cbc,
     cipher_row ''rijndael-cbc@lysator.liu.se'' SSH_CIPHER_SSH2 16 32 0 0 0 True EVP_aes_256_cbc,
     cipher_row ''aes128-ctr'' SSH_CIPHER_SSH2 16 16 0 0 0 False EVP_aes_128_ctr,
     cipher_row ''aes192-ctr'' SSH_CIPHER_SSH2 16 24 0 0 0 False EVP_aes_192_ctr,
     cipher_row ''aes256-ctr'' SSH_CIPHER_SSH2 16 32 0 0 0 False EVP_aes_256_ctr,
     cipher_row ''aes128-gcm@openssh.com'' SSH_CIPHER_SSH2 16 16 12 16 0 False EVP_aes_128_gcm,
     cipher_row ''aes256-gcm@openssh.com'' SSH_CIPHER_SSH2 16 32 12 16 0 False EVP_aes_256_gcm]"

definition cipher_alg_list :: "allocator \<Rightarrow> string option" where
  "cipher_alg_list am =
     alg_list_loop am None (map ci_name (filter (\<lambda>c. ci_number c = SSH_CIPHER_SSH2) ciphers))"

definition cipher_blocksize :: "sshcipher \<Rightarrow> nat" where "cipher_blocksize c = ci_block_size c"
definition cipher_keylen :: "sshcipher \<Rightarrow> nat" where "cipher_keylen c = ci_key_len c"
definition cipher_authlen :: "sshcipher \<Rightarrow> nat" where "cipher_authlen c = ci_auth_len c"
definition cipher_ivlen :: "sshcipher \<Rightarrow> nat" where
  "cipher_ivlen c = (if ci_iv_len c \<noteq> 0 then ci_iv_len c else ci_block_size c)"
definition cipher_get_number :: "sshcipher \<Rightarrow> int" where "cipher_get_number c = ci_number c"
definition cipher_is_cbc :: "sshcipher \<Rightarrow> bool" where "cipher_is_cbc c = ci_cbc_mode c"

definition cipher_mask_ssh1 :: "bool \<Rightarrow> u32" where
  "cipher_mask_ssh1 client =
     push_bit (nat SSH_CIPHER_3DES) 1 OR push_bit (nat SSH_CIPHER_BLOWFISH) 1 OR
     (if client then push_bit (nat SSH_CIPHER_DES) 1 else 0)"

definition cipher_by_name :: "string \<Rightarrow> sshcipher option" where
  "cipher_by_name name = find (\<lambda>c. ci_name c = name) ciphers"

definition cipher_by_number :: "int \<Rightarrow> sshcipher option" where
  "cipher_by_number n = find (\<lambda>c. ci_number c = n) ciphers"

definition ciphers_valid :: "bool \<Rightarrow> string option \<Rightarrow> bool" where
  "ciphers_valid mem names =
     (case names of None \<Rightarrow> False
      | Some s \<Rightarrow>
          if s = [] then False
          else if \<not> mem then False
          else valid_loop (\<lambda>p. case cipher_by_name p of None \<Rightarrow> False
                             | Some c \<Rightarrow> ci_number c = SSH_CIPHER_SSH2) (comma_split s))"

definition strcasecmp_eq :: "string \<Rightarrow> string \<Rightarrow> bool" where
  "strcasecmp_eq a b \<longleftrightarrow> map c_tolower a = map c_tolower b"

definition cipher_number :: "string option \<Rightarrow> int" where
  "cipher_number name =
     (case name of None \<Rightarrow> - 1
      | Some n \<Rightarrow> (case find (\<lambda>c. strcasecmp_eq (ci_name c) n) ciphers of None \<Rightarrow> - 1 | Some c \<Rightarrow> ci_number c))"

definition cipher_name :: "int \<Rightarrow> string" where
  "cipher_name n = (case cipher_by_number n of None \<Rightarrow> ''<unknown>'' | Some c \<Rightarrow> ci_name c)"

section \<open>Message authentication codes\<close>

datatype mac_type = SSH_EVP | SSH_UMAC | SSH_UMAC128

record macalg =
  ma_name :: string
  ma_type :: mac_type
  ma_mdfunc :: "evp_md option"
  ma_truncatebits :: nat
  ma_key_len :: nat
  ma_len :: nat
  ma_etm :: bool

definition mac_row ::
  "string \<Rightarrow> mac_type \<Rightarrow> evp_md option \<Rightarrow> nat \<Rightarrow> nat \<Rightarrow> nat \<Rightarrow> bool \<Rightarrow> macalg" where
  "mac_row name type md tb kl l etm =
     \<lparr>ma_name = name, ma_type = type, ma_mdfunc = md, ma_truncatebits = tb, ma_key_len = kl,
      ma_len = l, ma_etm = etm\<rparr>"

definition macs :: "macalg list" where
  "macs =
    [mac_row ''hmac-sha1'' SSH_EVP (Some EVP_sha1) 0 0 0 False,
     mac_row ''hmac-sha1-96'' SSH_EVP (Some EVP_sha1) 96 0 0 False,
     mac_row ''hmac-sha2-256'' SSH_EVP (Some EVP_sha256) 0 0 0 False,
     mac_row ''hmac-sha2-512'' SSH_EVP (Some EVP_sha512) 0 0 0 False,
     mac_row ''hmac-md5'' SSH_EVP (Some EVP_md5) 0 0 0 False,
     mac_row ''hmac-md5-96'' SSH_EVP (Some EVP_md5) 96 0 0 False,
     mac_row ''hmac-ripemd160'' SSH_EVP (Some EVP_ripemd160) 0 0 0 False,
     mac_row ''hmac-ripemd160@openssh.com'' SSH_EVP (Some EVP_ripemd160) 0 0 0 False,
     mac_row ''umac-64@openssh.com'' SSH_UMAC None 0 128 64 False,
     mac_row ''umac-128@openssh.com'' SSH_UMAC128 None 0 128 128 False,
     mac_row ''hmac-sha1-etm@openssh.com'' SSH_EVP (Some EVP_sha1) 0 0 0 True,
     mac_row ''hmac-sha1-96-etm@openssh.com'' SSH_EVP (Some EVP_sha1) 96 0 0 True,
     mac_row ''hmac-sha2-256-etm@openssh.com'' SSH_EVP (Some EVP_sha256) 0 0 0 True,
     mac_row ''hmac-sha2-512-etm@openssh.com'' SSH_EVP (Some EVP_sha512) 0 0 0 True,
     mac_row ''hmac-md5-etm@openssh.com'' SSH_EVP (Some EVP_md5) 0 0 0 True,
     mac_row ''hmac-md5-96-etm@openssh.com'' SSH_EVP (Some EVP_md5) 96 0 0 True,
     mac_row ''hmac-ripemd160-etm@openssh.com'' SSH_EVP (Some EVP_ripemd160) 0 0 0 True,
     mac_row ''umac-64-etm@openssh.com'' SSH_UMAC None 0 128 64 True,
     mac_row ''umac-128-etm@openssh.com'' SSH_UMAC128 None 0 128 128 True]"

text \<open>
  \<open>struct sshmac\<close>; \<open>sm_key\<close> is \<open>None\<close> for NULL. A context that was set up is represented by what
  it was keyed with: the digest and the key for HMAC, the key for UMAC.
\<close>

record sshmac =
  sm_name :: "string option"
  sm_enabled :: bool
  sm_mac_len :: nat
  sm_key :: "byte list option"
  sm_key_len :: nat
  sm_type :: mac_type
  sm_etm :: bool
  sm_evp_md :: "evp_md option"
  sm_evp_ctx :: "(evp_md \<times> byte list) option"
  sm_umac_ctx :: "byte list option"

text \<open>\<open>md_size\<close> is \<open>EVP_MD_size\<close>.\<close>

definition mac_setup_by_alg :: "(evp_md \<Rightarrow> int) \<Rightarrow> macalg \<Rightarrow> (ssh_err, sshmac, unit) action" where
  "mac_setup_by_alg md_size alg mac =
     (let mac1 = mac\<lparr>sm_type := ma_type alg\<rparr> in
      if ma_type alg = SSH_EVP then
        let mac2 = mac1\<lparr>sm_evp_md := ma_mdfunc alg\<rparr>;
            evp_len = md_size (the (ma_mdfunc alg))
        in if evp_len \<le> 0 then (Inl SSH_ERR_LIBCRYPTO_ERROR, mac2)
           else
             let mac3 = mac2\<lparr>sm_key_len := nat evp_len, sm_mac_len := nat evp_len\<rparr>;
                 mac4 = (if ma_truncatebits alg \<noteq> 0 then mac3\<lparr>sm_mac_len := ma_truncatebits alg div 8\<rparr> else mac3)
             in (Inr (), mac4\<lparr>sm_etm := ma_etm alg\<rparr>)
      else
        let mac3 = mac1\<lparr>sm_mac_len := ma_len alg div 8, sm_key_len := ma_key_len alg div 8,
                        sm_umac_ctx := None\<rparr>;
            mac4 = (if ma_truncatebits alg \<noteq> 0 then mac3\<lparr>sm_mac_len := ma_truncatebits alg div 8\<rparr> else mac3)
        in (Inr (), mac4\<lparr>sm_etm := ma_etm alg\<rparr>))"

definition mac_setup :: "(evp_md \<Rightarrow> int) \<Rightarrow> string \<Rightarrow> (ssh_err, sshmac, unit) action" where
  "mac_setup md_size name =
     (case find (\<lambda>m. name = ma_name m) macs of
        None \<Rightarrow> act_fail SSH_ERR_INVALID_ARGUMENT
      | Some m \<Rightarrow> mac_setup_by_alg md_size m)"

text \<open>\<open>mac_valid\<close> calls \<open>mac_setup\<close> without a place for the result.\<close>

definition mac_valid :: "bool \<Rightarrow> string option \<Rightarrow> bool" where
  "mac_valid mem names =
     (case names of None \<Rightarrow> False
      | Some s \<Rightarrow>
          if s = [] then False
          else if \<not> mem then False
          else valid_loop (\<lambda>p. find (\<lambda>m. p = ma_name m) macs \<noteq> None) (comma_split s))"

section \<open>Key types\<close>

datatype sshkey_types =
    KEY_RSA1 | KEY_RSA | KEY_DSA | KEY_ECDSA | KEY_RSA_CERT | KEY_DSA_CERT | KEY_ECDSA_CERT
  | KEY_RSA_CERT_V00 | KEY_DSA_CERT_V00 | KEY_UNSPEC

record keytype =
  kt_name :: "string option"
  kt_shortname :: string
  kt_type :: sshkey_types
  kt_nid :: int
  kt_cert :: bool

definition key_row :: "string option \<Rightarrow> string \<Rightarrow> sshkey_types \<Rightarrow> int \<Rightarrow> bool \<Rightarrow> keytype" where
  "key_row name short type nid cert =
     \<lparr>kt_name = name, kt_shortname = short, kt_type = type, kt_nid = nid, kt_cert = cert\<rparr>"

definition keytypes :: "keytype list" where
  "keytypes =
    [key_row None ''RSA1'' KEY_RSA1 0 False,
     key_row (Some ''ssh-rsa'') ''RSA'' KEY_RSA 0 False,
     key_row (Some ''ssh-dss'') ''DSA'' KEY_DSA 0 False,
     key_row (Some ''ecdsa-sha2-nistp256'') ''ECDSA'' KEY_ECDSA NID_X9_62_prime256v1 False,
     key_row (Some ''ecdsa-sha2-nistp384'') ''ECDSA'' KEY_ECDSA NID_secp384r1 False,
     key_row (Some ''ecdsa-sha2-nistp521'') ''ECDSA'' KEY_ECDSA NID_secp521r1 False,
     key_row (Some ''ssh-rsa-cert-v01@openssh.com'') ''RSA-CERT'' KEY_RSA_CERT 0 True,
     key_row (Some ''ssh-dss-cert-v01@openssh.com'') ''DSA-CERT'' KEY_DSA_CERT 0 True,
     key_row (Some ''ecdsa-sha2-nistp256-cert-v01@openssh.com'') ''ECDSA-CERT'' KEY_ECDSA_CERT NID_X9_62_prime256v1 True,
     key_row (Some ''ecdsa-sha2-nistp384-cert-v01@openssh.com'') ''ECDSA-CERT'' KEY_ECDSA_CERT NID_secp384r1 True,
     key_row (Some ''ecdsa-sha2-nistp521-cert-v01@openssh.com'') ''ECDSA-CERT'' KEY_ECDSA_CERT NID_secp521r1 True,
     key_row (Some ''ssh-rsa-cert-v00@openssh.com'') ''RSA-CERT-V00'' KEY_RSA_CERT_V00 0 True,
     key_row (Some ''ssh-dss-cert-v00@openssh.com'') ''DSA-CERT-V00'' KEY_DSA_CERT_V00 0 True]"

definition sshkey_type_from_name :: "string \<Rightarrow> sshkey_types" where
  "sshkey_type_from_name name =
     (case find (\<lambda>kt. kt_name kt = Some name \<or> (\<not> kt_cert kt \<and> strcasecmp_eq (kt_shortname kt) name)) keytypes of
        None \<Rightarrow> KEY_UNSPEC
      | Some kt \<Rightarrow> kt_type kt)"

definition sshkey_ssh_name_from_type_nid :: "sshkey_types \<Rightarrow> int \<Rightarrow> string option" where
  "sshkey_ssh_name_from_type_nid type nid =
     (case find (\<lambda>kt. kt_type kt = type \<and> (kt_nid kt = 0 \<or> kt_nid kt = nid)) keytypes of
        None \<Rightarrow> Some ''ssh-unknown''
      | Some kt \<Rightarrow> kt_name kt)"

definition sshkey_ecdsa_nid_from_name :: "string \<Rightarrow> int" where
  "sshkey_ecdsa_nid_from_name name =
     (case find (\<lambda>kt. (kt_type kt = KEY_ECDSA \<or> kt_type kt = KEY_ECDSA_CERT) \<and> kt_name kt = Some name) keytypes of
        None \<Rightarrow> - 1
      | Some kt \<Rightarrow> kt_nid kt)"

definition sshkey_alg_list :: "allocator \<Rightarrow> string option" where
  "sshkey_alg_list am =
     alg_list_loop am None (List.map_filter kt_name keytypes)"

definition sshkey_names_valid2 :: "bool \<Rightarrow> string option \<Rightarrow> bool" where
  "sshkey_names_valid2 mem names =
     (case names of None \<Rightarrow> False
      | Some s \<Rightarrow>
          if s = [] then False
          else if \<not> mem then False
          else valid_loop (\<lambda>p. sshkey_type_from_name p \<noteq> KEY_RSA1 \<and> sshkey_type_from_name p \<noteq> KEY_UNSPEC)
                 (comma_split s))"

section \<open>Looking names up\<close>

lemma valid_loop_iff: "valid_loop P ts \<longleftrightarrow> (\<forall>t\<in>set (takeWhile (\<lambda>t. t \<noteq> []) ts). P t)"
  by (induction ts) auto

lemma names_valid_iff:
  "kex_names_valid mem (Some s) \<longleftrightarrow> s \<noteq> [] \<and> mem \<and> (\<forall>n\<in>set (list_names s). kex_alg_by_name n \<noteq> None)"
  "ciphers_valid mem (Some s) \<longleftrightarrow> s \<noteq> [] \<and> mem \<and>
     (\<forall>n\<in>set (list_names s). \<exists>c. cipher_by_name n = Some c \<and> ci_number c = SSH_CIPHER_SSH2)"
  "mac_valid mem (Some s) \<longleftrightarrow> s \<noteq> [] \<and> mem \<and> (\<forall>n\<in>set (list_names s). find (\<lambda>m. n = ma_name m) macs \<noteq> None)"
  "sshkey_names_valid2 mem (Some s) \<longleftrightarrow> s \<noteq> [] \<and> mem \<and>
     (\<forall>n\<in>set (list_names s). sshkey_type_from_name n \<noteq> KEY_RSA1 \<and> sshkey_type_from_name n \<noteq> KEY_UNSPEC)"
  by (auto simp: kex_names_valid_def ciphers_valid_def mac_valid_def sshkey_names_valid2_def
      valid_loop_iff list_names_def split: option.splits)

lemma mac_setup_ok:
  assumes "find (\<lambda>m. name = ma_name m) macs \<noteq> None" "\<forall>md. md_size md > 0"
  shows "fst (mac_setup md_size name mac) = Inr ()"
proof -
  have "\<not> md_size md \<le> 0" for md using assms(2) by (simp add: not_le)
  then show ?thesis using assms(1) by (auto simp: mac_setup_def mac_setup_by_alg_def Let_def)
qed

end
