(* ===== verification/Kex.thy ===== *)
theory Kex
  imports Sshbuf_Crypto Algs
begin

text \<open>
  Key exchange: proposals, the choice of algorithms and the derivation of keys, \<open>ssh/kex.c\<close>.
  The functions that start and send packets are not part of this theory.
\<close>

section \<open>Proposals\<close>

definition KEX_COOKIE_LEN :: nat where "KEX_COOKIE_LEN = 16"
definition PROPOSAL_MAX :: nat where "PROPOSAL_MAX = 10"

text \<open>The positions of \<open>enum kex_init_proposals\<close>.\<close>

definition PROPOSAL_KEX_ALGS :: nat where "PROPOSAL_KEX_ALGS = 0"
definition PROPOSAL_SERVER_HOST_KEY_ALGS :: nat where "PROPOSAL_SERVER_HOST_KEY_ALGS = 1"
definition PROPOSAL_ENC_ALGS_CTOS :: nat where "PROPOSAL_ENC_ALGS_CTOS = 2"
definition PROPOSAL_ENC_ALGS_STOC :: nat where "PROPOSAL_ENC_ALGS_STOC = 3"
definition PROPOSAL_MAC_ALGS_CTOS :: nat where "PROPOSAL_MAC_ALGS_CTOS = 4"
definition PROPOSAL_MAC_ALGS_STOC :: nat where "PROPOSAL_MAC_ALGS_STOC = 5"
definition PROPOSAL_COMP_ALGS_CTOS :: nat where "PROPOSAL_COMP_ALGS_CTOS = 6"
definition PROPOSAL_COMP_ALGS_STOC :: nat where "PROPOSAL_COMP_ALGS_STOC = 7"

definition kex_prop2buf :: "allocator \<Rightarrow> string list \<Rightarrow> (ssh_err, sshbuf, unit) action" where
  "kex_prop2buf am proposal b =
     act_seq (act_all (map (sshbuf_put_u8 am) (replicate KEX_COOKIE_LEN 0)))
       (act_seq (act_all (map (sshbuf_put_cstring am) (map bytes_of (take PROPOSAL_MAX proposal))))
         (act_seq (sshbuf_put_u8 am 0) (sshbuf_put_u32 am 0)))
       (sshbuf_reset am b)"

text \<open>
  The buffer read is the view \<open>sshbuf_fromb\<close> makes of \<open>raw\<close>; \<open>raw\<close> itself is not changed. The
  first component of the result is what is stored in \<open>*first_kex_follows\<close>.
\<close>

definition kex_buf2prop :: "allocator \<Rightarrow> sshbuf \<Rightarrow> (int \<times> string list) res" where
  "kex_buf2prop am raw =
     (if am (PROPOSAL_MAX * 8) = None then Inl SSH_ERR_ALLOC_FAIL
      else if sshbuf_check_sanity raw \<noteq> Inr () then Inl SSH_ERR_ALLOC_FAIL
      else
        case sshbuf_from am (Some (sshbuf_bytes raw)) of None \<Rightarrow> Inl SSH_ERR_ALLOC_FAIL
        | Some b \<Rightarrow>
            fst (act_seq (sshbuf_consume KEX_COOKIE_LEN)
              (act_bind (act_repeat PROPOSAL_MAX (sshbuf_get_cstring am))
                (\<lambda>proposal. act_bind sshbuf_get_u8 (\<lambda>v. act_bind sshbuf_get_u32 (\<lambda>i.
                   act_return (sint i, map (\<lambda>s. string_of (c_str s)) proposal))))) b))"

text \<open>How \<open>kex_input_kexinit\<close> takes the received packet apart before it looks at the proposals.\<close>

definition kexinit_discard :: "(ssh_err, sshbuf, unit) action" where
  "kexinit_discard =
     act_seq (act_repeat KEX_COOKIE_LEN sshbuf_get_u8)
       (act_seq (act_repeat PROPOSAL_MAX sshbuf_get_string_direct)
         (act_seq sshbuf_get_u8 (act_seq sshbuf_get_u32
           (\<lambda>b. if sshbuf_len b \<noteq> 0 then (Inl SSH_ERR_UNEXPECTED_TRAILING_DATA, b) else (Inr (), b)))))"

section \<open>State\<close>

datatype comp_type = COMP_NONE | COMP_ZLIB | COMP_DELAYED

record sshenc =
  se_name :: "string option"
  se_cipher :: "sshcipher option"
  se_enabled :: bool
  se_key_len :: nat
  se_iv_len :: nat
  se_block_size :: nat
  se_key :: "byte list option"
  se_iv :: "byte list option"

record sshcomp =
  sc_type :: comp_type
  sc_enabled :: bool
  sc_name :: "string option"

record newkeys =
  nk_enc :: sshenc
  nk_mac :: sshmac
  nk_comp :: sshcomp

text \<open>What \<open>calloc\<close> gives.\<close>

definition enc0 :: sshenc where
  "enc0 = \<lparr>se_name = None, se_cipher = None, se_enabled = False, se_key_len = 0, se_iv_len = 0,
     se_block_size = 0, se_key = None, se_iv = None\<rparr>"

definition mac0 :: sshmac where
  "mac0 = \<lparr>sm_name = None, sm_enabled = False, sm_mac_len = 0, sm_key = None, sm_key_len = 0,
     sm_type = SSH_EVP, sm_etm = False, sm_evp_md = None,
     sm_evp_ctx = None, sm_umac_ctx = None\<rparr>"

definition comp0 :: sshcomp where
  "comp0 = \<lparr>sc_type = COMP_NONE, sc_enabled = False, sc_name = None\<rparr>"

definition newkeys0 :: newkeys where
  "newkeys0 = \<lparr>nk_enc = enc0, nk_mac = mac0, nk_comp = comp0\<rparr>"

datatype kex_mode = MODE_IN | MODE_OUT

text \<open>The fields of \<open>struct kex\<close> and \<open>struct ssh\<close> the choice of algorithms works on.\<close>

record kex =
  kx_session_id :: "byte list"
  kx_newkeys :: "kex_mode \<Rightarrow> newkeys option"
  kx_we_need :: nat
  kx_server :: bool
  kx_name :: "string option"
  kx_hostkey_type :: sshkey_types
  kx_kex_type :: "kex_exchange option"
  kx_roaming :: bool
  kx_my :: sshbuf
  kx_peer :: sshbuf
  kx_evp_md :: "evp_md option"
  kx_ec_nid :: int
  kx_compat :: u32
  kx_skip_packets :: nat

definition SSH_BUG_HMAC :: u32 where "SSH_BUG_HMAC = 0x4"
definition SSH_BUG_DERIVEKEY :: u32 where "SSH_BUG_DERIVEKEY = 0x40000"
definition SSH_BUG_FIRSTKEX :: u32 where "SSH_BUG_FIRSTKEX = 0x800000"

section \<open>Choosing algorithms\<close>

type_synonym strdup = "string \<Rightarrow> string option"

definition choose_enc :: "strdup \<Rightarrow> string \<Rightarrow> string \<Rightarrow> sshenc res" where
  "choose_enc dup client server =
     (case fst (match_list dup client server) of None \<Rightarrow> Inl SSH_ERR_NO_CIPHER_ALG_MATCH
      | Some name \<Rightarrow>
          (case cipher_by_name name of None \<Rightarrow> Inl SSH_ERR_INTERNAL_ERROR
           | Some c \<Rightarrow>
               Inr \<lparr>se_name = Some name, se_cipher = Some c, se_enabled = False,
                 se_key_len = cipher_keylen c, se_iv_len = cipher_ivlen c,
                 se_block_size = cipher_blocksize c, se_key = None, se_iv = None\<rparr>))"

definition choose_mac :: "strdup \<Rightarrow> (evp_md \<Rightarrow> int) \<Rightarrow> u32 \<Rightarrow> string \<Rightarrow> string \<Rightarrow> (ssh_err, sshmac, unit) action" where
  "choose_mac dup md_size cflags client server mac =
     (case fst (match_list dup client server) of None \<Rightarrow> (Inl SSH_ERR_NO_MAC_ALG_MATCH, mac)
      | Some name \<Rightarrow>
          (case mac_setup md_size name mac of
             (Inl _, mac1) \<Rightarrow> (Inl SSH_ERR_INTERNAL_ERROR, mac1)
           | (Inr _, mac1) \<Rightarrow>
               let mac2 = (if cflags AND SSH_BUG_HMAC \<noteq> 0 then mac1\<lparr>sm_key_len := 16\<rparr> else mac1)
               in (Inr (), mac2\<lparr>sm_name := Some name, sm_key := None, sm_enabled := False\<rparr>)))"

definition choose_comp :: "strdup \<Rightarrow> string \<Rightarrow> string \<Rightarrow> (ssh_err, sshcomp, unit) action" where
  "choose_comp dup client server cmp =
     (case fst (match_list dup client server) of None \<Rightarrow> (Inl SSH_ERR_NO_COMPRESS_ALG_MATCH, cmp)
      | Some name \<Rightarrow>
          if name = ''zlib@openssh.com'' then (Inr (), cmp\<lparr>sc_type := COMP_DELAYED, sc_name := Some name\<rparr>)
          else if name = ''zlib'' then (Inr (), cmp\<lparr>sc_type := COMP_ZLIB, sc_name := Some name\<rparr>)
          else if name = ''none'' then (Inr (), cmp\<lparr>sc_type := COMP_NONE, sc_name := Some name\<rparr>)
          else (Inl SSH_ERR_INTERNAL_ERROR, cmp))"

definition choose_kex :: "strdup \<Rightarrow> string \<Rightarrow> string \<Rightarrow> (ssh_err, kex, unit) action" where
  "choose_kex dup client server k =
     (let name = fst (match_list dup client server); k1 = k\<lparr>kx_name := name\<rparr> in
      case name of None \<Rightarrow> (Inl SSH_ERR_INTERNAL_ERROR, k1)
      | Some n \<Rightarrow>
          (case kex_alg_by_name n of None \<Rightarrow> (Inl SSH_ERR_INTERNAL_ERROR, k1)
           | Some a \<Rightarrow>
               (Inr (), k1\<lparr>kx_kex_type := Some (ka_type a), kx_evp_md := Some (ka_mdfunc a),
                  kx_ec_nid := ka_ec_nid a\<rparr>)))"

definition choose_hostkeyalg :: "strdup \<Rightarrow> string \<Rightarrow> string \<Rightarrow> (ssh_err, kex, unit) action" where
  "choose_hostkeyalg dup client server k =
     (case fst (match_list dup client server) of None \<Rightarrow> (Inl SSH_ERR_NO_HOSTKEY_ALG_MATCH, k)
      | Some n \<Rightarrow>
          let k1 = k\<lparr>kx_hostkey_type := sshkey_type_from_name n\<rparr> in
          if kx_hostkey_type k1 = KEY_UNSPEC then (Inl SSH_ERR_INTERNAL_ERROR, k1) else (Inr (), k1))"

definition first_name :: "string \<Rightarrow> string" where
  "first_name s = takeWhile (\<lambda>c. c \<noteq> CHR '','') s"

definition proposals_match :: "string list \<Rightarrow> string list \<Rightarrow> bool" where
  "proposals_match my peer =
     list_all (\<lambda>idx. first_name (my ! idx) = first_name (peer ! idx))
       [PROPOSAL_KEX_ALGS, PROPOSAL_SERVER_HOST_KEY_ALGS]"

text \<open>One round of the negotiation loop; \<open>mem\<close> says whether its \<open>calloc\<close> succeeds.\<close>

definition client_to_server :: "bool \<Rightarrow> kex_mode \<Rightarrow> bool" where
  "client_to_server server mode \<longleftrightarrow> (\<not> server \<and> mode = MODE_OUT) \<or> (server \<and> mode = MODE_IN)"

definition choose_mode ::
  "(kex_mode \<Rightarrow> bool) \<Rightarrow> strdup \<Rightarrow> (evp_md \<Rightarrow> int) \<Rightarrow> string list \<Rightarrow> string list \<Rightarrow> kex_mode \<Rightarrow>
   (ssh_err, kex, unit) action" where
  "choose_mode mem dup md_size cprop sprop mode k =
     (if \<not> mem mode then (Inl SSH_ERR_ALLOC_FAIL, k)
      else
        let ctos = client_to_server (kx_server k) mode;
            nenc = (if ctos then PROPOSAL_ENC_ALGS_CTOS else PROPOSAL_ENC_ALGS_STOC);
            nmac = (if ctos then PROPOSAL_MAC_ALGS_CTOS else PROPOSAL_MAC_ALGS_STOC);
            ncomp = (if ctos then PROPOSAL_COMP_ALGS_CTOS else PROPOSAL_COMP_ALGS_STOC);
            set = (\<lambda>nk. k\<lparr>kx_newkeys := (kx_newkeys k)(mode \<mapsto> nk)\<rparr>)
        in case choose_enc dup (cprop ! nenc) (sprop ! nenc) of
             Inl e \<Rightarrow> (Inl e, set newkeys0)
           | Inr enc \<Rightarrow>
               let authlen = cipher_authlen (the (se_cipher enc));
                   (rm, mac) = (if authlen = 0 then choose_mac dup md_size (kx_compat k) (cprop ! nmac) (sprop ! nmac) mac0
                                else (Inr (), mac0))
               in case rm of
                    Inl e \<Rightarrow> (Inl e, set (newkeys0\<lparr>nk_enc := enc, nk_mac := mac\<rparr>))
                  | Inr _ \<Rightarrow>
                      let (rc, cmp) = choose_comp dup (cprop ! ncomp) (sprop ! ncomp) comp0
                      in (rc, set \<lparr>nk_enc = enc, nk_mac = mac, nk_comp = cmp\<rparr>))"

definition mode_need :: "newkeys option \<Rightarrow> nat \<Rightarrow> nat" where
  "mode_need nk need =
     (let n = the nk;
          n1 = (if need < se_key_len (nk_enc n) then se_key_len (nk_enc n) else need);
          n2 = (if n1 < se_block_size (nk_enc n) then se_block_size (nk_enc n) else n1);
          n3 = (if n2 < se_iv_len (nk_enc n) then se_iv_len (nk_enc n) else n2)
      in if n3 < sm_key_len (nk_mac n) then sm_key_len (nk_mac n) else n3)"

text \<open>
  \<open>kex_prop_free(NULL)\<close> reads through a null pointer; \<open>None\<close> is that crash. It happens whenever
  one of the two buffers cannot be parsed.
\<close>

definition kex_choose_conf ::
  "allocator \<Rightarrow> (kex_mode \<Rightarrow> bool) \<Rightarrow> strdup \<Rightarrow> (evp_md \<Rightarrow> int) \<Rightarrow> kex \<Rightarrow> (unit res \<times> kex) option" where
  "kex_choose_conf am mem dup md_size k =
     (case kex_buf2prop am (kx_my k) of Inl _ \<Rightarrow> None
      | Inr (_, my) \<Rightarrow>
        (case kex_buf2prop am (kx_peer k) of Inl _ \<Rightarrow> None
         | Inr (first_kex_follows, peer) \<Rightarrow>
             let cprop = (if kx_server k then peer else my);
                 sprop = (if kx_server k then my else peer);
                 k0 = (if \<not> kx_server k \<and> fst (match_list dup ''resume@appgate.com'' (peer ! PROPOSAL_KEX_ALGS)) \<noteq> None
                       then k\<lparr>kx_roaming := True\<rparr> else k)
             in Some (act_seq (choose_mode mem dup md_size cprop sprop MODE_IN)
                  (act_seq (choose_mode mem dup md_size cprop sprop MODE_OUT)
                    (act_seq (choose_kex dup (cprop ! PROPOSAL_KEX_ALGS) (sprop ! PROPOSAL_KEX_ALGS))
                      (act_seq (choose_hostkeyalg dup (cprop ! PROPOSAL_SERVER_HOST_KEY_ALGS) (sprop ! PROPOSAL_SERVER_HOST_KEY_ALGS))
                        (\<lambda>k. let need = mode_need (kx_newkeys k MODE_OUT) (mode_need (kx_newkeys k MODE_IN) 0);
                                 k1 = k\<lparr>kx_we_need := need\<rparr>
                             in (Inr (),
                                 if first_kex_follows \<noteq> 0 \<and> \<not> proposals_match my peer \<and>
                                    kx_compat k1 AND SSH_BUG_FIRSTKEX = 0
                                 then k1\<lparr>kx_skip_packets := 1\<rparr> else k1))))) k0)))"

section \<open>Deriving keys\<close>

text \<open>
  \<open>digest md data\<close> is what the \<open>EVP_Digest\<close> functions compute, \<open>None\<close> when one of them fails.
\<close>

function expand_key ::
  "(byte list \<Rightarrow> byte list option) \<Rightarrow> byte list \<Rightarrow> byte list \<Rightarrow> nat \<Rightarrow> nat \<Rightarrow> nat \<Rightarrow> byte list \<Rightarrow> byte list option" where
  "expand_key digest kbytes hash need mdsz have' key =
     (if mdsz = 0 \<or> \<not> need > have' then Some key
      else case digest (kbytes @ hash @ take have' key) of None \<Rightarrow> None
        | Some d \<Rightarrow> expand_key digest kbytes hash need mdsz (have' + mdsz) (key @ d))"
  by pat_completeness auto
termination
  by (relation "measure (\<lambda>(digest, kbytes, hash, need, mdsz, have', key). need - have')") auto

declare expand_key.simps [simp del]

definition derive_key ::
  "'bn bn_lib \<Rightarrow> allocator \<Rightarrow> (evp_md \<Rightarrow> int) \<Rightarrow> (evp_md \<Rightarrow> byte list \<Rightarrow> byte list option) \<Rightarrow>
   kex \<Rightarrow> byte \<Rightarrow> nat \<Rightarrow> byte list \<Rightarrow> 'bn \<Rightarrow> byte list res" where
  "derive_key L am md_size digest k c need hash secret =
     (let md = the (kx_evp_md k); mdsz = md_size md in
      if mdsz \<le> 0 then Inl SSH_ERR_INVALID_ARGUMENT
      else if am (roundup need (nat mdsz)) = None then Inl SSH_ERR_ALLOC_FAIL
      else case sshbuf_new am of None \<Rightarrow> Inl SSH_ERR_ALLOC_FAIL
        | Some b0 \<Rightarrow>
            (case sshbuf_put_bignum2 L am secret b0 of (Inl e, _) \<Rightarrow> Inl e
             | (Inr _, b) \<Rightarrow>
                 let kbytes = (if kx_compat k AND SSH_BUG_DERIVEKEY \<noteq> 0 then [] else sshbuf_bytes b)
                 in case digest md (kbytes @ hash @ [c] @ kx_session_id k) of
                      None \<Rightarrow> Inl SSH_ERR_LIBCRYPTO_ERROR
                    | Some d \<Rightarrow>
                        (case expand_key (digest md) kbytes hash need (nat mdsz) (nat mdsz) d of
                           None \<Rightarrow> Inl SSH_ERR_LIBCRYPTO_ERROR
                         | Some key \<Rightarrow> Inr key)))"

definition NKEYS :: nat where "NKEYS = 6"

fun derive_all :: "(byte \<Rightarrow> byte list res) \<Rightarrow> nat \<Rightarrow> nat \<Rightarrow> byte list list res" where
  "derive_all derive i 0 = Inr []"
| "derive_all derive i (Suc n) =
     (case derive (of_nat (65 + i)) of Inl e \<Rightarrow> Inl e
      | Inr key \<Rightarrow> (case derive_all derive (Suc i) n of Inl e \<Rightarrow> Inl e | Inr keys \<Rightarrow> Inr (key # keys)))"

definition set_mode_keys :: "bool \<Rightarrow> byte list list \<Rightarrow> newkeys \<Rightarrow> newkeys" where
  "set_mode_keys ctos keys nk =
     nk\<lparr>nk_enc := (nk_enc nk)\<lparr>se_iv := Some (keys ! (if ctos then 0 else 1)),
                               se_key := Some (keys ! (if ctos then 2 else 3))\<rparr>,
        nk_mac := (nk_mac nk)\<lparr>sm_key := Some (keys ! (if ctos then 4 else 5))\<rparr>\<rparr>"

text \<open>\<open>None\<close> is a null pointer read where no algorithms have been chosen.\<close>

definition kex_derive_keys ::
  "'bn bn_lib \<Rightarrow> allocator \<Rightarrow> (evp_md \<Rightarrow> int) \<Rightarrow> (evp_md \<Rightarrow> byte list \<Rightarrow> byte list option) \<Rightarrow>
   byte list \<Rightarrow> 'bn \<Rightarrow> kex \<Rightarrow> (unit res \<times> kex) option" where
  "kex_derive_keys L am md_size digest hash secret k =
     (case derive_all (\<lambda>c. derive_key L am md_size digest k c (kx_we_need k) hash secret) 0 NKEYS of
        Inl e \<Rightarrow> Some (Inl e, k)
      | Inr keys \<Rightarrow>
          (case (kx_newkeys k MODE_IN, kx_newkeys k MODE_OUT) of
             (Some nin, Some nout) \<Rightarrow>
               Some (Inr (), k\<lparr>kx_newkeys := (kx_newkeys k)
                 (MODE_IN \<mapsto> set_mode_keys (client_to_server (kx_server k) MODE_IN) keys nin,
                  MODE_OUT \<mapsto> set_mode_keys (client_to_server (kx_server k) MODE_OUT) keys nout)\<rparr>)
           | _ \<Rightarrow> None))"

section \<open>Reading and writing proposals\<close>

lemma get_cstring_any:
  assumes "\<forall>n. am n \<noteq> None" "sshbuf_wf b" "length s < 2 ^ 32" "contents b = wire_string s @ rest"
  shows "nul_inside s \<Longrightarrow> fst (sshbuf_get_cstring am b) = Inl SSH_ERR_INVALID_FORMAT"
    "\<not> nul_inside s \<Longrightarrow> \<exists>b'. sshbuf_get_cstring am b = (Inr s, b') \<and> sshbuf_wf b' \<and> contents b' = rest"
  using assms wire_len_string [OF assms(3), of rest] wire_complete_string [OF assms(3), of rest]
    advance [OF assms(2), of "4 + length s"]
  by (simp_all add: get_cstring_wf Let_def del: length_contents)

lemma get_cstrings_fail:
  assumes "\<forall>n. am n \<noteq> None" "sshbuf_wf b" "\<forall>s\<in>set ss. length s < 2 ^ 32"
    "contents b = concat (map wire_string ss) @ rest" "\<exists>s\<in>set ss. nul_inside s"
  shows "fst (act_repeat (length ss) (sshbuf_get_cstring am) b) = Inl SSH_ERR_INVALID_FORMAT"
  using assms
proof (induction ss arbitrary: b)
  case (Cons s ss)
  have c: "contents b = wire_string s @ (concat (map wire_string ss) @ rest)" and s: "length s < 2 ^ 32"
    using Cons.prems by simp_all
  note g = get_cstring_any [OF Cons.prems(1,2) s c]
  show ?case
  proof (cases "nul_inside s")
    case True
    then show ?thesis using g(1) by (cases "sshbuf_get_cstring am b") (simp add: act_simps)
  next
    case False
    then obtain b' where b': "sshbuf_get_cstring am b = (Inr s, b')" "sshbuf_wf b'"
      "contents b' = concat (map wire_string ss) @ rest" using g(2) by blast
    have "fst (act_repeat (length ss) (sshbuf_get_cstring am) b') = Inl SSH_ERR_INVALID_FORMAT"
      using Cons.IH [OF Cons.prems(1) b'(2) _ b'(3)] Cons.prems(3,5) False by auto
    then show ?thesis using b'(1)
      by (cases "act_repeat (length ss) (sshbuf_get_cstring am) b'") (simp add: act_simps)
  qed
qed simp

text \<open>The buffer \<open>kex_buf2prop\<close> reads.\<close>

lemma buf2prop_view:
  assumes "sshbuf_wf raw" "\<forall>n. am n \<noteq> None" "length (contents raw) \<ge> KEX_COOKIE_LEN"
  shows "\<exists>b. sshbuf_wf b \<and> contents b = drop KEX_COOKIE_LEN (contents raw) \<and>
    kex_buf2prop am raw =
      fst (act_bind (act_repeat PROPOSAL_MAX (sshbuf_get_cstring am))
        (\<lambda>proposal. act_bind sshbuf_get_u8 (\<lambda>v. act_bind sshbuf_get_u32 (\<lambda>i.
           act_return (sint i, map (\<lambda>s. string_of (c_str s)) proposal)))) b)"
proof -
  have "length (contents raw) \<le> SSHBUF_SIZE_MAX" using wf_bounds [OF assms(1)] assms(1) by simp
  then obtain v where v: "sshbuf_from am (Some (contents raw)) = Some v"
    using assms(2) by (auto simp: sshbuf_from_def)
  note vw = from_wf [OF v]
  have c: "contents v = contents raw" using vw(3) by simp
  have adv: "sshbuf_wf (advance KEX_COOKIE_LEN v)"
    "contents (advance KEX_COOKIE_LEN v) = drop KEX_COOKIE_LEN (contents raw)"
    using advance [OF vw(1), of KEX_COOKIE_LEN] assms(3) c by simp_all
  have "sshbuf_consume KEX_COOKIE_LEN v = (Inr (), advance KEX_COOKIE_LEN v)"
    using consume_advance [OF vw(1), of KEX_COOKIE_LEN] assms(3) c by (simp del: length_contents)
  moreover obtain f where "am (PROPOSAL_MAX * 8) = Some f" using assms(2) by blast
  ultimately show ?thesis using adv v assms(1)
    by (intro exI [of _ "advance KEX_COOKIE_LEN v"]) (simp add: kex_buf2prop_def wf_sane act_seq_run)
qed

lemma buf2prop_parse:
  assumes "sshbuf_wf raw" "\<forall>n. am n \<noteq> None" "length ck = KEX_COOKIE_LEN" "length ss = PROPOSAL_MAX"
    and "\<forall>s\<in>set ss. 0 \<notin> set s \<and> length s < 2 ^ 32"
    and "contents raw = ck @ concat (map wire_string ss) @ [v] @ POKE_U32 (ucast (i :: u32)) @ rest"
  shows "kex_buf2prop am raw = Inr (sint i, map string_of ss)"
proof -
  have cs: "map (\<lambda>v. wire_string (c_str v)) ss = map wire_string ss" "map c_str ss = ss"
    using assms(5) by (simp_all add: map_idI)
  obtain b where b: "sshbuf_wf b"
    "contents b = concat (map (\<lambda>v. wire_string (c_str v)) ss) @ ([v] @ POKE_U32 (ucast i) @ rest)"
    and run: "kex_buf2prop am raw =
      fst (act_bind (act_repeat PROPOSAL_MAX (sshbuf_get_cstring am))
        (\<lambda>proposal. act_bind sshbuf_get_u8 (\<lambda>v. act_bind sshbuf_get_u32 (\<lambda>i.
           act_return (sint i, map (\<lambda>s. string_of (c_str s)) proposal)))) b)"
    using buf2prop_view [OF assms(1,2)] assms(3,6) cs by (auto simp del: length_contents)
  obtain b1 where b1: "act_repeat PROPOSAL_MAX (sshbuf_get_cstring am) b = (Inr ss, b1)"
    "sshbuf_wf b1" "contents b1 = [v] @ POKE_U32 (ucast i) @ rest"
    using cstring_field.get_list [OF assms(2) b(1) assms(5) b(2)] assms(4) by auto
  obtain b2 where b2: "sshbuf_get_u8 b1 = (Inr v, b2)" "sshbuf_wf b2" "contents b2 = POKE_U32 (ucast i) @ rest"
    using u8_field.get_reads [OF TrueI b1(2) TrueI b1(3)] by blast
  obtain b3 where b3: "sshbuf_get_u32 b2 = (Inr i, b3)"
    using u32_field.get_reads [OF TrueI b2(2) TrueI b2(3)] by blast
  have "map (\<lambda>s. string_of (c_str s)) ss = map string_of ss" using cs(2) by (metis (no_types, lifting) map_map comp_apply map_eq_conv)
  then show ?thesis using run b1(1) b2(1) b3 by (simp add: act_simps)
qed

lemma buf2prop_nul:
  assumes "sshbuf_wf raw" "\<forall>n. am n \<noteq> None" "length ck = KEX_COOKIE_LEN" "length ss = PROPOSAL_MAX"
    and "\<forall>s\<in>set ss. length s < 2 ^ 32" "\<exists>s\<in>set ss. nul_inside s"
    and "contents raw = ck @ concat (map wire_string ss) @ rest"
  shows "kex_buf2prop am raw = Inl SSH_ERR_INVALID_FORMAT"
proof -
  obtain b where b: "sshbuf_wf b" "contents b = concat (map wire_string ss) @ rest"
    and run: "kex_buf2prop am raw =
      fst (act_bind (act_repeat PROPOSAL_MAX (sshbuf_get_cstring am))
        (\<lambda>proposal. act_bind sshbuf_get_u8 (\<lambda>v. act_bind sshbuf_get_u32 (\<lambda>i.
           act_return (sint i, map (\<lambda>s. string_of (c_str s)) proposal)))) b)"
    using buf2prop_view [OF assms(1,2)] assms(3,7) by (auto simp del: length_contents)
  have "fst (act_repeat PROPOSAL_MAX (sshbuf_get_cstring am) b) = Inl SSH_ERR_INVALID_FORMAT"
    using get_cstrings_fail [OF assms(2) b(1) assms(5) b(2) assms(6)] assms(4) by simp
  then show ?thesis using run
    by (cases "act_repeat PROPOSAL_MAX (sshbuf_get_cstring am) b") (simp add: act_bind_run)
qed

text \<open>What \<open>kex_prop2buf\<close> writes, as a message.\<close>

definition prop_fields :: "string list \<Rightarrow> field list" where
  "prop_fields props = replicate KEX_COOKIE_LEN (F_u8 0) @
     map (\<lambda>s. F_cstring (bytes_of s)) (take PROPOSAL_MAX props) @ [F_u8 0, F_u32 0]"

lemma act_all_append: "act_all (fs @ gs) s = act_seq (act_all fs) (act_all gs) s"
proof (induction fs arbitrary: s)
  case (Cons f fs)
  show ?case
  proof (cases "f s")
    case (Pair r s')
    then show ?thesis using Cons.IH [of s'] by (cases r) (simp_all add: act_seq_run)
  qed
qed (simp add: act_simps)

lemma act_seq_cong: "(\<And>s. g s = g' s) \<Longrightarrow> act_seq f g s = act_seq f g' s"
  by (simp add: act_seq_run split: prod.splits sum.splits)

lemma prop2buf_fields:
  "kex_prop2buf am props b = act_all (map (put_field am) (prop_fields props)) (sshbuf_reset am b)"
proof -
  have two: "act_seq f g s = act_all [f, g] s" for f g :: "(ssh_err, sshbuf, unit) action" and s
    by (simp add: act_simps split: prod.splits sum.splits)
  show ?thesis
    by (simp add: kex_prop2buf_def prop_fields_def map_replicate act_all_append comp_def two
        cong: act_seq_cong del: act_all.simps)
qed

lemma enc_prop_fields:
  assumes "length props = PROPOSAL_MAX" "\<forall>s\<in>set props. CHR 0x00 \<notin> set s"
  shows "concat (map enc_field (prop_fields props)) =
    replicate KEX_COOKIE_LEN 0 @ concat (map wire_string (map bytes_of props)) @ [0] @ POKE_U32 (ucast (0 :: u32)) @ []"
proof -
  have "map (enc_field \<circ> (\<lambda>s. F_cstring (bytes_of s))) props = map (wire_string \<circ> bytes_of) props"
    using assms(2) by simp
  then show ?thesis
    using assms(1) by (simp add: prop_fields_def map_replicate concat_replicate_trivial map_replicate_trivial del: map_eq_conv)
qed

lemma length_wire_strings:
  "length (concat (map wire_string (map bytes_of props))) = sum_list (map (\<lambda>s. 4 + length s) props)"
  by (induction props) simp_all

lemma prop2buf_runs:
  assumes "sshbuf_wf b" "sshbuf_writable b" "SSHBUF_SIZE_INIT \<le> sb_max_size b" "\<forall>n. am n \<noteq> None"
    and "length props = PROPOSAL_MAX" "\<forall>s\<in>set props. CHR 0x00 \<notin> set s"
    and "21 + sum_list (map (\<lambda>s. 4 + length s) props) \<le> sb_max_size b"
  shows "\<exists>b'. kex_prop2buf am props b = (Inr (), b') \<and> sshbuf_wf b' \<and>
    contents b' = replicate KEX_COOKIE_LEN 0 @ concat (map wire_string (map bytes_of props)) @ [0] @
      POKE_U32 (ucast (0 :: u32)) @ []"
proof -
  let ?b0 = "sshbuf_reset am b" and ?fs = "prop_fields props"
  have wf0: "sshbuf_wf ?b0" using reset_wf [OF assms(1)] assms(3) by blast
  have c0: "contents ?b0 = []" and sf: "same_frame b ?b0" using reset_contents [OF assms(1)] by auto
  then have w0: "sshbuf_writable ?b0" "sb_max_size ?b0 = sb_max_size b"
    using assms(2) by (auto simp: sshbuf_writable_def same_frame_def)
  note enc = enc_prop_fields [OF assms(5,6)]
  have "length (concat (map enc_field ?fs)) = 21 + sum_list (map (\<lambda>s. 4 + length s) props)"
    unfolding enc using length_wire_strings [of props] by (simp add: KEX_COOKIE_LEN_def)
  then have "fst (act_all (map (put_field am) ?fs) ?b0) = Inr ()"
    using put_fields_succeed [OF wf0 w0(1) assms(4)] c0 w0(2) assms(7) by (simp del: length_contents)
  then obtain b' where run: "act_all (map (put_field am) ?fs) ?b0 = (Inr (), b')" by (metis prod.collapse)
  show ?thesis using message_field.put_list [OF wf0 run] c0 enc run by (simp add: prop2buf_fields)
qed

lemma get_direct_reads:
  assumes "sshbuf_wf b" "length v < 2 ^ 32" "contents b = wire_string v @ rest"
  shows "\<exists>x b'. sshbuf_get_string_direct b = (Inr x, b') \<and> sshbuf_wf b' \<and> contents b' = rest"
  using assms wire_len_string [OF assms(2), of rest] wire_complete_string [OF assms(2), of rest]
    advance [OF assms(1), of "4 + length v"]
  by (simp add: get_string_direct_wf del: length_contents)

lemma get_directs_read:
  assumes "sshbuf_wf b" "\<forall>s\<in>set ss. length s < 2 ^ 32" "contents b = concat (map wire_string ss) @ rest"
  shows "\<exists>xs b'. act_repeat (length ss) sshbuf_get_string_direct b = (Inr xs, b') \<and> sshbuf_wf b' \<and>
    contents b' = rest"
  using assms
proof (induction ss arbitrary: b)
  case Nil
  then show ?case by (simp add: act_simps)
next
  case (Cons s ss)
  have "contents b = wire_string s @ (concat (map wire_string ss) @ rest)" using Cons.prems(3) by simp
  from get_direct_reads [OF Cons.prems(1) _ this] Cons.prems(2)
  obtain x b1 where b1: "sshbuf_get_string_direct b = (Inr x, b1)" "sshbuf_wf b1"
    "contents b1 = concat (map wire_string ss) @ rest" by auto
  from Cons.IH [OF b1(2) _ b1(3)] Cons.prems(2)
  obtain xs b2 where "act_repeat (length ss) sshbuf_get_string_direct b1 = (Inr xs, b2)" "sshbuf_wf b2"
    "contents b2 = rest" by auto
  with b1 show ?case by (auto simp: act_simps)
qed

lemma discard_accepts:
  assumes "sshbuf_wf b" "length ck = KEX_COOKIE_LEN" "length ss = PROPOSAL_MAX"
    and "\<forall>s\<in>set ss. length s < 2 ^ 32"
    and "contents b = ck @ concat (map wire_string ss) @ [v] @ POKE_U32 (ucast (i :: u32))"
  shows "fst (kexinit_discard b) = Inr ()"
proof -
  have "contents b = concat (map (\<lambda>v. [v]) ck) @ (concat (map wire_string ss) @ [v] @ POKE_U32 (ucast i))"
    using assms(5) by (simp add: concat_map_singleton)
  from u8_field.get_list [OF TrueI assms(1) _ this]
  obtain b1 where b1: "act_repeat KEX_COOKIE_LEN sshbuf_get_u8 b = (Inr ck, b1)" "sshbuf_wf b1"
    "contents b1 = concat (map wire_string ss) @ ([v] @ POKE_U32 (ucast i))" using assms(2) by auto
  obtain xs b2 where b2: "act_repeat PROPOSAL_MAX sshbuf_get_string_direct b1 = (Inr xs, b2)" "sshbuf_wf b2"
    "contents b2 = [v] @ POKE_U32 (ucast i)" using get_directs_read [OF b1(2) assms(4) b1(3)] assms(3) by auto
  obtain b3 where b3: "sshbuf_get_u8 b2 = (Inr v, b3)" "sshbuf_wf b3" "contents b3 = POKE_U32 (ucast i) @ []"
    using u8_field.get_reads [OF TrueI b2(2) TrueI b2(3)] by auto
  obtain b4 where b4: "sshbuf_get_u32 b3 = (Inr i, b4)" "sshbuf_wf b4" "contents b4 = []"
    using u32_field.get_reads [OF TrueI b3(2) TrueI b3(3)] by blast
  have "sshbuf_len b4 = 0" using b4(2,3) by (simp del: length_contents)
  then show ?thesis using b1(1) b2(1) b3(1) b4(1) by (simp add: kexinit_discard_def act_seq_run)
qed

section \<open>The outcome of the negotiation\<close>

text \<open>The algorithms of one direction depend on the proposals, the direction and the quirks only.\<close>

definition mode_choice ::
  "strdup \<Rightarrow> (evp_md \<Rightarrow> int) \<Rightarrow> u32 \<Rightarrow> string list \<Rightarrow> string list \<Rightarrow> bool \<Rightarrow> newkeys res" where
  "mode_choice dup md_size cflags cprop sprop ctos =
     (case choose_enc dup (cprop ! (if ctos then PROPOSAL_ENC_ALGS_CTOS else PROPOSAL_ENC_ALGS_STOC))
         (sprop ! (if ctos then PROPOSAL_ENC_ALGS_CTOS else PROPOSAL_ENC_ALGS_STOC)) of
        Inl e \<Rightarrow> Inl e
      | Inr enc \<Rightarrow>
        (case (if cipher_authlen (the (se_cipher enc)) = 0 then
                 choose_mac dup md_size cflags (cprop ! (if ctos then PROPOSAL_MAC_ALGS_CTOS else PROPOSAL_MAC_ALGS_STOC))
                   (sprop ! (if ctos then PROPOSAL_MAC_ALGS_CTOS else PROPOSAL_MAC_ALGS_STOC)) mac0
               else (Inr (), mac0)) of
           (Inl e, _) \<Rightarrow> Inl e
         | (Inr _, mac) \<Rightarrow>
           (case choose_comp dup (cprop ! (if ctos then PROPOSAL_COMP_ALGS_CTOS else PROPOSAL_COMP_ALGS_STOC))
                (sprop ! (if ctos then PROPOSAL_COMP_ALGS_CTOS else PROPOSAL_COMP_ALGS_STOC)) comp0 of
              (Inl e, _) \<Rightarrow> Inl e
            | (Inr _, cmp) \<Rightarrow> Inr \<lparr>nk_enc = enc, nk_mac = mac, nk_comp = cmp\<rparr>)))"

lemma choose_mode_eq:
  assumes "mem mode"
  shows "\<exists>nk. choose_mode mem dup md_size cprop sprop mode k =
    (case mode_choice dup md_size (kx_compat k) cprop sprop (client_to_server (kx_server k) mode) of
       Inl e \<Rightarrow> (Inl e, k\<lparr>kx_newkeys := (kx_newkeys k)(mode \<mapsto> nk)\<rparr>)
     | Inr n \<Rightarrow> (Inr (), k\<lparr>kx_newkeys := (kx_newkeys k)(mode \<mapsto> n)\<rparr>))"
  using assms by (auto simp: choose_mode_def mode_choice_def Let_def split: sum.splits prod.splits)

text \<open>What the whole negotiation settles.\<close>

record settled =
  st_ctos :: newkeys
  st_stoc :: newkeys
  st_name :: string
  st_alg :: kexalg
  st_hostkey :: sshkey_types

definition settle ::
  "strdup \<Rightarrow> (evp_md \<Rightarrow> int) \<Rightarrow> u32 \<Rightarrow> string list \<Rightarrow> string list \<Rightarrow> settled option" where
  "settle dup md_size cflags cprop sprop =
     (case (mode_choice dup md_size cflags cprop sprop True, mode_choice dup md_size cflags cprop sprop False,
            fst (match_list dup (cprop ! PROPOSAL_KEX_ALGS) (sprop ! PROPOSAL_KEX_ALGS)),
            fst (match_list dup (cprop ! PROPOSAL_SERVER_HOST_KEY_ALGS) (sprop ! PROPOSAL_SERVER_HOST_KEY_ALGS))) of
        (Inr ctos, Inr stoc, Some name, Some hk) \<Rightarrow>
          (case kex_alg_by_name name of None \<Rightarrow> None
           | Some a \<Rightarrow>
               if sshkey_type_from_name hk = KEY_UNSPEC then None
               else Some \<lparr>st_ctos = ctos, st_stoc = stoc, st_name = name, st_alg = a, st_hostkey = sshkey_type_from_name hk\<rparr>)
      | _ \<Rightarrow> None)"

definition nk_need :: "newkeys \<Rightarrow> nat" where
  "nk_need n = max (max (se_key_len (nk_enc n)) (se_block_size (nk_enc n))) (max (se_iv_len (nk_enc n)) (sm_key_len (nk_mac n)))"

lemma mode_need_max: "mode_need (Some n) m = max m (nk_need n)"
  by (auto simp: mode_need_def nk_need_def Let_def)

text \<open>What is settled, from the view of one side.\<close>

definition applied :: "bool \<Rightarrow> settled \<Rightarrow> kex \<Rightarrow> bool" where
  "applied server s k \<longleftrightarrow>
     kx_newkeys k (if server then MODE_IN else MODE_OUT) = Some (st_ctos s) \<and>
     kx_newkeys k (if server then MODE_OUT else MODE_IN) = Some (st_stoc s) \<and>
     kx_name k = Some (st_name s) \<and> kx_kex_type k = Some (ka_type (st_alg s)) \<and>
     kx_evp_md k = Some (ka_mdfunc (st_alg s)) \<and> kx_ec_nid k = ka_ec_nid (st_alg s) \<and>
     kx_hostkey_type k = st_hostkey s \<and>
     kx_we_need k = max (nk_need (st_ctos s)) (nk_need (st_stoc s))"

text \<open>Whether both directions were chosen, and what was stored.\<close>

lemma choose_modes:
  fixes k dup md_size cprop sprop defines "M \<equiv> mode_choice dup md_size (kx_compat k) cprop sprop"
  assumes "act_seq (choose_mode (\<lambda>_. True) dup md_size cprop sprop MODE_IN)
    (act_seq (choose_mode (\<lambda>_. True) dup md_size cprop sprop MODE_OUT) rest) k = (r, k')"
  shows "(\<exists>e. r = Inl e \<and> ((\<exists>e'. M True = Inl e') \<or> (\<exists>e'. M False = Inl e'))) \<or>
    (\<exists>c s. M True = Inr c \<and> M False = Inr s \<and>
       rest (k\<lparr>kx_newkeys := (kx_newkeys k)
         (MODE_IN \<mapsto> (if kx_server k then c else s), MODE_OUT \<mapsto> (if kx_server k then s else c))\<rparr>) = (r, k'))"
proof -
  obtain n1 where m1: "choose_mode (\<lambda>_. True) dup md_size cprop sprop MODE_IN k =
    (case M (kx_server k) of
       Inl e \<Rightarrow> (Inl e, k\<lparr>kx_newkeys := (kx_newkeys k)(MODE_IN \<mapsto> n1)\<rparr>)
     | Inr n \<Rightarrow> (Inr (), k\<lparr>kx_newkeys := (kx_newkeys k)(MODE_IN \<mapsto> n)\<rparr>))"
    using choose_mode_eq [of "\<lambda>_. True" MODE_IN dup md_size cprop sprop k]
    by (auto simp: M_def client_to_server_def)
  show ?thesis
  proof (cases "M (kx_server k)")
    case (Inl e)
    then show ?thesis using assms(2) m1 by (cases "kx_server k") (auto simp: act_seq_run)
  next
    case in1: (Inr n)
    let ?k = "k\<lparr>kx_newkeys := (kx_newkeys k)(MODE_IN \<mapsto> n)\<rparr>"
    obtain n2 where m2: "choose_mode (\<lambda>_. True) dup md_size cprop sprop MODE_OUT ?k =
      (case M (\<not> kx_server k) of
         Inl e \<Rightarrow> (Inl e, ?k\<lparr>kx_newkeys := (kx_newkeys ?k)(MODE_OUT \<mapsto> n2)\<rparr>)
       | Inr m \<Rightarrow> (Inr (), ?k\<lparr>kx_newkeys := (kx_newkeys ?k)(MODE_OUT \<mapsto> m)\<rparr>))"
      using choose_mode_eq [of "\<lambda>_. True" MODE_OUT dup md_size cprop sprop ?k]
      by (auto simp: M_def client_to_server_def)
    show ?thesis
    proof (cases "M (\<not> kx_server k)")
      case (Inl e)
      then show ?thesis using assms(2) m1 m2 in1 by (cases "kx_server k") (auto simp: act_seq_run)
    next
      case (Inr m)
      then show ?thesis using assms(2) m1 m2 in1
        by (cases "kx_server k") (simp_all add: act_seq_run)
    qed
  qed
qed

lemma choose_conf_settle:
  assumes "kex_buf2prop am (kx_my k) = Inr (f0, my)" "kex_buf2prop am (kx_peer k) = Inr (f, peer)"
    and "kex_choose_conf am (\<lambda>_. True) dup md_size k = Some (r, k')"
  shows "case settle dup md_size (kx_compat k) (if kx_server k then peer else my) (if kx_server k then my else peer) of
      None \<Rightarrow> \<exists>e. r = Inl e | Some s \<Rightarrow> r = Inr () \<and> applied (kx_server k) s k'"
proof -
  define cprop where "cprop = (if kx_server k then peer else my)"
  define sprop where "sprop = (if kx_server k then my else peer)"
  define k0 where "k0 = (if \<not> kx_server k \<and> fst (match_list dup ''resume@appgate.com'' (peer ! PROPOSAL_KEX_ALGS)) \<noteq> None
     then k\<lparr>kx_roaming := True\<rparr> else k)"
  have k0: "kx_compat k0 = kx_compat k" "kx_server k0 = kx_server k" by (simp_all add: k0_def)
  define rest where "rest =
    act_seq (choose_kex dup (cprop ! PROPOSAL_KEX_ALGS) (sprop ! PROPOSAL_KEX_ALGS))
     (act_seq (choose_hostkeyalg dup (cprop ! PROPOSAL_SERVER_HOST_KEY_ALGS) (sprop ! PROPOSAL_SERVER_HOST_KEY_ALGS))
       (\<lambda>k. let need = mode_need (kx_newkeys k MODE_OUT) (mode_need (kx_newkeys k MODE_IN) 0);
                k1 = k\<lparr>kx_we_need := need\<rparr>
            in (Inr (), if f \<noteq> 0 \<and> \<not> proposals_match my peer \<and> kx_compat k1 AND SSH_BUG_FIRSTKEX = 0
                        then k1\<lparr>kx_skip_packets := 1\<rparr> else k1)))"
  have "act_seq (choose_mode (\<lambda>_. True) dup md_size cprop sprop MODE_IN)
    (act_seq (choose_mode (\<lambda>_. True) dup md_size cprop sprop MODE_OUT) rest) k0 = (r, k')"
    using assms by (simp add: kex_choose_conf_def Let_def cprop_def sprop_def k0_def rest_def)
  from choose_modes [OF this] k0 consider
    e where "r = Inl e" "(\<exists>e'. mode_choice dup md_size (kx_compat k) cprop sprop True = Inl e') \<or>
       (\<exists>e'. mode_choice dup md_size (kx_compat k) cprop sprop False = Inl e')"
  | c s where "mode_choice dup md_size (kx_compat k) cprop sprop True = Inr c"
      "mode_choice dup md_size (kx_compat k) cprop sprop False = Inr s"
      "rest (k0\<lparr>kx_newkeys := (kx_newkeys k0)
         (MODE_IN \<mapsto> (if kx_server k then c else s), MODE_OUT \<mapsto> (if kx_server k then s else c))\<rparr>) = (r, k')"
    by auto
  then have "case settle dup md_size (kx_compat k) cprop sprop of
      None \<Rightarrow> \<exists>e. r = Inl e | Some s \<Rightarrow> r = Inr () \<and> applied (kx_server k) s k'" (is ?goal)
  proof cases
    case 1
    have "settle dup md_size (kx_compat k) cprop sprop = None"
      using 1(2) by (auto simp: settle_def split: sum.splits)
    then show ?goal using 1(1) by simp
  next
    case 2
    then show ?goal
      by (auto simp: settle_def applied_def rest_def act_seq_run choose_kex_def choose_hostkeyalg_def Let_def
          mode_need_max max.commute max.left_commute split: option.splits if_splits)
  qed
  then show ?thesis by (simp only: cprop_def sprop_def)
qed

section \<open>The key stream\<close>

text \<open>
  \<open>K1 || K2 || ...\<close> of RFC 4253, section 7.2, as the code comments give it: each block hashes the
  shared secret, the exchange hash and all blocks before it.
\<close>

fun key_stream :: "(byte list \<Rightarrow> byte list) \<Rightarrow> byte list \<Rightarrow> byte list \<Rightarrow> nat \<Rightarrow> byte list" where
  "key_stream h pre k1 0 = k1"
| "key_stream h pre k1 (Suc n) = key_stream h pre k1 n @ h (pre @ key_stream h pre k1 n)"

lemma length_key_stream:
  assumes "\<forall>x. length (h x) = mdsz" "length k1 = mdsz"
  shows "length (key_stream h pre k1 n) = mdsz * (n + 1)"
  by (induction n) (simp_all add: assms)

lemma more_blocks:
  fixes need :: nat
  assumes "mdsz > 0"
  shows "mdsz * (n + 1) < need \<longleftrightarrow> n < (need - 1) div mdsz"
proof -
  have "n < (need - 1) div mdsz \<longleftrightarrow> n + 1 \<le> (need - 1) div mdsz" by auto
  also have "\<dots> \<longleftrightarrow> (n + 1) * mdsz \<le> need - 1" using assms by (rule less_eq_div_iff_mult_less_eq)
  also have "\<dots> \<longleftrightarrow> mdsz * (n + 1) < need" using assms by (cases need) (auto simp: mult.commute)
  finally show ?thesis by simp
qed

lemma expand_key_stream:
  assumes "\<forall>x. digest x = Some (h x) \<and> length (h x) = mdsz" "mdsz > 0" "length k1 = mdsz"
    and "n \<le> (need - 1) div mdsz"
  shows "expand_key digest kb hash need mdsz (mdsz * (n + 1)) (key_stream h (kb @ hash) k1 n) =
    Some (key_stream h (kb @ hash) k1 ((need - 1) div mdsz))"
  using assms(4)
proof (induction "(need - 1) div mdsz - n" arbitrary: n)
  case 0
  then have n: "n = (need - 1) div mdsz" by simp
  then have "\<not> mdsz * (n + 1) < need" using more_blocks [OF assms(2), of n need] by simp
  then show ?case using n by (subst expand_key.simps) simp
next
  case (Suc d)
  then have lt: "mdsz * (n + 1) < need" using more_blocks [OF assms(2), of n need] by simp
  have len: "length (key_stream h (kb @ hash) k1 n) = mdsz * (n + 1)"
    by (rule length_key_stream) (use assms in auto)
  have "expand_key digest kb hash need mdsz (mdsz * (n + 1)) (key_stream h (kb @ hash) k1 n) =
      expand_key digest kb hash need mdsz (mdsz * (Suc n + 1)) (key_stream h (kb @ hash) k1 (Suc n))"
    using lt len assms(1,2) by (subst expand_key.simps) (simp add: algebra_simps)
  also have "\<dots> = Some (key_stream h (kb @ hash) k1 ((need - 1) div mdsz))"
    using Suc by (intro Suc.hyps(1)) auto
  finally show ?case .
qed

text \<open>The bytes the secret contributes: none for peers with the old bug.\<close>

definition secret_bytes :: "'bn bn_lib \<Rightarrow> u32 \<Rightarrow> 'bn \<Rightarrow> byte list" where
  "secret_bytes L cflags secret =
     (if cflags AND SSH_BUG_DERIVEKEY \<noteq> 0 then [] else wire_string (mpint L secret))"

lemma derive_key_run:
  assumes "\<forall>n. am n \<noteq> None" "bn_lib_ok L" "length (BN_bn2bin L secret) \<le> SSHBUF_MAX_BIGNUM"
    and "kx_evp_md k = Some md" "md_size md = int mdsz" "mdsz > 0"
    and "\<forall>x. digest md x = Some (h x) \<and> length (h x) = mdsz"
  shows "derive_key L am md_size digest k c need hash secret =
    Inr (key_stream h (secret_bytes L (kx_compat k) secret @ hash)
      (h (secret_bytes L (kx_compat k) secret @ hash @ [c] @ kx_session_id k)) ((need - 1) div mdsz))"
proof -
  obtain f where f: "am (roundup need mdsz) = Some f" using assms(1) by blast
  obtain b0 where b0: "sshbuf_new am = Some b0"
    using assms(1) by (auto simp: sshbuf_new_def calloc_block_def split: option.splits)
  note nb = new_wf [OF b0]
  have len2: "int (length (BN_bn2bin L secret)) = BN_num_bytes L secret"
    using assms(2) by (simp add: bn_lib_ok_def BN_num_bytes_def)
  then have len: "0 \<le> BN_num_bytes L secret" by linarith
  have mp: "length (mpint L secret) \<le> 1025"
    using assms(3) by (auto simp: mpint_def Let_def SSHBUF_MAX_BIGNUM_def)
  then have "sshbuf_put_bignum2 L am secret b0 = sshbuf_put am (wire_string (mpint L secret)) b0"
    using put_bignum2_cases(2) [OF len assms(3) len2, of am] put_string_eq [OF nb(1), of "mpint L secret" am] by simp
  moreover have "fst (sshbuf_put am (wire_string (mpint L secret)) b0) = Inr ()"
    using put_succeeds [OF nb(1,2) _ assms(1), of "wire_string (mpint L secret)"] nb(3,4) mp
    by (simp add: SSHBUF_SIZE_MAX_def del: length_contents)
  ultimately obtain b where b: "sshbuf_put_bignum2 L am secret b0 = (Inr (), b)" by (metis prod.collapse)
  have c: "sshbuf_wf b" "contents b = wire_string (mpint L secret)"
    using bignum2_field.put_ok [OF nb(1) b] nb(3) by auto
  have kb: "(if kx_compat k AND SSH_BUG_DERIVEKEY \<noteq> 0 then [] else sshbuf_bytes b) = secret_bytes L (kx_compat k) secret"
    using c by (simp add: secret_bytes_def)
  have ex: "expand_key (digest md) (secret_bytes L (kx_compat k) secret) hash need mdsz mdsz k1 =
      Some (key_stream h (secret_bytes L (kx_compat k) secret @ hash) k1 ((need - 1) div mdsz))"
    if "length k1 = mdsz" for k1
    using expand_key_stream [OF assms(7,6) that, of 0 need] by simp
  show ?thesis unfolding derive_key_def
    using assms(4-7) f b0 b by (simp add: Let_def kb ex)
qed

text \<open>Deriving depends on these fields only.\<close>

lemma derive_key_cong:
  assumes "kx_evp_md k = kx_evp_md k'" "kx_compat k = kx_compat k'" "kx_session_id k = kx_session_id k'"
  shows "derive_key L am md_size digest k = derive_key L am md_size digest k'"
  unfolding derive_key_def fun_eq_iff assms by blast

section \<open>Properties\<close>

text \<open>C35: a proposal of ten name lists without zero bytes that \<open>kex_prop2buf\<close> has written is what
  \<open>kex_buf2prop\<close> reads back, with no guessed packet announced.\<close>

theorem kex_proposal_roundtrip:
  assumes "sshbuf_wf b" "sshbuf_writable b" "SSHBUF_SIZE_INIT \<le> sb_max_size b"
    and "length props = PROPOSAL_MAX" "\<forall>s\<in>set props. CHR 0x00 \<notin> set s"
    and "21 + sum_list (map (\<lambda>s. 4 + length s) props) \<le> sb_max_size b"
    and "\<forall>n. am n \<noteq> None" "\<forall>n. am' n \<noteq> None"
  shows "\<exists>b'. kex_prop2buf am props b = (Inr (), b') \<and> kex_buf2prop am' b' = Inr (0, props)"
proof -
  obtain b' where b': "kex_prop2buf am props b = (Inr (), b')" "sshbuf_wf b'"
    and c: "contents b' = replicate KEX_COOKIE_LEN 0 @ concat (map wire_string (map bytes_of props)) @ [0] @
      POKE_U32 (ucast (0 :: u32)) @ []"
    using prop2buf_runs [OF assms(1-3,7,4-6)] by blast
  have "sb_max_size b \<le> SSHBUF_SIZE_MAX" using wf_bounds [OF assms(1)] by simp
  then have len: "\<forall>s\<in>set props. length s < 2 ^ 32"
    using assms(6) member_le_sum_list [of _ "map (\<lambda>s. 4 + length s) props"]
    by (fastforce simp: SSHBUF_SIZE_MAX_def)
  have "kex_buf2prop am' b' = Inr (sint (0 :: u32), map string_of (map bytes_of props))"
    by (rule buf2prop_parse [OF b'(2) assms(8) _ _ _ c]) (use assms(4,5) len in auto)
  then show ?thesis using b'(1) by (simp add: comp_def)
qed

text \<open>\<open>kex_buf2prop\<close> reports the reserved word of a proposal as the flag that announces a guessed
  packet: the flag byte \<open>v\<close> itself has no influence.\<close>

theorem kex_first_follows_is_reserved:
  assumes "sshbuf_wf raw" "\<forall>n. am n \<noteq> None" "length ck = KEX_COOKIE_LEN" "length ss = PROPOSAL_MAX"
    and "\<forall>s\<in>set ss. 0 \<notin> set s \<and> length s < 2 ^ 32"
    and "contents raw = ck @ concat (map wire_string ss) @ [v] @ POKE_U32 (ucast (reserved :: u32)) @ rest"
  shows "kex_buf2prop am raw = Inr (sint reserved, map string_of ss)"
  by (rule buf2prop_parse [OF assms])

text \<open>C36: a proposal with a zero byte inside a name list passes the checks of the packet handler and
  then crashes the negotiation: the proposal cannot be parsed and the pointer to it, still
  null, is handed to \<open>kex_prop_free\<close>.\<close>

theorem kex_nul_in_proposal_crashes:
  assumes "sshbuf_wf pkt" "sshbuf_wf (kx_peer k)" "contents (kx_peer k) = contents pkt" "\<forall>n. am n \<noteq> None"
    and "contents pkt = ck @ concat (map wire_string ss) @ [v] @ POKE_U32 (ucast (reserved :: u32))"
    and "length ck = KEX_COOKIE_LEN" "length ss = PROPOSAL_MAX" "\<forall>s\<in>set ss. length s < 2 ^ 32"
    and "\<exists>s\<in>set ss. 0 \<in> set (butlast s)"
  shows "fst (kexinit_discard pkt) = Inr () \<and> kex_choose_conf am mem dup md_size k = None"
proof -
  have "kex_buf2prop am (kx_peer k) = Inl SSH_ERR_INVALID_FORMAT"
    by (rule buf2prop_nul [OF assms(2,4,6-8)]) (use assms(3,5,9) in \<open>auto simp: nul_inside_def\<close>)
  then have "kex_choose_conf am mem dup md_size k = None"
    by (simp add: kex_choose_conf_def split: sum.splits prod.splits)
  then show ?thesis using discard_accepts [OF assms(1,6-8,5)] by blast
qed

text \<open>C9: client and server, each with its own proposal and that of the other, come to the same
  result: one succeeds exactly if the other does, and then the client's outgoing algorithms
  are the server's incoming ones and conversely, and both use the same key exchange, the
  same host key type and the same amount of key material.\<close>

theorem kex_negotiation_agrees:
  assumes "\<not> kx_server kc" "kx_server ks" "kx_compat kc = kx_compat ks"
    and "kex_buf2prop am (kx_my kc) = Inr (f1, P)" "kex_buf2prop am (kx_peer kc) = Inr (f2, Q)"
    and "kex_buf2prop am' (kx_my ks) = Inr (f3, Q)" "kex_buf2prop am' (kx_peer ks) = Inr (f4, P)"
    and "kex_choose_conf am (\<lambda>_. True) dup md_size kc = Some (rc, kc')"
    and "kex_choose_conf am' (\<lambda>_. True) dup md_size ks = Some (rs, ks')"
  shows "(rc = Inr () \<longleftrightarrow> rs = Inr ()) \<and>
    (rc = Inr () \<longrightarrow>
       kx_newkeys kc' MODE_OUT = kx_newkeys ks' MODE_IN \<and> kx_newkeys kc' MODE_IN = kx_newkeys ks' MODE_OUT \<and>
       kx_name kc' = kx_name ks' \<and> kx_kex_type kc' = kx_kex_type ks' \<and> kx_evp_md kc' = kx_evp_md ks' \<and>
       kx_ec_nid kc' = kx_ec_nid ks' \<and> kx_hostkey_type kc' = kx_hostkey_type ks' \<and>
       kx_we_need kc' = kx_we_need ks')"
  using choose_conf_settle [OF assms(4,5,8)] choose_conf_settle [OF assms(6,7,9)] assms(1-3)
  by (cases "settle dup md_size (kx_compat ks) P Q") (auto simp: applied_def)


text \<open>C34: client and server that share the secret, the exchange hash and the session identifier
  install the same keys crosswise: what one sends under, the other receives under.\<close>

theorem kex_derived_keys_agree:
  assumes "\<not> kx_server kc" "kx_server ks" "kx_compat kc = kx_compat ks" "kx_session_id kc = kx_session_id ks"
    and "kx_evp_md kc = kx_evp_md ks" "kx_we_need kc = kx_we_need ks"
    and "kx_newkeys kc MODE_OUT = kx_newkeys ks MODE_IN" "kx_newkeys kc MODE_IN = kx_newkeys ks MODE_OUT"
    and "kex_derive_keys L am md_size digest hash secret kc = Some (Inr (), kc')"
  shows "\<exists>ks'. kex_derive_keys L am md_size digest hash secret ks = Some (Inr (), ks') \<and>
    kx_newkeys kc' MODE_OUT = kx_newkeys ks' MODE_IN \<and> kx_newkeys kc' MODE_IN = kx_newkeys ks' MODE_OUT \<and>
    (\<forall>nk. kx_newkeys ks' MODE_IN = Some nk \<longrightarrow> se_key (nk_enc nk) \<noteq> None \<and> se_iv (nk_enc nk) \<noteq> None \<and> sm_key (nk_mac nk) \<noteq> None)"
  using assms derive_key_cong [OF assms(5,3,4), of L am md_size digest]
  by (auto simp: kex_derive_keys_def client_to_server_def set_mode_keys_def split: sum.splits option.splits)

text \<open>A small example of both sides.\<close>

definition prop_example :: "string list" where
  "prop_example = [''diffie-hellman-group14-sha1'', ''ssh-rsa'', ''aes128-ctr'', ''arcfour'', ''hmac-sha1'', ''hmac-md5'',
     ''none'', ''none'', [], []]"

definition raw_prop :: "string list \<Rightarrow> byte \<Rightarrow> u32 \<Rightarrow> byte list" where
  "raw_prop props v reserved = replicate KEX_COOKIE_LEN 0 @ concat (map wire_string (map bytes_of props)) @ [v] @
     POKE_U32 (ucast reserved)"

definition kex_example :: "bool \<Rightarrow> byte list \<Rightarrow> byte list \<Rightarrow> kex" where
  "kex_example server my peer =
     \<lparr>kx_session_id = [1, 2], kx_newkeys = (\<lambda>_. Some newkeys0), kx_we_need = 40, kx_server = server, kx_name = None,
       kx_hostkey_type = KEY_UNSPEC, kx_kex_type = None, kx_roaming = False, kx_my = filled_buf my,
       kx_peer = filled_buf peer, kx_evp_md = Some EVP_sha1, kx_ec_nid = 0, kx_compat = 0, kx_skip_packets = 0\<rparr>"

lemma prop_example:
  "length prop_example = PROPOSAL_MAX" "\<forall>s\<in>set prop_example. CHR 0x00 \<notin> set s \<and> length s < 2 ^ 32"
  "sum_list (map (\<lambda>s. 4 + length s) prop_example) < 200"
  by (simp_all add: prop_example_def PROPOSAL_MAX_def)

lemma length_raw_prop: "length (raw_prop props v i) = 21 + sum_list (map (\<lambda>s. 4 + length s) props)"
  using length_wire_strings [of props] by (simp add: raw_prop_def KEX_COOKIE_LEN_def)

lemma raw_example:
  "sshbuf_wf (filled_buf (raw_prop prop_example v i))"
  "contents (filled_buf (raw_prop prop_example v i)) = raw_prop prop_example v i"
  using prop_example(3) length_raw_prop [of prop_example v i] by (auto intro!: filled_buf simp: SSHBUF_SIZE_MAX_def)

theorem kex_proposal_roundtrip_witness:
  "\<exists>b'. kex_prop2buf alloc_zero prop_example fresh_buf = (Inr (), b') \<and>
     kex_buf2prop alloc_zero b' = Inr (0, prop_example)"
  using prop_example fresh_buf
  by (intro kex_proposal_roundtrip) (auto simp: SSHBUF_SIZE_MAX_def SSHBUF_SIZE_INIT_def alloc_zero_def simp del: length_contents)

theorem kex_first_follows_is_reserved_witness:
  "kex_buf2prop alloc_zero (filled_buf (raw_prop prop_example 1 0)) = Inr (0, prop_example)"
proof -
  have c: "contents (filled_buf (raw_prop prop_example 1 0)) =
      replicate KEX_COOKIE_LEN 0 @ concat (map wire_string (map bytes_of prop_example)) @ [1] @ POKE_U32 (ucast (0 :: u32)) @ []"
    unfolding raw_example(2) by (simp add: raw_prop_def)
  have "kex_buf2prop alloc_zero (filled_buf (raw_prop prop_example 1 0)) =
      Inr (sint (0 :: u32), map string_of (map bytes_of prop_example))"
    by (rule kex_first_follows_is_reserved [OF raw_example(1) alloc_zero_total _ _ _ c]) (use prop_example in auto)
  then show ?thesis by (simp add: comp_def)
qed

definition nul_example :: "string list" where
  "nul_example = (''a'' @ [CHR 0x00] @ ''b'') # replicate 9 []"

theorem kex_nul_in_proposal_crashes_witness:
  "fst (kexinit_discard (filled_buf (raw_prop nul_example 0 0))) = Inr () \<and>
    kex_choose_conf alloc_zero (\<lambda>_. True) Some (\<lambda>_. 16) (kex_example True (raw_prop prop_example 0 0) (raw_prop nul_example 0 0)) = None"
proof -
  have len: "length (raw_prop nul_example 0 0) < 100" unfolding length_raw_prop by (simp add: nul_example_def sum_list_replicate)
  have wf: "sshbuf_wf (filled_buf (raw_prop nul_example 0 0))" and c: "contents (filled_buf (raw_prop nul_example 0 0)) = raw_prop nul_example 0 0"
    using len by (auto intro!: filled_buf simp: SSHBUF_SIZE_MAX_def)
  have raw: "contents (filled_buf (raw_prop nul_example 0 0)) =
      replicate KEX_COOKIE_LEN 0 @ concat (map wire_string (map bytes_of nul_example)) @ [0] @ POKE_U32 (ucast (0 :: u32))"
    unfolding c by (simp add: raw_prop_def)
  have nul: "0 \<in> set (butlast (bytes_of (''a'' @ [CHR 0x00] @ ''b'')))" by (simp add: bytes_of_def)
  show ?thesis
    by (rule kex_nul_in_proposal_crashes [OF wf _ _ alloc_zero_total raw])
      (use wf nul in \<open>auto simp: kex_example_def nul_example_def PROPOSAL_MAX_def\<close>)
qed

lemma settle_example: "\<not> Option.is_none (settle Some (\<lambda>_. 16) 0 prop_example prop_example)"
  by code_simp

lemma raw_parses: "kex_buf2prop alloc_zero (filled_buf (raw_prop prop_example 0 0)) = Inr (0, prop_example)"
proof -
  have c: "contents (filled_buf (raw_prop prop_example 0 0)) =
      replicate KEX_COOKIE_LEN 0 @ concat (map wire_string (map bytes_of prop_example)) @ [0] @ POKE_U32 (ucast (0 :: u32)) @ []"
    unfolding raw_example(2) by (simp add: raw_prop_def)
  have "kex_buf2prop alloc_zero (filled_buf (raw_prop prop_example 0 0)) =
      Inr (sint (0 :: u32), map string_of (map bytes_of prop_example))"
    by (rule buf2prop_parse [OF raw_example(1) alloc_zero_total _ _ _ c]) (use prop_example in auto)
  then show ?thesis by (simp add: comp_def)
qed

abbreviation side_example :: "bool \<Rightarrow> kex" where
  "side_example server \<equiv> kex_example server (raw_prop prop_example 0 0) (raw_prop prop_example 0 0)"

lemma side_parses:
  "kex_buf2prop alloc_zero (kx_my (side_example server)) = Inr (0, prop_example)"
  "kex_buf2prop alloc_zero (kx_peer (side_example server)) = Inr (0, prop_example)"
  by (simp_all add: kex_example_def raw_parses)

lemma side_chooses:
  "\<exists>k'. kex_choose_conf alloc_zero (\<lambda>_. True) Some (\<lambda>_. 16) (side_example server) = Some (Inr (), k')"
proof -
  obtain r k' where run: "kex_choose_conf alloc_zero (\<lambda>_. True) Some (\<lambda>_. 16) (side_example server) = Some (r, k')"
    using side_parses [of server] by (fastforce simp: kex_choose_conf_def Let_def)
  have "r = Inr ()"
    using choose_conf_settle [OF side_parses run] settle_example
    by (auto simp: kex_example_def Option.is_none_def split: option.splits)
  then show ?thesis using run by blast
qed

theorem kex_negotiation_agrees_witness:
  "\<exists>kc' ks'. kex_choose_conf alloc_zero (\<lambda>_. True) Some (\<lambda>_. 16) (side_example False) = Some (Inr (), kc') \<and>
     kex_choose_conf alloc_zero (\<lambda>_. True) Some (\<lambda>_. 16) (side_example True) = Some (Inr (), ks') \<and>
     kx_newkeys kc' MODE_OUT = kx_newkeys ks' MODE_IN \<and> kx_we_need kc' = kx_we_need ks'"
proof -
  obtain kc' where c: "kex_choose_conf alloc_zero (\<lambda>_. True) Some (\<lambda>_. 16) (side_example False) = Some (Inr (), kc')"
    using side_chooses by blast
  obtain ks' where s: "kex_choose_conf alloc_zero (\<lambda>_. True) Some (\<lambda>_. 16) (side_example True) = Some (Inr (), ks')"
    using side_chooses by blast
  have "\<not> kx_server (side_example False)" "kx_server (side_example True)"
    "kx_compat (side_example False) = kx_compat (side_example True)" by (simp_all add: kex_example_def)
  from kex_negotiation_agrees [OF this side_parses side_parses c s] c s show ?thesis by blast
qed

definition digest_example :: "evp_md \<Rightarrow> byte list \<Rightarrow> byte list option" where
  "digest_example md x = Some (replicate 20 (of_nat (length x)))"

lemma secret_example: "length (BN_bn2bin bn_nat 70000) \<le> SSHBUF_MAX_BIGNUM"
  by (simp add: bn_nat_def nat_bytes.simps SSHBUF_MAX_BIGNUM_def)

lemma digest_example:
  "\<forall>x. digest_example md x = Some ((\<lambda>x. replicate 20 (of_nat (length x))) x) \<and> length ((\<lambda>x. replicate 20 (of_nat (length x))) x :: byte list) = 20"
  by (simp add: digest_example_def)


lemma derives_example:
  "\<exists>k'. kex_derive_keys bn_nat alloc_zero (\<lambda>_. 20) digest_example [7] 70000 (side_example server) = Some (Inr (), k')"
proof -
  have md: "kx_evp_md (side_example server) = Some EVP_sha1" by (simp add: kex_example_def)
  have "\<exists>key. derive_key bn_nat alloc_zero (\<lambda>_. 20) digest_example (side_example server) c n [7] 70000 = Inr key" for c n
    using derive_key_run [of alloc_zero bn_nat "70000" "side_example server" EVP_sha1 "\<lambda>_. 20" 20 digest_example,
      OF alloc_zero_total bn_nat_ok secret_example md _ _ digest_example, of c n "[7]"] by auto
  then obtain f where f: "derive_key bn_nat alloc_zero (\<lambda>_. 20) digest_example (side_example server) c n [7] 70000 = Inr (f c n)" for c n
    by metis
  have "\<exists>keys. derive_all (\<lambda>c. Inr (f c n)) i m = Inr keys" for n i m
    by (induction m arbitrary: i) (auto, metis sum.case(2))
  then obtain keys where "derive_all (\<lambda>c. Inr (f c (kx_we_need (side_example server)))) 0 NKEYS = Inr keys" by blast
  then show ?thesis by (simp add: kex_derive_keys_def f) (simp add: kex_example_def)
qed

theorem kex_derived_keys_agree_witness:
  "\<exists>kc' ks'. kex_derive_keys bn_nat alloc_zero (\<lambda>_. 20) digest_example [7] 70000 (side_example False) = Some (Inr (), kc') \<and>
     kex_derive_keys bn_nat alloc_zero (\<lambda>_. 20) digest_example [7] 70000 (side_example True) = Some (Inr (), ks') \<and>
     kx_newkeys kc' MODE_OUT = kx_newkeys ks' MODE_IN"
proof -
  obtain kc' where c: "kex_derive_keys bn_nat alloc_zero (\<lambda>_. 20) digest_example [7] 70000 (side_example False) = Some (Inr (), kc')"
    using derives_example by blast
  from kex_derived_keys_agree [OF _ _ _ _ _ _ _ _ c, of "side_example True"] c
  show ?thesis by (auto simp: kex_example_def)
qed

end
