(* ===== verification/Nchan.thy ===== *)
theory Nchan
  imports Sshbuf_Getput
begin

text \<open>
  The teardown of channels, \<open>ssh/nchan.c\<close>: the states of the two halves of a channel, the events
  that move them, for protocol 1.5 and protocol 2, and the messages they send. The handlers
  of \<open>ssh/channels.c\<close> that deliver these messages are modelled from the point where the channel
  has been found.
\<close>

section \<open>State\<close>

definition SSH_CHANNEL_OPEN :: nat where "SSH_CHANNEL_OPEN = 4"
definition SSH_CHANNEL_LARVAL :: nat where "SSH_CHANNEL_LARVAL = 10"
definition SSH_CHANNEL_ZOMBIE :: nat where "SSH_CHANNEL_ZOMBIE = 14"

definition CHAN_EXTENDED_READ :: int where "CHAN_EXTENDED_READ = 1"
definition CHAN_EXTENDED_WRITE :: int where "CHAN_EXTENDED_WRITE = 2"

definition CHAN_INPUT_OPEN :: nat where "CHAN_INPUT_OPEN = 0"
definition CHAN_INPUT_WAIT_DRAIN :: nat where "CHAN_INPUT_WAIT_DRAIN = 1"
definition CHAN_INPUT_WAIT_OCLOSE :: nat where "CHAN_INPUT_WAIT_OCLOSE = 2"
definition CHAN_INPUT_CLOSED :: nat where "CHAN_INPUT_CLOSED = 3"

definition CHAN_OUTPUT_OPEN :: nat where "CHAN_OUTPUT_OPEN = 0"
definition CHAN_OUTPUT_WAIT_DRAIN :: nat where "CHAN_OUTPUT_WAIT_DRAIN = 1"
definition CHAN_OUTPUT_WAIT_IEOF :: nat where "CHAN_OUTPUT_WAIT_IEOF = 2"
definition CHAN_OUTPUT_CLOSED :: nat where "CHAN_OUTPUT_CLOSED = 3"

definition CHAN_CLOSE_SENT :: u32 where "CHAN_CLOSE_SENT = 0x01"
definition CHAN_CLOSE_RCVD :: u32 where "CHAN_CLOSE_RCVD = 0x02"
definition CHAN_EOF_SENT :: u32 where "CHAN_EOF_SENT = 0x04"
definition CHAN_EOF_RCVD :: u32 where "CHAN_EOF_RCVD = 0x08"
definition CHAN_LOCAL :: u32 where "CHAN_LOCAL = 0x10"

definition SSH_MSG_CHANNEL_INPUT_EOF :: byte where "SSH_MSG_CHANNEL_INPUT_EOF = 24"
definition SSH_MSG_CHANNEL_OUTPUT_CLOSE :: byte where "SSH_MSG_CHANNEL_OUTPUT_CLOSE = 25"
definition SSH2_MSG_CHANNEL_EOF :: byte where "SSH2_MSG_CHANNEL_EOF = 96"
definition SSH2_MSG_CHANNEL_CLOSE :: byte where "SSH2_MSG_CHANNEL_CLOSE = 97"
definition SSH2_MSG_CHANNEL_REQUEST :: byte where "SSH2_MSG_CHANNEL_REQUEST = 98"

definition SSH_BUG_EXTEOF :: u32 where "SSH_BUG_EXTEOF = 0x00200000"
definition SSH_NEW_OPENSSH :: u32 where "SSH_NEW_OPENSSH = 0x04000000"

record packet =
  pk_type :: byte
  pk_payload :: "byte list"

text \<open>One constructor for each call of \<open>error\<close>.\<close>

datatype chan_diag =
  Rcvd_oclose_protocol_error | Read_failed_state | Ibuf_not_empty | Ibuf_empty_state
| Rcvd_ieof_protocol_error | Write_failed_state | Obuf_not_empty | Obuf_empty_state
| Cannot_send_ieof | Cannot_send_oclose | Close_rcvd_twice | Cannot_send_eof
| Cannot_send_close | Close_already_sent | No_eow_on_closed

datatype chan_event = Ev_send packet | Ev_shutdown_write int | Ev_shutdown_read int | Ev_close int | Ev_error chan_diag

text \<open>The fields of \<open>struct Channel\<close> used here, and what the channel has done so far.\<close>

record channel =
  ch_type :: nat
  ch_remote_id :: u32
  ch_istate :: nat
  ch_ostate :: nat
  ch_flags :: u32
  ch_rfd :: int
  ch_wfd :: int
  ch_efd :: int
  ch_sock :: int
  ch_input :: sshbuf
  ch_output :: sshbuf
  ch_extended :: sshbuf
  ch_extended_usage :: int
  ch_ctype :: string
  ch_force_drain :: bool
  ch_trace :: "chan_event list"

text \<open>
  The globals and the connection: \<open>compat20\<close>, \<open>ssh->compat\<close>, the allocator, and whether the
  packet layer can send a packet (\<open>None\<close>) or fails. \<open>channel_error\<close> and \<open>fatal\<close> do not return.
\<close>

record chan_env =
  ce_compat20 :: bool
  ce_compat :: u32
  ce_am :: allocator
  ce_send :: "packet \<Rightarrow> ssh_err option"

datatype chan_fatal = Bad_state nat nat | Packet_error ssh_err

type_synonym chan_op = "(chan_fatal, channel, unit) action"

definition chan_update :: "(channel \<Rightarrow> channel) \<Rightarrow> chan_op" where
  "chan_update f c = (Inr (), f c)"

definition chan_note :: "chan_event \<Rightarrow> chan_op" where
  "chan_note ev = chan_update (\<lambda>c. c\<lparr>ch_trace := ch_trace c @ [ev]\<rparr>)"

definition chan_error :: "chan_diag \<Rightarrow> chan_op" where
  "chan_error d = chan_note (Ev_error d)"

text \<open>\<open>sshpkt_start\<close>, the \<open>sshpkt_put\<close> calls and \<open>sshpkt_send\<close>, with \<open>CHANNEL_PACKET_ERROR\<close>.\<close>

definition chan_send :: "chan_env \<Rightarrow> byte \<Rightarrow> field list \<Rightarrow> chan_op" where
  "chan_send E ty fs =
     (let p = \<lparr>pk_type = ty, pk_payload = concat (map enc_field fs)\<rparr> in
      case ce_send E p of Some e \<Rightarrow> act_fail (Packet_error e) | None \<Rightarrow> chan_note (Ev_send p))"

definition has_flag :: "channel \<Rightarrow> u32 \<Rightarrow> bool" where
  "has_flag c m \<longleftrightarrow> ch_flags c AND m \<noteq> 0"

definition set_flag :: "u32 \<Rightarrow> chan_op" where
  "set_flag m = chan_update (\<lambda>c. c\<lparr>ch_flags := ch_flags c OR m\<rparr>)"

section \<open>Operations\<close>

definition chan_set_istate :: "nat \<Rightarrow> chan_op" where
  "chan_set_istate next c =
     (if ch_istate c > CHAN_INPUT_CLOSED \<or> next > CHAN_INPUT_CLOSED then (Inl (Bad_state (ch_istate c) next), c)
      else (Inr (), c\<lparr>ch_istate := next\<rparr>))"

definition chan_set_ostate :: "nat \<Rightarrow> chan_op" where
  "chan_set_ostate next c =
     (if ch_ostate c > CHAN_OUTPUT_CLOSED \<or> next > CHAN_OUTPUT_CLOSED then (Inl (Bad_state (ch_ostate c) next), c)
      else (Inr (), c\<lparr>ch_ostate := next\<rparr>))"

text \<open>\<open>channel_close_fd\<close>; the results of \<open>close\<close> and \<open>shutdown\<close> are only logged.\<close>

definition chan_close_rfd :: chan_op where
  "chan_close_rfd c =
     (if ch_rfd c \<noteq> -1 then act_seq (chan_note (Ev_close (ch_rfd c))) (chan_update (\<lambda>c. c\<lparr>ch_rfd := -1\<rparr>)) c
      else (Inr (), c))"

definition chan_close_wfd :: chan_op where
  "chan_close_wfd c =
     (if ch_wfd c \<noteq> -1 then act_seq (chan_note (Ev_close (ch_wfd c))) (chan_update (\<lambda>c. c\<lparr>ch_wfd := -1\<rparr>)) c
      else (Inr (), c))"

definition chan_shutdown_write :: "chan_env \<Rightarrow> chan_op" where
  "chan_shutdown_write E =
     act_seq (chan_update (\<lambda>c. c\<lparr>ch_output := sshbuf_reset (ce_am E) (ch_output c)\<rparr>))
       (\<lambda>c. if ce_compat20 E \<and> ch_type c = SSH_CHANNEL_LARVAL then (Inr (), c)
            else if ch_sock c \<noteq> -1 then chan_note (Ev_shutdown_write (ch_sock c)) c
            else chan_close_wfd c)"

definition chan_shutdown_read :: "chan_env \<Rightarrow> chan_op" where
  "chan_shutdown_read E c =
     (if ce_compat20 E \<and> ch_type c = SSH_CHANNEL_LARVAL then (Inr (), c)
      else if ch_sock c \<noteq> -1 then chan_note (Ev_shutdown_read (ch_sock c)) c
      else chan_close_rfd c)"

definition chan_send_ieof1 :: "chan_env \<Rightarrow> chan_op" where
  "chan_send_ieof1 E c =
     (if ch_istate c = CHAN_INPUT_OPEN \<or> ch_istate c = CHAN_INPUT_WAIT_DRAIN
      then chan_send E SSH_MSG_CHANNEL_INPUT_EOF [F_u32 (ch_remote_id c)] c
      else chan_error Cannot_send_ieof c)"

definition chan_send_oclose1 :: "chan_env \<Rightarrow> chan_op" where
  "chan_send_oclose1 E c =
     (if ch_ostate c = CHAN_OUTPUT_OPEN \<or> ch_ostate c = CHAN_OUTPUT_WAIT_DRAIN
      then act_seq (chan_update (\<lambda>c. c\<lparr>ch_output := sshbuf_reset (ce_am E) (ch_output c)\<rparr>))
        (chan_send E SSH_MSG_CHANNEL_OUTPUT_CLOSE [F_u32 (ch_remote_id c)]) c
      else chan_error Cannot_send_oclose c)"

definition chan_rcvd_oclose1 :: "chan_env \<Rightarrow> chan_op" where
  "chan_rcvd_oclose1 E c =
     (if ch_istate c = CHAN_INPUT_WAIT_OCLOSE then chan_set_istate CHAN_INPUT_CLOSED c
      else if ch_istate c = CHAN_INPUT_OPEN then
        act_seq (chan_shutdown_read E) (act_seq (chan_send_ieof1 E) (chan_set_istate CHAN_INPUT_CLOSED)) c
      else if ch_istate c = CHAN_INPUT_WAIT_DRAIN then
        act_seq (chan_send_ieof1 E) (chan_set_istate CHAN_INPUT_CLOSED) c
      else chan_error Rcvd_oclose_protocol_error c)"

definition chan_read_failed :: "chan_env \<Rightarrow> chan_op" where
  "chan_read_failed E c =
     (if ch_istate c = CHAN_INPUT_OPEN then
        act_seq (chan_shutdown_read E) (chan_set_istate CHAN_INPUT_WAIT_DRAIN) c
      else chan_error Read_failed_state c)"

definition chan_send_eof2 :: "chan_env \<Rightarrow> chan_op" where
  "chan_send_eof2 E c =
     (if ch_istate c = CHAN_INPUT_WAIT_DRAIN then
        act_seq (chan_send E SSH2_MSG_CHANNEL_EOF [F_u32 (ch_remote_id c)]) (set_flag CHAN_EOF_SENT) c
      else chan_error Cannot_send_eof c)"

definition chan_ibuf_empty :: "chan_env \<Rightarrow> chan_op" where
  "chan_ibuf_empty E c =
     (if sshbuf_len (ch_input c) \<noteq> 0 then chan_error Ibuf_not_empty c
      else if ch_istate c = CHAN_INPUT_WAIT_DRAIN then
        (if ce_compat20 E then
           act_seq (if \<not> has_flag c (CHAN_CLOSE_SENT OR CHAN_LOCAL) then chan_send_eof2 E else act_return ())
             (chan_set_istate CHAN_INPUT_CLOSED) c
         else act_seq (chan_send_ieof1 E) (chan_set_istate CHAN_INPUT_WAIT_OCLOSE) c)
      else chan_error Ibuf_empty_state c)"

definition chan_rcvd_ieof1 :: chan_op where
  "chan_rcvd_ieof1 c =
     (if ch_ostate c = CHAN_OUTPUT_OPEN then chan_set_ostate CHAN_OUTPUT_WAIT_DRAIN c
      else if ch_ostate c = CHAN_OUTPUT_WAIT_IEOF then chan_set_ostate CHAN_OUTPUT_CLOSED c
      else chan_error Rcvd_ieof_protocol_error c)"

definition chan_write_failed1 :: "chan_env \<Rightarrow> chan_op" where
  "chan_write_failed1 E c =
     (if ch_ostate c = CHAN_OUTPUT_OPEN then
        act_seq (chan_shutdown_write E) (act_seq (chan_send_oclose1 E) (chan_set_ostate CHAN_OUTPUT_WAIT_IEOF)) c
      else if ch_ostate c = CHAN_OUTPUT_WAIT_DRAIN then
        act_seq (chan_shutdown_write E) (act_seq (chan_send_oclose1 E) (chan_set_ostate CHAN_OUTPUT_CLOSED)) c
      else chan_error Write_failed_state c)"

definition chan_obuf_empty :: "chan_env \<Rightarrow> chan_op" where
  "chan_obuf_empty E c =
     (if sshbuf_len (ch_output c) \<noteq> 0 then chan_error Obuf_not_empty c
      else if ch_ostate c = CHAN_OUTPUT_WAIT_DRAIN then
        act_seq (chan_shutdown_write E)
          (act_seq (if \<not> ce_compat20 E then chan_send_oclose1 E else act_return ())
            (chan_set_ostate CHAN_OUTPUT_CLOSED)) c
      else chan_error Obuf_empty_state c)"

text \<open>Protocol 2.\<close>

text \<open>The two \<open>switch\<close> statements of \<open>chan_rcvd_close2\<close>.\<close>

definition rcvd_close2_output :: chan_op where
  "rcvd_close2_output c =
     (if ch_ostate c = CHAN_OUTPUT_OPEN then chan_set_ostate CHAN_OUTPUT_WAIT_DRAIN c else (Inr (), c))"

definition rcvd_close2_input :: "chan_env \<Rightarrow> chan_op" where
  "rcvd_close2_input E c =
     (if ch_istate c = CHAN_INPUT_OPEN then act_seq (chan_shutdown_read E) (chan_set_istate CHAN_INPUT_CLOSED) c
      else if ch_istate c = CHAN_INPUT_WAIT_DRAIN then
        act_seq (if \<not> has_flag c CHAN_LOCAL then chan_send_eof2 E else act_return ())
          (chan_set_istate CHAN_INPUT_CLOSED) c
      else (Inr (), c))"

definition chan_rcvd_close2 :: "chan_env \<Rightarrow> chan_op" where
  "chan_rcvd_close2 E =
     act_seq
       (\<lambda>c. if \<not> has_flag c CHAN_LOCAL then
              act_seq (if has_flag c CHAN_CLOSE_RCVD then chan_error Close_rcvd_twice else act_return ())
                (set_flag CHAN_CLOSE_RCVD) c
            else (Inr (), c))
       (\<lambda>c. if ch_type c = SSH_CHANNEL_LARVAL then
              act_seq (chan_set_ostate CHAN_OUTPUT_CLOSED) (chan_set_istate CHAN_INPUT_CLOSED) c
            else act_seq rcvd_close2_output (rcvd_close2_input E) c)"

definition chan_rcvd_eow :: "chan_env \<Rightarrow> chan_op" where
  "chan_rcvd_eow E c =
     (if ch_istate c = CHAN_INPUT_OPEN then act_seq (chan_shutdown_read E) (chan_set_istate CHAN_INPUT_CLOSED) c
      else (Inr (), c))"

definition chan_rcvd_eof2 :: chan_op where
  "chan_rcvd_eof2 =
     act_seq (set_flag CHAN_EOF_RCVD)
       (\<lambda>c. if ch_ostate c = CHAN_OUTPUT_OPEN then chan_set_ostate CHAN_OUTPUT_WAIT_DRAIN c else (Inr (), c))"

definition chan_send_eow2 :: "chan_env \<Rightarrow> chan_op" where
  "chan_send_eow2 E c =
     (if ch_ostate c = CHAN_OUTPUT_CLOSED then chan_error No_eow_on_closed c
      else if ce_compat E AND SSH_NEW_OPENSSH = 0 then (Inr (), c)
      else chan_send E SSH2_MSG_CHANNEL_REQUEST
        [F_u32 (ch_remote_id c), F_cstring (bytes_of ''eow@openssh.com''), F_u8 0] c)"

definition chan_write_failed2 :: "chan_env \<Rightarrow> chan_op" where
  "chan_write_failed2 E c =
     (if ch_ostate c = CHAN_OUTPUT_OPEN \<or> ch_ostate c = CHAN_OUTPUT_WAIT_DRAIN then
        act_seq (chan_shutdown_write E)
          (act_seq (if ch_ctype c = ''session'' then chan_send_eow2 E else act_return ())
            (chan_set_ostate CHAN_OUTPUT_CLOSED)) c
      else chan_error Write_failed_state c)"

definition chan_send_close2 :: "chan_env \<Rightarrow> chan_op" where
  "chan_send_close2 E c =
     (if ch_ostate c \<noteq> CHAN_OUTPUT_CLOSED \<or> ch_istate c \<noteq> CHAN_INPUT_CLOSED then chan_error Cannot_send_close c
      else if has_flag c CHAN_CLOSE_SENT then chan_error Close_already_sent c
      else act_seq (chan_send E SSH2_MSG_CHANNEL_CLOSE [F_u32 (ch_remote_id c)]) (set_flag CHAN_CLOSE_SENT) c)"

text \<open>Shared by both protocols.\<close>

definition efd_output_active :: "chan_env \<Rightarrow> channel \<Rightarrow> bool" where
  "efd_output_active E c \<longleftrightarrow>
     ce_compat20 E \<and> ch_extended_usage c = CHAN_EXTENDED_WRITE \<and> ch_efd c \<noteq> -1 \<and>
     (\<not> has_flag c (CHAN_EOF_RCVD OR CHAN_CLOSE_RCVD) \<or> sshbuf_len (ch_extended c) > 0)"

definition chan_rcvd_ieof :: "chan_env \<Rightarrow> chan_op" where
  "chan_rcvd_ieof E =
     act_seq (if ce_compat20 E then chan_rcvd_eof2 else chan_rcvd_ieof1)
       (\<lambda>c. if ch_ostate c = CHAN_OUTPUT_WAIT_DRAIN \<and> sshbuf_len (ch_output c) = 0 \<and> \<not> efd_output_active E c
            then chan_obuf_empty E c else (Inr (), c))"

definition chan_rcvd_oclose :: "chan_env \<Rightarrow> chan_op" where
  "chan_rcvd_oclose E = (if ce_compat20 E then chan_rcvd_close2 E else chan_rcvd_oclose1 E)"

definition chan_write_failed :: "chan_env \<Rightarrow> chan_op" where
  "chan_write_failed E = (if ce_compat20 E then chan_write_failed2 E else chan_write_failed1 E)"

definition chan_mark_dead :: chan_op where
  "chan_mark_dead = chan_update (\<lambda>c. c\<lparr>ch_type := SSH_CHANNEL_ZOMBIE\<rparr>)"

definition chan_is_dead :: "chan_env \<Rightarrow> bool \<Rightarrow> (chan_fatal, channel, bool) action" where
  "chan_is_dead E do_send c =
     (if ch_type c = SSH_CHANNEL_ZOMBIE then (Inr True, c)
      else if ch_istate c \<noteq> CHAN_INPUT_CLOSED \<or> ch_ostate c \<noteq> CHAN_OUTPUT_CLOSED then (Inr False, c)
      else if \<not> ce_compat20 E then (Inr True, c)
      else if ce_compat E AND SSH_BUG_EXTEOF \<noteq> 0 \<and> ch_extended_usage c = CHAN_EXTENDED_WRITE \<and>
              ch_efd c \<noteq> -1 \<and> sshbuf_len (ch_extended c) > 0 then (Inr False, c)
      else if has_flag c CHAN_LOCAL then (Inr True, c)
      else if \<not> has_flag c CHAN_CLOSE_SENT \<and> \<not> do_send \<and> has_flag c CHAN_CLOSE_RCVD then (Inr True, c)
      else
        act_bind (if \<not> has_flag c CHAN_CLOSE_SENT \<and> do_send then chan_send_close2 E else act_return ())
          (\<lambda>_ c. (Inr (has_flag c CHAN_CLOSE_SENT \<and> has_flag c CHAN_CLOSE_RCVD), c)) c)"

text \<open>\<open>channel_input_ieof\<close> once it has the channel.\<close>

definition channel_input_ieof :: "chan_env \<Rightarrow> chan_op" where
  "channel_input_ieof E =
     act_seq (chan_rcvd_ieof E)
       (\<lambda>c. if ch_force_drain c \<and> ch_istate c = CHAN_INPUT_OPEN then
              act_seq (chan_update (\<lambda>c. c\<lparr>ch_istate := CHAN_INPUT_WAIT_DRAIN\<rparr>))
                (\<lambda>c. if sshbuf_len (ch_input c) = 0 then chan_ibuf_empty E c else (Inr (), c)) c
            else (Inr (), c))"

section \<open>Running the operations\<close>

lemma and_bit: "(x :: u32) AND 2 ^ n \<noteq> 0 \<longleftrightarrow> bit x n"
  by (simp add: and_exp_eq_0_iff_not_bit)

definition flagged :: "u32 \<Rightarrow> u32 \<Rightarrow> bool" where
  "flagged f m \<longleftrightarrow> f AND m \<noteq> 0"

lemma has_flag [simp]: "has_flag c m \<longleftrightarrow> flagged (ch_flags c) m"
  by (simp add: has_flag_def flagged_def)

lemma flagged_or [simp]: "flagged f (m OR n) \<longleftrightarrow> flagged f m \<or> flagged f n"
  by (simp add: flagged_def bit.conj_disj_distrib or_eq_0_iff)

lemma flagged_bits:
  "flagged f CHAN_CLOSE_SENT \<longleftrightarrow> bit f 0" "flagged f CHAN_CLOSE_RCVD \<longleftrightarrow> bit f 1" "flagged f CHAN_EOF_SENT \<longleftrightarrow> bit f 2"
  "flagged f CHAN_EOF_RCVD \<longleftrightarrow> bit f 3" "flagged f CHAN_LOCAL \<longleftrightarrow> bit f 4"
  using and_bit [of f 0] and_bit [of f 1] and_bit [of f 2] and_bit [of f 3] and_bit [of f 4]
  by (simp_all add: flagged_def CHAN_CLOSE_SENT_def CHAN_CLOSE_RCVD_def CHAN_EOF_SENT_def CHAN_EOF_RCVD_def CHAN_LOCAL_def)

lemma set_flag_bits:
  "bit (f OR CHAN_CLOSE_SENT) n \<longleftrightarrow> bit f n \<or> n = 0" "bit (f OR CHAN_CLOSE_RCVD) n \<longleftrightarrow> bit f n \<or> n = 1"
  "bit (f OR CHAN_EOF_SENT) n \<longleftrightarrow> bit f n \<or> n = 2" "bit (f OR CHAN_EOF_RCVD) n \<longleftrightarrow> bit f n \<or> n = 3"
  using bit_exp_iff [of 0 n, where ?'a = "32 word"] bit_exp_iff [of 1 n, where ?'a = "32 word"]
    bit_exp_iff [of 2 n, where ?'a = "32 word"] bit_exp_iff [of 3 n, where ?'a = "32 word"]
  by (auto simp: bit_or_iff CHAN_CLOSE_SENT_def CHAN_CLOSE_RCVD_def CHAN_EOF_SENT_def CHAN_EOF_RCVD_def)

lemma flagged_set [simp]:
  "flagged (f OR CHAN_CLOSE_SENT) CHAN_CLOSE_SENT" "flagged (f OR CHAN_CLOSE_SENT) CHAN_CLOSE_RCVD \<longleftrightarrow> flagged f CHAN_CLOSE_RCVD"
  "flagged (f OR CHAN_CLOSE_SENT) CHAN_EOF_SENT \<longleftrightarrow> flagged f CHAN_EOF_SENT" "flagged (f OR CHAN_CLOSE_SENT) CHAN_EOF_RCVD \<longleftrightarrow> flagged f CHAN_EOF_RCVD"
  "flagged (f OR CHAN_CLOSE_SENT) CHAN_LOCAL \<longleftrightarrow> flagged f CHAN_LOCAL" "flagged (f OR CHAN_CLOSE_RCVD) CHAN_CLOSE_SENT \<longleftrightarrow> flagged f CHAN_CLOSE_SENT"
  "flagged (f OR CHAN_CLOSE_RCVD) CHAN_CLOSE_RCVD" "flagged (f OR CHAN_CLOSE_RCVD) CHAN_EOF_SENT \<longleftrightarrow> flagged f CHAN_EOF_SENT"
  "flagged (f OR CHAN_CLOSE_RCVD) CHAN_EOF_RCVD \<longleftrightarrow> flagged f CHAN_EOF_RCVD" "flagged (f OR CHAN_CLOSE_RCVD) CHAN_LOCAL \<longleftrightarrow> flagged f CHAN_LOCAL"
  "flagged (f OR CHAN_EOF_SENT) CHAN_CLOSE_SENT \<longleftrightarrow> flagged f CHAN_CLOSE_SENT" "flagged (f OR CHAN_EOF_SENT) CHAN_CLOSE_RCVD \<longleftrightarrow> flagged f CHAN_CLOSE_RCVD"
  "flagged (f OR CHAN_EOF_SENT) CHAN_EOF_SENT" "flagged (f OR CHAN_EOF_SENT) CHAN_EOF_RCVD \<longleftrightarrow> flagged f CHAN_EOF_RCVD"
  "flagged (f OR CHAN_EOF_SENT) CHAN_LOCAL \<longleftrightarrow> flagged f CHAN_LOCAL" "flagged (f OR CHAN_EOF_RCVD) CHAN_CLOSE_SENT \<longleftrightarrow> flagged f CHAN_CLOSE_SENT"
  "flagged (f OR CHAN_EOF_RCVD) CHAN_CLOSE_RCVD \<longleftrightarrow> flagged f CHAN_CLOSE_RCVD" "flagged (f OR CHAN_EOF_RCVD) CHAN_EOF_SENT \<longleftrightarrow> flagged f CHAN_EOF_SENT"
  "flagged (f OR CHAN_EOF_RCVD) CHAN_EOF_RCVD" "flagged (f OR CHAN_EOF_RCVD) CHAN_LOCAL \<longleftrightarrow> flagged f CHAN_LOCAL"
  unfolding flagged_bits set_flag_bits by simp_all

lemmas chan_states = CHAN_INPUT_OPEN_def CHAN_INPUT_WAIT_DRAIN_def CHAN_INPUT_WAIT_OCLOSE_def CHAN_INPUT_CLOSED_def
  CHAN_OUTPUT_OPEN_def CHAN_OUTPUT_WAIT_DRAIN_def CHAN_OUTPUT_WAIT_IEOF_def CHAN_OUTPUT_CLOSED_def

lemmas chan_msgs = SSH_MSG_CHANNEL_INPUT_EOF_def SSH_MSG_CHANNEL_OUTPUT_CLOSE_def SSH2_MSG_CHANNEL_EOF_def
  SSH2_MSG_CHANNEL_CLOSE_def SSH2_MSG_CHANNEL_REQUEST_def

lemmas chan_basic = chan_update_def chan_note_def chan_error_def chan_send_def set_flag_def act_simps
  chan_set_istate_def chan_set_ostate_def Let_def

text \<open>What happens locally: the socket or the application, and the garbage collector.\<close>

datatype chan_input =
  Read_failed | Ibuf_empty | Write_failed | Obuf_empty | Collect bool
| Set_input sshbuf | Set_output sshbuf | Set_extended sshbuf

fun chan_local :: "chan_env \<Rightarrow> chan_input \<Rightarrow> chan_op" where
  "chan_local E Read_failed = chan_read_failed E"
| "chan_local E Ibuf_empty = chan_ibuf_empty E"
| "chan_local E Write_failed = chan_write_failed E"
| "chan_local E Obuf_empty = chan_obuf_empty E"
| "chan_local E (Collect do_send) = act_bind (chan_is_dead E do_send) (\<lambda>_. act_return ())"
| "chan_local E (Set_input b) = chan_update (\<lambda>c. c\<lparr>ch_input := b\<rparr>)"
| "chan_local E (Set_output b) = chan_update (\<lambda>c. c\<lparr>ch_output := b\<rparr>)"
| "chan_local E (Set_extended b) = chan_update (\<lambda>c. c\<lparr>ch_extended := b\<rparr>)"

definition chan_deliver :: "chan_env \<Rightarrow> byte \<Rightarrow> chan_op" where
  "chan_deliver E ty =
     (if ce_compat20 E then
        (if ty = SSH2_MSG_CHANNEL_EOF then channel_input_ieof E
         else if ty = SSH2_MSG_CHANNEL_CLOSE then chan_rcvd_oclose E
         else if ty = SSH2_MSG_CHANNEL_REQUEST then chan_rcvd_eow E
         else act_return ())
      else
        (if ty = SSH_MSG_CHANNEL_INPUT_EOF then channel_input_ieof E
         else if ty = SSH_MSG_CHANNEL_OUTPUT_CLOSE then chan_rcvd_oclose E
         else act_return ()))"

text \<open>The types of the messages in a trace, and whether it shows a protocol error of the peer.\<close>

fun sends :: "chan_event list \<Rightarrow> byte list" where
  "sends [] = []"
| "sends (Ev_send p # tr) = pk_type p # sends tr"
| "sends (_ # tr) = sends tr"

definition peer_error :: "chan_event \<Rightarrow> bool" where
  "peer_error ev \<longleftrightarrow> ev \<in> Ev_error ` {Rcvd_oclose_protocol_error, Rcvd_ieof_protocol_error, Close_rcvd_twice}"

lemma sends_append [simp]: "sends (a @ b) = sends a @ sends b"
  by (induction a rule: sends.induct) auto

text \<open>The steps that only touch descriptors and buffers.\<close>

definition new_ev :: "channel \<Rightarrow> channel \<Rightarrow> chan_event list" where
  "new_ev c c' = drop (length (ch_trace c)) (ch_trace c')"

definition shut_r :: "chan_env \<Rightarrow> channel \<Rightarrow> channel" where "shut_r E c = snd (chan_shutdown_read E c)"
definition shut_w :: "chan_env \<Rightarrow> channel \<Rightarrow> channel" where "shut_w E c = snd (chan_shutdown_write E c)"

definition shut_r_ev :: "chan_env \<Rightarrow> channel \<Rightarrow> chan_event list" where "shut_r_ev E c = new_ev c (shut_r E c)"
definition shut_w_ev :: "chan_env \<Rightarrow> channel \<Rightarrow> chan_event list" where "shut_w_ev E c = new_ev c (shut_w E c)"

lemmas shut_defs = shut_r_ev_def shut_w_ev_def shut_r_def shut_w_def chan_shutdown_read_def chan_shutdown_write_def
  chan_close_rfd_def chan_close_wfd_def new_ev_def peer_error_def

lemma shut_r [simp]:
  "chan_shutdown_read E c = (Inr (), shut_r E c)"
  "ch_istate (shut_r E c) = ch_istate c" "ch_ostate (shut_r E c) = ch_ostate c" "ch_flags (shut_r E c) = ch_flags c"
  "ch_type (shut_r E c) = ch_type c" "ch_remote_id (shut_r E c) = ch_remote_id c"
  "ch_trace (shut_r E c) = ch_trace c @ shut_r_ev E c" "sends (shut_r_ev E c) = []" "\<not> list_ex peer_error (shut_r_ev E c)"
  by (simp_all add: shut_defs chan_basic)

lemma shut_w [simp]:
  "chan_shutdown_write E c = (Inr (), shut_w E c)"
  "ch_istate (shut_w E c) = ch_istate c" "ch_ostate (shut_w E c) = ch_ostate c" "ch_flags (shut_w E c) = ch_flags c"
  "ch_type (shut_w E c) = ch_type c" "ch_remote_id (shut_w E c) = ch_remote_id c" "ch_ctype (shut_w E c) = ch_ctype c"
  "ch_force_drain (shut_w E c) = ch_force_drain c" "ch_input (shut_w E c) = ch_input c"
  "ch_trace (shut_w E c) = ch_trace c @ shut_w_ev E c" "sends (shut_w_ev E c) = []" "\<not> list_ex peer_error (shut_w_ev E c)"
  by (simp_all add: shut_defs chan_basic)

definition states_ok :: "channel \<Rightarrow> bool" where
  "states_ok c \<longleftrightarrow> ch_istate c \<le> CHAN_INPUT_CLOSED \<and> ch_ostate c \<le> CHAN_OUTPUT_CLOSED"

datatype chan_step = Local chan_input | Rcvd byte

fun chan_run :: "chan_env \<Rightarrow> chan_step \<Rightarrow> chan_op" where
  "chan_run E (Local x) = chan_local E x"
| "chan_run E (Rcvd t) = chan_deliver E t"

text \<open>Protocol 1.5: which of the two messages a side has sent and received, read off its states.\<close>

definition ieof_sent :: "channel \<Rightarrow> nat" where "ieof_sent c = of_bool (ch_istate c \<in> {CHAN_INPUT_WAIT_OCLOSE, CHAN_INPUT_CLOSED})"
definition oclose_sent :: "channel \<Rightarrow> nat" where "oclose_sent c = of_bool (ch_ostate c \<in> {CHAN_OUTPUT_WAIT_IEOF, CHAN_OUTPUT_CLOSED})"
definition ieof_rcvd :: "channel \<Rightarrow> nat" where "ieof_rcvd c = of_bool (ch_ostate c \<in> {CHAN_OUTPUT_WAIT_DRAIN, CHAN_OUTPUT_CLOSED})"
definition oclose_rcvd :: "channel \<Rightarrow> nat" where "oclose_rcvd c = of_bool (ch_istate c = CHAN_INPUT_CLOSED)"

lemmas chan1_counts = ieof_sent_def oclose_sent_def ieof_rcvd_def oclose_rcvd_def

definition effect1 :: "nat \<Rightarrow> nat \<Rightarrow> channel \<Rightarrow> channel \<Rightarrow> bool" where
  "effect1 ieofs ocloses c c' \<longleftrightarrow> states_ok c' \<and>
     ieof_rcvd c' = ieof_rcvd c + ieofs \<and> oclose_rcvd c' = oclose_rcvd c + ocloses \<and>
     (\<exists>ev. ch_trace c' = ch_trace c @ ev \<and> \<not> list_ex peer_error ev \<and>
        set (sends ev) \<subseteq> {SSH_MSG_CHANNEL_INPUT_EOF, SSH_MSG_CHANNEL_OUTPUT_CLOSE} \<and>
        ieof_sent c' = ieof_sent c + count_list (sends ev) SSH_MSG_CHANNEL_INPUT_EOF \<and>
        oclose_sent c' = oclose_sent c + count_list (sends ev) SSH_MSG_CHANNEL_OUTPUT_CLOSE)"

lemma effect1_trans: "effect1 a b c c1 \<Longrightarrow> effect1 a' b' c1 c2 \<Longrightarrow> effect1 (a + a') (b + b') c c2"
  by (fastforce simp: effect1_def)

lemma peer_error [simp]:
  "\<not> peer_error (Ev_send p)" "\<not> peer_error (Ev_shutdown_write i)" "\<not> peer_error (Ev_shutdown_read i)" "\<not> peer_error (Ev_close i)"
  "peer_error (Ev_error d) \<longleftrightarrow> d \<in> {Rcvd_oclose_protocol_error, Rcvd_ieof_protocol_error, Close_rcvd_twice}"
  by (auto simp: peer_error_def)

lemma new_ev_append: "ch_trace c' = ch_trace c @ ev \<Longrightarrow> new_ev c c' = ev"
  by (simp add: new_ev_def)

definition pkt :: "byte \<Rightarrow> field list \<Rightarrow> packet" where
  "pkt ty fs = \<lparr>pk_type = ty, pk_payload = concat (map enc_field fs)\<rparr>"

lemma pk_type_pkt [simp]: "pk_type (pkt ty fs) = ty"
  by (simp add: pkt_def)

definition noted :: "chan_event \<Rightarrow> channel \<Rightarrow> channel" where
  "noted ev c = c\<lparr>ch_trace := ch_trace c @ [ev]\<rparr>"

lemma noted [simp]:
  "ch_trace (noted ev c) = ch_trace c @ [ev]" "ch_istate (noted ev c) = ch_istate c" "ch_ostate (noted ev c) = ch_ostate c"
  "ch_flags (noted ev c) = ch_flags c" "ch_type (noted ev c) = ch_type c" "ch_remote_id (noted ev c) = ch_remote_id c"
  "ch_input (noted ev c) = ch_input c" "ch_output (noted ev c) = ch_output c" "ch_ctype (noted ev c) = ch_ctype c"
  "ch_force_drain (noted ev c) = ch_force_drain c"
  by (simp_all add: noted_def)

lemma chan_ok:
  "act_seq f g c = (Inr v, c') \<longleftrightarrow> (\<exists>u c1. f c = (Inr u, c1) \<and> g c1 = (Inr v, c'))"
  "act_return w c = (Inr v, c') \<longleftrightarrow> w = v \<and> c' = c"
  "chan_update h c = (Inr x, c') \<longleftrightarrow> c' = h c"
  "chan_note ev c = (Inr x, c') \<longleftrightarrow> c' = noted ev c"
  "chan_error d c = (Inr x, c') \<longleftrightarrow> c' = noted (Ev_error d) c"
  "set_flag m c = (Inr x, c') \<longleftrightarrow> c' = c\<lparr>ch_flags := ch_flags c OR m\<rparr>"
  "chan_send E ty fs c = (Inr x, c') \<longleftrightarrow> ce_send E (pkt ty fs) = None \<and> c' = noted (Ev_send (pkt ty fs)) c"
  "chan_set_istate n c = (Inr x, c') \<longleftrightarrow> ch_istate c \<le> CHAN_INPUT_CLOSED \<and> n \<le> CHAN_INPUT_CLOSED \<and> c' = c\<lparr>ch_istate := n\<rparr>"
  "chan_set_ostate n c = (Inr x, c') \<longleftrightarrow> ch_ostate c \<le> CHAN_OUTPUT_CLOSED \<and> n \<le> CHAN_OUTPUT_CLOSED \<and> c' = c\<lparr>ch_ostate := n\<rparr>"
  by (auto simp: act_simps chan_update_def chan_note_def chan_error_def set_flag_def chan_send_def chan_set_istate_def
      chan_set_ostate_def pkt_def noted_def Let_def split: prod.splits sum.splits option.splits)

lemmas effect1 = effect1_def chan1_counts chan_states chan_msgs states_ok_def

lemma ibuf_empty1:
  assumes "\<not> ce_compat20 E" "states_ok c" "chan_ibuf_empty E c = (Inr (), c')"
  shows "effect1 0 0 c c'"
  using assms by (auto simp: chan_ibuf_empty_def chan_send_ieof1_def effect1 chan_ok split: if_splits)

lemma read_failed1:
  assumes "\<not> ce_compat20 E" "states_ok c" "chan_read_failed E c = (Inr (), c')"
  shows "effect1 0 0 c c'"
  using assms by (auto simp: chan_read_failed_def effect1 chan_ok split: if_splits)

lemma obuf_empty1:
  assumes "\<not> ce_compat20 E" "states_ok c" "chan_obuf_empty E c = (Inr (), c')"
  shows "effect1 0 0 c c'"
  using assms by (auto simp: chan_obuf_empty_def chan_send_oclose1_def effect1 chan_ok split: if_splits)

lemma write_failed1:
  assumes "\<not> ce_compat20 E" "states_ok c" "chan_write_failed E c = (Inr (), c')"
  shows "effect1 0 0 c c'"
  using assms by (auto simp: chan_write_failed_def chan_write_failed1_def chan_send_oclose1_def effect1 chan_ok split: if_splits)

lemma rcvd_oclose1:
  assumes "\<not> ce_compat20 E" "states_ok c" "oclose_rcvd c = 0" "chan_rcvd_oclose E c = (Inr (), c')"
  shows "effect1 0 1 c c'"
  using assms by (auto simp: chan_rcvd_oclose_def chan_rcvd_oclose1_def chan_send_ieof1_def effect1 chan_ok split: if_splits)

lemma rcvd_ieof1:
  assumes "states_ok c" "ieof_rcvd c = 0" "chan_rcvd_ieof1 c = (Inr (), c')"
  shows "effect1 1 0 c c'"
  using assms by (auto simp: chan_rcvd_ieof1_def effect1 chan_ok split: if_splits)

lemma effect1_refl: "states_ok c \<Longrightarrow> effect1 0 0 c c"
  by (auto simp: effect1_def)

lemma force_drain1:
  "states_ok c \<Longrightarrow> ch_istate c = CHAN_INPUT_OPEN \<Longrightarrow> effect1 0 0 c (c\<lparr>ch_istate := CHAN_INPUT_WAIT_DRAIN\<rparr>)"
  by (simp add: effect1)

lemma effect1_states: "effect1 a b c c' \<Longrightarrow> states_ok c'"
  by (simp add: effect1_def)

lemma input_ieof1:
  assumes "\<not> ce_compat20 E" "states_ok c" "ieof_rcvd c = 0" "channel_input_ieof E c = (Inr (), c')"
  shows "effect1 1 0 c c'"
proof -
  obtain c1 c2 where run: "chan_rcvd_ieof1 c = (Inr (), c1)"
    and c2: "c2 = c1 \<or> chan_obuf_empty E c1 = (Inr (), c2)"
    and rest: "c' = c2 \<or> ch_istate c2 = CHAN_INPUT_OPEN \<and>
      (c' = c2\<lparr>ch_istate := CHAN_INPUT_WAIT_DRAIN\<rparr> \<or>
       chan_ibuf_empty E (c2\<lparr>ch_istate := CHAN_INPUT_WAIT_DRAIN\<rparr>) = (Inr (), c'))"
    using assms(1,4) by (auto simp: channel_input_ieof_def chan_rcvd_ieof_def chan_ok split: if_splits)
  note e1 = rcvd_ieof1 [OF assms(2,3) run]
  have e2: "effect1 0 0 c1 c2"
    using c2 effect1_refl obuf_empty1 [OF assms(1)] effect1_states [OF e1] by auto
  have s2: "states_ok c2" using effect1_states [OF e2] .
  have "effect1 0 0 c2 c'"
    using rest
  proof (elim disjE conjE)
    assume "ch_istate c2 = CHAN_INPUT_OPEN" and r: "chan_ibuf_empty E (c2\<lparr>ch_istate := CHAN_INPUT_WAIT_DRAIN\<rparr>) = (Inr (), c')"
    then have f: "effect1 0 0 c2 (c2\<lparr>ch_istate := CHAN_INPUT_WAIT_DRAIN\<rparr>)" using force_drain1 s2 by blast
    show ?thesis using effect1_trans [OF f ibuf_empty1 [OF assms(1) effect1_states [OF f] r]] by simp
  qed (use effect1_refl force_drain1 s2 in auto)
  then show ?thesis using effect1_trans [OF e1 effect1_trans [OF e2]] by force
qed

lemma local1:
  assumes "\<not> ce_compat20 E" "states_ok c" "chan_local E x c = (Inr (), c')"
  shows "effect1 0 0 c c'"
proof (cases x)
  case (Collect d)
  then have "c' = c" using assms(1,3)
    by (auto simp: chan_is_dead_def act_simps split: prod.splits sum.splits if_splits)
  then show ?thesis using assms(2) effect1_refl by simp
next
  case (Set_input b)
  then show ?thesis using assms(2,3) by (auto simp: chan_ok effect1)
next
  case (Set_output b)
  then show ?thesis using assms(2,3) by (auto simp: chan_ok effect1)
next
  case (Set_extended b)
  then show ?thesis using assms(2,3) by (auto simp: chan_ok effect1)
qed (use assms ibuf_empty1 read_failed1 obuf_empty1 write_failed1 in auto)

lemma deliver1:
  assumes "\<not> ce_compat20 E" "states_ok c" "t = SSH_MSG_CHANNEL_INPUT_EOF \<Longrightarrow> ieof_rcvd c = 0"
    "t = SSH_MSG_CHANNEL_OUTPUT_CLOSE \<Longrightarrow> oclose_rcvd c = 0" "chan_deliver E t c = (Inr (), c')"
  shows "effect1 (of_bool (t = SSH_MSG_CHANNEL_INPUT_EOF)) (of_bool (t = SSH_MSG_CHANNEL_OUTPUT_CLOSE)) c c'"
proof -
  have ne: "SSH_MSG_CHANNEL_OUTPUT_CLOSE \<noteq> SSH_MSG_CHANNEL_INPUT_EOF" by (simp add: chan_msgs)
  consider "t = SSH_MSG_CHANNEL_INPUT_EOF" | "t = SSH_MSG_CHANNEL_OUTPUT_CLOSE"
    | "t \<noteq> SSH_MSG_CHANNEL_INPUT_EOF" "t \<noteq> SSH_MSG_CHANNEL_OUTPUT_CLOSE" by blast
  then show ?thesis
  proof cases
    case 1
    then show ?thesis using assms input_ieof1 [OF assms(1,2)] ne by (auto simp: chan_deliver_def)
  next
    case 2
    then show ?thesis using assms rcvd_oclose1 [OF assms(1,2)] ne by (auto simp: chan_deliver_def)
  next
    case 3
    then show ?thesis using assms effect1_refl by (auto simp: chan_deliver_def chan_ok)
  qed
qed

section \<open>Protocol 2\<close>

abbreviation close_sent :: "channel \<Rightarrow> bool" where "close_sent c \<equiv> has_flag c CHAN_CLOSE_SENT"
abbreviation close_rcvd :: "channel \<Rightarrow> bool" where "close_rcvd c \<equiv> has_flag c CHAN_CLOSE_RCVD"
abbreviation in_closed :: "channel \<Rightarrow> nat" where "in_closed c \<equiv> of_bool (ch_istate c = CHAN_INPUT_CLOSED)"

text \<open>Protocol 2 does without the states that wait for an answer of the peer.\<close>

definition states_ok2 :: "channel \<Rightarrow> bool" where
  "states_ok2 c \<longleftrightarrow> states_ok c \<and> ch_istate c \<noteq> CHAN_INPUT_WAIT_OCLOSE \<and> ch_ostate c \<noteq> CHAN_OUTPUT_WAIT_IEOF"

definition ok2 :: "channel \<Rightarrow> bool" where
  "ok2 c \<longleftrightarrow> states_ok2 c \<and> \<not> has_flag c CHAN_LOCAL \<and>
     (close_sent c \<longrightarrow> ch_istate c = CHAN_INPUT_CLOSED \<and> ch_ostate c = CHAN_OUTPUT_CLOSED)"

definition effect2 :: "bool \<Rightarrow> channel \<Rightarrow> channel \<Rightarrow> bool" where
  "effect2 close c c' \<longleftrightarrow> ok2 c' \<and> (close_rcvd c' \<longleftrightarrow> close_rcvd c \<or> close) \<and> (close_sent c \<longrightarrow> close_sent c') \<and>
     (\<exists>ev. ch_trace c' = ch_trace c @ ev \<and> \<not> list_ex peer_error ev \<and>
        (if close_sent c then sends ev = []
         else if close_sent c' then \<exists>pre. sends ev = pre @ [SSH2_MSG_CHANNEL_CLOSE] \<and> SSH2_MSG_CHANNEL_CLOSE \<notin> set pre
         else SSH2_MSG_CHANNEL_CLOSE \<notin> set (sends ev)) \<and>
        in_closed c + count_list (sends ev) SSH2_MSG_CHANNEL_EOF \<le> in_closed c')"

lemma effect2_ok: "effect2 b c c' \<Longrightarrow> ok2 c'"
  by (simp add: effect2_def)

lemma effect2_refl: "ok2 c \<Longrightarrow> effect2 False c c"
  by (auto simp: effect2_def)

lemma effect2_trans:
  assumes "effect2 a c c1" "effect2 b c1 c2"
  shows "effect2 (a \<or> b) c c2"
proof -
  obtain ev where ev: "ch_trace c1 = ch_trace c @ ev" "\<not> list_ex peer_error ev"
    "if close_sent c then sends ev = []
     else if close_sent c1 then \<exists>pre. sends ev = pre @ [SSH2_MSG_CHANNEL_CLOSE] \<and> SSH2_MSG_CHANNEL_CLOSE \<notin> set pre
     else SSH2_MSG_CHANNEL_CLOSE \<notin> set (sends ev)"
    "in_closed c + count_list (sends ev) SSH2_MSG_CHANNEL_EOF \<le> in_closed c1"
    using assms(1) unfolding effect2_def by blast
  obtain ev' where ev': "ch_trace c2 = ch_trace c1 @ ev'" "\<not> list_ex peer_error ev'"
    "if close_sent c1 then sends ev' = []
     else if close_sent c2 then \<exists>pre. sends ev' = pre @ [SSH2_MSG_CHANNEL_CLOSE] \<and> SSH2_MSG_CHANNEL_CLOSE \<notin> set pre
     else SSH2_MSG_CHANNEL_CLOSE \<notin> set (sends ev')"
    "in_closed c1 + count_list (sends ev') SSH2_MSG_CHANNEL_EOF \<le> in_closed c2"
    using assms(2) unfolding effect2_def by blast
  have mono: "close_sent c \<Longrightarrow> close_sent c1" "close_sent c1 \<Longrightarrow> close_sent c2"
    using assms by (simp_all add: effect2_def)
  have "if close_sent c then sends (ev @ ev') = []
     else if close_sent c2 then \<exists>pre. sends (ev @ ev') = pre @ [SSH2_MSG_CHANNEL_CLOSE] \<and> SSH2_MSG_CHANNEL_CLOSE \<notin> set pre
     else SSH2_MSG_CHANNEL_CLOSE \<notin> set (sends (ev @ ev'))"
    using ev(3) ev'(3) mono
    by (cases "close_sent c"; cases "close_sent c1"; cases "close_sent c2")
      (auto simp: append_assoc [symmetric] simp del: append_assoc)
  then show ?thesis
    using assms ev ev' unfolding effect2_def by (intro conjI exI [of _ "ev @ ev'"]) auto
qed

lemma effect2_keep:
  assumes "ok2 c" "ch_istate c' = ch_istate c" "ch_ostate c' = ch_ostate c" "ch_flags c' = ch_flags c"
    "ch_trace c' = ch_trace c @ new_ev c c'" "sends (new_ev c c') = []" "\<not> list_ex peer_error (new_ev c c')"
  shows "effect2 False c c'"
  unfolding effect2_def using assms
  by (intro conjI exI [of _ "new_ev c c'"]) (simp_all add: ok2_def states_ok2_def states_ok_def)

lemma effect2_move:
  assumes "\<not> close_sent c" "states_ok2 c'" "\<not> close_sent c'" "\<not> has_flag c' CHAN_LOCAL" "close_rcvd c' \<longleftrightarrow> close_rcvd c \<or> b"
    "ch_trace c' = ch_trace c @ new_ev c c'" "\<not> list_ex peer_error (new_ev c c')"
    "SSH2_MSG_CHANNEL_CLOSE \<notin> set (sends (new_ev c c'))"
    "in_closed c + count_list (sends (new_ev c c')) SSH2_MSG_CHANNEL_EOF \<le> in_closed c'"
  shows "effect2 b c c'"
  unfolding effect2_def using assms by (intro conjI exI [of _ "new_ev c c'"]) (simp_all add: ok2_def)

lemma ok2_open:
  assumes "ok2 c" "ch_istate c \<noteq> CHAN_INPUT_CLOSED \<or> ch_ostate c \<noteq> CHAN_OUTPUT_CLOSED"
  shows "\<not> flagged (ch_flags c) CHAN_CLOSE_SENT" "\<not> flagged (ch_flags c) CHAN_LOCAL"
  using assms by (auto simp: ok2_def)

lemma ok2_states:
  assumes "ok2 c" shows "ch_istate c \<le> 3" "ch_ostate c \<le> 3" "ch_istate c \<noteq> 2" "ch_ostate c \<noteq> 2"
  using assms by (simp_all add: ok2_def states_ok2_def states_ok_def chan_states)

lemmas moved = states_ok2_def states_ok_def chan_states new_ev_def chan_msgs

lemma chan_error2:
  assumes "ok2 c" "\<not> peer_error (Ev_error d)"
  shows "effect2 False c (noted (Ev_error d) c)"
  by (rule effect2_keep [OF assms(1)]) (use assms(2) in \<open>simp_all add: new_ev_def\<close>)

lemma ibuf_empty2:
  assumes "ce_compat20 E" "ok2 c" "chan_ibuf_empty E c = (Inr (), c')"
  shows "effect2 False c c'"
proof (cases "sshbuf_len (ch_input c) = 0 \<and> ch_istate c = CHAN_INPUT_WAIT_DRAIN")
  case True
  have o: "\<not> flagged (ch_flags c) CHAN_CLOSE_SENT" "\<not> flagged (ch_flags c) CHAN_LOCAL" using ok2_open [OF assms(2)] True by (simp_all add: chan_states)
  have c': "c' = (noted (Ev_send (pkt SSH2_MSG_CHANNEL_EOF [F_u32 (ch_remote_id c)])) c)\<lparr>ch_flags := ch_flags c OR CHAN_EOF_SENT, ch_istate := CHAN_INPUT_CLOSED\<rparr>"
    using assms(1,3) True o by (simp add: chan_ibuf_empty_def chan_send_eof2_def chan_ok)
  show ?thesis unfolding c'
    by (rule effect2_move) (simp_all add: moved True o ok2_states [OF assms(2)])
next
  case False
  then have "c' = noted (Ev_error Ibuf_not_empty) c \<or> c' = noted (Ev_error Ibuf_empty_state) c"
    using assms(3) by (cases "sshbuf_len (ch_input c) = 0") (simp_all add: chan_ibuf_empty_def chan_ok)
  then show ?thesis by (elim disjE) (simp_all add: chan_error2 [OF assms(2)])
qed

lemma read_failed2:
  assumes "ok2 c" "chan_read_failed E c = (Inr (), c')"
  shows "effect2 False c c'"
proof (cases "ch_istate c = CHAN_INPUT_OPEN")
  case True
  have o: "\<not> flagged (ch_flags c) CHAN_CLOSE_SENT" "\<not> flagged (ch_flags c) CHAN_LOCAL" using ok2_open [OF assms(1)] True by (simp_all add: chan_states)
  have c': "c' = (shut_r E c)\<lparr>ch_istate := CHAN_INPUT_WAIT_DRAIN\<rparr>"
    using assms(2) True by (simp add: chan_read_failed_def chan_ok)
  show ?thesis unfolding c'
    by (rule effect2_move) (simp_all add: moved True o ok2_states [OF assms(1)])
next
  case False
  then have "c' = noted (Ev_error Read_failed_state) c"
    using assms(2) by (simp add: chan_read_failed_def chan_ok)
  then show ?thesis by (simp add: chan_error2 [OF assms(1)])
qed

lemma obuf_empty2:
  assumes "ce_compat20 E" "ok2 c" "chan_obuf_empty E c = (Inr (), c')"
  shows "effect2 False c c'"
proof (cases "sshbuf_len (ch_output c) = 0 \<and> ch_ostate c = CHAN_OUTPUT_WAIT_DRAIN")
  case True
  have o: "\<not> flagged (ch_flags c) CHAN_CLOSE_SENT" "\<not> flagged (ch_flags c) CHAN_LOCAL" using ok2_open [OF assms(2)] True by (simp_all add: chan_states)
  have c': "c' = (shut_w E c)\<lparr>ch_ostate := CHAN_OUTPUT_CLOSED\<rparr>"
    using assms(1,3) True by (simp add: chan_obuf_empty_def chan_ok)
  show ?thesis unfolding c'
    by (rule effect2_move) (simp_all add: moved True o ok2_states [OF assms(2)])
next
  case False
  then have "c' = noted (Ev_error Obuf_not_empty) c \<or> c' = noted (Ev_error Obuf_empty_state) c"
    using assms(3) by (cases "sshbuf_len (ch_output c) = 0") (simp_all add: chan_obuf_empty_def chan_ok)
  then show ?thesis by (elim disjE) (simp_all add: chan_error2 [OF assms(2)])
qed

definition only_trace :: "channel \<Rightarrow> channel \<Rightarrow> chan_event list \<Rightarrow> bool" where
  "only_trace c c' ev \<longleftrightarrow> ch_istate c' = ch_istate c \<and> ch_ostate c' = ch_ostate c \<and> ch_flags c' = ch_flags c \<and>
     ch_trace c' = ch_trace c @ ev \<and> \<not> list_ex peer_error ev"

lemma send_eow2:
  assumes "chan_send_eow2 E c = (Inr (), c')"
  shows "\<exists>ev. only_trace c c' ev \<and> set (sends ev) \<subseteq> {SSH2_MSG_CHANNEL_REQUEST}"
proof -
  consider "c' = c" | "c' = noted (Ev_error No_eow_on_closed) c"
    | p where "c' = noted (Ev_send p) c" "pk_type p = SSH2_MSG_CHANNEL_REQUEST"
    using assms by (auto simp: chan_send_eow2_def chan_ok split: if_splits)
  then show ?thesis by cases (auto simp: only_trace_def)
qed

lemma write_failed2:
  assumes "ce_compat20 E" "ok2 c" "chan_write_failed E c = (Inr (), c')"
  shows "effect2 False c c'"
proof (cases "ch_ostate c = CHAN_OUTPUT_OPEN \<or> ch_ostate c = CHAN_OUTPUT_WAIT_DRAIN")
  case True
  then obtain c1 where c1: "chan_send_eow2 E (shut_w E c) = (Inr (), c1) \<or> c1 = shut_w E c"
    and c': "c' = c1\<lparr>ch_ostate := CHAN_OUTPUT_CLOSED\<rparr>"
    using assms(1,3) by (auto simp: chan_write_failed_def chan_write_failed2_def chan_ok split: if_splits)
  have "\<exists>ev. only_trace (shut_w E c) c1 ev \<and> set (sends ev) \<subseteq> {SSH2_MSG_CHANNEL_REQUEST}"
    using c1
  proof
    assume "c1 = shut_w E c"
    then show ?thesis by (intro exI [of _ "[]"]) (simp add: only_trace_def)
  qed (rule send_eow2)
  then obtain ev where ev: "ch_istate c1 = ch_istate c" "ch_flags c1 = ch_flags c" "ch_trace c1 = ch_trace c @ shut_w_ev E c @ ev"
    "\<not> list_ex peer_error ev" "set (sends ev) \<subseteq> {SSH2_MSG_CHANNEL_REQUEST}" by (auto simp: only_trace_def)
  have no: "SSH2_MSG_CHANNEL_CLOSE \<notin> set (sends ev)" "count_list (sends ev) SSH2_MSG_CHANNEL_EOF = 0"
    using ev(5) by (auto simp: chan_msgs count_list_0_iff)
  have o: "\<not> flagged (ch_flags c) CHAN_CLOSE_SENT" "\<not> flagged (ch_flags c) CHAN_LOCAL" using ok2_open [OF assms(2)] True by (auto simp: chan_states)
  show ?thesis unfolding c'
    by (rule effect2_move) (simp_all add: states_ok2_def states_ok_def chan_states new_ev_def o ev no ok2_states [OF assms(2)])
next
  case False
  then have "c' = noted (Ev_error Write_failed_state) c"
    using assms(1,3) by (simp add: chan_write_failed_def chan_write_failed2_def chan_ok)
  then show ?thesis by (simp add: chan_error2 [OF assms(2)])
qed

lemma is_dead2:
  assumes "ce_compat20 E" "ok2 c" "chan_is_dead E d c = (Inr r, c')"
  shows "effect2 False c c'"
proof (cases "c' = c")
  case True
  then show ?thesis using assms(2) effect2_refl by simp
next
  case False
  then have "chan_send_close2 E c = (Inr (), c')"
    using assms(1,3) by (auto simp: chan_is_dead_def act_simps split: if_splits prod.splits sum.splits)
  then consider "c' = noted (Ev_error Cannot_send_close) c"
    | "c' = noted (Ev_error Close_already_sent) c"
    | "\<not> close_sent c" "ch_istate c = CHAN_INPUT_CLOSED" "ch_ostate c = CHAN_OUTPUT_CLOSED"
      "c' = (noted (Ev_send (pkt SSH2_MSG_CHANNEL_CLOSE [F_u32 (ch_remote_id c)])) c)\<lparr>ch_flags := ch_flags c OR CHAN_CLOSE_SENT\<rparr>"
    by (auto simp: chan_send_close2_def chan_ok split: if_splits)
  then show ?thesis
  proof cases
    case 3
    show ?thesis unfolding effect2_def
      by (intro conjI exI [of _ "[Ev_send (pkt SSH2_MSG_CHANNEL_CLOSE [F_u32 (ch_remote_id c)])]"])
        (use assms(2) 3 in \<open>simp_all add: ok2_def states_ok2_def states_ok_def chan_msgs\<close>)
  qed (simp_all add: chan_error2 [OF assms(2)])
qed

lemma rcvd_eow2:
  assumes "ok2 c" "chan_rcvd_eow E c = (Inr (), c')"
  shows "effect2 False c c'"
proof (cases "ch_istate c = CHAN_INPUT_OPEN")
  case True
  have o: "\<not> flagged (ch_flags c) CHAN_CLOSE_SENT" "\<not> flagged (ch_flags c) CHAN_LOCAL" using ok2_open [OF assms(1)] True by (simp_all add: chan_states)
  have c': "c' = (shut_r E c)\<lparr>ch_istate := CHAN_INPUT_CLOSED\<rparr>"
    using assms(2) True by (simp add: chan_rcvd_eow_def chan_ok)
  show ?thesis unfolding c'
    by (rule effect2_move) (simp_all add: moved True o ok2_states [OF assms(1)])
next
  case False
  then show ?thesis using assms effect2_refl by (simp add: chan_rcvd_eow_def)
qed

lemma rcvd_eof2:
  assumes "ok2 c" "chan_rcvd_eof2 c = (Inr (), c')"
  shows "effect2 False c c'"
proof -
  have f: "effect2 False c (c\<lparr>ch_flags := ch_flags c OR CHAN_EOF_RCVD\<rparr>)"
    unfolding effect2_def using assms(1) by (intro conjI exI [of _ "[]"]) (simp_all add: ok2_def states_ok2_def states_ok_def)
  show ?thesis
  proof (cases "ch_ostate c = CHAN_OUTPUT_OPEN")
    case True
    have o: "\<not> flagged (ch_flags c) CHAN_CLOSE_SENT" "\<not> flagged (ch_flags c) CHAN_LOCAL" using ok2_open [OF assms(1)] True by (simp_all add: chan_states)
    have c': "c' = c\<lparr>ch_flags := ch_flags c OR CHAN_EOF_RCVD, ch_ostate := CHAN_OUTPUT_WAIT_DRAIN\<rparr>"
      using assms(2) True by (simp add: chan_rcvd_eof2_def chan_ok)
    show ?thesis unfolding c'
      by (rule effect2_move) (simp_all add: moved True o ok2_states [OF assms(1)])
  next
    case False
    then show ?thesis using assms(2) f by (simp add: chan_rcvd_eof2_def chan_ok)
  qed
qed

lemma close_flag2:
  assumes "ok2 c" shows "effect2 True c (c\<lparr>ch_flags := ch_flags c OR CHAN_CLOSE_RCVD\<rparr>)"
  unfolding effect2_def using assms by (intro conjI exI [of _ "[]"]) (simp_all add: ok2_def states_ok2_def states_ok_def)

lemma larval2:
  assumes "ok2 c" shows "effect2 False c (c\<lparr>ch_ostate := CHAN_OUTPUT_CLOSED, ch_istate := CHAN_INPUT_CLOSED\<rparr>)"
proof (cases "close_sent c")
  case True
  then show ?thesis using assms by (intro effect2_keep) (simp_all add: ok2_def new_ev_def)
next
  case False
  then show ?thesis using assms by (intro effect2_move) (simp_all add: ok2_def moved)
qed

lemma drain2:
  assumes "ok2 c" "ch_ostate c = CHAN_OUTPUT_OPEN"
  shows "effect2 False c (c\<lparr>ch_ostate := CHAN_OUTPUT_WAIT_DRAIN\<rparr>)"
  using assms ok2_open [OF assms(1)] by (intro effect2_move) (simp_all add: ok2_def moved)

lemma eof_closed2:
  assumes "ok2 c" "ch_istate c = CHAN_INPUT_WAIT_DRAIN" "chan_send_eof2 E c = (Inr (), c1)"
  shows "effect2 False c (c1\<lparr>ch_istate := CHAN_INPUT_CLOSED\<rparr>)"
proof -
  have c1: "c1 = (noted (Ev_send (pkt SSH2_MSG_CHANNEL_EOF [F_u32 (ch_remote_id c)])) c)\<lparr>ch_flags := ch_flags c OR CHAN_EOF_SENT\<rparr>"
    using assms(2,3) by (simp add: chan_send_eof2_def chan_ok)
  have o: "\<not> flagged (ch_flags c) CHAN_CLOSE_SENT" "\<not> flagged (ch_flags c) CHAN_LOCAL" using ok2_open [OF assms(1)] assms(2) by (simp_all add: chan_states)
  show ?thesis unfolding c1
    by (rule effect2_move) (simp_all add: moved assms(2) o ok2_states [OF assms(1)])
qed

lemma close2_output:
  assumes "ok2 c" "rcvd_close2_output c = (Inr (), c')"
  shows "effect2 False c c'"
proof (cases "ch_ostate c = CHAN_OUTPUT_OPEN")
  case True
  then have "c' = c\<lparr>ch_ostate := CHAN_OUTPUT_WAIT_DRAIN\<rparr>" using assms(2) by (simp add: rcvd_close2_output_def chan_ok)
  then show ?thesis using drain2 [OF assms(1) True] by simp
next
  case False
  then show ?thesis using assms effect2_refl by (simp add: rcvd_close2_output_def)
qed

lemma close2_input:
  assumes "ok2 c" "rcvd_close2_input E c = (Inr (), c')"
  shows "effect2 False c c'"
proof (cases "ch_istate c = CHAN_INPUT_WAIT_DRAIN")
  case True
  then obtain c3 where "chan_send_eof2 E c = (Inr (), c3)" "c' = c3\<lparr>ch_istate := CHAN_INPUT_CLOSED\<rparr>"
    using assms by (auto simp: rcvd_close2_input_def chan_ok ok2_def chan_states)
  then show ?thesis using eof_closed2 [OF assms(1) True] by simp
next
  case False
  then have "chan_rcvd_eow E c = (Inr (), c')" using assms(2)
    by (simp add: rcvd_close2_input_def chan_rcvd_eow_def split: if_split_asm)
  then show ?thesis by (rule rcvd_eow2 [OF assms(1)])
qed

lemma rcvd_close2:
  assumes "ce_compat20 E" "ok2 c" "\<not> close_rcvd c" "chan_rcvd_oclose E c = (Inr (), c')"
  shows "effect2 True c c'"
proof -
  let ?c1 = "c\<lparr>ch_flags := ch_flags c OR CHAN_CLOSE_RCVD\<rparr>"
  have f: "effect2 True c ?c1" using close_flag2 [OF assms(2)] .
  have l: "\<not> flagged (ch_flags c) CHAN_LOCAL" using assms(2) by (simp add: ok2_def)
  have "effect2 False ?c1 c'"
  proof (cases "ch_type c = SSH_CHANNEL_LARVAL")
    case True
    then have "c' = ?c1\<lparr>ch_ostate := CHAN_OUTPUT_CLOSED, ch_istate := CHAN_INPUT_CLOSED\<rparr>"
      using assms(1,3,4) l by (simp add: chan_rcvd_oclose_def chan_rcvd_close2_def chan_ok)
    then show ?thesis using larval2 [OF effect2_ok [OF f]] by simp
  next
    case False
    then obtain c2 where c2: "rcvd_close2_output ?c1 = (Inr (), c2)" "rcvd_close2_input E c2 = (Inr (), c')"
      using assms(1,3,4) l by (auto simp: chan_rcvd_oclose_def chan_rcvd_close2_def chan_ok)
    note g = close2_output [OF effect2_ok [OF f] c2(1)]
    from effect2_trans [OF g close2_input [OF effect2_ok [OF g] c2(2)]] show ?thesis by simp
  qed
  then show ?thesis using effect2_trans [OF f] by force
qed

lemma force_drain2:
  assumes "ok2 c" "ch_istate c = CHAN_INPUT_OPEN"
  shows "effect2 False c (c\<lparr>ch_istate := CHAN_INPUT_WAIT_DRAIN\<rparr>)"
  using assms ok2_open [OF assms(1)] by (intro effect2_move) (simp_all add: ok2_def moved)

lemma input_ieof2:
  assumes "ce_compat20 E" "ok2 c" "channel_input_ieof E c = (Inr (), c')"
  shows "effect2 False c c'"
proof -
  obtain c1 c2 where run: "chan_rcvd_eof2 c = (Inr (), c1)"
    and c2: "c2 = c1 \<or> chan_obuf_empty E c1 = (Inr (), c2)"
    and rest: "c' = c2 \<or> ch_istate c2 = CHAN_INPUT_OPEN \<and>
      (c' = c2\<lparr>ch_istate := CHAN_INPUT_WAIT_DRAIN\<rparr> \<or>
       chan_ibuf_empty E (c2\<lparr>ch_istate := CHAN_INPUT_WAIT_DRAIN\<rparr>) = (Inr (), c'))"
    using assms(1,3) by (auto simp: channel_input_ieof_def chan_rcvd_ieof_def chan_ok split: if_splits)
  note e1 = rcvd_eof2 [OF assms(2) run]
  have e2: "effect2 False c1 c2"
    using c2 effect2_refl obuf_empty2 [OF assms(1)] effect2_ok [OF e1] by auto
  have s2: "ok2 c2" using effect2_ok [OF e2] .
  have "effect2 False c2 c'"
    using rest
  proof (elim disjE conjE)
    assume "ch_istate c2 = CHAN_INPUT_OPEN" and r: "chan_ibuf_empty E (c2\<lparr>ch_istate := CHAN_INPUT_WAIT_DRAIN\<rparr>) = (Inr (), c')"
    then have f: "effect2 False c2 (c2\<lparr>ch_istate := CHAN_INPUT_WAIT_DRAIN\<rparr>)" using force_drain2 s2 by blast
    show ?thesis using effect2_trans [OF f ibuf_empty2 [OF assms(1) effect2_ok [OF f] r]] by simp
  qed (use effect2_refl force_drain2 s2 in auto)
  then show ?thesis using effect2_trans [OF e1 effect2_trans [OF e2]] by force
qed

lemma buffers2:
  assumes "ok2 c" shows "effect2 False c (c\<lparr>ch_input := b\<rparr>)" "effect2 False c (c\<lparr>ch_output := b\<rparr>)" "effect2 False c (c\<lparr>ch_extended := b\<rparr>)"
  by (rule effect2_keep; use assms in \<open>simp add: new_ev_def\<close>)+

lemma local2:
  assumes "ce_compat20 E" "ok2 c" "chan_local E x c = (Inr (), c')"
  shows "effect2 False c c'"
proof (cases x)
  case (Collect d)
  then obtain r where "chan_is_dead E d c = (Inr r, c')"
    using assms(3) by (auto simp: act_simps split: prod.splits sum.splits)
  then show ?thesis using is_dead2 [OF assms(1,2)] by blast
qed (use assms buffers2 ibuf_empty2 read_failed2 obuf_empty2 write_failed2 in \<open>auto simp: chan_ok\<close>)

lemma deliver2:
  assumes "ce_compat20 E" "ok2 c" "t = SSH2_MSG_CHANNEL_CLOSE \<Longrightarrow> \<not> close_rcvd c" "chan_deliver E t c = (Inr (), c')"
  shows "effect2 (t = SSH2_MSG_CHANNEL_CLOSE) c c'"
proof -
  have ne: "SSH2_MSG_CHANNEL_EOF \<noteq> SSH2_MSG_CHANNEL_CLOSE" "SSH2_MSG_CHANNEL_REQUEST \<noteq> SSH2_MSG_CHANNEL_CLOSE"
    by (simp_all add: chan_msgs)
  show ?thesis
    using assms(1,3,4) ne input_ieof2 [OF assms(1,2)] rcvd_close2 [OF assms(1,2)] rcvd_eow2 [OF assms(2), of E] effect2_refl [OF assms(2)]
    unfolding chan_deliver_def by (auto simp: chan_ok split: if_splits)
qed

end
