(* ===== verification/Nchan_Link.thy ===== *)
theory Nchan_Link
  imports Nchan
begin

text \<open>
  The two ends of a channel with the messages between them, and what the teardown of
  \<open>ssh/nchan.c\<close> guarantees: no protocol errors, no message to a freed channel, and that a
  closed channel is freed.
\<close>

section \<open>Two ends of a channel\<close>

text \<open>
  The two ends, one for each truth value, and the messages on their way to each of them. Each
  end runs with its own environment; what an end sends is appended to the queue of the other
  and delivered in order, as the connection below does it.
\<close>

record link =
  ln_chan :: "bool \<Rightarrow> channel"
  ln_queue :: "bool \<Rightarrow> byte list"

definition link_step :: "link \<Rightarrow> bool \<Rightarrow> byte list \<Rightarrow> channel \<Rightarrow> link" where
  "link_step l side q c' =
     \<lparr>ln_chan = (ln_chan l)(side := c'),
       ln_queue = (ln_queue l)(side := q, (\<not> side) := ln_queue l (\<not> side) @ sends (new_ev (ln_chan l side) c'))\<rparr>"

definition chan_fresh :: "channel \<Rightarrow> bool" where
  "chan_fresh c \<longleftrightarrow> ch_istate c = CHAN_INPUT_OPEN \<and> ch_ostate c = CHAN_OUTPUT_OPEN \<and> ch_flags c = 0 \<and> ch_trace c = []"

inductive link_reach :: "(bool \<Rightarrow> chan_env) \<Rightarrow> link \<Rightarrow> bool" for E where
  link_init: "chan_fresh (ch True) \<Longrightarrow> chan_fresh (ch False) \<Longrightarrow> link_reach E \<lparr>ln_chan = ch, ln_queue = (\<lambda>_. [])\<rparr>"
| link_local: "link_reach E l \<Longrightarrow> chan_local (E side) x (ln_chan l side) = (Inr (), c') \<Longrightarrow>
    link_reach E (link_step l side (ln_queue l side) c')"
| link_deliver: "link_reach E l \<Longrightarrow> ln_queue l side = t # q \<Longrightarrow> chan_deliver (E side) t (ln_chan l side) = (Inr (), c') \<Longrightarrow>
    link_reach E (link_step l side q c')"

lemma flagged_zero [simp]: "\<not> flagged 0 m"
  by (simp add: flagged_def)

subsection \<open>Protocol 1.5\<close>

text \<open>Each message is at the sender, on its way or has been received, and it is sent at most once.\<close>

definition link_ok1 :: "link \<Rightarrow> bool" where
  "link_ok1 l \<longleftrightarrow> (\<forall>side. states_ok (ln_chan l side) \<and> \<not> list_ex peer_error (ch_trace (ln_chan l side)) \<and>
     set (ln_queue l side) \<subseteq> {SSH_MSG_CHANNEL_INPUT_EOF, SSH_MSG_CHANNEL_OUTPUT_CLOSE} \<and>
     count_list (ln_queue l side) SSH_MSG_CHANNEL_INPUT_EOF + ieof_rcvd (ln_chan l side) = ieof_sent (ln_chan l (\<not> side)) \<and>
     count_list (ln_queue l side) SSH_MSG_CHANNEL_OUTPUT_CLOSE + oclose_rcvd (ln_chan l side) = oclose_sent (ln_chan l (\<not> side)))"

lemma link_step1:
  assumes "link_ok1 l" "effect1 a b (ln_chan l side) c'" "set q \<subseteq> set (ln_queue l side)"
    "count_list (ln_queue l side) SSH_MSG_CHANNEL_INPUT_EOF = count_list q SSH_MSG_CHANNEL_INPUT_EOF + a"
    "count_list (ln_queue l side) SSH_MSG_CHANNEL_OUTPUT_CLOSE = count_list q SSH_MSG_CHANNEL_OUTPUT_CLOSE + b"
  shows "link_ok1 (link_step l side q c')"
proof -
  obtain ev where ev: "ch_trace c' = ch_trace (ln_chan l side) @ ev" "\<not> list_ex peer_error ev"
    "set (sends ev) \<subseteq> {SSH_MSG_CHANNEL_INPUT_EOF, SSH_MSG_CHANNEL_OUTPUT_CLOSE}"
    "ieof_sent c' = ieof_sent (ln_chan l side) + count_list (sends ev) SSH_MSG_CHANNEL_INPUT_EOF"
    "oclose_sent c' = oclose_sent (ln_chan l side) + count_list (sends ev) SSH_MSG_CHANNEL_OUTPUT_CLOSE"
    using assms(2) by (auto simp: effect1_def)
  have rest: "states_ok c'" "ieof_rcvd c' = ieof_rcvd (ln_chan l side) + a" "oclose_rcvd c' = oclose_rcvd (ln_chan l side) + b"
    using assms(2) by (simp_all add: effect1_def)
  have inv: "states_ok (ln_chan l x)" "\<not> list_ex peer_error (ch_trace (ln_chan l x))"
    "set (ln_queue l x) \<subseteq> {SSH_MSG_CHANNEL_INPUT_EOF, SSH_MSG_CHANNEL_OUTPUT_CLOSE}"
    "count_list (ln_queue l x) SSH_MSG_CHANNEL_INPUT_EOF + ieof_rcvd (ln_chan l x) = ieof_sent (ln_chan l (\<not> x))"
    "count_list (ln_queue l x) SSH_MSG_CHANNEL_OUTPUT_CLOSE + oclose_rcvd (ln_chan l x) = oclose_sent (ln_chan l (\<not> x))" for x
    using assms(1) by (simp_all add: link_ok1_def)
  have new: "sends (new_ev (ln_chan l side) c') = sends ev" using ev(1) by (simp add: new_ev_append)
  have at_side: "x = side \<or> x = (\<not> side)" for x by blast
  show ?thesis unfolding link_ok1_def
  proof
    fix x
    consider "x = side" | "x = (\<not> side)" using at_side by blast
    then show "states_ok (ln_chan (link_step l side q c') x) \<and> \<not> list_ex peer_error (ch_trace (ln_chan (link_step l side q c') x)) \<and>
      set (ln_queue (link_step l side q c') x) \<subseteq> {SSH_MSG_CHANNEL_INPUT_EOF, SSH_MSG_CHANNEL_OUTPUT_CLOSE} \<and>
      count_list (ln_queue (link_step l side q c') x) SSH_MSG_CHANNEL_INPUT_EOF + ieof_rcvd (ln_chan (link_step l side q c') x) =
        ieof_sent (ln_chan (link_step l side q c') (\<not> x)) \<and>
      count_list (ln_queue (link_step l side q c') x) SSH_MSG_CHANNEL_OUTPUT_CLOSE + oclose_rcvd (ln_chan (link_step l side q c') x) =
        oclose_sent (ln_chan (link_step l side q c') (\<not> x))"
    proof cases
      case 1
      then show ?thesis using inv [of side] rest ev(1,2) assms(3-5) by (simp add: link_step_def)
    next
      case 2
      then show ?thesis using inv [of "\<not> side"] ev(3-5) by (simp add: link_step_def new)
    qed
  qed
qed

lemma link_reach1:
  assumes "link_reach E l" "\<forall>side. \<not> ce_compat20 (E side)"
  shows "link_ok1 l"
  using assms(1)
proof (induction rule: link_reach.induct)
  case (link_init ch)
  have "chan_fresh (ch x)" for x using link_init by (cases x) auto
  then show ?case by (simp add: link_ok1_def chan_fresh_def states_ok_def chan1_counts chan_states)
next
  case (link_local l side x c')
  have "effect1 0 0 (ln_chan l side) c'"
    by (rule local1 [OF _ _ link_local.hyps(2)]) (use assms(2) link_local.IH in \<open>auto simp: link_ok1_def\<close>)
  then show ?case by (intro link_step1 [OF link_local.IH]) auto
next
  case (link_deliver l side t q c')
  have ne: "SSH_MSG_CHANNEL_OUTPUT_CLOSE \<noteq> SSH_MSG_CHANNEL_INPUT_EOF" by (simp add: chan_msgs)
  have le: "ieof_sent c \<le> 1" "oclose_sent c \<le> 1" for c by (simp_all add: chan1_counts)
  have once: "t = SSH_MSG_CHANNEL_INPUT_EOF \<Longrightarrow> ieof_rcvd (ln_chan l side) = 0"
    "t = SSH_MSG_CHANNEL_OUTPUT_CLOSE \<Longrightarrow> oclose_rcvd (ln_chan l side) = 0"
    using link_deliver.IH [unfolded link_ok1_def, rule_format, of side] link_deliver.hyps(2) le [of "ln_chan l (\<not> side)"]
    by auto
  have "effect1 (of_bool (t = SSH_MSG_CHANNEL_INPUT_EOF)) (of_bool (t = SSH_MSG_CHANNEL_OUTPUT_CLOSE)) (ln_chan l side) c'"
    by (rule deliver1 [OF _ _ once link_deliver.hyps(3)]) (use assms(2) link_deliver.IH in \<open>auto simp: link_ok1_def\<close>)
  then show ?case
    using link_deliver.hyps(2) ne by (intro link_step1 [OF link_deliver.IH]) auto
qed


subsection \<open>Protocol 2\<close>

text \<open>
  What an end has sent is what the other end has received and what is on its way; a close
  message is the last message and counts as received once it is.
\<close>

definition trace_ok2 :: "channel \<Rightarrow> bool" where
  "trace_ok2 c \<longleftrightarrow> \<not> list_ex peer_error (ch_trace c) \<and> count_list (sends (ch_trace c)) SSH2_MSG_CHANNEL_EOF \<le> in_closed c \<and>
     (if close_sent c then \<exists>pre. sends (ch_trace c) = pre @ [SSH2_MSG_CHANNEL_CLOSE] \<and> SSH2_MSG_CHANNEL_CLOSE \<notin> set pre
      else SSH2_MSG_CHANNEL_CLOSE \<notin> set (sends (ch_trace c)))"

lemma trace_step2:
  assumes "trace_ok2 c" "effect2 b c c'"
  shows "trace_ok2 c'"
proof -
  obtain ev where ev: "ch_trace c' = ch_trace c @ ev" "\<not> list_ex peer_error ev"
    "if close_sent c then sends ev = []
     else if close_sent c' then \<exists>pre. sends ev = pre @ [SSH2_MSG_CHANNEL_CLOSE] \<and> SSH2_MSG_CHANNEL_CLOSE \<notin> set pre
     else SSH2_MSG_CHANNEL_CLOSE \<notin> set (sends ev)"
    "in_closed c + count_list (sends ev) SSH2_MSG_CHANNEL_EOF \<le> in_closed c'"
    and mono: "close_sent c \<Longrightarrow> close_sent c'"
    using assms(2) unfolding effect2_def by blast
  have "if close_sent c' then \<exists>pre. sends (ch_trace c') = pre @ [SSH2_MSG_CHANNEL_CLOSE] \<and> SSH2_MSG_CHANNEL_CLOSE \<notin> set pre
      else SSH2_MSG_CHANNEL_CLOSE \<notin> set (sends (ch_trace c'))"
    using assms(1) ev(1,3) mono unfolding trace_ok2_def
    by (cases "close_sent c"; cases "close_sent c'") (auto simp: append_assoc [symmetric] simp del: append_assoc)
  then show ?thesis using assms(1) ev unfolding trace_ok2_def by auto
qed

definition link_ok2 :: "link \<Rightarrow> bool" where
  "link_ok2 l \<longleftrightarrow> (\<forall>side. ok2 (ln_chan l side) \<and> trace_ok2 (ln_chan l side) \<and>
     (\<exists>done. sends (ch_trace (ln_chan l (\<not> side))) = done @ ln_queue l side \<and>
        (close_rcvd (ln_chan l side) \<longleftrightarrow> SSH2_MSG_CHANNEL_CLOSE \<in> set done)))"

lemma link_step2:
  assumes "link_ok2 l" "effect2 b (ln_chan l side) c'"
    "\<exists>got. ln_queue l side = got @ q \<and> (b \<longleftrightarrow> SSH2_MSG_CHANNEL_CLOSE \<in> set got)"
  shows "link_ok2 (link_step l side q c')"
proof -
  obtain got where got: "ln_queue l side = got @ q" "b \<longleftrightarrow> SSH2_MSG_CHANNEL_CLOSE \<in> set got" using assms(3) by blast
  obtain ev where ev: "ch_trace c' = ch_trace (ln_chan l side) @ ev" using assms(2) unfolding effect2_def by blast
  have new: "new_ev (ln_chan l side) c' = ev" using ev by (simp add: new_ev_append)
  have inv: "ok2 (ln_chan l x)" "trace_ok2 (ln_chan l x)" for x using assms(1) by (simp_all add: link_ok2_def)
  obtain dn where dn: "sends (ch_trace (ln_chan l (\<not> x))) = dn x @ ln_queue l x"
    "close_rcvd (ln_chan l x) \<longleftrightarrow> SSH2_MSG_CHANNEL_CLOSE \<in> set (dn x)" for x
    using assms(1) unfolding link_ok2_def by metis
  have c': "ok2 c'" "trace_ok2 c'" "close_rcvd c' \<longleftrightarrow> close_rcvd (ln_chan l side) \<or> b"
    using assms(2) trace_step2 [OF inv(2) assms(2)] by (simp_all add: effect2_def)
  show ?thesis unfolding link_ok2_def
  proof
    fix x
    let ?l = "link_step l side q c'"
    consider "x = side" | "x = (\<not> side)" by blast
    then show "ok2 (ln_chan ?l x) \<and> trace_ok2 (ln_chan ?l x) \<and>
      (\<exists>done. sends (ch_trace (ln_chan ?l (\<not> x))) = done @ ln_queue ?l x \<and>
        (close_rcvd (ln_chan ?l x) \<longleftrightarrow> SSH2_MSG_CHANNEL_CLOSE \<in> set done))"
    proof cases
      case 1
      have "sends (ch_trace (ln_chan l (\<not> side))) = (dn side @ got) @ q" using dn(1) [of side] got(1) by simp
      then show ?thesis using 1 c' dn(2) [of side] got(2)
        by (auto simp: link_step_def intro!: exI [of _ "dn side @ got"])
    next
      case 2
      have "sends (ch_trace c') = dn (\<not> side) @ ln_queue l (\<not> side) @ sends ev" using dn(1) [of "\<not> side"] ev by simp
      then show ?thesis using 2 inv dn(2) [of "\<not> side"]
        by (auto simp: link_step_def new intro!: exI [of _ "dn (\<not> side)"])
    qed
  qed
qed

lemma close_once2:
  assumes "link_ok2 l" "ln_queue l side = SSH2_MSG_CHANNEL_CLOSE # q"
  shows "\<not> close_rcvd (ln_chan l side)"
proof
  assume "close_rcvd (ln_chan l side)"
  then obtain dn where dn: "sends (ch_trace (ln_chan l (\<not> side))) = dn @ SSH2_MSG_CHANNEL_CLOSE # q"
    "SSH2_MSG_CHANNEL_CLOSE \<in> set dn" using assms unfolding link_ok2_def by metis
  moreover have "trace_ok2 (ln_chan l (\<not> side))" using assms(1) by (simp add: link_ok2_def)
  ultimately obtain pre where "pre @ [SSH2_MSG_CHANNEL_CLOSE] = dn @ SSH2_MSG_CHANNEL_CLOSE # q" "SSH2_MSG_CHANNEL_CLOSE \<notin> set pre"
    unfolding trace_ok2_def by (auto split: if_splits)
  then show False using dn(2) by (auto simp: append_eq_append_conv2 Cons_eq_append_conv append_eq_Cons_conv)
qed

lemma link_reach2:
  assumes "link_reach E l" "\<forall>side. ce_compat20 (E side)"
  shows "link_ok2 l"
  using assms(1)
proof (induction rule: link_reach.induct)
  case (link_init ch)
  have "chan_fresh (ch x)" for x using link_init by (cases x) auto
  then show ?case by (simp add: link_ok2_def chan_fresh_def ok2_def trace_ok2_def states_ok2_def states_ok_def chan_states)
next
  case (link_local l side x c')
  have "effect2 False (ln_chan l side) c'"
    by (rule local2 [OF _ _ link_local.hyps(2)]) (use assms(2) link_local.IH in \<open>auto simp: link_ok2_def\<close>)
  then show ?case by (intro link_step2 [OF link_local.IH]) auto
next
  case (link_deliver l side t q c')
  have e: "effect2 (t = SSH2_MSG_CHANNEL_CLOSE) (ln_chan l side) c'"
    by (rule deliver2 [OF _ _ _ link_deliver.hyps(3)])
      (use assms(2) link_deliver.IH close_once2 [OF link_deliver.IH] link_deliver.hyps(2) in \<open>auto simp: link_ok2_def\<close>)
  show ?case
    by (rule link_step2 [OF link_deliver.IH e]) (use link_deliver.hyps(2) in \<open>auto intro!: exI [of _ "[t]"]\<close>)
qed

section \<open>Every operation returns\<close>

definition progresses :: "chan_op \<Rightarrow> channel \<Rightarrow> bool" where
  "progresses f c \<longleftrightarrow> (\<exists>c'. f c = (Inr (), c') \<and> states_ok c' \<and> ch_istate c \<le> ch_istate c' \<and> ch_ostate c \<le> ch_ostate c')"

lemma progresses_seq:
  assumes "progresses f c" "\<And>c'. f c = (Inr (), c') \<Longrightarrow> states_ok c' \<Longrightarrow> progresses g c'"
  shows "progresses (act_seq f g) c"
  using assms unfolding progresses_def by (fastforce simp: act_seq_run)

lemma progresses_return: "states_ok c \<Longrightarrow> progresses (act_return ()) c"
  by (simp add: progresses_def act_return_run)

lemma chan_runs:
  "chan_error d c = (Inr (), noted (Ev_error d) c)" "chan_note ev c = (Inr (), noted ev c)"
  "set_flag m c = (Inr (), c\<lparr>ch_flags := ch_flags c OR m\<rparr>)" "chan_update h c = (Inr (), h c)"
  "ch_istate c \<le> CHAN_INPUT_CLOSED \<Longrightarrow> n \<le> CHAN_INPUT_CLOSED \<Longrightarrow> chan_set_istate n c = (Inr (), c\<lparr>ch_istate := n\<rparr>)"
  "ch_ostate c \<le> CHAN_OUTPUT_CLOSED \<Longrightarrow> n \<le> CHAN_OUTPUT_CLOSED \<Longrightarrow> chan_set_ostate n c = (Inr (), c\<lparr>ch_ostate := n\<rparr>)"
  by (simp_all add: chan_ok)

lemma send_runs:
  "\<forall>p. ce_send E p = None \<Longrightarrow> chan_send E ty fs c = (Inr (), noted (Ev_send (pkt ty fs)) c)"
  by (simp add: chan_ok)

lemmas chan_progress = progresses_def chan_runs send_runs act_seq_run act_return_run states_ok_def chan_states

lemma read_failed_progresses:
  "states_ok c \<Longrightarrow> progresses (chan_read_failed E) c"
  by (simp add: chan_read_failed_def chan_progress)

lemma ibuf_empty_progresses:
  assumes "\<forall>p. ce_send E p = None" "states_ok c"
  shows "progresses (chan_ibuf_empty E) c"
proof -
  have "progresses (chan_ibuf_empty E) c" if "ch_istate c = 1" "sshbuf_len (ch_input c) = 0"
    using assms that
    by (cases "ce_compat20 E"; cases "has_flag c (CHAN_CLOSE_SENT OR CHAN_LOCAL)")
      (simp_all add: chan_ibuf_empty_def chan_send_eof2_def chan_send_ieof1_def chan_progress del: has_flag)
  then show ?thesis using assms(2) by (simp add: chan_ibuf_empty_def chan_progress)
qed

lemma obuf_empty_progresses:
  assumes "\<forall>p. ce_send E p = None" "states_ok c"
  shows "progresses (chan_obuf_empty E) c"
  using assms by (cases "ce_compat20 E") (simp_all add: chan_obuf_empty_def chan_send_oclose1_def chan_progress)

lemma write_failed_progresses:
  assumes "\<forall>p. ce_send E p = None" "states_ok c"
  shows "progresses (chan_write_failed E) c"
  using assms
  by (cases "ce_compat20 E"; cases "ch_ctype c = ''session''"; cases "ce_compat E AND SSH_NEW_OPENSSH = 0")
    (simp_all add: chan_write_failed_def chan_write_failed1_def chan_write_failed2_def chan_send_oclose1_def chan_send_eow2_def chan_progress)

lemma rcvd_oclose1_progresses:
  assumes "\<forall>p. ce_send E p = None" "states_ok c"
  shows "progresses (chan_rcvd_oclose1 E) c"
  using assms by (simp add: chan_rcvd_oclose1_def chan_send_ieof1_def chan_progress)

lemma rcvd_close2_progresses:
  assumes "\<forall>p. ce_send E p = None" "states_ok c"
  shows "progresses (chan_rcvd_close2 E) c"
  unfolding chan_rcvd_close2_def
proof (rule progresses_seq)
  show "progresses (\<lambda>c. if \<not> has_flag c CHAN_LOCAL then
      act_seq (if has_flag c CHAN_CLOSE_RCVD then chan_error Close_rcvd_twice else act_return ()) (set_flag CHAN_CLOSE_RCVD) c
      else (Inr (), c)) c"
    using assms(2) by (simp add: chan_progress)
next
  fix c1 assume c1: "states_ok c1"
  have out: "progresses rcvd_close2_output c1" if "states_ok c1" for c1
    using that by (simp add: rcvd_close2_output_def chan_progress)
  have inp: "progresses (rcvd_close2_input E) c1" if "states_ok c1" for c1
    using assms(1) that
    by (cases "has_flag c1 CHAN_LOCAL") (simp_all add: rcvd_close2_input_def chan_send_eof2_def chan_progress del: has_flag)
  show "progresses (\<lambda>c. if ch_type c = SSH_CHANNEL_LARVAL then
      act_seq (chan_set_ostate CHAN_OUTPUT_CLOSED) (chan_set_istate CHAN_INPUT_CLOSED) c
      else act_seq rcvd_close2_output (rcvd_close2_input E) c) c1"
    using progresses_seq [OF out [OF c1] inp] c1
    by (cases "ch_type c1 = SSH_CHANNEL_LARVAL") (simp_all add: chan_progress)
qed

lemma input_ieof_progresses:
  assumes "\<forall>p. ce_send E p = None" "states_ok c"
  shows "progresses (channel_input_ieof E) c"
proof -
  have eof: "progresses (if ce_compat20 E then chan_rcvd_eof2 else chan_rcvd_ieof1) c1" if "states_ok c1" for c1
    using that by (cases "ce_compat20 E") (simp_all add: chan_rcvd_eof2_def chan_rcvd_ieof1_def chan_progress)
  have keep: "progresses (\<lambda>c. (Inr (), c)) c1" if "states_ok c1" for c1
    using that by (simp add: progresses_def)
  have obuf: "progresses (\<lambda>c. if P c then chan_obuf_empty E c else (Inr (), c)) c1" if "states_ok c1" for P c1
    using obuf_empty_progresses [OF assms(1) that] keep [OF that] by (cases "P c1") (simp_all add: progresses_def)
  have ieof: "progresses (chan_rcvd_ieof E) c1" if "states_ok c1" for c1
    unfolding chan_rcvd_ieof_def by (rule progresses_seq [OF eof [OF that] obuf])
  have ibuf: "progresses (\<lambda>c. if P c then chan_ibuf_empty E c else (Inr (), c)) c1" if "states_ok c1" for P c1
    using ibuf_empty_progresses [OF assms(1) that] keep [OF that] by (cases "P c1") (simp_all add: progresses_def)
  have force: "progresses (\<lambda>c. if ch_force_drain c \<and> ch_istate c = CHAN_INPUT_OPEN then
      act_seq (chan_update (\<lambda>c. c\<lparr>ch_istate := CHAN_INPUT_WAIT_DRAIN\<rparr>))
        (\<lambda>c. if sshbuf_len (ch_input c) = 0 then chan_ibuf_empty E c else (Inr (), c)) c
      else (Inr (), c)) c1" if c1: "states_ok c1" for c1
  proof (cases "ch_force_drain c1 \<and> ch_istate c1 = CHAN_INPUT_OPEN")
    case True
    then have "progresses (chan_update (\<lambda>c. c\<lparr>ch_istate := CHAN_INPUT_WAIT_DRAIN\<rparr>)) c1"
      using c1 by (simp add: chan_progress)
    from progresses_seq [OF this ibuf] True show ?thesis by (simp add: progresses_def)
  next
    case False
    then show ?thesis using keep [OF c1] by (auto simp: progresses_def)
  qed
  show ?thesis unfolding channel_input_ieof_def by (rule progresses_seq [OF ieof [OF assms(2)] force])
qed

lemma is_dead_returns:
  assumes "\<forall>p. ce_send E p = None" "chan_is_dead E d c = (r, c')"
  shows "\<exists>b. r = Inr b" "ch_istate c' = ch_istate c" "ch_ostate c' = ch_ostate c"
  using assms(2)
  by (auto simp: chan_is_dead_def chan_send_close2_def act_bind_run chan_runs send_runs [OF assms(1)] act_seq_run act_return_run
      split: if_splits)

lemma local_progresses:
  assumes "\<forall>p. ce_send E p = None" "states_ok c"
  shows "progresses (chan_local E x) c"
proof (cases x)
  case (Collect d)
  obtain r c' where run: "chan_is_dead E d c = (r, c')" by fastforce
  then show ?thesis using is_dead_returns [OF assms(1) run] assms(2) Collect
    by (auto simp: progresses_def act_bind_run act_return_run states_ok_def)
qed (use assms read_failed_progresses ibuf_empty_progresses obuf_empty_progresses write_failed_progresses in
    \<open>auto simp: progresses_def chan_runs states_ok_def\<close>)

lemma deliver_progresses:
  assumes "\<forall>p. ce_send E p = None" "states_ok c"
  shows "progresses (chan_deliver E t) c"
proof -
  have eow: "progresses (chan_rcvd_eow E) c" using assms(2) by (simp add: chan_rcvd_eow_def chan_progress)
  show ?thesis
    using eow input_ieof_progresses [OF assms] rcvd_oclose1_progresses [OF assms] rcvd_close2_progresses [OF assms]
      progresses_return [OF assms(2)]
    by (auto simp: chan_deliver_def chan_rcvd_oclose_def)
qed

section \<open>Closing\<close>

definition close_result :: "channel \<Rightarrow> channel \<Rightarrow> bool" where
  "close_result c c' \<longleftrightarrow> ch_istate c' = CHAN_INPUT_CLOSED \<and>
     (ch_ostate c' = CHAN_OUTPUT_WAIT_DRAIN \<or> ch_ostate c' = CHAN_OUTPUT_CLOSED) \<and>
     close_rcvd c' \<and> \<not> has_flag c' CHAN_LOCAL \<and> ch_type c' = ch_type c"

lemma close2_output_run:
  assumes "states_ok2 c"
  shows "\<exists>c'. rcvd_close2_output c = (Inr (), c') \<and> (ch_ostate c' = 1 \<or> ch_ostate c' = 3) \<and>
    ch_istate c' = ch_istate c \<and> ch_flags c' = ch_flags c \<and> ch_type c' = ch_type c"
  using assms by (auto simp: rcvd_close2_output_def chan_runs states_ok2_def states_ok_def chan_states)

lemma close2_input_run:
  assumes "\<forall>p. ce_send E p = None" "ch_istate c \<in> {0, 1, 3}"
  shows "\<exists>c'. rcvd_close2_input E c = (Inr (), c') \<and> ch_istate c' = 3 \<and> ch_ostate c' = ch_ostate c \<and>
    (close_rcvd c' \<longleftrightarrow> close_rcvd c) \<and> (has_flag c' CHAN_LOCAL \<longleftrightarrow> has_flag c CHAN_LOCAL) \<and> ch_type c' = ch_type c"
  using assms(2) by (cases "flagged (ch_flags c) CHAN_LOCAL")
    (auto simp: rcvd_close2_input_def chan_send_eof2_def chan_runs send_runs [OF assms(1)] act_seq_run act_return_run chan_states)

lemma rcvd_oclose_result:
  assumes "ce_compat20 E" "\<forall>p. ce_send E p = None" "states_ok2 c" "\<not> has_flag c CHAN_LOCAL"
  shows "\<exists>c'. chan_rcvd_oclose E c = (Inr (), c') \<and> close_result c c'"
proof -
  define c1 where "c1 = (if close_rcvd c then noted (Ev_error Close_rcvd_twice) c else c)\<lparr>ch_flags := ch_flags c OR CHAN_CLOSE_RCVD\<rparr>"
  have c1: "ch_istate c1 = ch_istate c" "ch_ostate c1 = ch_ostate c" "ch_type c1 = ch_type c" "close_rcvd c1"
    "\<not> has_flag c1 CHAN_LOCAL" using assms(4) by (simp_all add: c1_def)
  have st: "states_ok2 c1" using assms(3) c1(1,2) by (simp add: states_ok2_def states_ok_def)
  have run: "chan_rcvd_oclose E c = (if ch_type c1 = SSH_CHANNEL_LARVAL then
      act_seq (chan_set_ostate CHAN_OUTPUT_CLOSED) (chan_set_istate CHAN_INPUT_CLOSED) c1
      else act_seq rcvd_close2_output (rcvd_close2_input E) c1)"
    using assms(1,4) by (simp add: chan_rcvd_oclose_def chan_rcvd_close2_def act_seq_run act_return_run chan_runs c1_def)
  show ?thesis
  proof (cases "ch_type c = SSH_CHANNEL_LARVAL")
    case True
    have "chan_rcvd_oclose E c = (Inr (), c1\<lparr>ch_ostate := CHAN_OUTPUT_CLOSED, ch_istate := CHAN_INPUT_CLOSED\<rparr>)"
      using run True c1(3) st by (simp add: act_seq_run chan_runs states_ok2_def states_ok_def)
    then show ?thesis using c1 True by (simp add: close_result_def)
  next
    case False
    obtain c2 where c2: "rcvd_close2_output c1 = (Inr (), c2)" "ch_ostate c2 = 1 \<or> ch_ostate c2 = 3"
      "ch_istate c2 = ch_istate c1" "ch_flags c2 = ch_flags c1" "ch_type c2 = ch_type c1"
      using close2_output_run [OF st] by blast
    have "ch_istate c2 \<in> {0, 1, 3}" using st c2(3) by (auto simp: states_ok2_def states_ok_def chan_states)
    from close2_input_run [OF assms(2) this]
    obtain c3 where "rcvd_close2_input E c2 = (Inr (), c3)" "ch_istate c3 = 3" "ch_ostate c3 = ch_ostate c2"
      "close_rcvd c3 \<longleftrightarrow> close_rcvd c2" "has_flag c3 CHAN_LOCAL \<longleftrightarrow> has_flag c2 CHAN_LOCAL" "ch_type c3 = ch_type c2" by blast
    then show ?thesis using run False c1 c2 by (auto simp: act_seq_run close_result_def chan_states)
  qed
qed

lemma obuf_empty_run:
  assumes "ce_compat20 E" "ch_ostate c = CHAN_OUTPUT_WAIT_DRAIN" "sshbuf_len (ch_output c) = 0"
  shows "chan_obuf_empty E c = (Inr (), (shut_w E c)\<lparr>ch_ostate := CHAN_OUTPUT_CLOSED\<rparr>)"
  using assms by (simp add: chan_obuf_empty_def act_seq_run act_return_run chan_runs chan_states)

lemma is_dead_closed:
  assumes "ce_compat20 E" "\<forall>p. ce_send E p = None" "ce_compat E AND SSH_BUG_EXTEOF = 0"
    and "ch_istate c = CHAN_INPUT_CLOSED" "ch_ostate c = CHAN_OUTPUT_CLOSED" "close_rcvd c" "\<not> has_flag c CHAN_LOCAL"
  shows "\<exists>c'. chan_is_dead E True c = (Inr True, c')"
  using assms by (cases "close_sent c")
    (simp_all add: chan_is_dead_def chan_send_close2_def act_bind_run act_seq_run act_return_run chan_runs send_runs)

section \<open>Properties\<close>

text \<open>C25: in protocol 1.5, two ends that follow this code never report a protocol error to each
  other, whatever their applications do and however the messages are delayed, and an end
  that has closed both halves, which is then freed, has no message left on its way to it.\<close>

theorem chan15_handshake:
  assumes "link_reach E l" "\<forall>side. \<not> ce_compat20 (E side)"
  shows "\<not> list_ex peer_error (ch_trace (ln_chan l side)) \<and>
    (ch_istate (ln_chan l side) = CHAN_INPUT_CLOSED \<and> ch_ostate (ln_chan l side) = CHAN_OUTPUT_CLOSED \<longrightarrow>
       ln_queue l side = [])"
proof -
  let ?c = "ln_chan l side" and ?q = "ln_queue l side"
  have ok: "\<not> list_ex peer_error (ch_trace ?c)"
    "set ?q \<subseteq> {SSH_MSG_CHANNEL_INPUT_EOF, SSH_MSG_CHANNEL_OUTPUT_CLOSE}"
    "count_list ?q SSH_MSG_CHANNEL_INPUT_EOF + ieof_rcvd ?c \<le> 1"
    "count_list ?q SSH_MSG_CHANNEL_OUTPUT_CLOSE + oclose_rcvd ?c \<le> 1"
    using link_reach1 [OF assms] by (auto simp: link_ok1_def ieof_sent_def oclose_sent_def)
  have "?q = []" if "ch_istate ?c = CHAN_INPUT_CLOSED" "ch_ostate ?c = CHAN_OUTPUT_CLOSED"
  proof -
    have "SSH_MSG_CHANNEL_INPUT_EOF \<notin> set ?q" "SSH_MSG_CHANNEL_OUTPUT_CLOSE \<notin> set ?q"
      using ok(3,4) that by (auto simp: chan1_counts count_list_0_iff)
    then show ?thesis using ok(2) by (cases ?q) auto
  qed
  then show ?thesis using ok(1) by blast
qed

text \<open>C7: in protocol 2, each end sends at most one EOF, sends CLOSE at most once, as its last
  message and only with both halves closed, never sees a second CLOSE, and once it has sent
  and received CLOSE, which is when it is freed, no message is left on its way to it.\<close>

theorem chan2_handshake:
  assumes "link_reach E l" "\<forall>side. ce_compat20 (E side)"
  shows "\<not> list_ex peer_error (ch_trace (ln_chan l side)) \<and>
    count_list (sends (ch_trace (ln_chan l side))) SSH2_MSG_CHANNEL_EOF \<le> 1 \<and>
    (\<forall>pre post. sends (ch_trace (ln_chan l side)) = pre @ SSH2_MSG_CHANNEL_CLOSE # post \<longrightarrow>
       post = [] \<and> SSH2_MSG_CHANNEL_CLOSE \<notin> set pre \<and>
       ch_istate (ln_chan l side) = CHAN_INPUT_CLOSED \<and> ch_ostate (ln_chan l side) = CHAN_OUTPUT_CLOSED) \<and>
    (has_flag (ln_chan l side) CHAN_CLOSE_RCVD \<longrightarrow> ln_queue l side = [])"
proof -
  let ?c = "ln_chan l side" and ?p = "ln_chan l (\<not> side)"
  have ok: "ok2 ?c" "trace_ok2 ?c" "trace_ok2 ?p" using link_reach2 [OF assms] by (simp_all add: link_ok2_def)
  obtain dn where dn: "sends (ch_trace ?p) = dn @ ln_queue l side" "close_rcvd ?c \<longleftrightarrow> SSH2_MSG_CHANNEL_CLOSE \<in> set dn"
    using link_reach2 [OF assms] unfolding link_ok2_def by blast
  have last: "post = [] \<and> SSH2_MSG_CHANNEL_CLOSE \<notin> set pre \<and> close_sent c"
    if "trace_ok2 c" "sends (ch_trace c) = pre @ SSH2_MSG_CHANNEL_CLOSE # post" for c pre post
    using that unfolding trace_ok2_def
    by (auto simp: append_eq_append_conv2 Cons_eq_append_conv append_eq_Cons_conv split: if_splits)
  have quiet: "ln_queue l side = []" if r: "close_rcvd ?c"
  proof -
    obtain a b where "dn = a @ SSH2_MSG_CHANNEL_CLOSE # b" using r dn(2) by (meson split_list)
    then show ?thesis using last [OF ok(3), of a "b @ ln_queue l side"] dn(1) by simp
  qed
  have "count_list (sends (ch_trace ?c)) SSH2_MSG_CHANNEL_EOF \<le> in_closed ?c" "\<not> list_ex peer_error (ch_trace ?c)"
    using ok(2) unfolding trace_ok2_def by blast+
  moreover have "post = [] \<and> SSH2_MSG_CHANNEL_CLOSE \<notin> set pre \<and> ch_istate ?c = CHAN_INPUT_CLOSED \<and> ch_ostate ?c = CHAN_OUTPUT_CLOSED"
    if "sends (ch_trace ?c) = pre @ SSH2_MSG_CHANNEL_CLOSE # post" for pre post
    using last [OF ok(2) that] ok(1) unfolding ok2_def by blast
  moreover have "in_closed ?c \<le> 1" by simp
  ultimately show ?thesis using quiet order_trans by blast
qed

text \<open>C37: no event, in any valid state and in either protocol, ends in the fatal error for a bad
  state or lets a half of the channel go back; while packets can be sent every event returns.\<close>

theorem chan_states_advance:
  assumes "\<forall>p. ce_send E p = None" "states_ok c"
  shows "\<exists>c'. chan_run E s c = (Inr () :: chan_fatal + unit, c') \<and> states_ok c' \<and>
    ch_istate c \<le> ch_istate c' \<and> ch_ostate c \<le> ch_ostate c'"
  using local_progresses [OF assms] deliver_progresses [OF assms] by (cases s) (auto simp: progresses_def)

text \<open>C26: in protocol 2, a channel that receives CLOSE is closed in both directions and freed as soon
  as its pending output is written, whatever state it was in: no further message is needed.\<close>

theorem chan2_close_completes:
  assumes "ce_compat20 E" "\<forall>p. ce_send E p = None" "ce_compat E AND SSH_BUG_EXTEOF = 0"
    and "states_ok2 c" "\<not> has_flag c CHAN_LOCAL" "sshbuf_len b = 0"
  shows "\<exists>c1 c2 c3. chan_rcvd_oclose E c = (Inr (), c1) \<and>
    (if ch_ostate c1 = CHAN_OUTPUT_WAIT_DRAIN then chan_obuf_empty E (c1\<lparr>ch_output := b\<rparr>) = (Inr (), c2) else c2 = c1) \<and>
    chan_is_dead E True c2 = (Inr True, c3)"
proof -
  obtain c1 where c1: "chan_rcvd_oclose E c = (Inr (), c1)" "close_result c c1"
    using rcvd_oclose_result [OF assms(1,2,4,5)] by blast
  let ?c2 = "if ch_ostate c1 = CHAN_OUTPUT_WAIT_DRAIN then (shut_w E (c1\<lparr>ch_output := b\<rparr>))\<lparr>ch_ostate := CHAN_OUTPUT_CLOSED\<rparr> else c1"
  have dead: "\<exists>c3. chan_is_dead E True ?c2 = (Inr True, c3)"
    by (rule is_dead_closed [OF assms(1-3)]) (use c1(2) in \<open>auto simp: close_result_def\<close>)
  have drain: "if ch_ostate c1 = CHAN_OUTPUT_WAIT_DRAIN then chan_obuf_empty E (c1\<lparr>ch_output := b\<rparr>) = (Inr (), ?c2) else ?c2 = c1"
    using obuf_empty_run [OF assms(1), of "c1\<lparr>ch_output := b\<rparr>"] assms(6) by simp
  show ?thesis using c1(1) drain dead by blast
qed

text \<open>An example of two ends.\<close>

definition chan_example :: channel where
  "chan_example = \<lparr>ch_type = SSH_CHANNEL_OPEN, ch_remote_id = 5, ch_istate = CHAN_INPUT_OPEN, ch_ostate = CHAN_OUTPUT_OPEN,
     ch_flags = 0, ch_rfd = 3, ch_wfd = 4, ch_efd = -1, ch_sock = -1, ch_input = fresh_buf, ch_output = fresh_buf,
     ch_extended = fresh_buf, ch_extended_usage = 0, ch_ctype = ''session'', ch_force_drain = False, ch_trace = []\<rparr>"

definition env_example :: "bool \<Rightarrow> chan_env" where
  "env_example v2 = \<lparr>ce_compat20 = v2, ce_compat = 0, ce_am = alloc_zero, ce_send = (\<lambda>_. None)\<rparr>"

lemma fresh_buf_empty: "sshbuf_len fresh_buf = 0"
  using fresh_buf by (simp add: sshbuf_len_wf del: length_contents)

lemma chan_example_fresh: "chan_fresh chan_example"
  by (simp add: chan_fresh_def chan_example_def)

text \<open>One end reads to the end of its input and announces it.\<close>

definition link_example :: "bool \<Rightarrow> link" where
  "link_example v2 =
     (let l = \<lparr>ln_chan = (\<lambda>_. chan_example), ln_queue = (\<lambda>_. [])\<rparr>;
          l1 = link_step l True [] (snd (chan_local (env_example v2) Read_failed (ln_chan l True)))
      in link_step l1 True [] (snd (chan_local (env_example v2) Ibuf_empty (ln_chan l1 True))))"

lemma link_run_local:
  assumes "link_reach (\<lambda>_. E) l" "\<forall>p. ce_send E p = None" "states_ok (ln_chan l side)"
  shows "link_reach (\<lambda>_. E) (link_step l side (ln_queue l side) (snd (chan_local E x (ln_chan l side))))"
    "states_ok (snd (chan_local E x (ln_chan l side)))"
proof -
  obtain c' where c': "chan_local E x (ln_chan l side) = (Inr (), c')" "states_ok c'"
    using local_progresses [OF assms(2,3), of x] by (auto simp: progresses_def)
  show "link_reach (\<lambda>_. E) (link_step l side (ln_queue l side) (snd (chan_local E x (ln_chan l side))))"
    using link_local [OF assms(1) c'(1)] c'(1) by simp
  show "states_ok (snd (chan_local E x (ln_chan l side)))" using c' by simp
qed

lemma link_example_reach: "link_reach (\<lambda>_. env_example v2) (link_example v2)"
proof -
  let ?E = "env_example v2"
  let ?l = "\<lparr>ln_chan = (\<lambda>_. chan_example), ln_queue = (\<lambda>_. [])\<rparr>"
  have sending: "\<forall>p. ce_send ?E p = None" by (simp add: env_example_def)
  have s0: "states_ok (ln_chan ?l True)" by (simp add: states_ok_def chan_example_def chan_states)
  have r0: "link_reach (\<lambda>_. ?E) ?l" by (rule link_init) (simp_all add: chan_example_fresh)
  let ?l1 = "link_step ?l True (ln_queue ?l True) (snd (chan_local ?E Read_failed (ln_chan ?l True)))"
  have "states_ok (ln_chan ?l1 True)"
    using link_run_local(2) [OF r0 sending s0, of Read_failed] by (simp add: link_step_def)
  from link_run_local(1) [OF link_run_local(1) [OF r0 sending s0] sending this, of Ibuf_empty]
  show ?thesis by (simp add: link_example_def Let_def link_step_def)
qed

theorem chan15_handshake_witness: "\<not> list_ex peer_error (ch_trace (ln_chan (link_example False) True))"
  using chan15_handshake [OF link_example_reach, of False True] by (simp add: env_example_def)

theorem chan2_handshake_witness:
  "count_list (sends (ch_trace (ln_chan (link_example True) True))) SSH2_MSG_CHANNEL_EOF \<le> 1"
  using chan2_handshake [OF link_example_reach, of True True] by (simp add: env_example_def)

theorem chan_states_advance_witness:
  "\<exists>c'. chan_run (env_example True) (Rcvd SSH2_MSG_CHANNEL_CLOSE) chan_example = (Inr () :: chan_fatal + unit, c') \<and> states_ok c'"
  using chan_states_advance [of "env_example True" chan_example "Rcvd SSH2_MSG_CHANNEL_CLOSE"]
  by (auto simp: env_example_def states_ok_def chan_example_def chan_states)

theorem chan2_close_completes_witness:
  "\<exists>c1 c2 c3. chan_rcvd_oclose (env_example True) chan_example = (Inr (), c1) \<and>
     chan_is_dead (env_example True) True c2 = (Inr True, c3)"
  using chan2_close_completes [of "env_example True" chan_example fresh_buf] fresh_buf_empty
  by (auto simp: env_example_def states_ok2_def states_ok_def chan_example_def chan_states)

end
