(* ===== verification/Cipher_Mac.thy ===== *)
theory Cipher_Mac
  imports Kex
begin

text \<open>
  Cipher contexts of \<open>ssh/cipher.c\<close> and keyed message authentication codes of \<open>ssh/mac.c\<close>. The
  EVP and HMAC functions of OpenSSL, and the UMAC of \<open>ssh/umac.c\<close>, are parameters.
\<close>

text \<open>
  How a call can end other than by returning 0: with an error code, by ending the process
  (\<open>fatal\<close>, \<open>cleanup_exit\<close>), with an access through a NULL pointer, past an allocated block or a
  division by zero, or never.
\<close>

datatype stop = Rc ssh_err | Exits | Faults | Hangs

section \<open>Ciphers\<close>

text \<open>
  The EVP interface over a type of contexts. A function that reports success by a non-zero value
  gives a \<open>bool\<close>. \<open>EVP_Cipher\<close> is called to en/decrypt bytes, to add bytes that are only
  authenticated (no output), and to compute or verify the tag (no input).
\<close>

record 'c evp_lib =
  EVP_CTX_init :: 'c
  EVP_CipherInit :: "evp_cipher option \<Rightarrow> byte list option \<Rightarrow> byte list option \<Rightarrow> int \<Rightarrow> 'c \<Rightarrow> bool \<times> 'c"
  EVP_set_iv_fixed :: "byte list option \<Rightarrow> 'c \<Rightarrow> bool \<times> 'c"
  EVP_iv_gen :: "'c \<Rightarrow> bool \<times> 'c"
  EVP_set_tag :: "byte list \<Rightarrow> 'c \<Rightarrow> bool \<times> 'c"
  EVP_get_tag :: "nat \<Rightarrow> 'c \<Rightarrow> bool \<times> byte list"
  EVP_key_length :: "'c \<Rightarrow> int"
  EVP_set_key_length :: "nat \<Rightarrow> 'c \<Rightarrow> bool \<times> 'c"
  EVP_Cipher :: "byte list \<Rightarrow> 'c \<Rightarrow> int \<times> byte list \<times> 'c"
  EVP_Cipher_aad :: "byte list \<Rightarrow> 'c \<Rightarrow> int \<times> 'c"
  EVP_Cipher_final :: "'c \<Rightarrow> int \<times> 'c"
  EVP_CTX_cleanup :: "'c \<Rightarrow> bool \<times> 'c"

record 'c cipher_ctx =
  cc_plaintext :: bool
  cc_encrypt :: bool
  cc_evp :: 'c
  cc_cipher :: "sshcipher option"

definition cipher_warning_message :: "'c cipher_ctx \<Rightarrow> string option" where
  "cipher_warning_message cc =
     (case cc_cipher cc of None \<Rightarrow> None
      | Some c \<Rightarrow> if ci_number c = SSH_CIPHER_DES
                then Some ''use of DES is strongly discouraged due to cryptographic weaknesses'' else None)"

text \<open>A call that returns 0 on failure, answered with \<open>SSH_ERR_LIBCRYPTO_ERROR\<close>.\<close>

definition evp_try :: "('c \<Rightarrow> bool \<times> 'c) \<Rightarrow> (ssh_err, 'c, unit) action" where
  "evp_try f = (\<lambda>c. case f c of (ok, c') \<Rightarrow> (if ok then Inr () else Inl SSH_ERR_LIBCRYPTO_ERROR, c'))"

text \<open>The key-stream bytes that \<open>discard_len\<close> says to throw away; \<open>junk\<close> is not initialised.\<close>

definition cipher_discard :: "'c evp_lib \<Rightarrow> allocator \<Rightarrow> nat \<Rightarrow> (ssh_err, 'c, unit) action" where
  "cipher_discard L am n =
     (if n = 0 then act_return ()
      else (\<lambda>c. case malloc_block am n of None \<Rightarrow> (Inl SSH_ERR_ALLOC_FAIL, c)
        | Some junk \<Rightarrow> (case EVP_Cipher L junk c of (rc, _, c') \<Rightarrow>
            (if rc = 1 then Inr () else Inl SSH_ERR_LIBCRYPTO_ERROR, c'))))"

text \<open>
  The calls of \<open>cipher_init\<close> on the EVP context. \<open>key\<close> and \<open>iv\<close> are \<open>None\<close> for NULL; the key length is set
  where the context has one of its own that differs.
\<close>

definition evp_setup :: "'c evp_lib \<Rightarrow> allocator \<Rightarrow> sshcipher \<Rightarrow> byte list option \<Rightarrow> nat \<Rightarrow> byte list option \<Rightarrow> bool \<Rightarrow>
    (ssh_err, 'c, unit) action" where
  "evp_setup L am cipher key keylen iv do_encrypt =
     act_all
       [evp_try (EVP_CipherInit L (Some (ci_evptype cipher)) None iv (if do_encrypt then 1 else 0)),
        if cipher_authlen cipher \<noteq> 0 then evp_try (EVP_set_iv_fixed L iv) else act_return (),
        (\<lambda>c. let klen = EVP_key_length L c
             in if 0 < klen \<and> int keylen \<noteq> klen then evp_try (EVP_set_key_length L keylen) c
                else (Inr (), c)),
        evp_try (EVP_CipherInit L None key None (- 1)),
        cipher_discard L am (ci_discard_len cipher)]"

definition cipher_init :: "'c evp_lib \<Rightarrow> allocator \<Rightarrow> sshcipher \<Rightarrow> byte list option \<Rightarrow> nat \<Rightarrow> byte list option \<Rightarrow> nat \<Rightarrow> bool \<Rightarrow>
    (ssh_err, 'c cipher_ctx, unit) action" where
  "cipher_init L am cipher key keylen0 iv ivlen do_encrypt cc0 =
     (let keylen = (if ci_number cipher = SSH_CIPHER_DES \<and> 8 < keylen0 then 8 else keylen0);
          cc1 = cc0\<lparr>cc_plaintext := (ci_number cipher = SSH_CIPHER_NONE), cc_encrypt := do_encrypt\<rparr>
      in if keylen < ci_key_len cipher \<or> (iv \<noteq> None \<and> ivlen < ci_iv_len cipher)
         then (Inl SSH_ERR_INVALID_ARGUMENT, cc1)
         else let cc2 = cc1\<lparr>cc_cipher := Some cipher, cc_evp := EVP_CTX_init L\<rparr>
              in case evp_setup L am cipher key keylen iv do_encrypt (cc_evp cc2) of
                   (Inl e, c) \<Rightarrow> (Inl e, cc2\<lparr>cc_evp := snd (EVP_CTX_cleanup L c)\<rparr>)
                 | (Inr _, c) \<Rightarrow> (Inr (), cc2\<lparr>cc_evp := c\<rparr>))"

text \<open>
  What authenticated encryption does before the data: the next IV and, when decrypting, the tag
  that follows the data.
\<close>

definition crypt_begin :: "'c evp_lib \<Rightarrow> sshcipher \<Rightarrow> bool \<Rightarrow> byte list \<Rightarrow> nat \<Rightarrow> nat \<Rightarrow> (ssh_err, 'c, unit) action" where
  "crypt_begin L cipher encrypt src from authlen =
     (if authlen = 0 then act_return ()
      else if authlen \<noteq> cipher_authlen cipher then act_fail SSH_ERR_INVALID_ARGUMENT
      else act_seq (evp_try (EVP_iv_gen L))
             (if encrypt then act_return ()
              else evp_try (EVP_set_tag L (take authlen (drop from src)))))"

text \<open>
  The tag, computed when encrypting and verified when decrypting; the result is what is written
  after the data.
\<close>

definition crypt_end :: "'c evp_lib \<Rightarrow> bool \<Rightarrow> nat \<Rightarrow> (ssh_err, 'c, byte list) action" where
  "crypt_end L encrypt authlen =
     (if authlen = 0 then act_return []
      else (\<lambda>c. case EVP_Cipher_final L c of (rc, c') \<Rightarrow>
        if rc < 0 then (Inl (if encrypt then SSH_ERR_LIBCRYPTO_ERROR else SSH_ERR_MAC_INVALID), c')
        else if encrypt then
          (case EVP_get_tag L authlen c' of (ok, tag) \<Rightarrow>
             (if ok then Inr tag else Inl SSH_ERR_LIBCRYPTO_ERROR, c'))
        else (Inr [], c')))"

text \<open>
  \<open>cipher_crypt\<close> on the bytes from \<open>src\<close> on. The second component of the result is what has been
  written from \<open>dest\<close> on, also when the call fails.
\<close>

definition evp_crypt :: "'c evp_lib \<Rightarrow> sshcipher \<Rightarrow> bool \<Rightarrow> byte list \<Rightarrow> nat \<Rightarrow> nat \<Rightarrow> nat \<Rightarrow>
    'c \<Rightarrow> unit res \<times> byte list \<times> 'c" where
  "evp_crypt L cipher encrypt src len aadlen authlen c0 =
     (case crypt_begin L cipher encrypt src (aadlen + len) authlen c0 of
        (Inl e, c1) \<Rightarrow> (Inl e, [], c1)
      | (Inr _, c1) \<Rightarrow>
        (case (if aadlen \<noteq> 0 \<and> authlen \<noteq> 0 then EVP_Cipher_aad L (take aadlen src) c1 else (0, c1)) of (rc, c2) \<Rightarrow>
           if rc < 0 then (Inl SSH_ERR_LIBCRYPTO_ERROR, [], c2)
           else if len mod ci_block_size cipher \<noteq> 0 then (Inl SSH_ERR_INVALID_ARGUMENT, take aadlen src, c2)
           else (case EVP_Cipher L (take len (drop aadlen src)) c2 of (rc, data, c3) \<Rightarrow>
              if rc < 0 then (Inl SSH_ERR_LIBCRYPTO_ERROR, take aadlen src @ data, c3)
              else (case crypt_end L encrypt authlen c3 of
                      (Inl e, c4) \<Rightarrow> (Inl e, take aadlen src @ data, c4)
                    | (Inr tag, c4) \<Rightarrow> (Inr (), take aadlen src @ data @ tag, c4)))))"

definition cipher_crypt :: "'c evp_lib \<Rightarrow> byte list \<Rightarrow> nat \<Rightarrow> nat \<Rightarrow> nat \<Rightarrow>
    'c cipher_ctx \<Rightarrow> (stop + unit) \<times> byte list \<times> 'c cipher_ctx" where
  "cipher_crypt L src len aadlen authlen cc =
     (case cc_cipher cc of None \<Rightarrow> (Inl Faults, [], cc)
      | Some cipher \<Rightarrow>
          if length src < aadlen + len + (if cc_encrypt cc then 0 else authlen) then (Inl Faults, [], cc)
          else (case evp_crypt L cipher (cc_encrypt cc) src len aadlen authlen (cc_evp cc) of
                  (r, dest, c) \<Rightarrow> (map_sum Rc id r, dest, cc\<lparr>cc_evp := c\<rparr>)))"

definition cipher_cleanup :: "'c evp_lib \<Rightarrow> (ssh_err, 'c cipher_ctx, unit) action" where
  "cipher_cleanup L cc =
     (case evp_try (EVP_CTX_cleanup L) (cc_evp cc) of (r, c) \<Rightarrow> (r, cc\<lparr>cc_evp := c\<rparr>))"

section \<open>Message authentication codes\<close>

text \<open>
  \<open>HMAC_run md key data\<close> is what a context keyed with \<open>md\<close> and \<open>key\<close> gives after it was reset and
  fed \<open>data\<close>, \<open>None\<close> when one of the calls fails; \<open>umac_new\<close> and \<open>umac128_new\<close> say whether there
  is memory for a context.
\<close>

record mac_lib =
  MD_size :: "evp_md \<Rightarrow> int"
  HMAC_Init_ok :: "evp_md \<Rightarrow> byte list \<Rightarrow> bool"
  HMAC_run :: "evp_md \<Rightarrow> byte list \<Rightarrow> byte list \<Rightarrow> byte list option"
  umac_new :: "byte list \<Rightarrow> bool"
  umac128_new :: "byte list \<Rightarrow> bool"
  umac_run :: "byte list \<Rightarrow> byte list \<Rightarrow> byte list \<Rightarrow> byte list"
  umac128_run :: "byte list \<Rightarrow> byte list \<Rightarrow> byte list \<Rightarrow> byte list"

definition MAC_DIGEST_LEN_MAX :: nat where "MAC_DIGEST_LEN_MAX = 64"

definition mac_init :: "mac_lib \<Rightarrow> (ssh_err, sshmac, unit) action" where
  "mac_init M mac =
     (case sm_key mac of None \<Rightarrow> (Inl SSH_ERR_INVALID_ARGUMENT, mac)
      | Some key \<Rightarrow>
        (case sm_type mac of
           SSH_EVP \<Rightarrow>
             (case sm_evp_md mac of None \<Rightarrow> (Inl SSH_ERR_INVALID_ARGUMENT, mac)
              | Some md \<Rightarrow>
                  if HMAC_Init_ok M md (take (sm_key_len mac) key)
                  then (Inr (), mac\<lparr>sm_evp_ctx := Some (md, take (sm_key_len mac) key)\<rparr>)
                  else (Inl SSH_ERR_LIBCRYPTO_ERROR, mac\<lparr>sm_evp_ctx := None\<rparr>))
         | SSH_UMAC \<Rightarrow>
             if umac_new M key then (Inr (), mac\<lparr>sm_umac_ctx := Some key\<rparr>)
             else (Inl SSH_ERR_ALLOC_FAIL, mac\<lparr>sm_umac_ctx := None\<rparr>)
         | SSH_UMAC128 \<Rightarrow>
             (Inr (), mac\<lparr>sm_umac_ctx := (if umac128_new M key then Some key else None)\<rparr>)))"

text \<open>The digest before it is cut to \<open>mac_len\<close>.\<close>

definition mac_digest :: "mac_lib \<Rightarrow> sshmac \<Rightarrow> u32 \<Rightarrow> byte list \<Rightarrow> stop + byte list" where
  "mac_digest M mac seqno data =
     (case sm_type mac of
        SSH_EVP \<Rightarrow>
          (case sm_evp_ctx mac of None \<Rightarrow> Inl Faults
           | Some (md, key) \<Rightarrow>
               (case HMAC_run M md key (POKE_U32 (ucast seqno) @ data) of
                  None \<Rightarrow> Inl (Rc SSH_ERR_LIBCRYPTO_ERROR) | Some d \<Rightarrow> Inr d))
      | SSH_UMAC \<Rightarrow>
          (case sm_umac_ctx mac of None \<Rightarrow> Inl Faults | Some key \<Rightarrow> Inr (umac_run M key (POKE_U64 (ucast seqno)) data))
      | SSH_UMAC128 \<Rightarrow>
          (case sm_umac_ctx mac of None \<Rightarrow> Inl Faults | Some key \<Rightarrow> Inr (umac128_run M key (POKE_U64 (ucast seqno)) data)))"

definition mac_compute :: "mac_lib \<Rightarrow> sshmac \<Rightarrow> u32 \<Rightarrow> byte list \<Rightarrow> nat \<Rightarrow> stop + byte list" where
  "mac_compute M mac seqno data dlen =
     (if MAC_DIGEST_LEN_MAX < sm_mac_len mac then Inl (Rc SSH_ERR_INTERNAL_ERROR)
      else map_sum id (take (min dlen (sm_mac_len mac))) (mac_digest M mac seqno data))"

definition mac_clear :: "sshmac \<Rightarrow> sshmac" where
  "mac_clear mac = mac\<lparr>sm_evp_ctx := (if sm_type mac = SSH_EVP \<and> sm_evp_md mac \<noteq> None then None else sm_evp_ctx mac),
     sm_evp_md := None, sm_umac_ctx := None\<rparr>"

end
