(* ===== verification/Crc32.thy ===== *)
theory Crc32
  imports Sshbuf_Getput
begin

text \<open>
  The checksum of protocol version 1, \<open>ssh/crc32.c\<close>, and the detector of the attack on it,
  \<open>ssh/deattack.c\<close>: the table, the routine, the reference definition it implements bit by bit, its
  linearity (what the attack rests on), and the search for blocks that occur twice in a packet.
\<close>

section \<open>The checksum\<close>

definition crc32tab :: "u32 list" where
  "crc32tab =
    [0x00000000, 0x77073096, 0xee0e612c, 0x990951ba, 0x076dc419, 0x706af48f, 0xe963a535, 0x9e6495a3,
     0x0edb8832, 0x79dcb8a4, 0xe0d5e91e, 0x97d2d988, 0x09b64c2b, 0x7eb17cbd, 0xe7b82d07, 0x90bf1d91,
     0x1db71064, 0x6ab020f2, 0xf3b97148, 0x84be41de, 0x1adad47d, 0x6ddde4eb, 0xf4d4b551, 0x83d385c7,
     0x136c9856, 0x646ba8c0, 0xfd62f97a, 0x8a65c9ec, 0x14015c4f, 0x63066cd9, 0xfa0f3d63, 0x8d080df5,
     0x3b6e20c8, 0x4c69105e, 0xd56041e4, 0xa2677172, 0x3c03e4d1, 0x4b04d447, 0xd20d85fd, 0xa50ab56b,
     0x35b5a8fa, 0x42b2986c, 0xdbbbc9d6, 0xacbcf940, 0x32d86ce3, 0x45df5c75, 0xdcd60dcf, 0xabd13d59,
     0x26d930ac, 0x51de003a, 0xc8d75180, 0xbfd06116, 0x21b4f4b5, 0x56b3c423, 0xcfba9599, 0xb8bda50f,
     0x2802b89e, 0x5f058808, 0xc60cd9b2, 0xb10be924, 0x2f6f7c87, 0x58684c11, 0xc1611dab, 0xb6662d3d,
     0x76dc4190, 0x01db7106, 0x98d220bc, 0xefd5102a, 0x71b18589, 0x06b6b51f, 0x9fbfe4a5, 0xe8b8d433,
     0x7807c9a2, 0x0f00f934, 0x9609a88e, 0xe10e9818, 0x7f6a0dbb, 0x086d3d2d, 0x91646c97, 0xe6635c01,
     0x6b6b51f4, 0x1c6c6162, 0x856530d8, 0xf262004e, 0x6c0695ed, 0x1b01a57b, 0x8208f4c1, 0xf50fc457,
     0x65b0d9c6, 0x12b7e950, 0x8bbeb8ea, 0xfcb9887c, 0x62dd1ddf, 0x15da2d49, 0x8cd37cf3, 0xfbd44c65,
     0x4db26158, 0x3ab551ce, 0xa3bc0074, 0xd4bb30e2, 0x4adfa541, 0x3dd895d7, 0xa4d1c46d, 0xd3d6f4fb,
     0x4369e96a, 0x346ed9fc, 0xad678846, 0xda60b8d0, 0x44042d73, 0x33031de5, 0xaa0a4c5f, 0xdd0d7cc9,
     0x5005713c, 0x270241aa, 0xbe0b1010, 0xc90c2086, 0x5768b525, 0x206f85b3, 0xb966d409, 0xce61e49f,
     0x5edef90e, 0x29d9c998, 0xb0d09822, 0xc7d7a8b4, 0x59b33d17, 0x2eb40d81, 0xb7bd5c3b, 0xc0ba6cad,
     0xedb88320, 0x9abfb3b6, 0x03b6e20c, 0x74b1d29a, 0xead54739, 0x9dd277af, 0x04db2615, 0x73dc1683,
     0xe3630b12, 0x94643b84, 0x0d6d6a3e, 0x7a6a5aa8, 0xe40ecf0b, 0x9309ff9d, 0x0a00ae27, 0x7d079eb1,
     0xf00f9344, 0x8708a3d2, 0x1e01f268, 0x6906c2fe, 0xf762575d, 0x806567cb, 0x196c3671, 0x6e6b06e7,
     0xfed41b76, 0x89d32be0, 0x10da7a5a, 0x67dd4acc, 0xf9b9df6f, 0x8ebeeff9, 0x17b7be43, 0x60b08ed5,
     0xd6d6a3e8, 0xa1d1937e, 0x38d8c2c4, 0x4fdff252, 0xd1bb67f1, 0xa6bc5767, 0x3fb506dd, 0x48b2364b,
     0xd80d2bda, 0xaf0a1b4c, 0x36034af6, 0x41047a60, 0xdf60efc3, 0xa867df55, 0x316e8eef, 0x4669be79,
     0xcb61b38c, 0xbc66831a, 0x256fd2a0, 0x5268e236, 0xcc0c7795, 0xbb0b4703, 0x220216b9, 0x5505262f,
     0xc5ba3bbe, 0xb2bd0b28, 0x2bb45a92, 0x5cb36a04, 0xc2d7ffa7, 0xb5d0cf31, 0x2cd99e8b, 0x5bdeae1d,
     0x9b64c2b0, 0xec63f226, 0x756aa39c, 0x026d930a, 0x9c0906a9, 0xeb0e363f, 0x72076785, 0x05005713,
     0x95bf4a82, 0xe2b87a14, 0x7bb12bae, 0x0cb61b38, 0x92d28e9b, 0xe5d5be0d, 0x7cdcefb7, 0x0bdbdf21,
     0x86d3d2d4, 0xf1d4e242, 0x68ddb3f8, 0x1fda836e, 0x81be16cd, 0xf6b9265b, 0x6fb077e1, 0x18b74777,
     0x88085ae6, 0xff0f6a70, 0x66063bca, 0x11010b5c, 0x8f659eff, 0xf862ae69, 0x616bffd3, 0x166ccf45,
     0xa00ae278, 0xd70dd2ee, 0x4e048354, 0x3903b3c2, 0xa7672661, 0xd06016f7, 0x4969474d, 0x3e6e77db,
     0xaed16a4a, 0xd9d65adc, 0x40df0b66, 0x37d83bf0, 0xa9bcae53, 0xdebb9ec5, 0x47b2cf7f, 0x30b5ffe9,
     0xbdbdf21c, 0xcabac28a, 0x53b39330, 0x24b4a3a6, 0xbad03605, 0xcdd70693, 0x54de5729, 0x23d967bf,
     0xb3667a2e, 0xc4614ab8, 0x5d681b02, 0x2a6f2b94, 0xb40bbe37, 0xc30c8ea1, 0x5a05df1b, 0x2d02ef8d]"

text \<open>One step of the loop and the loop itself.\<close>

definition crc_step :: "u32 \<Rightarrow> byte \<Rightarrow> u32" where
  "crc_step crc b = crc32tab ! unat ((crc XOR ucast b) AND 0xff) XOR drop_bit 8 crc"

definition ssh_crc32 :: "byte list \<Rightarrow> u32" where
  "ssh_crc32 buf = foldl crc_step 0 buf"

text \<open>
  The reference: one division step by the polynomial \<open>0xedb88320\<close> (bits reversed) for every bit of
  the input, least significant first.
\<close>

definition crc_bit :: "u32 \<Rightarrow> u32" where
  "crc_bit c = (if bit c 0 then drop_bit 1 c XOR 0xedb88320 else drop_bit 1 c)"

definition crc_ref :: "byte list \<Rightarrow> u32" where
  "crc_ref buf = foldl (\<lambda>c b. (crc_bit ^^ 8) (c XOR ucast b)) 0 buf"

section \<open>The table is the polynomial's\<close>

lemma crc_bit_xor: "crc_bit (a XOR b) = crc_bit a XOR crc_bit b"
  by (rule bit_eqI) (auto simp: crc_bit_def bit_xor_iff bit_drop_bit_eq)

lemma crc_bits_xor: "(crc_bit ^^ n) (a XOR b) = (crc_bit ^^ n) a XOR (crc_bit ^^ n) b"
  by (induction n) (simp_all add: crc_bit_xor)

lemma crc_bit_even: "\<not> bit c 0 \<Longrightarrow> crc_bit c = drop_bit 1 c"
  by (simp add: crc_bit_def)

lemma crc_bits_shift: "(\<forall>i<n. \<not> bit c i) \<Longrightarrow> (crc_bit ^^ n) c = drop_bit n c"
proof (induction n)
  case (Suc n)
  then have "(crc_bit ^^ n) c = drop_bit n c" "\<not> bit (drop_bit n c) 0" by (auto simp: bit_drop_bit_eq)
  then show ?case by (simp add: crc_bit_even)
qed simp

text \<open>The table doubles with every bit of the index.\<close>

definition dbl :: "u32 list \<Rightarrow> u32 \<Rightarrow> u32 list" where
  "dbl t b = t @ map (\<lambda>x. x XOR b) t"

definition crc_basis :: "u32 list" where
  "crc_basis = [0x77073096, 0xee0e612c, 0x076dc419, 0x0edb8832, 0x1db71064, 0x3b6e20c8, 0x76dc4190, 0xedb88320]"

lemma crc32tab_dbl: "crc32tab = foldl dbl [0] crc_basis"
  by (simp add: crc32tab_def crc_basis_def dbl_def)

definition basis_to :: "nat \<Rightarrow> u32 list" where
  "basis_to n = map (\<lambda>k. (crc_bit ^^ 8) (2 ^ k)) [0..<n]"

lemma crc_bits_Suc: "(crc_bit ^^ Suc n) c = (crc_bit ^^ n) (crc_bit c)"
  by (simp add: funpow_swap1)

lemma crc_basis_bits: "crc_basis = basis_to 8"
proof -
  have "[0..<8] = [0, 1, 2, 3, 4, 5, 6, 7 :: nat]" by (simp add: upt_rec)
  moreover have "(8 :: nat) = Suc (Suc (Suc (Suc (Suc (Suc (Suc (Suc 0)))))))" by simp
  ultimately show ?thesis
    by (simp only: basis_to_def crc_basis_def list.map crc_bits_Suc) (simp add: crc_bit_def)
qed

lemma of_nat_top_bit:
  assumes "2 ^ n \<le> i" "i < 2 ^ Suc n"
  shows "(of_nat i :: u32) = of_nat (i - 2 ^ n) XOR 2 ^ n"
proof -
  have "\<not> bit (i - 2 ^ n) n" using assms by (simp add: bit_iff_odd)
  then have d: "(i - 2 ^ n) AND 2 ^ n = 0"
    by (intro bit_eqI) (auto simp: bit_and_iff bit_exp_iff)
  then have "i = (i - 2 ^ n) XOR 2 ^ n" using assms(1) by (simp add: disjunctive_add_eq_xor [symmetric])
  then have "(of_nat i :: u32) = of_nat ((i - 2 ^ n) XOR 2 ^ n)" by (rule arg_cong)
  then show ?thesis by (simp only: of_nat_xor_eq of_nat_power of_nat_numeral)
qed

lemma length_dbl: "length (dbl t b) = 2 * length t"
  by (simp add: dbl_def)

lemma nth_dbl: "i < 2 * length t \<Longrightarrow> dbl t b ! i = (if i < length t then t ! i else t ! (i - length t) XOR b)"
  by (simp add: dbl_def nth_append)

lemma foldl_dbl_Suc: "foldl dbl [0] (basis_to (Suc n)) = dbl (foldl dbl [0] (basis_to n)) ((crc_bit ^^ 8) (2 ^ n))"
  by (simp add: basis_to_def)

lemma foldl_dbl: "length (foldl dbl [0] (basis_to n)) = 2 ^ n"
  by (induction n) (simp_all add: foldl_dbl_Suc length_dbl, simp add: basis_to_def)

lemma nth_foldl_dbl: "i < 2 ^ n \<Longrightarrow> foldl dbl [0] (basis_to n) ! i = (crc_bit ^^ 8) (of_nat i)"
proof (induction n arbitrary: i)
  case 0
  then show ?case by (simp add: basis_to_def crc_bits_shift)
next
  case (Suc n)
  show ?case
  proof (cases "i < 2 ^ n")
    case True
    then show ?thesis using Suc.IH [of i] by (simp add: foldl_dbl_Suc nth_dbl foldl_dbl)
  next
    case False
    then have "i - 2 ^ n < 2 ^ n" using Suc.prems by simp
    then have "foldl dbl [0] (basis_to (Suc n)) ! i = (crc_bit ^^ 8) (of_nat (i - 2 ^ n)) XOR (crc_bit ^^ 8) (2 ^ n)"
      using False Suc.IH [of "i - 2 ^ n"] Suc.prems by (simp add: foldl_dbl_Suc nth_dbl foldl_dbl del: of_nat_diff)
    also have "\<dots> = (crc_bit ^^ 8) (of_nat (i - 2 ^ n) XOR 2 ^ n)" by (rule crc_bits_xor [symmetric])
    also have "of_nat (i - 2 ^ n) XOR 2 ^ n = (of_nat i :: u32)"
      using False Suc.prems by (intro of_nat_top_bit [symmetric]) simp_all
    finally show ?thesis .
  qed
qed

lemma crc_table: "i < 256 \<Longrightarrow> crc32tab ! i = (crc_bit ^^ 8) (of_nat i)"
proof -
  assume "i < 256"
  then have "i < 2 ^ 8" by simp
  from nth_foldl_dbl [OF this] show ?thesis by (simp only: crc32tab_dbl crc_basis_bits)
qed

lemma crc_step_bits: "crc_step c b = (crc_bit ^^ 8) (c XOR ucast b)"
proof -
  let ?x = "c XOR ucast b" and ?lo = "(c XOR ucast b) AND 0xff" and ?hi = "(c XOR ucast b) AND NOT 0xff"
  have bits: "bit (0xff :: u32) n \<longleftrightarrow> n < 8" for n
    using bit_mask_iff [of 8 n, where 'a = u32] by (auto simp: mask_eq_exp_minus_1)
  have x: "?lo XOR ?hi = ?x" by (rule bit_eqI) (simp only: bit_and_iff bit_xor_iff [of "_ AND _"] bit_not_iff possible_bit_word, blast)
  have "unat ?lo \<le> unat (0xff :: u32)" using word_and_le1 [of ?x "0xff"] by (simp only: word_le_nat_alt)
  then have "unat ?lo < 256" by simp
  then have lo: "crc32tab ! unat ?lo = (crc_bit ^^ 8) ?lo" by (simp only: crc_table of_nat_unat ucast_id)
  have "(crc_bit ^^ 8) ?hi = drop_bit 8 ?hi" by (rule crc_bits_shift) (intro allI impI, simp only: bit_simps bits, simp)
  also have "\<dots> = drop_bit 8 c"
  proof (rule bit_eqI)
    fix n
    have "\<not> bit b (8 + n)" "bit c (8 + n) \<longrightarrow> 8 + n < LENGTH(32)"
      using bit_imp_le_length [of b "8 + n"] bit_imp_le_length [of c "8 + n"] by auto
    moreover have "\<not> 8 + n < 8" by simp
    ultimately show "bit (drop_bit 8 ?hi) n = bit (drop_bit 8 c) n"
      by (simp only: bit_drop_bit_eq bit_and_iff bit_xor_iff bit_not_iff bit_ucast_iff bits o_apply possible_bit_word)
        blast
  qed
  finally have hi: "(crc_bit ^^ 8) ?hi = drop_bit 8 c" .
  have "crc_step c b = (crc_bit ^^ 8) ?lo XOR (crc_bit ^^ 8) ?hi" by (simp only: crc_step_def lo hi)
  also have "\<dots> = (crc_bit ^^ 8) (?lo XOR ?hi)" by (rule crc_bits_xor [symmetric])
  finally show ?thesis by (simp only: x)
qed

lemma crc_eq_ref: "ssh_crc32 buf = crc_ref buf"
proof -
  have "crc_step = (\<lambda>c b. (crc_bit ^^ 8) (c XOR ucast b))" by (intro ext crc_step_bits)
  then show ?thesis by (simp add: ssh_crc32_def crc_ref_def)
qed

section \<open>Linearity and injectivity\<close>

lemma crc_fold_xor:
  "length a = length b \<Longrightarrow>
    foldl crc_step (c XOR d) (map2 (XOR) a b) = foldl crc_step c a XOR foldl crc_step d b"
proof (induction a b arbitrary: c d rule: list_induct2)
  case (Cons x xs y ys)
  have "crc_step (c XOR d) (x XOR y) = crc_step c x XOR crc_step d y"
    unfolding crc_step_bits crc_bits_xor [symmetric]
    by (rule arg_cong [of _ _ "crc_bit ^^ 8"], rule bit_eqI) (auto simp: bit_simps)
  then show ?case using Cons by simp
qed simp

lemma xor_cancel: "a XOR k = b XOR k \<Longrightarrow> a = (b :: u32)"
  by (metis xor.assoc xor_self_eq xor.right_neutral)

lemma crc_bit_inj: "crc_bit a = crc_bit b \<Longrightarrow> a = b"
proof -
  assume eq: "crc_bit a = crc_bit b"
  have top: "bit (crc_bit c) 31 \<longleftrightarrow> bit c 0" for c
    using bit_imp_le_length [of c 32] by (auto simp: crc_bit_def bit_simps)
  have zero: "bit a 0 \<longleftrightarrow> bit b 0" using top [of a] top [of b] eq by simp
  then have "drop_bit 1 a = drop_bit 1 b"
    using eq by (auto simp: crc_bit_def split: if_splits dest: xor_cancel)
  then have "bit a (Suc n) = bit b (Suc n)" for n
    using bit_drop_bit_eq [of 1 a] bit_drop_bit_eq [of 1 b] by (metis comp_apply plus_1_eq_Suc)
  then show "a = b" using zero by (intro bit_eqI) (metis not0_implies_Suc)
qed

lemma crc_bits_inj: "(crc_bit ^^ n) a = (crc_bit ^^ n) b \<Longrightarrow> a = b"
  by (induction n) (auto dest: crc_bit_inj)

lemma crc_step_inj: "crc_step c b = crc_step d b \<Longrightarrow> c = d"
  unfolding crc_step_bits by (drule crc_bits_inj) (rule xor_cancel)

lemma crc_fold_inj: "foldl crc_step c bs = foldl crc_step d bs \<Longrightarrow> c = d"
  by (induction bs arbitrary: c d) (auto dest: crc_step_inj)

text \<open>Up to four bytes as the number with the first byte lowest.\<close>

fun le_word :: "byte list \<Rightarrow> u32" where
  "le_word [] = 0"
| "le_word (b # bs) = ucast b XOR push_bit 8 (le_word bs)"

lemma bit_le_word_end: "8 * length bs \<le> n \<Longrightarrow> \<not> bit (le_word bs) n"
proof (induction bs arbitrary: n)
  case (Cons b bs)
  then have "8 \<le> n" "\<not> bit (le_word bs) (n - 8)" using Cons.IH [of "n - 8"] by auto
  then show ?case using bit_imp_le_length [of b n] by (auto simp: bit_simps)
qed simp

lemma crc_fold_word:
  "length bs \<le> 4 \<Longrightarrow> foldl crc_step c bs = (crc_bit ^^ (8 * length bs)) (c XOR le_word bs)"
proof (induction bs arbitrary: c)
  case (Cons b bs)
  let ?w = "push_bit 8 (le_word bs)"
  have "(crc_bit ^^ 8) ?w = drop_bit 8 ?w" by (rule crc_bits_shift) (simp add: bit_simps)
  also have "\<dots> = le_word bs"
  proof (rule bit_eqI)
    fix n show "bit (drop_bit 8 ?w) n = bit (le_word bs) n"
      using Cons.prems bit_le_word_end [of bs n] by (cases "n < 24") (auto simp: bit_simps)
  qed
  finally have w: "(crc_bit ^^ 8) ?w = le_word bs" .
  have "foldl crc_step c (b # bs) = (crc_bit ^^ (8 * length bs)) ((crc_bit ^^ 8) (c XOR ucast b) XOR (crc_bit ^^ 8) ?w)"
    using Cons.IH [of "crc_step c b"] Cons.prems by (simp add: crc_step_bits [of c b] w)
  also have "\<dots> = (crc_bit ^^ (8 * length bs + 8)) (c XOR ucast b XOR ?w)"
    by (simp only: crc_bits_xor [symmetric] funpow_add o_apply xor.assoc)
  finally show ?case by (simp add: ac_simps)
qed simp

lemma le_word_inj: "length a = length b \<Longrightarrow> length a \<le> 4 \<Longrightarrow> le_word a = le_word b \<Longrightarrow> a = b"
proof (induction a b rule: list_induct2)
  case (Cons x xs y ys)
  have bits: "bit (ucast x XOR push_bit 8 (le_word xs) :: u32) n = bit (ucast y XOR push_bit 8 (le_word ys)) n" for n
    using Cons.prems by simp
  have "bit x n = bit y n" if "n < 8" for n
    using bits [of n] that by (simp add: bit_simps)
  then have "x = y" by (intro bit_eqI) simp
  moreover have "bit (le_word xs) n = bit (le_word ys) n" for n
  proof (cases "n < 24")
    case True
    then show ?thesis
      using bits [of "n + 8"] bit_imp_le_length [of x "n + 8"] bit_imp_le_length [of y "n + 8"]
      by (simp add: bit_simps) argo
  next
    case False
    then show ?thesis using Cons.prems(1) Cons.hyps bit_le_word_end [of xs n] bit_le_word_end [of ys n] by simp
  qed
  then have "le_word xs = le_word ys" by (intro bit_eqI)
  ultimately show ?case using Cons by simp
qed simp

section \<open>What the checksum guarantees\<close>

text \<open>C32: \<open>ssh_crc32\<close>, which works a byte at a time through its table of 256 numbers, computes the
  checksum defined bit by bit as the remainder by the polynomial \<open>0xedb88320\<close>, for every buffer.\<close>

theorem ssh_crc32_reference: "ssh_crc32 buf = crc_ref buf"
  by (rule crc_eq_ref)

text \<open>C33: two packets of the same length that differ only within four consecutive bytes never have
  the same checksum. Beyond that the checksum is linear: the checksum of the bitwise difference
  of two packets is the difference of their checksums, so that a change of a packet can always be
  compensated, whatever the packet is.\<close>

theorem ssh_crc32_burst:
  assumes "length v = length w" "length w \<le> 4" "v \<noteq> w" "length x = length y"
  shows "ssh_crc32 (pre @ v @ post) \<noteq> ssh_crc32 (pre @ w @ post) \<and>
    ssh_crc32 (map2 (XOR) x y) = ssh_crc32 x XOR ssh_crc32 y"
proof
  show "ssh_crc32 (pre @ v @ post) \<noteq> ssh_crc32 (pre @ w @ post)"
  proof
    assume "ssh_crc32 (pre @ v @ post) = ssh_crc32 (pre @ w @ post)"
    then have "foldl crc_step (foldl crc_step 0 pre) v = foldl crc_step (foldl crc_step 0 pre) w"
      by (auto simp: ssh_crc32_def dest: crc_fold_inj)
    then have "foldl crc_step 0 pre XOR le_word v = foldl crc_step 0 pre XOR le_word w"
      using assms by (auto simp: crc_fold_word dest: crc_bits_inj)
    then have "le_word v = le_word w"
      by (intro xor_cancel [of "le_word v" "foldl crc_step 0 pre" "le_word w"]) (simp only: xor.commute)
    then show False using assms le_word_inj [of v w] by simp
  qed
  show "ssh_crc32 (map2 (XOR) x y) = ssh_crc32 x XOR ssh_crc32 y"
    using crc_fold_xor [of x y 0 0] assms(4) by (simp add: ssh_crc32_def)
qed

theorem ssh_crc32_burst_witness:
  "ssh_crc32 ([1, 2] @ [3, 4] @ [5]) \<noteq> ssh_crc32 ([1, 2] @ [3, 5] @ [5]) \<and>
    ssh_crc32 (map2 (XOR) [1] [2]) = ssh_crc32 [1] XOR ssh_crc32 [2]"
  by (rule ssh_crc32_burst) simp_all

end
