(* ===== verification/Deattack.thy ===== *)
theory Deattack
  imports Crc32
begin

text \<open>
  The detector of the attack on the checksum, \<open>ssh/deattack.c\<close>: the search for blocks that occur
  twice in a packet, through a hash table with linear probing, and its equivalence with the plain
  search.
\<close>

section \<open>The code\<close>

definition MAX_IDENTICAL :: nat where "MAX_IDENTICAL = 32"
definition SSH_MAXBLOCKS :: nat where "SSH_MAXBLOCKS = 32 * 1024"
definition SSH_BLOCKSIZE :: nat where "SSH_BLOCKSIZE = 8"
definition HASH_MINSIZE :: nat where "HASH_MINSIZE = 8 * 1024"
definition HASH_ENTRYSIZE :: nat where "HASH_ENTRYSIZE = 2"
definition HASH_FACTOR :: "nat \<Rightarrow> nat" where "HASH_FACTOR x = x * 3 div 2"
definition HASH_UNUSED :: u16 where "HASH_UNUSED = 0xffff"
definition HASH_MINBLOCKS :: nat where "HASH_MINBLOCKS = 7 * SSH_BLOCKSIZE"

lemmas deattack_consts =
  MAX_IDENTICAL_def SSH_MAXBLOCKS_def SSH_BLOCKSIZE_def HASH_MINSIZE_def HASH_ENTRYSIZE_def HASH_FACTOR_def
  HASH_MINBLOCKS_def

datatype deattack_result = DEATTACK_OK | DEATTACK_DETECTED | DEATTACK_DOS_DETECTED | DEATTACK_ERROR

record deattack_ctx =
  da_h :: "u16 list option"
  da_n :: nat

definition deattack_init :: deattack_ctx where
  "deattack_init = \<lparr>da_h = None, da_n = HASH_MINSIZE div HASH_ENTRYSIZE\<rparr>"

text \<open>The 8 bytes at \<open>buf + k * SSH_BLOCKSIZE\<close>, and the hash of a block reduced to \<open>n\<close> slots.\<close>

definition blk :: "byte list \<Rightarrow> nat \<Rightarrow> byte list" where
  "blk buf k = take SSH_BLOCKSIZE (drop (k * SSH_BLOCKSIZE) buf)"

definition hash_slot :: "nat \<Rightarrow> byte list \<Rightarrow> nat" where
  "hash_slot n c = unat (PEEK_U32 c AND of_nat (n - 1))"

text \<open>\<open>ssh_crc32\<close> on the four bytes of a number in memory, least significant first.\<close>

definition crc_update :: "u32 \<Rightarrow> u32 \<Rightarrow> u32" where
  "crc_update a b =
     (let x = b XOR a in ssh_crc32 [ucast x, ucast (drop_bit 8 x), ucast (drop_bit 16 x), ucast (drop_bit 24 x)])"

definition check_crc :: "byte list \<Rightarrow> byte list \<Rightarrow> bool" where
  "check_crc S buf =
     (foldl (\<lambda>crc k. crc_update (crc_update crc (if S = blk buf k then 1 else 0)) 0) 0
        [0..<length buf div SSH_BLOCKSIZE] = 0)"

text \<open>The size of the table: \<open>None\<close> when the loop never ends.\<close>

function table_size :: "nat \<Rightarrow> nat \<Rightarrow> nat option" where
  "table_size l need = (if need \<le> l then Some l else if l = 0 then None else table_size (4 * l) need)"
  by auto
termination by (relation "measure (\<lambda>(l, need). need - l)") auto

declare table_size.simps [simp del]

text \<open>The inner loop of the short packets: the first earlier block that is the same.\<close>

fun small_inner :: "byte list \<Rightarrow> nat \<Rightarrow> nat list \<Rightarrow> bool" where
  "small_inner buf k [] = False"
| "small_inner buf k (d # ds) =
     (if blk buf k = blk buf d then check_crc (blk buf k) buf else small_inner buf k ds)"

fun small_loop :: "byte list \<Rightarrow> nat list \<Rightarrow> deattack_result" where
  "small_loop buf [] = DEATTACK_OK"
| "small_loop buf (k # ks) =
     (if small_inner buf k [0..<k] then DEATTACK_DETECTED else small_loop buf ks)"

text \<open>
  The probing loop: the slot it stops at and whether it stopped at an equal block. A full table
  without the block is probed forever.
\<close>

partial_function (option) probe :: "u16 list \<Rightarrow> byte list \<Rightarrow> byte list \<Rightarrow> nat \<Rightarrow> (nat \<times> bool) option" where
  "probe h buf c i =
     (if h ! i = HASH_UNUSED then Some (i, False)
      else if c = blk buf (unat (h ! i)) then Some (i, True)
      else probe h buf c (unat (of_nat (i + 1) AND of_nat (length h - 1) :: u32)))"

fun hash_loop :: "byte list \<Rightarrow> nat list \<Rightarrow> nat \<Rightarrow> u16 list \<Rightarrow> (deattack_result \<times> u16 list) option" where
  "hash_loop buf [] same h = Some (DEATTACK_OK, h)"
| "hash_loop buf (j # js) same h =
     (case probe h buf (blk buf j) (hash_slot (length h) (blk buf j)) of
        None \<Rightarrow> None
      | Some (i, found) \<Rightarrow>
          if found \<and> MAX_IDENTICAL < same + 1 then Some (DEATTACK_DOS_DETECTED, h)
          else if found \<and> check_crc (blk buf j) buf then Some (DEATTACK_DETECTED, h)
          else hash_loop buf js (if found then same + 1 else same) (h[i := of_nat j]))"

text \<open>
  \<open>detect_attack\<close> on the \<open>len\<close> bytes of \<open>buf\<close>; \<open>None\<close> when it does not return. The allocator is
  asked for the table when there is none and when it has to grow.
\<close>

definition detect_attack :: "allocator \<Rightarrow> byte list \<Rightarrow> deattack_ctx \<Rightarrow> (deattack_result \<times> deattack_ctx) option" where
  "detect_attack am buf dctx =
     (let len = length buf; blocks = [0..<len div SSH_BLOCKSIZE] in
      if len > SSH_MAXBLOCKS * SSH_BLOCKSIZE \<or> len mod SSH_BLOCKSIZE \<noteq> 0 then Some (DEATTACK_ERROR, dctx)
      else case table_size (da_n dctx) (HASH_FACTOR (len div SSH_BLOCKSIZE)) of None \<Rightarrow> None
      | Some l \<Rightarrow>
          let grow = (da_h dctx = None \<or> l > da_n dctx) in
          if grow \<and> am (l * HASH_ENTRYSIZE) = None then Some (DEATTACK_ERROR, dctx\<lparr>da_h := None\<rparr>)
          else
            let n = (if grow then l else da_n dctx);
                h = (if grow then replicate l 0 else the (da_h dctx));
                dctx1 = \<lparr>da_h = Some h, da_n = n\<rparr>
            in if len \<le> HASH_MINBLOCKS then Some (small_loop buf blocks, dctx1)
               else case hash_loop buf blocks 0 (replicate n HASH_UNUSED) of
                      None \<Rightarrow> None
                    | Some (r, h') \<Rightarrow> Some (r, dctx1\<lparr>da_h := Some h'\<rparr>))"

section \<open>The plain search\<close>

text \<open>
  The reference: a block that occurred earlier in the packet counts as identical; too many of them
  are a denial of service, and one of them that fits the pattern is an attack.
\<close>

fun scan :: "byte list \<Rightarrow> nat list \<Rightarrow> nat \<Rightarrow> deattack_result" where
  "scan buf [] same = DEATTACK_OK"
| "scan buf (j # js) same =
     (if blk buf j \<in> blk buf ` set [0..<j] then
        if MAX_IDENTICAL < same + 1 then DEATTACK_DOS_DETECTED
        else if check_crc (blk buf j) buf then DEATTACK_DETECTED
        else scan buf js (same + 1)
      else scan buf js same)"

lemma small_inner_iff:
  "small_inner buf k ds \<longleftrightarrow> blk buf k \<in> blk buf ` set ds \<and> check_crc (blk buf k) buf"
  by (induction ds) auto

lemma small_loop_scan: "same + length ks \<le> MAX_IDENTICAL \<Longrightarrow> small_loop buf ks = scan buf ks same"
proof (induction ks arbitrary: same)
  case (Cons k ks)
  then have "small_loop buf ks = scan buf ks same" "small_loop buf ks = scan buf ks (same + 1)"
    using Cons.IH [of same] Cons.IH [of "same + 1"] by simp_all
  then show ?case using Cons.prems by (auto simp: small_inner_iff)
qed simp

section \<open>Linear probing\<close>

text \<open>A mask of a power of two less one is a remainder.\<close>

lemma unat_mask: "p \<le> 31 \<Longrightarrow> unat (w AND of_nat (2 ^ p - 1) :: u32) = unat w mod 2 ^ p"
proof -
  assume p: "p \<le> 31"
  have "of_nat (2 ^ p - 1) = (mask p :: u32)" by (simp add: mask_eq_exp_minus_1)
  then have "w AND of_nat (2 ^ p - 1) = take_bit p w" by (simp add: take_bit_eq_mask)
  moreover have "unat (take_bit p w) = take_bit p (unat w)" by (rule unsigned_take_bit_eq)
  ultimately show ?thesis by (simp only: take_bit_eq_mod [of p "unat w"])
qed

definition stops :: "u16 list \<Rightarrow> byte list \<Rightarrow> byte list \<Rightarrow> nat \<Rightarrow> bool" where
  "stops h buf c i \<longleftrightarrow> h ! i = HASH_UNUSED \<or> c = blk buf (unat (h ! i))"

lemma probe_steps:
  assumes "length h = 2 ^ p" "p \<le> 31" "i < 2 ^ p"
    "\<forall>m<k. \<not> stops h buf c ((i + m) mod 2 ^ p)" "stops h buf c ((i + k) mod 2 ^ p)"
  shows "probe h buf c i = Some ((i + k) mod 2 ^ p, h ! ((i + k) mod 2 ^ p) \<noteq> HASH_UNUSED)"
  using assms(3-5)
proof (induction k arbitrary: i)
  case 0
  then show ?case by (subst probe.simps) (auto simp: stops_def)
next
  case (Suc k)
  let ?i = "(i + 1) mod 2 ^ p"
  have "i + 1 < 2 ^ 32" using Suc.prems(1) assms(2) power_increasing [of p 31 "2 :: nat"] by simp
  then have "unat (of_nat (i + 1) :: u32) = i + 1" by (simp only: unat_of_nat) simp
  then have step: "unat (of_nat (i + 1) AND of_nat (length h - 1) :: u32) = ?i"
    using unat_mask [OF assms(2), of "of_nat (i + 1)"] assms(1) by (simp only:)
  have shift: "(?i + m) mod 2 ^ p = (i + Suc m) mod 2 ^ p" for m
    by (simp add: mod_add_left_eq)
  have "\<not> stops h buf c i" using Suc.prems(2) spec [OF Suc.prems(2), of 0] Suc.prems(1) by simp
  moreover have "\<forall>m<k. \<not> stops h buf c ((?i + m) mod 2 ^ p)"
    using Suc.prems(2) by (simp only: shift) auto
  moreover have "stops h buf c ((?i + k) mod 2 ^ p)" using Suc.prems(3) by (simp only: shift)
  ultimately have "probe h buf c ?i = Some ((?i + k) mod 2 ^ p, h ! ((?i + k) mod 2 ^ p) \<noteq> HASH_UNUSED)"
    by (intro Suc.IH) simp_all
  then show ?case
    using \<open>\<not> stops h buf c i\<close> by (subst probe.simps) (simp only: stops_def de_Morgan_disj step shift if_False)
qed

text \<open>
  The table after the blocks below \<open>j\<close>: every entry is the number of an earlier block, every
  earlier block is found before a free slot, and at most \<open>j\<close> slots are in use.
\<close>

definition slot_of :: "nat \<Rightarrow> byte list \<Rightarrow> nat" where
  "slot_of p c = unat (PEEK_U32 c) mod 2 ^ p"

definition found_at :: "nat \<Rightarrow> u16 list \<Rightarrow> byte list \<Rightarrow> byte list \<Rightarrow> nat \<Rightarrow> bool" where
  "found_at p h buf c d \<longleftrightarrow> (\<forall>m\<le>d. h ! ((slot_of p c + m) mod 2 ^ p) \<noteq> HASH_UNUSED) \<and>
     blk buf (unat (h ! ((slot_of p c + d) mod 2 ^ p))) = c"

definition table_inv :: "nat \<Rightarrow> byte list \<Rightarrow> nat \<Rightarrow> u16 list \<Rightarrow> bool" where
  "table_inv p buf j h \<longleftrightarrow> length h = 2 ^ p \<and>
     (\<forall>i<2 ^ p. h ! i \<noteq> HASH_UNUSED \<longrightarrow> unat (h ! i) < j) \<and>
     (\<forall>k<j. \<exists>d. found_at p h buf (blk buf k) d) \<and>
     card {i. i < 2 ^ p \<and> h ! i \<noteq> HASH_UNUSED} \<le> j"

lemma table_inv_empty: "table_inv p buf 0 (replicate (2 ^ p) HASH_UNUSED)"
proof -
  have "{i. i < 2 ^ p \<and> replicate (2 ^ p) HASH_UNUSED ! i \<noteq> HASH_UNUSED} = {}" by auto
  then show ?thesis by (simp add: table_inv_def)
qed

lemma free_slot:
  assumes "table_inv p buf j h" "j < 2 ^ p"
  obtains k where "h ! ((s + k) mod 2 ^ p) = HASH_UNUSED"
proof -
  have "\<exists>i<2 ^ p. h ! i = HASH_UNUSED"
  proof (rule ccontr)
    assume "\<not> ?thesis"
    then have "{i. i < 2 ^ p \<and> h ! i \<noteq> HASH_UNUSED} = {..<2 ^ p}" by auto
    then show False using assms by (simp add: table_inv_def)
  qed
  then obtain i where i: "i < 2 ^ p" "h ! i = HASH_UNUSED" by blast
  have "(s + (i + (2 ^ p - s mod 2 ^ p))) mod 2 ^ p = (s mod 2 ^ p + (i + (2 ^ p - s mod 2 ^ p))) mod 2 ^ p"
    by (simp add: mod_add_left_eq)
  also have "s mod 2 ^ p + (i + (2 ^ p - s mod 2 ^ p)) = i + 2 ^ p"
  proof -
    have "s mod 2 ^ p < 2 ^ p" by simp
    then show ?thesis by linarith
  qed
  finally have "(s + (i + (2 ^ p - s mod 2 ^ p))) mod 2 ^ p = i" using i(1) by simp
  then show thesis using that [of "i + (2 ^ p - s mod 2 ^ p)"] i(2) by simp
qed

text \<open>The probe ends, and it ends at an equal block exactly when there was one before.\<close>

lemma probe_result:
  assumes inv: "table_inv p buf j h" and "j < 2 ^ p" "p \<le> 31"
  obtains k where
    "probe h buf c (slot_of p c) =
       Some ((slot_of p c + k) mod 2 ^ p, c \<in> blk buf ` set [0..<j])"
    "h ! ((slot_of p c + k) mod 2 ^ p) \<noteq> HASH_UNUSED \<Longrightarrow> blk buf (unat (h ! ((slot_of p c + k) mod 2 ^ p))) = c"
    "h ! ((slot_of p c + k) mod 2 ^ p) \<noteq> HASH_UNUSED \<longleftrightarrow> c \<in> blk buf ` set [0..<j]"
    "\<forall>m<k. h ! ((slot_of p c + m) mod 2 ^ p) \<noteq> HASH_UNUSED"
proof -
  let ?at = "\<lambda>k. (slot_of p c + k) mod 2 ^ p"
  obtain k0 where "h ! ?at k0 = HASH_UNUSED" by (rule free_slot [OF inv assms(2)])
  then have ex: "\<exists>k. stops h buf c (?at k)" by (auto simp: stops_def)
  define k where "k = (LEAST k. stops h buf c (?at k))"
  have k: "stops h buf c (?at k)" unfolding k_def by (rule LeastI_ex [OF ex])
  have least: "\<forall>m<k. \<not> stops h buf c (?at m)" unfolding k_def by (auto dest: not_less_Least)
  have used: "h ! ?at k \<noteq> HASH_UNUSED \<longleftrightarrow> c \<in> blk buf ` set [0..<j]"
  proof
    assume "h ! ?at k \<noteq> HASH_UNUSED"
    then have "unat (h ! ?at k) < j" "c = blk buf (unat (h ! ?at k))"
      using inv k by (auto simp: table_inv_def stops_def)
    then show "c \<in> blk buf ` set [0..<j]" by auto
  next
    assume "c \<in> blk buf ` set [0..<j]"
    then obtain d where d: "found_at p h buf c d" using inv by (auto simp: table_inv_def)
    then have "stops h buf c (?at d)" by (simp add: found_at_def stops_def)
    then have "k \<le> d" unfolding k_def by (rule Least_le)
    then show "h ! ?at k \<noteq> HASH_UNUSED" using d by (simp add: found_at_def)
  qed
  show thesis
  proof (rule that [of k])
    show "probe h buf c (slot_of p c) = Some (?at k, c \<in> blk buf ` set [0..<j])"
      using probe_steps [OF _ assms(3) _ least k] inv used by (simp add: table_inv_def slot_of_def)
  qed (use k least used in \<open>auto simp: stops_def\<close>)
qed

lemma found_at_update:
  assumes "found_at p h buf c d" "length h = 2 ^ p" "i < 2 ^ p" "x \<noteq> HASH_UNUSED"
    "h ! i \<noteq> HASH_UNUSED \<Longrightarrow> blk buf (unat (h ! i)) = blk buf (unat x)"
  shows "found_at p (h[i := x]) buf c d"
  using assms by (auto simp: found_at_def nth_list_update)

lemma table_inv_insert:
  assumes inv: "table_inv p buf j h" and j: "j < 2 ^ p" "j < 0xffff" and p: "p \<le> 31"
    and probe: "probe h buf (blk buf j) (slot_of p (blk buf j)) = Some (i, found)"
  shows "table_inv p buf (j + 1) (h[i := of_nat j]) \<and> found = (blk buf j \<in> blk buf ` set [0..<j])"
proof -
  let ?c = "blk buf j" and ?h = "h[i := of_nat j :: u16]"
  obtain k where k: "probe h buf ?c (slot_of p ?c) = Some ((slot_of p ?c + k) mod 2 ^ p, ?c \<in> blk buf ` set [0..<j])"
    "h ! ((slot_of p ?c + k) mod 2 ^ p) \<noteq> HASH_UNUSED \<Longrightarrow> blk buf (unat (h ! ((slot_of p ?c + k) mod 2 ^ p))) = ?c"
    "\<forall>m<k. h ! ((slot_of p ?c + m) mod 2 ^ p) \<noteq> HASH_UNUSED"
    using probe_result [OF inv j(1) p, of ?c] by metis
  have i: "i = (slot_of p ?c + k) mod 2 ^ p" "i < 2 ^ p" using probe k(1) by auto
  have len: "length h = 2 ^ p" using inv by (simp add: table_inv_def)
  have u: "unat (of_nat j :: u16) = j" using j(2) by (simp add: unsigned_of_nat take_bit_nat_eq_self)
  have x: "(of_nat j :: u16) \<noteq> HASH_UNUSED"
  proof
    assume "of_nat j = HASH_UNUSED"
    then have "j = unat HASH_UNUSED" using u by simp
    then show False using j(2) by (simp add: HASH_UNUSED_def)
  qed
  have same: "h ! i \<noteq> HASH_UNUSED \<Longrightarrow> blk buf (unat (h ! i)) = blk buf (unat (of_nat j :: u16))"
    using k(2) i(1) u by simp
  have "found_at p ?h buf ?c k"
    using k(3) i len x u by (auto simp: found_at_def nth_list_update le_less)
  then have "\<exists>d. found_at p ?h buf (blk buf m) d" if "m < j + 1" for m
  proof (cases "m = j")
    case False
    then have "m < j" using that by simp
    then obtain d where "found_at p h buf (blk buf m) d" using inv unfolding table_inv_def by blast
    then show ?thesis using found_at_update [OF _ len i(2) x same] by blast
  qed auto
  moreover have "card {l. l < 2 ^ p \<and> ?h ! l \<noteq> HASH_UNUSED} \<le> j + 1"
  proof -
    have "{l. l < 2 ^ p \<and> ?h ! l \<noteq> HASH_UNUSED} \<subseteq> insert i {l. l < 2 ^ p \<and> h ! l \<noteq> HASH_UNUSED}"
      using len by (auto simp: nth_list_update split: if_splits)
    then have "card {l. l < 2 ^ p \<and> ?h ! l \<noteq> HASH_UNUSED} \<le> card (insert i {l. l < 2 ^ p \<and> h ! l \<noteq> HASH_UNUSED})"
      by (intro card_mono) auto
    also have "\<dots> \<le> j + 1" using inv card_insert_le_m1 [of "j + 1"] by (simp add: table_inv_def card_insert_if)
    finally show ?thesis .
  qed
  moreover have "\<forall>l<2 ^ p. ?h ! l \<noteq> HASH_UNUSED \<longrightarrow> unat (?h ! l) < j + 1"
    using inv len u i(2) by (auto simp: table_inv_def nth_list_update less_Suc_eq split: if_splits)
  ultimately show ?thesis using len probe k(1) by (auto simp: table_inv_def)
qed

lemma hash_slot_eq: "p \<le> 31 \<Longrightarrow> hash_slot (2 ^ p) c = slot_of p c"
  by (simp only: hash_slot_def slot_of_def unat_mask)

lemma hash_loop_scan:
  assumes "p \<le> 31" "m \<le> 2 ^ p" "m \<le> 0xffff"
  shows "table_inv p buf j h \<Longrightarrow> j \<le> m \<Longrightarrow>
    \<exists>h'. hash_loop buf [j..<m] same h = Some (scan buf [j..<m] same, h') \<and> length h' = 2 ^ p"
proof (induction "m - j" arbitrary: j h same)
  case 0
  then show ?case by (simp add: table_inv_def)
next
  case (Suc x)
  then have j: "j < m" "j < 2 ^ p" "j < 0xffff" using assms by linarith+
  have len: "length h = 2 ^ p" using Suc.prems by (simp add: table_inv_def)
  obtain i where pr: "probe h buf (blk buf j) (slot_of p (blk buf j)) = Some (i, blk buf j \<in> blk buf ` set [0..<j])"
    using probe_result [OF Suc.prems(1) j(2) assms(1)] by metis
  then have next_inv: "table_inv p buf (j + 1) (h[i := of_nat j])"
    using table_inv_insert [OF Suc.prems(1) j(2,3) assms(1)] by blast
  have "\<exists>h'. hash_loop buf [j + 1..<m] same' (h[i := of_nat j]) = Some (scan buf [j + 1..<m] same', h') \<and> length h' = 2 ^ p" for same'
    using Suc.hyps(2) j(1) by (intro Suc.hyps(1) next_inv) simp_all
  moreover have "[j..<m] = j # [j + 1..<m]" using j(1) by (simp add: upt_conv_Cons)
  ultimately show ?case using pr len by (auto simp: hash_slot_eq [OF assms(1)] simp del: upt_Suc set_upt)
qed

section \<open>The detector is the plain search\<close>

text \<open>The contexts the detector is called with: those it leaves behind, starting with a new one.\<close>

definition deattack_ok :: "deattack_ctx \<Rightarrow> bool" where
  "deattack_ok dctx \<longleftrightarrow> da_n dctx \<in> {2 ^ 12, 2 ^ 14, 2 ^ 16}"

lemma deattack_init_ok: "deattack_ok deattack_init"
  by (simp add: deattack_ok_def deattack_init_def deattack_consts)

lemma table_size_ok:
  assumes "l \<in> {2 ^ 12, 2 ^ 14, 2 ^ 16}" "m \<le> SSH_MAXBLOCKS"
  shows "\<exists>n. table_size l (HASH_FACTOR m) = Some n \<and> n \<in> {2 ^ 12, 2 ^ 14, 2 ^ 16} \<and> m \<le> n \<and> l \<le> n"
proof -
  have f: "HASH_FACTOR m \<le> 49152" "m \<le> HASH_FACTOR m" using assms(2) by (simp_all add: deattack_consts)
  have t16: "table_size 65536 (HASH_FACTOR m) = Some 65536" using f by (simp add: table_size.simps)
  then have t14: "table_size 16384 (HASH_FACTOR m) = Some (if HASH_FACTOR m \<le> 16384 then 16384 else 65536)"
    by (subst table_size.simps) simp
  then have t12: "table_size 4096 (HASH_FACTOR m) =
      Some (if HASH_FACTOR m \<le> 4096 then 4096 else if HASH_FACTOR m \<le> 16384 then 16384 else 65536)"
    by (subst table_size.simps) simp
  show ?thesis using assms(1) t12 t14 t16 f by (auto split: if_splits)
qed

text \<open>C15: on every packet of up to 32768 blocks of 8 bytes \<open>detect_attack\<close> returns, and what it
  returns is what the plain search over all pairs of blocks gives: the hash table finds a block
  exactly when it occurred before, so that no identical block escapes the check for the attack
  pattern and none is counted that is not there. Without memory for a new table it reports an error.\<close>

theorem detect_attack_correct:
  assumes "deattack_ok dctx" "length buf \<le> SSH_MAXBLOCKS * SSH_BLOCKSIZE" "length buf mod SSH_BLOCKSIZE = 0"
  shows "\<exists>r dctx'. detect_attack am buf dctx = Some (r, dctx') \<and> deattack_ok dctx' \<and>
    ((\<forall>n. am n \<noteq> None) \<longrightarrow> r = scan buf [0..<length buf div SSH_BLOCKSIZE] 0) \<and>
    (r \<noteq> scan buf [0..<length buf div SSH_BLOCKSIZE] 0 \<longrightarrow> r = DEATTACK_ERROR)"
proof -
  let ?m = "length buf div SSH_BLOCKSIZE"
  have m: "?m \<le> SSH_MAXBLOCKS" using assms(2) by (simp add: SSH_BLOCKSIZE_def SSH_MAXBLOCKS_def)
  obtain n where n: "table_size (da_n dctx) (HASH_FACTOR ?m) = Some n" "n \<in> {2 ^ 12, 2 ^ 14, 2 ^ 16}" "?m \<le> n" "da_n dctx \<le> n"
    using table_size_ok [OF _ m] assms(1) unfolding deattack_ok_def by blast
  then have "n = 2 ^ 12 \<or> n = 2 ^ 14 \<or> n = 2 ^ 16" by blast
  then have "\<exists>p\<le>31. n = 2 ^ p"
    by (elim disjE) (rule exI [of _ 12], simp, rule exI [of _ 14], simp, rule exI [of _ 16], simp)
  then obtain p where p: "n = 2 ^ p" "p \<le> 31" by blast
  have grow: "(if da_h dctx = None \<or> da_n dctx < n then n else da_n dctx) = n" using n(4) by auto
  have small: "length buf \<le> HASH_MINBLOCKS \<Longrightarrow> small_loop buf [0..<?m] = scan buf [0..<?m] 0"
    by (intro small_loop_scan) (simp add: deattack_consts)
  have "?m \<le> 0xffff" using m by (simp add: SSH_MAXBLOCKS_def)
  from hash_loop_scan [OF p(2) n(3) [unfolded p(1)] this table_inv_empty]
  obtain h' where h: "hash_loop buf [0..<?m] 0 (replicate n HASH_UNUSED) = Some (scan buf [0..<?m] 0, h')"
    unfolding p(1) by blast
  have ok: "deattack_ok \<lparr>da_h = x, da_n = n\<rparr>" for x using n(2) by (simp add: deattack_ok_def)
  have len: "\<not> (SSH_MAXBLOCKS * SSH_BLOCKSIZE < length buf \<or> length buf mod SSH_BLOCKSIZE \<noteq> 0)" using assms by simp
  show ?thesis
  proof (cases "(da_h dctx = None \<or> da_n dctx < n) \<and> am (n * HASH_ENTRYSIZE) = None")
    case True
    then have "detect_attack am buf dctx = Some (DEATTACK_ERROR, dctx\<lparr>da_h := None\<rparr>)"
      by (simp only: detect_attack_def Let_def len n(1)) simp
    moreover have "\<not> (\<forall>n. am n \<noteq> None)" using True by blast
    moreover have "deattack_ok (dctx\<lparr>da_h := None\<rparr>)" using assms(1) by (simp add: deattack_ok_def)
    ultimately show ?thesis by blast
  next
    case False
    then have mem: "((da_h dctx = None \<or> da_n dctx < n) \<and> am (n * HASH_ENTRYSIZE) = None) = False" by blast
    have "\<exists>x. detect_attack am buf dctx = Some (scan buf [0..<?m] 0, \<lparr>da_h = x, da_n = n\<rparr>)"
      by (cases "length buf \<le> HASH_MINBLOCKS")
        (simp_all only: detect_attack_def Let_def len n(1) option.case mem grow if_True if_False small h prod.case, auto)
    then show ?thesis using ok by blast
  qed
qed

theorem detect_attack_correct_witness:
  "\<exists>r dctx'. detect_attack alloc_zero (replicate 16 7) deattack_init = Some (r, dctx') \<and> deattack_ok dctx' \<and>
    r = scan (replicate 16 7) [0..<length (replicate 16 (7 :: byte)) div SSH_BLOCKSIZE] 0"
  using detect_attack_correct [of deattack_init "replicate 16 7" alloc_zero, OF deattack_init_ok]
  by (auto simp: deattack_consts alloc_zero_def)

end
