(* ===== verification/Sshbuf_Wire.thy ===== *)
theory Sshbuf_Wire
  imports Sshbuf_Crypto
begin

text \<open>
  Calculus for the functions that write or read many fields: \<open>writes\<close> says that a chain
  of writes succeeds where there is room and what it adds to the buffer, \<open>reads\<close> that a chain of reads returns a value from the bytes that
  encode it, and \<open>takes\<close> what a chain of reads consumes of arbitrary bytes. The rules follow the
  structure of the code; the fields come from the locale of wire fields.
\<close>

named_theorems writes_rules \<open>what writing functions append\<close>
named_theorems reads_rules \<open>what reading functions return\<close>
named_theorems takes_rules \<open>what reading functions consume\<close>

section \<open>Buffers with room\<close>

definition ready :: "sshbuf \<Rightarrow> bool" where
  "ready b \<longleftrightarrow> sshbuf_wf b \<and> sshbuf_writable b \<and> sb_max_size b = SSHBUF_SIZE_MAX"

lemma ready_wf: "ready b \<Longrightarrow> sshbuf_wf b"
  by (simp add: ready_def)

lemma ready_frame: "ready b \<Longrightarrow> sshbuf_wf b' \<Longrightarrow> same_frame b b' \<Longrightarrow> ready b'"
  using same_frame_writable [of b b'] same_frame_max [of b b'] by (simp add: ready_def)

lemma ready_new: "sshbuf_new am = Some b \<Longrightarrow> ready b \<and> contents b = []"
  using new_wf [of am b] by (simp add: ready_def)

lemma new_total: "\<forall>n. am n \<noteq> None \<Longrightarrow> \<exists>b. sshbuf_new am = Some b"
proof -
  assume am: "\<forall>n. am n \<noteq> None"
  then obtain f where "am SSHBUF_SIZE_INIT = Some f" by (meson option.exhaust)
  then show ?thesis using am by (simp add: sshbuf_new_def calloc_block_def)
qed

lemma ready_small: "ready b \<Longrightarrow> length (contents b) \<le> SSHBUF_SIZE_MAX"
  using wf_bounds [of b] by (simp add: ready_def)

lemma ready_reset: "ready b \<Longrightarrow> ready (sshbuf_reset am b) \<and> contents (sshbuf_reset am b) = []"
  using reset_contents [of b am] reset_wf [of b am] ready_frame [of b "sshbuf_reset am b"]
  by (simp add: ready_def sshbuf_consts)

section \<open>Writing\<close>

definition writes :: "(ssh_err, sshbuf, unit) action \<Rightarrow> byte list \<Rightarrow> bool" where
  "writes f e \<longleftrightarrow> (\<forall>b. ready b \<longrightarrow> length (contents b) + length e \<le> SSHBUF_SIZE_MAX \<longrightarrow>
     (\<exists>b'. f b = (Inr (), b') \<and> ready b' \<and> contents b' = contents b @ e))"

lemma writesD:
  assumes "writes f e" "ready b" "length (contents b) + length e \<le> SSHBUF_SIZE_MAX"
  obtains b' where "f b = (Inr (), b')" "ready b'" "contents b' = contents b @ e"
  using assms unfolding writes_def by blast

lemma writes_return: "writes (act_return ()) []"
  by (simp add: writes_def act_simps)

lemma writes_seq:
  assumes "writes f e" "writes g e'"
  shows "writes (act_seq f g) (e @ e')"
  unfolding writes_def
proof (intro allI impI)
  fix b assume b: "ready b" "length (contents b) + length (e @ e') \<le> SSHBUF_SIZE_MAX"
  obtain b1 where b1: "f b = (Inr (), b1)" "ready b1" "contents b1 = contents b @ e"
    using writesD [OF assms(1) b(1)] b(2) by (auto simp del: length_contents)
  obtain b2 where "g b1 = (Inr (), b2)" "ready b2" "contents b2 = contents b1 @ e'"
    using writesD [OF assms(2) b1(2)] b(2) b1(3) by (auto simp del: length_contents)
  with b1 show "\<exists>b'. act_seq f g b = (Inr (), b') \<and> ready b' \<and> contents b' = contents b @ e @ e'"
    by (simp add: act_simps)
qed

lemma writes_last: "writes f e \<Longrightarrow> writes (act_seq f (act_return ())) e"
  using writes_seq [OF _ writes_return] by fastforce

lemma writes_fun: "(\<And>b. ready b \<Longrightarrow> length (contents b) + length e \<le> SSHBUF_SIZE_MAX \<Longrightarrow> f b = g b) \<Longrightarrow> writes g e \<Longrightarrow> writes f e"
  by (simp add: writes_def)

lemma writes_put:
  assumes "\<forall>n. am n \<noteq> None"
  shows "writes (sshbuf_put am d) d"
  unfolding writes_def
proof (intro allI impI)
  fix b assume b: "ready b" "length (contents b) + length d \<le> SSHBUF_SIZE_MAX"
  have "fst (sshbuf_put am d b) = Inr ()"
    using put_succeeds [of b d am] assms b by (simp add: ready_def del: length_contents)
  then obtain b' where p: "sshbuf_put am d b = (Inr (), b')" by (metis prod.collapse)
  with put_cases [OF ready_wf [OF b(1)] p] ready_frame [OF b(1)]
  show "\<exists>b'. sshbuf_put am d b = (Inr (), b') \<and> ready b' \<and> contents b' = contents b @ d" by auto
qed

lemma writes_int [writes_rules]:
  assumes "\<forall>n. am n \<noteq> None"
  shows "writes (sshbuf_put_u64 am x) (POKE_U64 x)" "writes (sshbuf_put_u32 am y) (POKE_U32 (ucast y))"
    "writes (sshbuf_put_u8 am w) [w]"
  by (simp_all add: put_int_eq writes_put [OF assms])

lemma writes_string [writes_rules]:
  assumes "\<forall>n. am n \<noteq> None"
  shows "writes (sshbuf_put_string am v) (wire_string v)"
  by (rule writes_fun [OF put_string_eq writes_put [OF assms]])
    (simp_all add: ready_wf SSHBUF_SIZE_MAX_def del: length_contents)

lemma writes_cstring [writes_rules]:
  "\<forall>n. am n \<noteq> None \<Longrightarrow> 0 \<notin> set v \<Longrightarrow> writes (sshbuf_put_cstring am v) (wire_string v)"
  using writes_string [of am v] by (simp add: sshbuf_put_cstring_def)

lemma writes_bignum2 [writes_rules]:
  assumes "\<forall>n. am n \<noteq> None" "bn_lib_ok L" "length (mpint L v) \<le> SSHBUF_MAX_BIGNUM"
  shows "writes (sshbuf_put_bignum2 L am v) (wire_string (mpint L v))"
proof -
  have "length (BN_bn2bin L v) \<le> SSHBUF_MAX_BIGNUM" using assms(3) by (auto simp: mpint_def Let_def split: if_splits)
  then have "sshbuf_put_bignum2 L am v = sshbuf_put_string am (mpint L v)"
    using put_bignum2_cases(2) [of L v am] assms(2) by (auto simp: bn_lib_ok_def BN_num_bytes_def)
  then show ?thesis using writes_string [OF assms(1)] by simp
qed

lemma writes_ec [writes_rules]:
  assumes "\<forall>n. am n \<noteq> None" "EC_ctx_new E" "ec_lib_ok E g q" "EC_oct_len E g q \<le> SSHBUF_MAX_ECPOINT"
  shows "writes (sshbuf_put_ec E am q g) (wire_string (EC_point2oct E g q (EC_oct_len E g q)))"
proof -
  have "sshbuf_put_ec E am q g = sshbuf_put_string am (EC_point2oct E g q (EC_oct_len E g q))"
    using assms by (simp add: sshbuf_put_ec_def ec_lib_ok_def Let_def)
  then show ?thesis using writes_string [OF assms(1)] by simp
qed

lemma writes_list:
  assumes "\<forall>n. am n \<noteq> None" "list_all (\<lambda>v. 0 \<notin> set v) vs"
  shows "writes (act_all (map (sshbuf_put_cstring am) vs)) (concat (map wire_string vs))"
  using assms(2) by (induction vs) (auto intro!: writes_return writes_seq writes_cstring assms(1))

section \<open>Reading what was written\<close>

definition reads :: "(ssh_err, sshbuf, 'a) action \<Rightarrow> byte list \<Rightarrow> 'a \<Rightarrow> bool" where
  "reads f e v \<longleftrightarrow> (\<forall>b rest. sshbuf_wf b \<longrightarrow> contents b = e @ rest \<longrightarrow>
     (\<exists>b'. f b = (Inr v, b') \<and> sshbuf_wf b' \<and> same_frame b b' \<and> contents b' = rest))"

lemma readsD:
  assumes "reads f e v" "sshbuf_wf b" "contents b = e @ rest"
  obtains b' where "f b = (Inr v, b')" "sshbuf_wf b'" "same_frame b b'" "contents b' = rest"
  using assms by (auto simp: reads_def)

lemma reads_return [reads_rules]: "reads (act_return v) [] v"
  by (auto simp: reads_def act_simps same_frame_def)

lemma reads_bind:
  assumes "reads f e v" "reads (g v) e' w"
  shows "reads (act_bind f g) (e @ e') w"
  unfolding reads_def
proof (intro allI impI)
  fix b rest assume wf: "sshbuf_wf b" and c: "contents b = (e @ e') @ rest"
  obtain b1 where b1: "f b = (Inr v, b1)" "sshbuf_wf b1" "same_frame b b1" "contents b1 = e' @ rest"
    using readsD [OF assms(1) wf, of "e' @ rest"] c by auto
  obtain b2 where "g v b1 = (Inr w, b2)" "sshbuf_wf b2" "same_frame b1 b2" "contents b2 = rest"
    using readsD [OF assms(2) b1(2,4)] by auto
  then show "\<exists>b'. act_bind f g b = (Inr w, b') \<and> sshbuf_wf b' \<and> same_frame b b' \<and> contents b' = rest"
    using b1 by (auto simp: act_simps intro: same_frame_trans)
qed

lemma reads_map: "reads f e v \<Longrightarrow> reads (act_bind f (\<lambda>v. act_return (F v))) e (F v)"
  using reads_bind [of f e v "\<lambda>v. act_return (F v)" "[]" "F v"] by (simp add: reads_return)

lemma reads_seq: "reads f e v \<Longrightarrow> reads g e' w \<Longrightarrow> reads (act_seq f g) (e @ e') w"
  by (simp add: act_seq_def reads_bind)

context wire_field
begin

lemma reads_get: "mem \<Longrightarrow> ok v \<Longrightarrow> reads get (enc v) v"
  unfolding reads_def using get_reads by blast

end

lemma reads_u64 [reads_rules]: "reads sshbuf_get_u64 (POKE_U64 v) v"
  by (rule u64_field.reads_get) simp_all

lemma reads_u32 [reads_rules]: "reads sshbuf_get_u32 (POKE_U32 (ucast v)) v"
  by (rule u32_field.reads_get) simp_all

lemma reads_u8 [reads_rules]: "reads sshbuf_get_u8 [v] v"
  by (rule u8_field.reads_get) simp_all

lemma reads_string [reads_rules]: "\<forall>n. am n \<noteq> None \<Longrightarrow> length v < 2 ^ 32 \<Longrightarrow> reads (sshbuf_get_string am) (wire_string v) v"
  by (rule string_field.reads_get)

lemma reads_cstring [reads_rules]:
  "\<forall>n. am n \<noteq> None \<Longrightarrow> 0 \<notin> set v \<Longrightarrow> length v < 2 ^ 32 \<Longrightarrow> reads (sshbuf_get_cstring am) (wire_string v) v"
  using cstring_field.reads_get [of am v] by simp

text \<open>A string that is only skipped.\<close>

lemma reads_skip [reads_rules]:
  assumes "length v < 2 ^ 32" "reads g e' w"
  shows "reads (act_seq sshbuf_get_string_direct g) (wire_string v @ e') w"
  unfolding reads_def
proof (intro allI impI)
  fix b rest assume wf: "sshbuf_wf b" and c: "contents b = (wire_string v @ e') @ rest"
  have len: "wire_len (contents b) = length v" "wire_complete (contents b)"
    using c assms(1) by (simp_all add: wire_len_string wire_complete_string)
  let ?b1 = "advance (4 + length v) b"
  have b1: "sshbuf_wf ?b1" "same_frame b ?b1" "contents ?b1 = e' @ rest"
    using advance [OF wf, of "4 + length v"] c by simp_all
  obtain b2 where "g ?b1 = (Inr w, b2)" "sshbuf_wf b2" "same_frame ?b1 b2" "contents b2 = rest"
    using readsD [OF assms(2) b1(1,3)] by auto
  then show "\<exists>b'. act_seq sshbuf_get_string_direct g b = (Inr w, b') \<and> sshbuf_wf b' \<and> same_frame b b' \<and> contents b' = rest"
    using len b1(2) by (auto simp: act_simps get_string_direct_wf [OF wf] intro: same_frame_trans)
qed

section \<open>Reading anything\<close>

definition takes :: "(ssh_err, sshbuf, 'a) action \<Rightarrow> ('a \<Rightarrow> nat) \<Rightarrow> bool" where
  "takes f n \<longleftrightarrow> (\<forall>b v b'. sshbuf_wf b \<longrightarrow> f b = (Inr v, b') \<longrightarrow>
     sshbuf_wf b' \<and> (\<exists>e. contents b = e @ contents b' \<and> n v \<le> length e))"

lemma takesD:
  assumes "takes f n" "sshbuf_wf b" "f b = (Inr v, b')"
  obtains e where "sshbuf_wf b'" "contents b = e @ contents b'" "n v \<le> length e"
  using assms unfolding takes_def by meson

lemma takes_return [takes_rules]: "n v = 0 \<Longrightarrow> takes (act_return v) n"
  by (auto simp: takes_def act_simps)

lemma takes_fail [takes_rules]: "takes (act_fail x) n"
  by (auto simp: takes_def act_simps)

lemma takes_bind [takes_rules]:
  assumes "takes f m" "\<And>v. takes (g v) (\<lambda>w. n w - m v)"
  shows "takes (act_bind f g) n"
  unfolding takes_def
proof (intro allI impI)
  fix b w b' assume wf: "sshbuf_wf b" and run: "act_bind f g b = (Inr w, b')"
  then obtain v b1 where f: "f b = (Inr v, b1)" and g: "g v b1 = (Inr w, b')"
    by (auto simp: act_simps split: prod.splits sum.splits)
  obtain e where e: "sshbuf_wf b1" "contents b = e @ contents b1" "m v \<le> length e" by (rule takesD [OF assms(1) wf f])
  obtain e' where "sshbuf_wf b'" "contents b1 = e' @ contents b'" "n w - m v \<le> length e'"
    by (rule takesD [OF assms(2) e(1) g])
  with e show "sshbuf_wf b' \<and> (\<exists>e. contents b = e @ contents b' \<and> n w \<le> length e)"
    by (auto intro!: exI [of _ "e @ e'"])
qed

lemma takes_seq [takes_rules]:
  "takes f m \<Longrightarrow> (\<And>v. takes g (\<lambda>w. n w - m v)) \<Longrightarrow> takes (act_seq f g) n"
  unfolding act_seq_def by (rule takes_bind)

lemma takes_mono: "takes f n \<Longrightarrow> (\<And>v. m v \<le> n v) \<Longrightarrow> takes f m"
  unfolding takes_def using order_trans by blast

lemma takes_advance:
  "sshbuf_wf b \<Longrightarrow> k \<le> length (contents b) \<Longrightarrow> n \<le> k \<Longrightarrow>
    sshbuf_wf (advance k b) \<and> (\<exists>e. contents b = e @ contents (advance k b) \<and> n \<le> length e)"
  using advance [of b k] by (intro conjI exI [of _ "take k (contents b)"]) auto

lemma takes_u64 [takes_rules]: "takes sshbuf_get_u64 (\<lambda>_. 8)"
  using takes_advance [of _ 8 8] by (auto simp: takes_def get_int_wf split: if_splits)

lemma takes_u32 [takes_rules]: "takes sshbuf_get_u32 (\<lambda>_. 4)"
  using takes_advance [of _ 4 4] by (auto simp: takes_def get_int_wf split: if_splits)

lemma takes_u8 [takes_rules]: "takes sshbuf_get_u8 (\<lambda>_. 1)"
  using takes_advance [of _ 1 1] by (auto simp: takes_def get_int_wf split: if_splits)

lemma wire_complete_length: "wire_complete c \<Longrightarrow> 4 + wire_len c \<le> length c"
  using wire_complete_split by (simp add: wire_complete_def)

lemma takes_string_advance:
  "sshbuf_wf b \<Longrightarrow> wire_complete (contents b) \<Longrightarrow> n \<le> 4 + wire_len (contents b) \<Longrightarrow>
    b' = advance (4 + wire_len (contents b)) b \<Longrightarrow>
    sshbuf_wf b' \<and> (\<exists>e. contents b = e @ contents b' \<and> n \<le> length e)"
  using takes_advance [of b "4 + wire_len (contents b)" n] wire_complete_length [of "contents b"] by simp

lemma takes_string_direct [takes_rules]: "takes sshbuf_get_string_direct (\<lambda>_. 4)"
  unfolding takes_def
proof (intro allI impI)
  fix b v b' assume wf: "sshbuf_wf b" and run: "sshbuf_get_string_direct b = (Inr v, b')"
  then show "sshbuf_wf b' \<and> (\<exists>e. contents b = e @ contents b' \<and> 4 \<le> length e)"
    by (intro takes_string_advance) (auto simp: get_string_direct_wf split: if_splits)
qed

lemma takes_string [takes_rules]: "takes (sshbuf_get_string am) (\<lambda>v. 4 + length v)"
  unfolding takes_def
proof (intro allI impI)
  fix b v b' assume wf: "sshbuf_wf b" and run: "sshbuf_get_string am b = (Inr v, b')"
  then show "sshbuf_wf b' \<and> (\<exists>e. contents b = e @ contents b' \<and> 4 + length v \<le> length e)"
    by (intro takes_string_advance) (auto simp: get_string_wf Let_def split: if_splits)
qed

lemma takes_cstring [takes_rules]: "takes (sshbuf_get_cstring am) (\<lambda>v. 4 + length v)"
  unfolding takes_def
proof (intro allI impI)
  fix b v b' assume wf: "sshbuf_wf b" and run: "sshbuf_get_cstring am b = (Inr v, b')"
  then show "sshbuf_wf b' \<and> (\<exists>e. contents b = e @ contents b' \<and> 4 + length v \<le> length e)"
    by (intro takes_string_advance) (auto simp: get_cstring_wf Let_def split: if_splits)
qed

end
