(* ===== verification/Packet.thy ===== *)
theory Packet
  imports Cipher_Mac Deattack Sshbuf_Wire
begin

text \<open>
  The packet layer, \<open>ssh/packet.c\<close>: the state of a connection, the assembly, padding, encryption and
  authentication of outgoing packets and the reverse for incoming ones, for both protocol versions,
  the change of keys and the queue of packets that wait for it. The ciphers, digests and zlib are
  parameters; what is only logged is left out.
\<close>

section \<open>Libraries\<close>

datatype z_status = Z_OK | Z_MEM_ERROR | Z_BUF_ERROR | Z_DATA_ERROR | Z_STREAM_ERROR

text \<open>
  zlib over a type of streams. One call of \<open>deflate\<close> or \<open>inflate\<close> is given the input that is left
  and the room for output; it gives its status, the output, the input it has not consumed and the
  stream.
\<close>

record 'z z_lib =
  deflateInit :: "nat \<Rightarrow> 'z \<Rightarrow> z_status \<times> 'z"
  inflateInit :: "'z \<Rightarrow> z_status \<times> 'z"
  deflateEnd :: "'z \<Rightarrow> 'z"
  inflateEnd :: "'z \<Rightarrow> 'z"
  deflate :: "byte list \<Rightarrow> nat \<Rightarrow> 'z \<Rightarrow> z_status \<times> byte list \<times> byte list \<times> 'z"
  inflate :: "byte list \<Rightarrow> nat \<Rightarrow> 'z \<Rightarrow> z_status \<times> byte list \<times> byte list \<times> 'z"

record ('c, 'z) pkt_lib =
  P_evp :: "'c evp_lib"
  P_mac :: mac_lib
  P_z :: "'z z_lib"
  P_am :: allocator

section \<open>State\<close>

record packet_state =
  ps_seqnr :: u32
  ps_packets :: u32
  ps_blocks :: u64
  ps_bytes :: u64

text \<open>
  \<open>struct session_state\<close>, with the pointers \<open>kex\<close> and \<open>compat\<close> of \<open>struct ssh\<close> and the global
  \<open>compat20\<close>. \<open>ss_rng\<close> is what \<open>arc4random_buf\<close> will still give, \<open>ss_now\<close> what \<open>monotime\<close> gives;
  \<open>ss_outgoing\<close> is the queue of packets with their types.
\<close>

record ('c, 'z) ssh =
  ss_connection_in :: int
  ss_connection_out :: int
  ss_remote_protocol_flags :: u32
  ss_receive_context :: "'c cipher_ctx"
  ss_send_context :: "'c cipher_ctx"
  ss_input :: sshbuf
  ss_output :: sshbuf
  ss_outgoing_packet :: sshbuf
  ss_incoming_packet :: sshbuf
  ss_compression_buffer :: "sshbuf option"
  ss_in_stream :: 'z
  ss_out_stream :: 'z
  ss_in_started :: bool
  ss_out_started :: bool
  ss_in_failures :: nat
  ss_out_failures :: nat
  ss_packet_compression :: bool
  ss_max_packet_size :: u32
  ss_interactive_mode :: bool
  ss_server_side :: bool
  ss_after_authentication :: bool
  ss_keep_alive_timeouts :: int
  ss_packet_timeout_ms :: int
  ss_newkeys :: "kex_mode \<Rightarrow> newkeys option"
  ss_p_read :: packet_state
  ss_p_send :: packet_state
  ss_max_blocks_in :: u64
  ss_max_blocks_out :: u64
  ss_rekey_limit :: u32
  ss_rekey_interval :: int
  ss_rekey_time :: int
  ss_ssh1_key :: "byte list"
  ss_extra_pad :: byte
  ss_packet_discard :: u32
  ss_packet_discard_mac :: "sshmac option"
  ss_packlen :: u32
  ss_rekeying :: bool
  ss_set_interactive_called :: bool
  ss_set_maxsize_called :: bool
  ss_cipher_warning_done :: bool
  ss_deattack :: deattack_ctx
  ss_outgoing :: "(byte \<times> sshbuf) list"
  ss_kex :: "kex option"
  ss_compat :: u32
  ss_compat20 :: bool
  ss_rng :: "nat \<Rightarrow> byte"
  ss_now :: int

type_synonym ('c, 'z, 'a) pkt = "(stop, ('c, 'z) ssh, 'a) action"

section \<open>Working on the buffers\<close>

definition rc :: "'a res \<Rightarrow> stop + 'a" where
  "rc r = map_sum Rc id r"

definition on_input :: "(ssh_err, sshbuf, 'a) action \<Rightarrow> ('c, 'z, 'a) pkt" where
  "on_input f s = (case f (ss_input s) of (r, b) \<Rightarrow> (rc r, s\<lparr>ss_input := b\<rparr>))"

definition on_output :: "(ssh_err, sshbuf, 'a) action \<Rightarrow> ('c, 'z, 'a) pkt" where
  "on_output f s = (case f (ss_output s) of (r, b) \<Rightarrow> (rc r, s\<lparr>ss_output := b\<rparr>))"

definition on_outgoing :: "(ssh_err, sshbuf, 'a) action \<Rightarrow> ('c, 'z, 'a) pkt" where
  "on_outgoing f s = (case f (ss_outgoing_packet s) of (r, b) \<Rightarrow> (rc r, s\<lparr>ss_outgoing_packet := b\<rparr>))"

definition on_incoming :: "(ssh_err, sshbuf, 'a) action \<Rightarrow> ('c, 'z, 'a) pkt" where
  "on_incoming f s = (case f (ss_incoming_packet s) of (r, b) \<Rightarrow> (rc r, s\<lparr>ss_incoming_packet := b\<rparr>))"

text \<open>The compression buffer may not have been allocated.\<close>

definition on_compression :: "(ssh_err, sshbuf, 'a) action \<Rightarrow> ('c, 'z, 'a) pkt" where
  "on_compression f s =
     (case ss_compression_buffer s of None \<Rightarrow> (Inl Faults, s)
      | Some cb \<Rightarrow> (case f cb of (r, b) \<Rightarrow> (rc r, s\<lparr>ss_compression_buffer := Some b\<rparr>)))"

definition reset_buf :: "allocator \<Rightarrow> (ssh_err, sshbuf, unit) action" where
  "reset_buf am b = (Inr (), sshbuf_reset am b)"

text \<open>The memory a pointer into a buffer gives access to, up to the end of its block.\<close>

definition mem_at :: "sshbuf \<Rightarrow> byte list" where
  "mem_at b = bytes_at b (sshbuf_ptr b)"

definition arc4random_buf :: "nat \<Rightarrow> (nat \<Rightarrow> byte) \<Rightarrow> byte list \<times> (nat \<Rightarrow> byte)" where
  "arc4random_buf n g = (map g [0..<n], \<lambda>i. g (n + i))"

section \<open>Compression\<close>

definition ssh_packet_init_compression :: "('c, 'z) pkt_lib \<Rightarrow> ('c, 'z, unit) pkt" where
  "ssh_packet_init_compression P s =
     (if ss_compression_buffer s \<noteq> None then (Inr (), s)
      else case sshbuf_new (P_am P) of None \<Rightarrow> (Inl (Rc SSH_ERR_ALLOC_FAIL), s)
           | Some b \<Rightarrow> (Inr (), s\<lparr>ss_compression_buffer := Some b\<rparr>))"

definition z_init_rc :: "z_status \<Rightarrow> stop + unit" where
  "z_init_rc st = (case st of Z_OK \<Rightarrow> Inr () | Z_MEM_ERROR \<Rightarrow> Inl (Rc SSH_ERR_ALLOC_FAIL)
                   | _ \<Rightarrow> Inl (Rc SSH_ERR_INTERNAL_ERROR))"

definition start_compression_out :: "('c, 'z) pkt_lib \<Rightarrow> int \<Rightarrow> ('c, 'z, unit) pkt" where
  "start_compression_out P level s =
     (if level < 1 \<or> 9 < level then (Inl (Rc SSH_ERR_INVALID_ARGUMENT), s)
      else
        let z0 = (if ss_out_started s then deflateEnd (P_z P) (ss_out_stream s) else ss_out_stream s)
        in case deflateInit (P_z P) (nat level) z0 of (st, z) \<Rightarrow>
             (z_init_rc st, s\<lparr>ss_out_stream := z, ss_out_started := (ss_out_started s \<or> st = Z_OK)\<rparr>))"

definition start_compression_in :: "('c, 'z) pkt_lib \<Rightarrow> ('c, 'z, unit) pkt" where
  "start_compression_in P s =
     (let z0 = (if ss_in_started s then inflateEnd (P_z P) (ss_in_stream s) else ss_in_stream s)
      in case inflateInit (P_z P) z0 of (st, z) \<Rightarrow>
           (z_init_rc st, s\<lparr>ss_in_stream := z, ss_in_started := (ss_in_started s \<or> st = Z_OK)\<rparr>))"

definition ssh_packet_start_compression :: "('c, 'z) pkt_lib \<Rightarrow> int \<Rightarrow> ('c, 'z, unit) pkt" where
  "ssh_packet_start_compression P level s =
     (if ss_packet_compression s \<and> \<not> ss_compat20 s then (Inl (Rc SSH_ERR_INTERNAL_ERROR), s)
      else act_all [ssh_packet_init_compression P, start_compression_in P, start_compression_out P level]
             (s\<lparr>ss_packet_compression := True\<rparr>))"

text \<open>
  The loops around \<open>deflate\<close> and \<open>inflate\<close>: the result, whether the failure counter goes up, the
  stream and the output buffer. \<open>None\<close> is a loop that never ends.
\<close>

definition Z_CHUNK :: nat where "Z_CHUNK = 4096"

partial_function (option) deflate_loop ::
  "'z z_lib \<Rightarrow> allocator \<Rightarrow> byte list \<Rightarrow> 'z \<Rightarrow> sshbuf \<Rightarrow> (unit res \<times> bool \<times> 'z \<times> sshbuf) option" where
  "deflate_loop Z am inp z out =
     (case deflate Z inp Z_CHUNK z of (st, buf, rest, z') \<Rightarrow>
        (case st of
           Z_MEM_ERROR \<Rightarrow> Some (Inl SSH_ERR_ALLOC_FAIL, False, z', out)
         | Z_OK \<Rightarrow>
             (case sshbuf_put am buf out of
                (Inl e, out') \<Rightarrow> Some (Inl e, False, z', out')
              | (Inr _, out') \<Rightarrow>
                  if length buf = Z_CHUNK then deflate_loop Z am rest z' out'
                  else Some (Inr (), False, z', out'))
         | _ \<Rightarrow> Some (Inl SSH_ERR_INVALID_FORMAT, True, z', out)))"

partial_function (option) inflate_loop ::
  "'z z_lib \<Rightarrow> allocator \<Rightarrow> byte list \<Rightarrow> 'z \<Rightarrow> sshbuf \<Rightarrow> (unit res \<times> bool \<times> 'z \<times> sshbuf) option" where
  "inflate_loop Z am inp z out =
     (case inflate Z inp Z_CHUNK z of (st, buf, rest, z') \<Rightarrow>
        (case st of
           Z_OK \<Rightarrow>
             (case sshbuf_put am buf out of
                (Inl e, out') \<Rightarrow> Some (Inl e, False, z', out')
              | (Inr _, out') \<Rightarrow> inflate_loop Z am rest z' out')
         | Z_BUF_ERROR \<Rightarrow> Some (Inr (), False, z', out)
         | Z_DATA_ERROR \<Rightarrow> Some (Inl SSH_ERR_INVALID_FORMAT, False, z', out)
         | Z_MEM_ERROR \<Rightarrow> Some (Inl SSH_ERR_ALLOC_FAIL, False, z', out)
         | Z_STREAM_ERROR \<Rightarrow> Some (Inl SSH_ERR_INTERNAL_ERROR, True, z', out)))"

text \<open>\<open>compress_buffer(ssh, outgoing_packet, compression_buffer)\<close>, its only use, and its reverse.\<close>

definition compress_buffer :: "('c, 'z) pkt_lib \<Rightarrow> ('c, 'z, unit) pkt" where
  "compress_buffer P s =
     (case ss_compression_buffer s of None \<Rightarrow> (Inl Faults, s)
      | Some cb \<Rightarrow>
          if \<not> ss_out_started s then (Inl (Rc SSH_ERR_INTERNAL_ERROR), s)
          else if sshbuf_len (ss_outgoing_packet s) = 0 then (Inr (), s)
          else if sshbuf_mutable_ptr (ss_outgoing_packet s) = None then (Inl (Rc SSH_ERR_INTERNAL_ERROR), s)
          else (case deflate_loop (P_z P) (P_am P) (sshbuf_bytes (ss_outgoing_packet s)) (ss_out_stream s) cb of
                  None \<Rightarrow> (Inl Hangs, s)
                | Some (r, failed, z, out) \<Rightarrow>
                    (rc r, s\<lparr>ss_out_stream := z, ss_compression_buffer := Some out,
                       ss_out_failures := ss_out_failures s + (if failed then 1 else 0)\<rparr>)))"

definition uncompress_buffer :: "('c, 'z) pkt_lib \<Rightarrow> ('c, 'z, unit) pkt" where
  "uncompress_buffer P s =
     (case ss_compression_buffer s of None \<Rightarrow> (Inl Faults, s)
      | Some cb \<Rightarrow>
          if \<not> ss_in_started s then (Inl (Rc SSH_ERR_INTERNAL_ERROR), s)
          else if sshbuf_mutable_ptr (ss_incoming_packet s) = None then (Inl (Rc SSH_ERR_INTERNAL_ERROR), s)
          else (case inflate_loop (P_z P) (P_am P) (sshbuf_bytes (ss_incoming_packet s)) (ss_in_stream s) cb of
                  None \<Rightarrow> (Inl Hangs, s)
                | Some (r, failed, z, out) \<Rightarrow>
                    (rc r, s\<lparr>ss_in_stream := z, ss_compression_buffer := Some out,
                       ss_in_failures := ss_in_failures s + (if failed then 1 else 0)\<rparr>)))"

section \<open>Changing keys\<close>

definition SSH_BUG_NOREKEY :: u32 where "SSH_BUG_NOREKEY = 0x8000"

text \<open>The first block limit of a key, before \<open>rekey_limit\<close>; \<open>None\<close> is a division by zero.\<close>

definition max_blocks :: "nat \<Rightarrow> u32 \<Rightarrow> u64 option" where
  "max_blocks block_size rekey_limit =
     (if block_size = 0 then None
      else
        let m = (if block_size \<ge> 16 then push_bit (block_size * 2) 1 else push_bit 30 1 div of_nat block_size) :: u64
        in Some (if rekey_limit \<noteq> 0 then min m (ucast (rekey_limit div of_nat block_size)) else m))"

text \<open>The cipher context of a direction.\<close>

definition get_cc :: "kex_mode \<Rightarrow> ('c, 'z) ssh \<Rightarrow> 'c cipher_ctx" where
  "get_cc mode s = (if mode = MODE_OUT then ss_send_context s else ss_receive_context s)"

definition set_cc :: "kex_mode \<Rightarrow> 'c cipher_ctx \<Rightarrow> ('c, 'z) ssh \<Rightarrow> ('c, 'z) ssh" where
  "set_cc mode cc s = (if mode = MODE_OUT then s\<lparr>ss_send_context := cc\<rparr> else s\<lparr>ss_receive_context := cc\<rparr>)"

definition on_cc :: "kex_mode \<Rightarrow> (ssh_err, 'c cipher_ctx, 'a) action \<Rightarrow> ('c, 'z, 'a) pkt" where
  "on_cc mode f s = (case f (get_cc mode s) of (r, cc) \<Rightarrow> (rc r, set_cc mode cc s))"

definition set_newkey :: "kex_mode \<Rightarrow> newkeys option \<Rightarrow> ('c, 'z) ssh \<Rightarrow> ('c, 'z) ssh" where
  "set_newkey mode nk s = s\<lparr>ss_newkeys := (ss_newkeys s)(mode := nk)\<rparr>"

text \<open>The counters of a direction start again.\<close>

definition newkeys_reset :: "kex_mode \<Rightarrow> ('c, 'z) ssh \<Rightarrow> ('c, 'z) ssh" where
  "newkeys_reset mode s =
     (if mode = MODE_OUT then s\<lparr>ss_p_send := (ss_p_send s)\<lparr>ps_packets := 0, ps_blocks := 0\<rparr>\<rparr>
      else s\<lparr>ss_p_read := (ss_p_read s)\<lparr>ps_packets := 0, ps_blocks := 0\<rparr>\<rparr>)"

text \<open>
  The keys move from \<open>kex\<close> to the state. The keys they replace are cleared and freed, after the
  cipher context has been cleaned up.
\<close>

definition newkeys_move :: "('c, 'z) pkt_lib \<Rightarrow> kex_mode \<Rightarrow> ('c, 'z, newkeys) pkt" where
  "newkeys_move P mode =
     act_seq (\<lambda>s. if ss_newkeys s mode \<noteq> None then on_cc mode (cipher_cleanup (P_evp P)) s else (Inr (), s))
       (\<lambda>s. case ss_kex s of None \<Rightarrow> (Inl Faults, s)
         | Some kex \<Rightarrow>
            (case kx_newkeys kex mode of
               None \<Rightarrow> (Inl (Rc SSH_ERR_INTERNAL_ERROR), set_newkey mode None s)
             | Some nk \<Rightarrow> (Inr nk, (set_newkey mode (Some nk) s)\<lparr>ss_kex := Some (kex\<lparr>kx_newkeys := (kx_newkeys kex)(mode := None)\<rparr>)\<rparr>)))"

text \<open>The message authentication code is set up, unless the cipher authenticates by itself, and enabled.\<close>

definition newkeys_mac :: "('c, 'z) pkt_lib \<Rightarrow> kex_mode \<Rightarrow> sshcipher \<Rightarrow> newkeys \<Rightarrow> ('c, 'z, newkeys) pkt" where
  "newkeys_mac P mode cipher nk s =
     (if cipher_authlen cipher = 0 then
        (case mac_init (P_mac P) (nk_mac nk) of
           (Inl e, mac) \<Rightarrow> (Inl (Rc e), set_newkey mode (Some (nk\<lparr>nk_mac := mac\<rparr>)) s)
         | (Inr _, mac) \<Rightarrow>
             let nk' = nk\<lparr>nk_mac := mac\<lparr>sm_enabled := True\<rparr>\<rparr> in (Inr nk', set_newkey mode (Some nk') s))
      else let nk' = nk\<lparr>nk_mac := (nk_mac nk)\<lparr>sm_enabled := True\<rparr>\<rparr> in (Inr nk', set_newkey mode (Some nk') s))"

definition newkeys_cipher :: "('c, 'z) pkt_lib \<Rightarrow> kex_mode \<Rightarrow> sshcipher \<Rightarrow> sshenc \<Rightarrow> ('c, 'z, unit) pkt" where
  "newkeys_cipher P mode cipher enc =
     act_seq
       (on_cc mode (cipher_init (P_evp P) (P_am P) cipher (se_key enc) (se_key_len enc) (se_iv enc) (se_iv_len enc) (mode = MODE_OUT)))
       (\<lambda>s. (Inr (), if \<not> ss_cipher_warning_done s \<and> cipher_warning_message (get_cc mode s) \<noteq> None
                     then s\<lparr>ss_cipher_warning_done := True\<rparr> else s))"

definition start_compression :: "('c, 'z) pkt_lib \<Rightarrow> kex_mode \<Rightarrow> newkeys \<Rightarrow> ('c, 'z, unit) pkt" where
  "start_compression P mode nk =
     act_all
       [ssh_packet_init_compression P,
        if mode = MODE_OUT then start_compression_out P 6 else start_compression_in P,
        (\<lambda>s. (Inr (), set_newkey mode (Some (nk\<lparr>nk_comp := (nk_comp nk)\<lparr>sc_enabled := True\<rparr>\<rparr>)) s))]"

definition newkeys_limits :: "kex_mode \<Rightarrow> nat \<Rightarrow> ('c, 'z, unit) pkt" where
  "newkeys_limits mode block_size s =
     (case max_blocks block_size (ss_rekey_limit s) of None \<Rightarrow> (Inl Faults, s)
      | Some m \<Rightarrow> (Inr (), if mode = MODE_OUT then s\<lparr>ss_max_blocks_out := m\<rparr> else s\<lparr>ss_max_blocks_in := m\<rparr>))"

definition ssh_set_newkeys :: "('c, 'z) pkt_lib \<Rightarrow> kex_mode \<Rightarrow> ('c, 'z, unit) pkt" where
  "ssh_set_newkeys P mode s =
     act_bind (newkeys_move P mode) (\<lambda>nk0.
       case se_cipher (nk_enc nk0) of None \<Rightarrow> act_fail Faults
       | Some cipher \<Rightarrow>
         act_bind (newkeys_mac P mode cipher nk0) (\<lambda>nk.
           act_all
             [newkeys_cipher P mode cipher (nk_enc nk),
              (\<lambda>s. if (sc_type (nk_comp nk) = COMP_ZLIB \<or>
                       (sc_type (nk_comp nk) = COMP_DELAYED \<and> ss_after_authentication s)) \<and> \<not> sc_enabled (nk_comp nk)
                    then start_compression P mode nk s else (Inr (), s)),
              newkeys_limits mode (se_block_size (nk_enc nk))]))
       (newkeys_reset mode s)"

text \<open>Delayed compression starts in both directions, the incoming one first.\<close>

definition delayed_compress :: "('c, 'z) pkt_lib \<Rightarrow> kex_mode \<Rightarrow> ('c, 'z, unit) pkt" where
  "delayed_compress P mode s =
     (case ss_newkeys s mode of None \<Rightarrow> (Inr (), s)
      | Some nk \<Rightarrow>
          if \<not> sc_enabled (nk_comp nk) \<and> sc_type (nk_comp nk) = COMP_DELAYED then start_compression P mode nk s
          else (Inr (), s))"

definition ssh_packet_enable_delayed_compress :: "('c, 'z) pkt_lib \<Rightarrow> ('c, 'z, unit) pkt" where
  "ssh_packet_enable_delayed_compress P s =
     act_all [delayed_compress P MODE_IN, delayed_compress P MODE_OUT] (s\<lparr>ss_after_authentication := True\<rparr>)"

definition MAX_PACKETS :: u32 where "MAX_PACKETS = 0x80000000"

definition ssh_packet_need_rekeying :: "('c, 'z) ssh \<Rightarrow> bool" where
  "ssh_packet_need_rekeying s =
     (if ss_compat s AND SSH_BUG_NOREKEY \<noteq> 0 then False
      else MAX_PACKETS < ps_packets (ss_p_send s) \<or> MAX_PACKETS < ps_packets (ss_p_read s) \<or>
        (ss_max_blocks_out s \<noteq> 0 \<and> ss_max_blocks_out s < ps_blocks (ss_p_send s)) \<or>
        (ss_max_blocks_in s \<noteq> 0 \<and> ss_max_blocks_in s < ps_blocks (ss_p_read s)) \<or>
        (ss_rekey_interval s \<noteq> 0 \<and> ss_rekey_time s + ss_rekey_interval s \<le> ss_now s))"

definition ssh_packet_set_rekey_limits :: "u32 \<Rightarrow> int \<Rightarrow> ('c, 'z) ssh \<Rightarrow> ('c, 'z) ssh" where
  "ssh_packet_set_rekey_limits bytes seconds s =
     s\<lparr>ss_rekey_limit := bytes, ss_rekey_interval := seconds, ss_rekey_time := ss_now s\<rparr>"

definition ssh_packet_get_rekey_timeout :: "('c, 'z) ssh \<Rightarrow> int" where
  "ssh_packet_get_rekey_timeout s =
     (let seconds = ss_rekey_time s + ss_rekey_interval s - ss_now s in if seconds \<le> 0 then 1 else seconds)"

section \<open>Sending\<close>

definition SSH2_MSG_TRANSPORT_MIN :: byte where "SSH2_MSG_TRANSPORT_MIN = 1"
definition SSH2_MSG_TRANSPORT_MAX :: byte where "SSH2_MSG_TRANSPORT_MAX = 49"
definition SSH2_MSG_LOCAL_MIN :: byte where "SSH2_MSG_LOCAL_MIN = 192"
definition SSH2_MSG_MIN :: byte where "SSH2_MSG_MIN = 1"
definition SSH2_MSG_DISCONNECT :: byte where "SSH2_MSG_DISCONNECT = 1"
definition SSH2_MSG_IGNORE :: byte where "SSH2_MSG_IGNORE = 2"
definition SSH2_MSG_UNIMPLEMENTED :: byte where "SSH2_MSG_UNIMPLEMENTED = 3"
definition SSH2_MSG_DEBUG :: byte where "SSH2_MSG_DEBUG = 4"
definition SSH2_MSG_SERVICE_REQUEST :: byte where "SSH2_MSG_SERVICE_REQUEST = 5"
definition SSH2_MSG_SERVICE_ACCEPT :: byte where "SSH2_MSG_SERVICE_ACCEPT = 6"
definition SSH2_MSG_KEXINIT :: byte where "SSH2_MSG_KEXINIT = 20"
definition SSH2_MSG_NEWKEYS :: byte where "SSH2_MSG_NEWKEYS = 21"
definition SSH2_MSG_USERAUTH_SUCCESS :: byte where "SSH2_MSG_USERAUTH_SUCCESS = 52"
definition SSH2_DISCONNECT_PROTOCOL_ERROR :: u32 where "SSH2_DISCONNECT_PROTOCOL_ERROR = 2"
definition SSH_MSG_MIN :: byte where "SSH_MSG_MIN = 1"
definition SSH_MSG_MAX :: byte where "SSH_MSG_MAX = 254"
definition SSH_MSG_NONE :: byte where "SSH_MSG_NONE = 0"
definition SSH_MSG_DISCONNECT :: byte where "SSH_MSG_DISCONNECT = 1"
definition SSH_MSG_IGNORE :: byte where "SSH_MSG_IGNORE = 32"
definition SSH_MSG_DEBUG :: byte where "SSH_MSG_DEBUG = 36"
definition PACKET_MAX_SIZE :: nat where "PACKET_MAX_SIZE = 256 * 1024"

lemmas ssh2_msgs =
  SSH2_MSG_TRANSPORT_MIN_def SSH2_MSG_TRANSPORT_MAX_def SSH2_MSG_LOCAL_MIN_def SSH2_MSG_MIN_def
  SSH2_MSG_DISCONNECT_def SSH2_MSG_IGNORE_def SSH2_MSG_UNIMPLEMENTED_def SSH2_MSG_DEBUG_def
  SSH2_MSG_SERVICE_REQUEST_def SSH2_MSG_SERVICE_ACCEPT_def SSH2_MSG_KEXINIT_def SSH2_MSG_NEWKEYS_def
  SSH2_MSG_USERAUTH_SUCCESS_def SSH_MSG_NONE_def

text \<open>
  The parameters of a direction's keys: the cipher's authentication length, the message
  authentication code that is used and enabled (none where the cipher authenticates), the block
  size, the number of bytes that stay unencrypted, and whether payloads are compressed. \<open>None\<close>
  for keys without a cipher.
\<close>

record dir_keys =
  dk_authlen :: nat
  dk_mac :: "sshmac option"
  dk_block_size :: nat
  dk_aadlen :: nat
  dk_comp :: bool

definition keys_used :: "newkeys option \<Rightarrow> dir_keys option" where
  "keys_used nk =
     (case nk of None \<Rightarrow> Some \<lparr>dk_authlen = 0, dk_mac = None, dk_block_size = 8, dk_aadlen = 0, dk_comp = False\<rparr>
      | Some nk \<Rightarrow>
        (case se_cipher (nk_enc nk) of None \<Rightarrow> None
         | Some cipher \<Rightarrow>
            let authlen = cipher_authlen cipher;
                mac = (if authlen \<noteq> 0 \<or> \<not> sm_enabled (nk_mac nk) then None else Some (nk_mac nk));
                etm = (case mac of None \<Rightarrow> False | Some m \<Rightarrow> sm_etm m)
            in Some \<lparr>dk_authlen = authlen, dk_mac = mac, dk_block_size = se_block_size (nk_enc nk),
                 dk_aadlen = (if etm \<or> authlen \<noteq> 0 then 4 else 0), dk_comp = sc_enabled (nk_comp nk)\<rparr>))"

text \<open>The type of the packet that is being assembled, the byte after the length fields.\<close>

definition packet_type :: "sshbuf \<Rightarrow> byte option" where
  "packet_type b = (if 5 < length (mem_at b) then Some (mem_at b ! 5) else None)"

text \<open>The payload is replaced by its compressed form.\<close>

definition send2_compress :: "('c, 'z) pkt_lib \<Rightarrow> ('c, 'z, unit) pkt" where
  "send2_compress P =
     act_all
       [on_outgoing (sshbuf_consume 5), on_compression (reset_buf (P_am P)), compress_buffer P,
        on_outgoing (reset_buf (P_am P)), on_outgoing (sshbuf_put (P_am P) [0, 0, 0, 0, 0]),
        (\<lambda>s. case ss_compression_buffer s of None \<Rightarrow> (Inl Faults, s)
              | Some cb \<Rightarrow> on_outgoing (sshbuf_putb (P_am P) cb) s)]"

text \<open>
  The length of the padding, a byte: up to a block and at least 4 bytes, then up to a multiple of
  \<open>extra_pad\<close>. \<open>len\<close> is without the bytes that are not encrypted. \<open>None\<close> is a division by zero.
\<close>

definition pad_length :: "u32 \<Rightarrow> nat \<Rightarrow> byte \<Rightarrow> byte option" where
  "pad_length len block_size extra_pad =
     (if block_size = 0 then None
      else
        let padlen0 = of_nat (block_size - unat len mod block_size) :: byte;
            padlen = (if padlen0 < 4 then padlen0 + of_nat block_size else padlen0)
        in if extra_pad = 0 then Some padlen
           else
             let ep = of_nat (roundup (unat extra_pad) block_size) :: byte
             in if ep = 0 then None
                else Some (padlen + (ep - of_nat (unat (len + ucast padlen) mod unat ep))))"

definition send2_pad :: "('c, 'z) pkt_lib \<Rightarrow> dir_keys \<Rightarrow> ('c, 'z, byte) pkt" where
  "send2_pad P k s =
     (case pad_length (of_nat (sshbuf_len (ss_outgoing_packet s)) - of_nat (dk_aadlen k)) (dk_block_size k) (ss_extra_pad s) of
        None \<Rightarrow> (Inl Faults, s)
      | Some padlen \<Rightarrow>
         (case sshbuf_reserve (P_am P) (unat padlen) (ss_outgoing_packet s) of
            (Inl e, b) \<Rightarrow> (Inl (Rc e), s\<lparr>ss_extra_pad := 0, ss_outgoing_packet := b\<rparr>)
          | (Inr i, b) \<Rightarrow>
             (case (if ss_newkeys s MODE_OUT \<noteq> None \<and> \<not> cc_plaintext (ss_send_context s)
                    then arc4random_buf (unat padlen) (ss_rng s) else (replicate (unat padlen) 0, ss_rng s)) of
                (pad, g) \<Rightarrow>
                  (Inr padlen, s\<lparr>ss_extra_pad := 0, ss_outgoing_packet := poke i pad b, ss_rng := g\<rparr>))))"

text \<open>The length of the packet and of the padding in front of it.\<close>

definition send2_header :: "byte \<Rightarrow> ('c, 'z, unit) pkt" where
  "send2_header padlen s =
     (let b = ss_outgoing_packet s; len = of_nat (sshbuf_len b) :: u32
      in case sshbuf_mutable_ptr b of None \<Rightarrow> (Inl (Rc SSH_ERR_INTERNAL_ERROR), s)
         | Some i \<Rightarrow> (Inr (), s\<lparr>ss_outgoing_packet := poke i (POKE_U32 (ucast (len - 4)) @ [padlen]) b\<rparr>))"

text \<open>The code over the packet before its encryption, unless it is computed over the encrypted bytes.\<close>

definition send2_mac :: "('c, 'z) pkt_lib \<Rightarrow> dir_keys \<Rightarrow> byte list \<Rightarrow> bool \<Rightarrow> ('c, 'z, byte list) pkt" where
  "send2_mac P k data etm s =
     (case dk_mac k of None \<Rightarrow> (Inr [], s)
      | Some m \<Rightarrow>
          if sm_etm m = etm
          then (mac_compute (P_mac P) m (ps_seqnr (ss_p_send s)) data MAC_DIGEST_LEN_MAX, s)
          else (Inr [], s))"

definition send2_encrypt :: "('c, 'z) pkt_lib \<Rightarrow> dir_keys \<Rightarrow> byte list \<Rightarrow> ('c, 'z, byte list) pkt" where
  "send2_encrypt P k data s =
     (case sshbuf_reserve (P_am P) (length data + dk_authlen k) (ss_output s) of
        (Inl e, b) \<Rightarrow> (Inl (Rc e), s\<lparr>ss_output := b\<rparr>)
      | (Inr i, b) \<Rightarrow>
         (case cipher_crypt (P_evp P) data (length data - dk_aadlen k) (dk_aadlen k) (dk_authlen k) (ss_send_context s) of
            (r, dest, cc) \<Rightarrow>
              (map_sum id (\<lambda>_. take (length data) dest) r,
               s\<lparr>ss_output := poke i dest b, ss_send_context := cc\<rparr>)))"

definition send2_append_mac :: "('c, 'z) pkt_lib \<Rightarrow> dir_keys \<Rightarrow> byte list \<Rightarrow> ('c, 'z, unit) pkt" where
  "send2_append_mac P k mac =
     (case dk_mac k of None \<Rightarrow> act_return ()
      | Some m \<Rightarrow> on_output (sshbuf_put (P_am P) (take (sm_mac_len m) mac)))"

text \<open>The counters; a direction that has sent \<open>2 ^ 32\<close> packets with one key must change it.\<close>

definition send2_count :: "('c, 'z) pkt_lib \<Rightarrow> dir_keys \<Rightarrow> nat \<Rightarrow> ('c, 'z, unit) pkt" where
  "send2_count P k len s =
     (let p = ss_p_send s; p1 = p\<lparr>ps_seqnr := ps_seqnr p + 1, ps_packets := ps_packets p + 1\<rparr>
      in if ps_packets p1 = 0 \<and> ss_compat s AND SSH_BUG_NOREKEY = 0
         then (Inl (Rc SSH_ERR_NEED_REKEY), s\<lparr>ss_p_send := p1\<rparr>)
         else (Inr (), s\<lparr>ss_p_send := p1\<lparr>ps_blocks := ps_blocks p1 + of_nat (len div dk_block_size k),
                             ps_bytes := ps_bytes p1 + of_nat len\<rparr>,
                        ss_outgoing_packet := sshbuf_reset (P_am P) (ss_outgoing_packet s)\<rparr>))"

text \<open>New keys and delayed compression start after the packet that announces them.\<close>

definition send2_finish :: "('c, 'z) pkt_lib \<Rightarrow> byte \<Rightarrow> ('c, 'z, unit) pkt" where
  "send2_finish P type s =
     (if type = SSH2_MSG_NEWKEYS then ssh_set_newkeys P MODE_OUT s
      else if type = SSH2_MSG_USERAUTH_SUCCESS \<and> ss_server_side s then ssh_packet_enable_delayed_compress P s
      else (Inr (), s))"

text \<open>What is left to do with a packet that has its header and padding.\<close>

definition send2_rest :: "('c, 'z) pkt_lib \<Rightarrow> dir_keys \<Rightarrow> byte \<Rightarrow> ('c, 'z, unit) pkt" where
  "send2_rest P k type s =
     (let data = sshbuf_bytes (ss_outgoing_packet s) in
      act_bind (send2_mac P k data False) (\<lambda>mac.
      act_bind (send2_encrypt P k data) (\<lambda>dest.
      act_bind (send2_mac P k dest True) (\<lambda>etm_mac.
      act_all [send2_append_mac P k (mac @ etm_mac), send2_count P k (length data), send2_finish P type]))) s)"

definition ssh_packet_send2_wrapped :: "('c, 'z) pkt_lib \<Rightarrow> ('c, 'z, unit) pkt" where
  "ssh_packet_send2_wrapped P s =
     (case (keys_used (ss_newkeys s MODE_OUT), packet_type (ss_outgoing_packet s)) of
        (Some k, Some type) \<Rightarrow>
          act_seq (if dk_comp k then send2_compress P else act_return ())
            (act_bind (send2_pad P k) (\<lambda>padlen. act_seq (send2_header padlen) (send2_rest P k type))) s
      | _ \<Rightarrow> (Inl Faults, s))"

text \<open>The packets that waited for the new keys, in the order they were queued.\<close>

fun send_queue :: "('c, 'z) pkt_lib \<Rightarrow> (byte \<times> sshbuf) list \<Rightarrow> ('c, 'z, unit) pkt" where
  "send_queue P [] s = (Inr (), s)"
| "send_queue P ((_, payload) # ps) s =
     (case ssh_packet_send2_wrapped P (s\<lparr>ss_outgoing_packet := payload, ss_outgoing := ps\<rparr>) of
        (Inl e, s1) \<Rightarrow> (Inl e, s1)
      | (Inr _, s1) \<Rightarrow> send_queue P ps s1)"

text \<open>Whether a packet has to wait while keys are being exchanged.\<close>

definition must_wait :: "byte \<Rightarrow> bool" where
  "must_wait type \<longleftrightarrow> type < SSH2_MSG_TRANSPORT_MIN \<or> SSH2_MSG_TRANSPORT_MAX < type \<or>
     type = SSH2_MSG_SERVICE_REQUEST \<or> type = SSH2_MSG_SERVICE_ACCEPT"

text \<open>\<open>sizeof(struct packet)\<close> where pointers have 64 bits.\<close>

definition sizeof_packet :: size_t where "sizeof_packet = 32"

definition ssh_packet_send2 :: "('c, 'z) pkt_lib \<Rightarrow> ('c, 'z, unit) pkt" where
  "ssh_packet_send2 P s =
     (case packet_type (ss_outgoing_packet s) of None \<Rightarrow> (Inl Faults, s)
      | Some type \<Rightarrow>
          if ss_rekeying s \<and> must_wait type then
            if P_am P sizeof_packet = None then (Inl (Rc SSH_ERR_ALLOC_FAIL), s)
            else
              let s1 = s\<lparr>ss_outgoing := ss_outgoing s @ [(type, ss_outgoing_packet s)]\<rparr>
              in (case sshbuf_new (P_am P) of
                    None \<Rightarrow> (Inl (Rc SSH_ERR_ALLOC_FAIL), s1)
                  | Some b \<Rightarrow> (Inr (), s1\<lparr>ss_outgoing_packet := b\<rparr>))
          else
            (case ssh_packet_send2_wrapped P (if type = SSH2_MSG_KEXINIT then s\<lparr>ss_rekeying := True\<rparr> else s) of
               (Inl e, s1) \<Rightarrow> (Inl e, s1)
             | (Inr _, s1) \<Rightarrow>
                 if type = SSH2_MSG_NEWKEYS
                 then send_queue P (ss_outgoing s1) (s1\<lparr>ss_rekeying := False, ss_rekey_time := ss_now s1\<rparr>)
                 else (Inr (), s1)))"

section \<open>Protocol version 1\<close>

definition send1_compress :: "('c, 'z) pkt_lib \<Rightarrow> ('c, 'z, unit) pkt" where
  "send1_compress P =
     act_all
       [on_compression (reset_buf (P_am P)), on_outgoing (sshbuf_consume 8),
        on_compression (sshbuf_put (P_am P) (replicate 8 0)), compress_buffer P,
        on_outgoing (reset_buf (P_am P)),
        (\<lambda>s. case ss_compression_buffer s of None \<Rightarrow> (Inl Faults, s)
              | Some cb \<Rightarrow> on_outgoing (sshbuf_putb (P_am P) cb) s)]"

text \<open>
  The padding: the packet starts with 8 zero bytes, of which the first ones are dropped and the
  rest may be made random. \<open>len\<close> counts the payload and the checksum.
\<close>

definition send1_pad :: "nat \<Rightarrow> ('c, 'z, unit) pkt" where
  "send1_pad len =
     (let padding = 8 - len mod 8 in
      act_seq
        (\<lambda>s. if cc_plaintext (ss_send_context s) then (Inr (), s)
             else case sshbuf_mutable_ptr (ss_outgoing_packet s) of None \<Rightarrow> (Inl (Rc SSH_ERR_INTERNAL_ERROR), s)
                  | Some i \<Rightarrow> (case arc4random_buf padding (ss_rng s) of (pad, g) \<Rightarrow>
                      (Inr (), s\<lparr>ss_outgoing_packet := poke (i + 8 - padding) pad (ss_outgoing_packet s), ss_rng := g\<rparr>)))
        (on_outgoing (sshbuf_consume (8 - padding))))"

definition send1_encrypt :: "('c, 'z) pkt_lib \<Rightarrow> ('c, 'z, unit) pkt" where
  "send1_encrypt P s =
     (let data = sshbuf_bytes (ss_outgoing_packet s) in
      case sshbuf_reserve (P_am P) (length data) (ss_output s) of
        (Inl e, b) \<Rightarrow> (Inl (Rc e), s\<lparr>ss_output := b\<rparr>)
      | (Inr i, b) \<Rightarrow>
         (case cipher_crypt (P_evp P) data (length data) 0 0 (ss_send_context s) of (r, dest, cc) \<Rightarrow>
            (r, s\<lparr>ss_output := poke i dest b, ss_send_context := cc\<rparr>)))"

definition ssh_packet_send1 :: "('c, 'z) pkt_lib \<Rightarrow> ('c, 'z, unit) pkt" where
  "ssh_packet_send1 P =
     act_seq (\<lambda>s. if ss_packet_compression s then send1_compress P s else (Inr (), s))
       (\<lambda>s0. let len = sshbuf_len (ss_outgoing_packet s0) + 4 - 8 in
        act_all
          [send1_pad len,
           (\<lambda>s. on_outgoing (sshbuf_put (P_am P) (POKE_U32 (ucast (ssh_crc32 (sshbuf_bytes (ss_outgoing_packet s)))))) s),
           on_output (sshbuf_put (P_am P) (POKE_U32 (of_nat len))),
           send1_encrypt P,
           (\<lambda>s. (Inr (), s\<lparr>ss_p_send := (ss_p_send s)\<lparr>ps_packets := ps_packets (ss_p_send s) + 1,
                     ps_bytes := ps_bytes (ss_p_send s) + of_nat (len + sshbuf_len (ss_outgoing_packet s))\<rparr>,
                  ss_outgoing_packet := sshbuf_reset (P_am P) (ss_outgoing_packet s)\<rparr>))] s0)"

section \<open>Building packets\<close>

definition sshpkt_start :: "('c, 'z) pkt_lib \<Rightarrow> byte \<Rightarrow> ('c, 'z, unit) pkt" where
  "sshpkt_start P type s =
     act_seq (on_outgoing (reset_buf (P_am P)))
       (on_outgoing (sshbuf_put (P_am P) (replicate (if ss_compat20 s then 5 else 8) 0 @ [type]))) s"

definition sshpkt_put :: "('c, 'z) pkt_lib \<Rightarrow> byte list \<Rightarrow> ('c, 'z, unit) pkt" where
  "sshpkt_put P v = on_outgoing (sshbuf_put (P_am P) v)"

definition sshpkt_put_u8 :: "('c, 'z) pkt_lib \<Rightarrow> byte \<Rightarrow> ('c, 'z, unit) pkt" where
  "sshpkt_put_u8 P v = on_outgoing (sshbuf_put_u8 (P_am P) v)"

definition sshpkt_put_u32 :: "('c, 'z) pkt_lib \<Rightarrow> u32 \<Rightarrow> ('c, 'z, unit) pkt" where
  "sshpkt_put_u32 P v = on_outgoing (sshbuf_put_u32 (P_am P) v)"

definition sshpkt_put_u64 :: "('c, 'z) pkt_lib \<Rightarrow> u64 \<Rightarrow> ('c, 'z, unit) pkt" where
  "sshpkt_put_u64 P v = on_outgoing (sshbuf_put_u64 (P_am P) v)"

definition sshpkt_put_string :: "('c, 'z) pkt_lib \<Rightarrow> byte list \<Rightarrow> ('c, 'z, unit) pkt" where
  "sshpkt_put_string P v = on_outgoing (sshbuf_put_string (P_am P) v)"

definition sshpkt_put_cstring :: "('c, 'z) pkt_lib \<Rightarrow> byte list \<Rightarrow> ('c, 'z, unit) pkt" where
  "sshpkt_put_cstring P v = on_outgoing (sshbuf_put_cstring (P_am P) v)"

definition sshpkt_get_u8 :: "('c, 'z, byte) pkt" where
  "sshpkt_get_u8 = on_incoming sshbuf_get_u8"

definition sshpkt_get_u32 :: "('c, 'z, u32) pkt" where
  "sshpkt_get_u32 = on_incoming sshbuf_get_u32"

definition sshpkt_get_u64 :: "('c, 'z, u64) pkt" where
  "sshpkt_get_u64 = on_incoming sshbuf_get_u64"

definition sshpkt_get_string :: "('c, 'z) pkt_lib \<Rightarrow> ('c, 'z, byte list) pkt" where
  "sshpkt_get_string P = on_incoming (sshbuf_get_string (P_am P))"

definition sshpkt_get_cstring :: "('c, 'z) pkt_lib \<Rightarrow> ('c, 'z, byte list) pkt" where
  "sshpkt_get_cstring P = on_incoming (sshbuf_get_cstring (P_am P))"

definition sshpkt_get_end :: "('c, 'z, unit) pkt" where
  "sshpkt_get_end s =
     (if 0 < sshbuf_len (ss_incoming_packet s) then (Inl (Rc SSH_ERR_UNEXPECTED_TRAILING_DATA), s) else (Inr (), s))"

definition sshpkt_send :: "('c, 'z) pkt_lib \<Rightarrow> ('c, 'z, unit) pkt" where
  "sshpkt_send P s = (if ss_compat20 s then ssh_packet_send2 P s else ssh_packet_send1 P s)"

definition sshpkt_add_padding :: "byte \<Rightarrow> ('c, 'z, unit) pkt" where
  "sshpkt_add_padding pad s = (Inr (), s\<lparr>ss_extra_pad := pad\<rparr>)"

text \<open>\<open>msg\<close> is the text of the message, cut to the 1024 bytes of its buffer.\<close>

definition sshpkt_disconnect :: "('c, 'z) pkt_lib \<Rightarrow> string \<Rightarrow> ('c, 'z, unit) pkt" where
  "sshpkt_disconnect P msg s =
     (let buf = bytes_of (take 1023 msg) in
      if ss_compat20 s then
        act_all [sshpkt_start P SSH2_MSG_DISCONNECT, sshpkt_put_u32 P SSH2_DISCONNECT_PROTOCOL_ERROR,
          sshpkt_put_cstring P buf, sshpkt_put_cstring P [], sshpkt_send P] s
      else act_all [sshpkt_start P SSH_MSG_DISCONNECT, sshpkt_put_cstring P buf, sshpkt_send P] s)"

text \<open>The same message, after which the process ends.\<close>

definition ssh_packet_disconnect :: "('c, 'z) pkt_lib \<Rightarrow> string \<Rightarrow> ('c, 'z, 'a) pkt" where
  "ssh_packet_disconnect P msg s = (Inl Exits, snd (sshpkt_disconnect P msg s))"

end
