(* ===== verification/Packet_Read.thy ===== *)
theory Packet_Read
  imports Packet
begin

text \<open>
  The receiving half of \<open>ssh/packet.c\<close>: from the bytes of the connection to one packet, for both
  protocol versions, with the discarding of a corrupted stream.
\<close>

section \<open>Discarding\<close>

text \<open>The incoming packet is filled up to the maximal size; \<open>None\<close> would be a loop that never ends.\<close>

partial_function (option) discard_fill :: "allocator \<Rightarrow> sshbuf \<Rightarrow> (unit res \<times> sshbuf) option" where
  "discard_fill am b =
     (if sshbuf_len b < PACKET_MAX_SIZE then
        (case sshbuf_put am (replicate 1024 97) b of
           (Inl e, b') \<Rightarrow> Some (Inl e, b')
         | (Inr _, b') \<Rightarrow> discard_fill am b')
      else Some (Inr (), b))"

text \<open>
  The code that is computed over the filled packet only takes time. The end is always an error.
\<close>

definition ssh_packet_stop_discard :: "('c, 'z) pkt_lib \<Rightarrow> ('c, 'z, unit) pkt" where
  "ssh_packet_stop_discard P s =
     (if ss_packet_discard_mac s = None then (Inl (Rc SSH_ERR_MAC_INVALID), s)
      else case discard_fill (P_am P) (ss_incoming_packet s) of
             None \<Rightarrow> (Inl Hangs, s)
           | Some (Inl e, b) \<Rightarrow> (Inl (Rc e), s\<lparr>ss_incoming_packet := b\<rparr>)
           | Some (Inr _, b) \<Rightarrow> (Inl (Rc SSH_ERR_MAC_INVALID), s\<lparr>ss_incoming_packet := b\<rparr>))"

definition ssh_packet_start_discard ::
  "('c, 'z) pkt_lib \<Rightarrow> sshenc option \<Rightarrow> sshmac option \<Rightarrow> u32 \<Rightarrow> nat \<Rightarrow> ('c, 'z, unit) pkt" where
  "ssh_packet_start_discard P enc mac packet_length discard =
     (if (case enc of None \<Rightarrow> True | Some e \<Rightarrow> (case se_cipher e of None \<Rightarrow> True | Some c \<Rightarrow> \<not> cipher_is_cbc c)) \<or>
         (case mac of None \<Rightarrow> False | Some m \<Rightarrow> sm_etm m)
      then act_seq (sshpkt_disconnect P ''Packet corrupt'') (act_fail (Rc SSH_ERR_MAC_INVALID))
      else
        act_seq
          (\<lambda>s. (Inr (), if unat packet_length \<noteq> PACKET_MAX_SIZE \<and> (case mac of None \<Rightarrow> False | Some m \<Rightarrow> sm_enabled m)
                        then s\<lparr>ss_packet_discard_mac := mac\<rparr> else s))
          (act_seq
            (\<lambda>s. if discard \<le> sshbuf_len (ss_input s) then ssh_packet_stop_discard P s else (Inr (), s))
            (\<lambda>s. (Inr (), s\<lparr>ss_packet_discard := of_nat discard - of_nat (sshbuf_len (ss_input s))\<rparr>))))"

section \<open>Protocol version 2\<close>

text \<open>\<open>enc\<close> and \<open>mac\<close> of the incoming keys, as the discarding needs them.\<close>

definition in_enc :: "('c, 'z) ssh \<Rightarrow> sshenc option" where
  "in_enc s = map_option nk_enc (ss_newkeys s MODE_IN)"

definition in_mac :: "dir_keys \<Rightarrow> ('c, 'z) ssh \<Rightarrow> sshmac option" where
  "in_mac k s = (if dk_authlen k \<noteq> 0 then None else map_option nk_mac (ss_newkeys s MODE_IN))"

definition bad_packlen :: "u32 \<Rightarrow> bool" where
  "bad_packlen n \<longleftrightarrow> unat n < 1 + 4 \<or> PACKET_MAX_SIZE < unat n"

text \<open>
  The length of the next packet, unless it is known already: read from the input where it is not
  encrypted, else from the first block. The result says whether to go on.
\<close>

definition read2_clear_length :: "('c, 'z) pkt_lib \<Rightarrow> ('c, 'z, bool) pkt" where
  "read2_clear_length P s =
     (if sshbuf_len (ss_input s) < 4 then (Inr False, s)
      else
        let n = PEEK_U32 (mem_at (ss_input s)) in
        act_seq (if bad_packlen n then sshpkt_disconnect P ''Packet corrupt'' else act_return ())
          (act_seq (on_incoming (reset_buf (P_am P))) (act_return True))
          (s\<lparr>ss_packlen := n\<rparr>))"

definition read2_first_block :: "('c, 'z) pkt_lib \<Rightarrow> nat \<Rightarrow> ('c, 'z, unit) pkt" where
  "read2_first_block P block_size =
     act_seq (on_incoming (reset_buf (P_am P))) (\<lambda>s.
       case sshbuf_reserve (P_am P) block_size (ss_incoming_packet s) of
         (Inl e, b) \<Rightarrow> (Inl (Rc e), s\<lparr>ss_incoming_packet := b\<rparr>)
       | (Inr i, b) \<Rightarrow>
          (case cipher_crypt (P_evp P) (mem_at (ss_input s)) block_size 0 0 (ss_receive_context s) of (r, dest, cc) \<Rightarrow>
             (r, s\<lparr>ss_incoming_packet := poke i dest b, ss_receive_context := cc\<rparr>)))"

definition read2_block_length :: "('c, 'z) pkt_lib \<Rightarrow> dir_keys \<Rightarrow> ('c, 'z, bool) pkt" where
  "read2_block_length P k s =
     (if sshbuf_len (ss_input s) < dk_block_size k then (Inr False, s)
      else
        act_seq (read2_first_block P (dk_block_size k)) (\<lambda>s1.
          if length (mem_at (ss_incoming_packet s1)) < 4 then (Inl Faults, s1)
          else
            let n = PEEK_U32 (mem_at (ss_incoming_packet s1)); s2 = s1\<lparr>ss_packlen := n\<rparr>
            in if bad_packlen n
               then act_seq (ssh_packet_start_discard P (in_enc s2) (in_mac k s2) n PACKET_MAX_SIZE) (act_return False) s2
               else act_seq (on_input (sshbuf_consume (dk_block_size k))) (act_return True) s2) s)"

definition read2_length :: "('c, 'z) pkt_lib \<Rightarrow> dir_keys \<Rightarrow> ('c, 'z, bool) pkt" where
  "read2_length P k s =
     (if ss_packlen s \<noteq> 0 then (Inr True, s)
      else if dk_aadlen k \<noteq> 0 then read2_clear_length P s else read2_block_length P k s)"

text \<open>How many bytes of the packet are still encrypted in the input.\<close>

definition read2_need :: "dir_keys \<Rightarrow> u32 \<Rightarrow> u32" where
  "read2_need k n = (if dk_aadlen k \<noteq> 0 then n else 4 + n - of_nat (dk_block_size k))"

definition read2_maclen :: "dir_keys \<Rightarrow> nat" where
  "read2_maclen k = (case dk_mac k of None \<Rightarrow> 0 | Some m \<Rightarrow> sm_mac_len m)"

text \<open>The code over \<open>n\<close> bytes of memory, all of which must exist.\<close>

definition read2_mac :: "('c, 'z) pkt_lib \<Rightarrow> dir_keys \<Rightarrow> byte list \<Rightarrow> nat \<Rightarrow> bool \<Rightarrow> ('c, 'z, byte list) pkt" where
  "read2_mac P k mem n etm s =
     (case dk_mac k of None \<Rightarrow> (Inr [], s)
      | Some m \<Rightarrow>
          if sm_etm m = etm
          then (if length mem < n then Inl Faults
                else mac_compute (P_mac P) m (ps_seqnr (ss_p_read s)) (take n mem) MAC_DIGEST_LEN_MAX, s)
          else (Inr [], s))"

text \<open>
  The rest of the packet is decrypted behind its start. \<open>need\<close> is a multiple of the block size, 8 or 16,
  so that \<open>aadlen + need\<close> does not wrap.
\<close>

definition read2_decrypt :: "('c, 'z) pkt_lib \<Rightarrow> dir_keys \<Rightarrow> nat \<Rightarrow> ('c, 'z, unit) pkt" where
  "read2_decrypt P k need =
     act_seq
       (\<lambda>s. case sshbuf_reserve (P_am P) (dk_aadlen k + need) (ss_incoming_packet s) of
            (Inl e, b) \<Rightarrow> (Inl (Rc e), s\<lparr>ss_incoming_packet := b\<rparr>)
          | (Inr i, b) \<Rightarrow>
             (case cipher_crypt (P_evp P) (mem_at (ss_input s)) need (dk_aadlen k) (dk_authlen k) (ss_receive_context s) of
                (r, dest, cc) \<Rightarrow> (r, s\<lparr>ss_incoming_packet := poke i dest b, ss_receive_context := cc\<rparr>)))
       (on_input (sshbuf_consume (dk_aadlen k + need + dk_authlen k)))"

text \<open>The code is compared with the one that follows in the input; the result says whether to go on.\<close>

definition read2_check_mac :: "('c, 'z) pkt_lib \<Rightarrow> dir_keys \<Rightarrow> byte list \<Rightarrow> nat \<Rightarrow> ('c, 'z, bool) pkt" where
  "read2_check_mac P k mac need s =
     (case dk_mac k of None \<Rightarrow> (Inr True, s)
      | Some m \<Rightarrow>
          if length (mem_at (ss_input s)) < sm_mac_len m then (Inl Faults, s)
          else if take (sm_mac_len m) mac \<noteq> take (sm_mac_len m) (mem_at (ss_input s)) then
            (if PACKET_MAX_SIZE < need then (Inl (Rc SSH_ERR_INTERNAL_ERROR), s)
             else act_seq (ssh_packet_start_discard P (in_enc s) (in_mac k s) (ss_packlen s) (PACKET_MAX_SIZE - need))
                    (act_return False) s)
          else act_seq (on_input (sshbuf_consume (sm_mac_len m))) (act_return True) s)"

definition read2_body :: "('c, 'z) pkt_lib \<Rightarrow> dir_keys \<Rightarrow> ('c, 'z, bool) pkt" where
  "read2_body P k s =
     (let need = read2_need k (ss_packlen s); n = unat need in
      if dk_block_size k = 0 then (Inl Faults, s)
      else if n mod dk_block_size k \<noteq> 0 then
        act_seq (ssh_packet_start_discard P (in_enc s) (in_mac k s) (ss_packlen s) (PACKET_MAX_SIZE - dk_block_size k))
          (act_return False) s
      else if sshbuf_len (ss_input s) <
              unat (of_nat (dk_aadlen k) + need + of_nat (dk_authlen k) + of_nat (read2_maclen k) :: u32)
      then (Inr False, s)
      else
        act_bind (read2_mac P k (mem_at (ss_input s)) (unat (of_nat (dk_aadlen k) + need)) True) (\<lambda>etm_mac.
        act_seq (read2_decrypt P k n) (\<lambda>s1.
        act_bind (read2_mac P k (mem_at (ss_incoming_packet s1)) (sshbuf_len (ss_incoming_packet s1)) False)
          (\<lambda>mac. read2_check_mac P k (etm_mac @ mac) n) s1)) s)"

definition read2_count :: "dir_keys \<Rightarrow> ('c, 'z, u32) pkt" where
  "read2_count k s =
     (let p = ss_p_read s; p1 = p\<lparr>ps_seqnr := ps_seqnr p + 1, ps_packets := ps_packets p + 1\<rparr>
      in if ps_packets p1 = 0 \<and> ss_compat s AND SSH_BUG_NOREKEY = 0
         then (Inl (Rc SSH_ERR_NEED_REKEY), s\<lparr>ss_p_read := p1\<rparr>)
         else (Inr (ps_seqnr p),
               s\<lparr>ss_p_read := p1\<lparr>ps_blocks := ps_blocks p1 + ucast ((ss_packlen s + 4) div of_nat (dk_block_size k)),
                     ps_bytes := ps_bytes p1 + ucast (ss_packlen s + 4)\<rparr>\<rparr>))"

text \<open>The padding is dropped. The texts of the messages that end the connection are without their numbers.\<close>

definition read2_unpad :: "('c, 'z) pkt_lib \<Rightarrow> ('c, 'z, unit) pkt" where
  "read2_unpad P s =
     (let mem = mem_at (ss_incoming_packet s) in
      if length mem < 5 then (Inl Faults, s)
      else
        let padlen = mem ! 4 in
        if padlen < 4 then ssh_packet_disconnect P ''Corrupted padlen on input.'' s
        else act_seq (on_incoming (sshbuf_consume 5)) (on_incoming (sshbuf_consume_end (unat padlen))) s)"

definition read2_uncompress :: "('c, 'z) pkt_lib \<Rightarrow> ('c, 'z, unit) pkt" where
  "read2_uncompress P =
     act_all
       [on_compression (reset_buf (P_am P)), uncompress_buffer P, on_incoming (reset_buf (P_am P)),
        (\<lambda>s. case ss_compression_buffer s of None \<Rightarrow> (Inl Faults, s)
              | Some cb \<Rightarrow> on_incoming (sshbuf_putb (P_am P) cb) s)]"

text \<open>The type; new keys and delayed compression start with the packet that announces them.\<close>

definition read2_finish :: "('c, 'z) pkt_lib \<Rightarrow> byte \<Rightarrow> ('c, 'z, unit) pkt" where
  "read2_finish P type s =
     (if type = SSH2_MSG_NEWKEYS then ssh_set_newkeys P MODE_IN s
      else if type = SSH2_MSG_USERAUTH_SUCCESS \<and> \<not> ss_server_side s then ssh_packet_enable_delayed_compress P s
      else (Inr (), s))"

definition read2_type :: "('c, 'z) pkt_lib \<Rightarrow> ('c, 'z, byte) pkt" where
  "read2_type P =
     act_bind (on_incoming sshbuf_get_u8) (\<lambda>type.
       if type < SSH2_MSG_MIN \<or> SSH2_MSG_LOCAL_MIN \<le> type then ssh_packet_disconnect P ''Invalid ssh2 packet type''
       else (\<lambda>s. case read2_finish P type s of (r, s1) \<Rightarrow> (map_sum id (\<lambda>_. type) r, s1\<lparr>ss_packlen := 0\<rparr>)))"

text \<open>
  The result is the type, \<open>SSH_MSG_NONE\<close> when there is no complete packet, and the sequence number
  of the packet.
\<close>

definition ssh_packet_read_poll2 :: "('c, 'z) pkt_lib \<Rightarrow> ('c, 'z, byte \<times> u32 option) pkt" where
  "ssh_packet_read_poll2 P s =
     (if ss_packet_discard s \<noteq> 0 then (Inr (SSH_MSG_NONE, None), s)
      else case keys_used (ss_newkeys s MODE_IN) of None \<Rightarrow> (Inl Faults, s)
      | Some k \<Rightarrow>
         act_bind (read2_length P k) (\<lambda>go.
           if \<not> go then act_return (SSH_MSG_NONE, None)
           else act_bind (read2_body P k) (\<lambda>go.
             if \<not> go then act_return (SSH_MSG_NONE, None)
             else
               act_bind (read2_count k) (\<lambda>seqnr.
               act_seq (read2_unpad P)
               (act_seq (if dk_comp k then read2_uncompress P else act_return ())
               (act_bind (read2_type P) (\<lambda>type. act_return (type, Some seqnr))))))) s)"

definition ssh_packet_process_incoming :: "('c, 'z) pkt_lib \<Rightarrow> byte list \<Rightarrow> ('c, 'z, unit) pkt" where
  "ssh_packet_process_incoming P buf s =
     (if ss_packet_discard s \<noteq> 0 then
        let s1 = s\<lparr>ss_keep_alive_timeouts := 0\<rparr> in
        if unat (ss_packet_discard s) \<le> length buf then (Inl Exits, snd (ssh_packet_stop_discard P s1))
        else (Inr (), s1\<lparr>ss_packet_discard := ss_packet_discard s - of_nat (length buf)\<rparr>)
      else case sshbuf_put (P_am P) buf (ss_input s) of
             (Inl _, b) \<Rightarrow> (Inl Exits, s\<lparr>ss_input := b\<rparr>)
           | (Inr _, b) \<Rightarrow> (Inr (), s\<lparr>ss_input := b\<rparr>))"

section \<open>Protocol version 1\<close>

definition read1_attack :: "('c, 'z) pkt_lib \<Rightarrow> nat \<Rightarrow> ('c, 'z, unit) pkt" where
  "read1_attack P padded_len s =
     (if cc_plaintext (ss_receive_context s) then (Inr (), s)
      else case detect_attack (P_am P) (take padded_len (mem_at (ss_input s))) (ss_deattack s) of
             None \<Rightarrow> (Inl Hangs, s)
           | Some (r, dctx) \<Rightarrow>
               let s1 = s\<lparr>ss_deattack := dctx\<rparr> in
               (case r of
                  DEATTACK_OK \<Rightarrow> (Inr (), s1)
                | DEATTACK_DETECTED \<Rightarrow>
                    ssh_packet_disconnect P ''crc32 compensation attack: network attack detected'' s1
                | DEATTACK_DOS_DETECTED \<Rightarrow> ssh_packet_disconnect P ''deattack denial of service detected'' s1
                | DEATTACK_ERROR \<Rightarrow> ssh_packet_disconnect P ''deattack error'' s1))"

definition read1_decrypt :: "('c, 'z) pkt_lib \<Rightarrow> nat \<Rightarrow> ('c, 'z, unit) pkt" where
  "read1_decrypt P padded_len =
     act_all
       [on_incoming (reset_buf (P_am P)),
        (\<lambda>s. case sshbuf_reserve (P_am P) padded_len (ss_incoming_packet s) of
               (Inl e, b) \<Rightarrow> (Inl (Rc e), s\<lparr>ss_incoming_packet := b\<rparr>)
             | (Inr i, b) \<Rightarrow>
                (case cipher_crypt (P_evp P) (mem_at (ss_input s)) padded_len 0 0 (ss_receive_context s) of (r, dest, cc) \<Rightarrow>
                   (r, s\<lparr>ss_incoming_packet := poke i dest b, ss_receive_context := cc\<rparr>))),
        on_input (sshbuf_consume padded_len)]"

text \<open>The padding is dropped and the checksum over padding and payload compared with the last 4 bytes.\<close>

definition read1_checksum :: "('c, 'z) pkt_lib \<Rightarrow> nat \<Rightarrow> ('c, 'z, unit) pkt" where
  "read1_checksum P len s =
     (let data = sshbuf_bytes (ss_incoming_packet s);
          checksum = ssh_crc32 (take (length data - 4) data) in
      act_seq (on_incoming (sshbuf_consume (8 - len mod 8))) (\<lambda>s1.
        if len \<noteq> sshbuf_len (ss_incoming_packet s1) then ssh_packet_disconnect P ''packet_read_poll1: len'' s1
        else if checksum \<noteq> PEEK_U32 (drop (len - 4) (mem_at (ss_incoming_packet s1)))
        then ssh_packet_disconnect P ''Corrupted check bytes on input.'' s1
        else on_incoming (sshbuf_consume_end 4) s1) s)"

definition read1_type :: "('c, 'z) pkt_lib \<Rightarrow> nat \<Rightarrow> ('c, 'z, byte) pkt" where
  "read1_type P padded_len =
     act_seq (\<lambda>s. (Inr (), s\<lparr>ss_p_read := (ss_p_read s)\<lparr>ps_packets := ps_packets (ss_p_read s) + 1,
                      ps_bytes := ps_bytes (ss_p_read s) + of_nat (padded_len + 4)\<rparr>\<rparr>))
       (act_bind (on_incoming sshbuf_get_u8) (\<lambda>type.
          if type < SSH_MSG_MIN \<or> SSH_MSG_MAX < type then ssh_packet_disconnect P ''Invalid ssh1 packet type''
          else act_return type))"

definition ssh_packet_read_poll1 :: "('c, 'z) pkt_lib \<Rightarrow> ('c, 'z, byte) pkt" where
  "ssh_packet_read_poll1 P s =
     (if sshbuf_len (ss_input s) < 4 + 8 then (Inr SSH_MSG_NONE, s)
      else
        let len = unat (PEEK_U32 (mem_at (ss_input s))) in
        if len < 1 + 2 + 2 \<or> 256 * 1024 < len then ssh_packet_disconnect P ''Bad packet length'' s
        else
          let padded_len = (len + 8) div 8 * 8 in
          if sshbuf_len (ss_input s) < 4 + padded_len then (Inr SSH_MSG_NONE, s)
          else
            act_seq (act_all
              [on_input (sshbuf_consume 4), read1_attack P padded_len, read1_decrypt P padded_len, read1_checksum P len,
               (\<lambda>s. if ss_packet_compression s then read2_uncompress P s else (Inr (), s))])
              (read1_type P padded_len) s)"

section \<open>Messages of the transport layer itself\<close>

text \<open>
  What \<open>ssh_packet_read_poll_seqnr\<close> does with one packet of protocol 2: \<open>Inr True\<close> when it is for the
  caller, \<open>Inr False\<close> when the next one is to be read.
\<close>

definition transport_message :: "('c, 'z) pkt_lib \<Rightarrow> byte \<Rightarrow> ('c, 'z, bool) pkt" where
  "transport_message P type =
     (if type = SSH2_MSG_IGNORE then act_return False
      else if type = SSH2_MSG_DEBUG then
        act_seq sshpkt_get_u8 (act_seq (sshpkt_get_string P) (act_seq (on_incoming sshbuf_get_string_direct) (act_return False)))
      else if type = SSH2_MSG_DISCONNECT then
        act_seq sshpkt_get_u32 (act_seq (sshpkt_get_string P) (act_fail (Rc SSH_ERR_DISCONNECTED)))
      else if type = SSH2_MSG_UNIMPLEMENTED then act_seq sshpkt_get_u32 (act_return False)
      else act_return True)"

definition transport_message1 :: "('c, 'z) pkt_lib \<Rightarrow> byte \<Rightarrow> ('c, 'z, bool) pkt" where
  "transport_message1 P type =
     (if type = SSH_MSG_IGNORE then act_return False
      else if type = SSH_MSG_DEBUG then act_seq (sshpkt_get_string P) (act_return False)
      else if type = SSH_MSG_DISCONNECT then act_seq (sshpkt_get_string P) (act_fail (Rc SSH_ERR_DISCONNECTED))
      else act_return True)"

text \<open>
  One round of the loop: \<open>Inr (Some t)\<close> is the result, \<open>Inr None\<close> the next round. In protocol 1 the
  error of \<open>ssh_packet_read_poll1\<close> is not looked at: without a type the loop ends as if there was no
  packet.
\<close>

definition read_round :: "('c, 'z) pkt_lib \<Rightarrow> ('c, 'z, (byte \<times> u32 option) option) pkt" where
  "read_round P s =
     (if ss_compat20 s then
        act_bind (ssh_packet_read_poll2 P) (\<lambda>(type, seqnr).
          act_seq (\<lambda>s. (Inr (), if type \<noteq> 0 then s\<lparr>ss_keep_alive_timeouts := 0\<rparr> else s))
            (act_bind (transport_message P type) (\<lambda>done. act_return (if done then Some (type, seqnr) else None)))) s
      else
        (case ssh_packet_read_poll1 P s of
           (Inl (Rc _), s1) \<Rightarrow> (Inr (Some (SSH_MSG_NONE, None)), s1)
         | (Inl e, s1) \<Rightarrow> (Inl e, s1)
         | (Inr type, s1) \<Rightarrow>
             act_bind (transport_message1 P type) (\<lambda>done. act_return (if done then Some (type, None) else None)) s1))"

partial_function (option) read_loop ::
  "('c, 'z) pkt_lib \<Rightarrow> ('c, 'z) ssh \<Rightarrow> ((stop + byte \<times> u32 option) \<times> ('c, 'z) ssh) option" where
  "read_loop P s =
     (case read_round P s of
        (Inl e, s1) \<Rightarrow> Some (Inl e, s1)
      | (Inr (Some t), s1) \<Rightarrow> Some (Inr t, s1)
      | (Inr None, s1) \<Rightarrow> read_loop P s1)"

definition ssh_packet_read_poll_seqnr :: "('c, 'z) pkt_lib \<Rightarrow> ('c, 'z, byte \<times> u32 option) pkt" where
  "ssh_packet_read_poll_seqnr P s = (case read_loop P s of None \<Rightarrow> (Inl Hangs, s) | Some x \<Rightarrow> x)"

end
