(* ===== verification/Packet_Send.thy ===== *)
theory Packet_Send
  imports Packet_Read
begin

text \<open>
  The sender of the packet layer: the lengths of the padding, what is relied on of ciphers and
  message authentication codes, and that what \<open>ssh_packet_send2_wrapped\<close> appends to the output is a
  packet the receiver can open.
\<close>

section \<open>Buffers of a session\<close>

lemma ready_room:
  assumes "ready b" "\<forall>n. am n \<noteq> None" "length (contents b) + n \<le> SSHBUF_SIZE_MAX"
  obtains i b' where "sshbuf_reserve am n b = (Inr i, b')"
    "\<And>v. length v = n \<Longrightarrow> ready (poke i v b') \<and> contents (poke i v b') = contents b @ v"
proof -
  have "length (replicate n (0 :: byte)) = n" by simp
  with writesD [OF writes_put [OF assms(2), of "replicate n 0"] assms(1)] assms(3)
  obtain b1 where "sshbuf_put am (replicate n 0) b = (Inr (), b1)" by auto
  then obtain i b' where r: "sshbuf_reserve am n b = (Inr i, b')"
    by (auto simp: sshbuf_put_def act_simps split: prod.splits sum.splits)
  have "ready (poke i v b') \<and> contents (poke i v b') = contents b @ v" if "length v = n" for v
    using reserve_fill [OF ready_wf [OF assms(1)], of am v i b'] r that ready_frame [OF assms(1), of "poke i v b'"] by simp
  with r show thesis by (rule that)
qed

lemma mem_at_ready: "ready b \<Longrightarrow> \<exists>z. mem_at b = contents b @ z"
  using take_bytes_at [of b "length (contents b)"] ready_wf [of b] unfolding mem_at_def
  by (metis append_take_drop_id order_refl take_all)

lemma ready_front:
  assumes "ready b" "contents b = h @ r" "length v = length h"
  shows "ready (poke (sb_off b) v b)" "contents (poke (sb_off b) v b) = v @ r"
proof -
  have wf: "sshbuf_wf b" "\<not> sb_readonly b" using assms(1) by (simp_all add: ready_def sshbuf_writable_def)
  note bnd = wf_bounds [OF wf(1)]
  have len: "length h + length r = sb_size b - sb_off b" using assms(2) length_contents [OF wf(1)] by simp
  then have "sshbuf_wf (poke (sb_off b) v b)" using wf bnd assms(3) by (intro poke_wf) auto
  then show "ready (poke (sb_off b) v b)" by (rule ready_frame [OF assms(1)]) simp
  have "contents b = take (length h) (contents b) @ drop (length h) (contents b)" by simp
  then have r: "r = drop (length h) (contents b)" using assms(2) by simp
  show "contents (poke (sb_off b) v b) = v @ r"
    using bnd len assms(3)
    by (simp add: r contents_def poke_def write_at_def drop_take min_def ac_simps)
qed

lemma ready_advance:
  assumes "ready b" "n \<le> length (contents b)"
  shows "sshbuf_consume n b = (Inr (), advance n b)" "ready (advance n b)" "contents (advance n b) = drop n (contents b)"
  using assms consume_advance [OF ready_wf [OF assms(1)], of n] advance [OF ready_wf [OF assms(1)] assms(2)]
    ready_frame [OF assms(1), of "advance n b"] by simp_all

lemma ready_consume_end:
  assumes "ready b" "n \<le> length (contents b)"
  obtains b' where "sshbuf_consume_end n b = (Inr (), b')" "ready b'"
    "contents b' = take (length (contents b) - n) (contents b)"
  using assms consume_end_wf [OF ready_wf [OF assms(1)], of n] drop_back [OF ready_wf [OF assms(1)] assms(2)]
    ready_frame [OF assms(1)] by (simp del: length_contents)

section \<open>Padding\<close>

lemma roundup_dvd: "y dvd roundup x y"
  by (simp add: roundup_def)

lemma dvd_fill: "0 < (b :: nat) \<Longrightarrow> b dvd n + (b - n mod b)"
proof -
  assume "0 < b"
  then have "n + (b - n mod b) = n div b * b + b"
    using div_mult_mod_eq [of n b] mod_less_divisor [of b n] by linarith
  then show ?thesis by simp
qed

lemma pad_base:
  assumes "4 \<le> bs" "bs \<le> 16"
  obtains q where "(let p0 = of_nat (bs - unat len mod bs) :: byte in if p0 < 4 then p0 + of_nat bs else p0) = of_nat q"
    "4 \<le> q" "q \<le> bs + 3" "bs dvd unat len + q"
proof -
  define q0 where "q0 = bs - unat len mod bs"
  have q0: "q0 \<le> 16" "bs dvd unat len + q0" using assms dvd_fill [of bs "unat len"] by (auto simp: q0_def)
  have "unat (of_nat q0 :: byte) = q0" using q0(1) by (simp add: unsigned_of_nat take_bit_nat_eq_self)
  then have lt: "(of_nat q0 :: byte) < 4 \<longleftrightarrow> q0 < 4" by (simp add: word_less_nat_alt)
  have fold: "(of_nat (bs - unat len mod bs) :: byte) = of_nat q0" by (simp only: q0_def)
  show thesis
  proof (cases "q0 < 4")
    case True
    show thesis
    proof (rule that [of "q0 + bs"])
      show "bs dvd unat len + (q0 + bs)" using q0(2) by (metis add.assoc dvd_add_triv_right_iff)
    qed (use True lt assms in \<open>simp_all add: Let_def fold\<close>)
  next
    case False
    moreover have "q0 \<le> bs" by (simp add: q0_def)
    ultimately show thesis using that [of q0] lt q0 assms by (simp add: Let_def fold)
  qed
qed

lemma pad_length_ok:
  assumes bs: "4 \<le> bs" "bs \<le> 16" and ep: "unat ep + 2 * bs + 3 \<le> 256" and len: "unat len + 256 < 2 ^ 32"
  obtains p where "pad_length len bs ep = Some p" "4 \<le> unat p" "bs dvd unat len + unat p"
proof -
  obtain q where q: "(let p0 = of_nat (bs - unat len mod bs) :: byte in if p0 < 4 then p0 + of_nat bs else p0) = of_nat q"
    "4 \<le> q" "q \<le> bs + 3" "bs dvd unat len + q" by (rule pad_base [OF bs])
  have uq: "unat (of_nat q :: byte) = q" using q(3) bs by (simp add: unsigned_of_nat take_bit_nat_eq_self)
  show thesis
  proof (cases "ep = 0")
    case True
    then have "pad_length len bs ep = Some (of_nat q)" using q(1) bs by (simp add: pad_length_def Let_def)
    then show thesis using that uq q(2,4) by simp
  next
    case False
    let ?e = "roundup (unat ep) bs"
    have "0 < unat ep" using False by (simp add: unat_gt_0)
    then have e: "?e < 253 - bs" "0 < ?e" "bs dvd ?e"
      using roundup_less [of bs "unat ep"] roundup_ge [of bs "unat ep"] roundup_dvd [of bs "unat ep"] bs ep
      by linarith+
    then have ue: "unat (of_nat ?e :: byte) = ?e" by (simp add: unsigned_of_nat take_bit_nat_eq_self)
    have lq: "unat (len + ucast (of_nat q :: byte)) = unat len + q"
    proof -
      have "unat (ucast (of_nat q :: byte) :: u32) = take_bit 32 q" using uq by (simp add: unsigned_ucast_eq)
      also have "\<dots> = q" using q(3) bs by (intro take_bit_nat_eq_self) simp
      finally show ?thesis using len q(3) bs by (simp add: unat_plus_simple [THEN iffD1] word_le_nat_alt unat_word_ariths)
    qed
    let ?r = "?e - (unat len + q) mod ?e"
    have r: "0 < ?r" "?r \<le> ?e" "?e dvd unat len + q + ?r" using e(2) dvd_fill [of ?e "unat len + q"] by auto
    have "pad_length len bs ep = Some (of_nat q + (of_nat ?e - of_nat ((unat len + q) mod ?e)))"
      using q(1) bs False ue e(2) lq by (auto simp: pad_length_def Let_def)
    also have "of_nat q + (of_nat ?e - of_nat ((unat len + q) mod ?e)) = (of_nat (q + ?r) :: byte)"
      using r by simp
    finally have run: "pad_length len bs ep = Some (of_nat (q + ?r))" .
    have "q + ?r < 2 ^ 8" using e(1) r(2) q(3) bs by simp
    then have "unat (of_nat (q + ?r) :: byte) = q + ?r" by (simp only: unsigned_of_nat) (simp add: take_bit_nat_eq_self)
    moreover have "bs dvd unat len + (q + ?r)" using dvd_trans [OF e(3) r(3)] by (simp add: add.assoc)
    ultimately show thesis using that [OF run] q(2) by simp
  qed
qed

section \<open>What is relied on of the cryptography\<close>

text \<open>
  \<open>R e d\<close> relates an encrypting context to the decrypting context of the other side. A cipher that
  does not authenticate inverts whole blocks, also in two pieces; one that does inverts the data
  and accepts the tag that was computed for the same data and the same additional bytes.
\<close>

definition stream_pair :: "'c evp_lib \<Rightarrow> nat \<Rightarrow> ('c \<Rightarrow> 'c \<Rightarrow> bool) \<Rightarrow> bool" where
  "stream_pair L bs R \<longleftrightarrow>
     (\<forall>e d a b. R e d \<longrightarrow> bs dvd length a \<longrightarrow> bs dvd length b \<longrightarrow>
       (\<exists>x y e' d1 d2 r r1 r2 r3. EVP_Cipher L (a @ b) e = (r, x @ y, e') \<and> length x = length a \<and> length y = length b \<and>
          EVP_Cipher L x d = (r1, a, d1) \<and> EVP_Cipher L y d1 = (r2, b, d2) \<and> EVP_Cipher L (x @ y) d = (r3, a @ b, d2) \<and>
          0 \<le> r \<and> 0 \<le> r1 \<and> 0 \<le> r2 \<and> 0 \<le> r3 \<and> R e' d2))"

definition aead_pair :: "'c evp_lib \<Rightarrow> nat \<Rightarrow> nat \<Rightarrow> ('c \<Rightarrow> 'c \<Rightarrow> bool) \<Rightarrow> bool" where
  "aead_pair L bs authlen R \<longleftrightarrow>
     (\<forall>e d aad a. R e d \<longrightarrow> bs dvd length a \<longrightarrow> a \<noteq> [] \<longrightarrow>
       (\<exists>e1 e2 e3 e4 d1 d2 d3 d4 d5 x tag r1 r2 r3 r4 r5 r6.
          EVP_iv_gen L e = (True, e1) \<and> EVP_Cipher_aad L aad e1 = (r1, e2) \<and> EVP_Cipher L a e2 = (r2, x, e3) \<and>
          EVP_Cipher_final L e3 = (r3, e4) \<and> EVP_get_tag L authlen e4 = (True, tag) \<and>
          length x = length a \<and> length tag = authlen \<and>
          EVP_iv_gen L d = (True, d1) \<and> EVP_set_tag L tag d1 = (True, d2) \<and> EVP_Cipher_aad L aad d2 = (r4, d3) \<and>
          EVP_Cipher L x d3 = (r5, a, d4) \<and> EVP_Cipher_final L d4 = (r6, d5) \<and>
          0 \<le> r1 \<and> 0 \<le> r2 \<and> 0 \<le> r3 \<and> 0 \<le> r4 \<and> 0 \<le> r5 \<and> 0 \<le> r6 \<and> R e4 d5))"

definition cipher_pair :: "'c evp_lib \<Rightarrow> sshcipher \<Rightarrow> ('c \<Rightarrow> 'c \<Rightarrow> bool) \<Rightarrow> bool" where
  "cipher_pair L c R \<longleftrightarrow>
     (if ci_auth_len c = 0 then stream_pair L (ci_block_size c) R
      else aead_pair L (ci_block_size c) (ci_auth_len c) R)"

text \<open>A keyed code that is computed without failure and is as long as the packets need it.\<close>

definition mac_works :: "mac_lib \<Rightarrow> sshmac \<Rightarrow> bool" where
  "mac_works M m \<longleftrightarrow> sm_mac_len m \<le> MAC_DIGEST_LEN_MAX \<and>
     (\<forall>seq data. \<exists>d. mac_digest M m seq data = Inr d \<and> sm_mac_len m \<le> length d)"

lemma mac_works_compute:
  assumes "mac_works M m"
  obtains d where "mac_compute M m seq data MAC_DIGEST_LEN_MAX = Inr d" "length d = sm_mac_len m"
proof -
  obtain d where "mac_digest M m seq data = Inr d" "sm_mac_len m \<le> length d"
    using assms unfolding mac_works_def by blast
  moreover have "sm_mac_len m \<le> MAC_DIGEST_LEN_MAX" using assms by (simp add: mac_works_def)
  ultimately show thesis
    using that [of "take (sm_mac_len m) d"] by (simp add: mac_compute_def min_absorb1 min_absorb2 not_less [symmetric])
qed

section \<open>Encryption and decryption of one packet\<close>

definition linked :: "('c \<Rightarrow> 'c \<Rightarrow> bool) \<Rightarrow> sshcipher \<Rightarrow> 'c cipher_ctx \<Rightarrow> 'c cipher_ctx \<Rightarrow> bool" where
  "linked R c cc cd \<longleftrightarrow> cc_cipher cc = Some c \<and> cc_encrypt cc \<and> cc_cipher cd = Some c \<and> \<not> cc_encrypt cd \<and>
     R (cc_evp cc) (cc_evp cd)"

lemma crypt_stream:
  assumes pair: "stream_pair L (ci_block_size c) R" and "ci_auth_len c = 0" and link: "linked R c cc cd"
    and dvd: "ci_block_size c dvd length a" "ci_block_size c dvd length b" and h: "length h = n"
  obtains x y cc' cd1 cd' where "cipher_crypt L (h @ a @ b) (length a + length b) n 0 cc = (Inr (), h @ x @ y, cc')"
    "length x = length a" "length y = length b" "linked R c cc' cd'"
    "\<forall>z. cipher_crypt L (h @ (x @ y) @ z) (length a + length b) n 0 cd = (Inr (), h @ a @ b, cd')"
    "\<forall>z. cipher_crypt L (x @ z) (length a) 0 0 cd = (Inr (), a, cd1)"
    "\<forall>z. cipher_crypt L (y @ z) (length b) 0 0 cd1 = (Inr (), b, cd')"
proof -
  have R: "R (cc_evp cc) (cc_evp cd)" using link by (simp add: linked_def)
  obtain x y e' d1 d2 r r1 r2 r3 where xy: "EVP_Cipher L (a @ b) (cc_evp cc) = (r, x @ y, e')" "length x = length a"
    "length y = length b" "EVP_Cipher L x (cc_evp cd) = (r1, a, d1)" "EVP_Cipher L y d1 = (r2, b, d2)"
    "EVP_Cipher L (x @ y) (cc_evp cd) = (r3, a @ b, d2)" "0 \<le> r" "0 \<le> r1" "0 \<le> r2" "0 \<le> r3" "R e' d2"
    using pair [unfolded stream_pair_def, rule_format, OF R dvd] by (elim exE conjE) (rule that)
  have "(length a + length b) mod ci_block_size c = 0" "length a mod ci_block_size c = 0" "length b mod ci_block_size c = 0"
    using dvd by (simp_all add: dvd_imp_mod_0 mod_add_left_eq [symmetric])
  note run = cipher_crypt_def evp_crypt_def crypt_begin_def crypt_end_def act_simps this linked_def
  show thesis
  proof (rule that [of x y "cc\<lparr>cc_evp := e'\<rparr>" "cd\<lparr>cc_evp := d2\<rparr>" "cd\<lparr>cc_evp := d1\<rparr>"])
    show "cipher_crypt L (h @ a @ b) (length a + length b) n 0 cc = (Inr (), h @ x @ y, cc\<lparr>cc_evp := e'\<rparr>)"
      using xy link h by (simp add: run)
    show "linked R c (cc\<lparr>cc_evp := e'\<rparr>) (cd\<lparr>cc_evp := d2\<rparr>)" using link xy(11) by (simp add: linked_def)
    show "\<forall>z. cipher_crypt L (h @ (x @ y) @ z) (length a + length b) n 0 cd = (Inr (), h @ a @ b, cd\<lparr>cc_evp := d2\<rparr>)"
      using xy link h by (simp add: run)
    show "\<forall>z. cipher_crypt L (x @ z) (length a) 0 0 cd = (Inr (), a, cd\<lparr>cc_evp := d1\<rparr>)"
      using xy link by (simp add: run)
    show "\<forall>z. cipher_crypt L (y @ z) (length b) 0 0 (cd\<lparr>cc_evp := d1\<rparr>) = (Inr (), b, cd\<lparr>cc_evp := d2\<rparr>)"
      using xy link by (simp add: run)
  qed (use xy in simp_all)
qed

lemma crypt_aead:
  assumes pair: "aead_pair L (ci_block_size c) (ci_auth_len c) R" and auth: "ci_auth_len c \<noteq> 0" and link: "linked R c cc cd"
    and dvd: "ci_block_size c dvd length a" and a: "a \<noteq> []" and h: "length h = n" "0 < n"
  obtains x cc' cd' where "cipher_crypt L (h @ a) (length a) n (ci_auth_len c) cc = (Inr (), h @ x, cc')"
    "length x = length a + ci_auth_len c" "linked R c cc' cd'"
    "\<forall>z. cipher_crypt L (h @ x @ z) (length a) n (ci_auth_len c) cd = (Inr (), h @ a, cd')"
proof -
  have R: "R (cc_evp cc) (cc_evp cd)" using link by (simp add: linked_def)
  obtain e1 e2 e3 e4 d1 d2 d3 d4 d5 x tag r1 r2 r3 r4 r5 r6 where
    enc: "EVP_iv_gen L (cc_evp cc) = (True, e1)" "EVP_Cipher_aad L h e1 = (r1, e2)" "EVP_Cipher L a e2 = (r2, x, e3)"
      "EVP_Cipher_final L e3 = (r3, e4)" "EVP_get_tag L (ci_auth_len c) e4 = (True, tag)"
      "length x = length a" "length tag = ci_auth_len c" "0 \<le> r1" "0 \<le> r2" "0 \<le> r3"
    and dec: "EVP_iv_gen L (cc_evp cd) = (True, d1)" "EVP_set_tag L tag d1 = (True, d2)" "EVP_Cipher_aad L h d2 = (r4, d3)"
      "EVP_Cipher L x d3 = (r5, a, d4)" "EVP_Cipher_final L d4 = (r6, d5)" "0 \<le> r4" "0 \<le> r5" "0 \<le> r6" "R e4 d5"
    using pair [unfolded aead_pair_def, rule_format, OF R dvd a, of h] by (elim exE conjE) (rule that)
  have "length a mod ci_block_size c = 0" using dvd by (rule dvd_imp_mod_0)
  note run = cipher_crypt_def evp_crypt_def crypt_begin_def crypt_end_def evp_try_def cipher_authlen_def act_simps this linked_def
  show thesis
  proof (rule that [of "x @ tag" "cc\<lparr>cc_evp := e4\<rparr>" "cd\<lparr>cc_evp := d5\<rparr>"])
    show "cipher_crypt L (h @ a) (length a) n (ci_auth_len c) cc = (Inr (), h @ x @ tag, cc\<lparr>cc_evp := e4\<rparr>)"
      using enc link h auth by (simp add: run)
    show "linked R c (cc\<lparr>cc_evp := e4\<rparr>) (cd\<lparr>cc_evp := d5\<rparr>)" using link dec(9) by (simp add: linked_def)
    show "\<forall>z. cipher_crypt L (h @ (x @ tag) @ z) (length a) n (ci_auth_len c) cd = (Inr (), h @ a, cd\<lparr>cc_evp := d5\<rparr>)"
      using enc(6,7) dec link h auth by (simp add: run)
  qed (use enc in simp)
qed

text \<open>The receiver with the context \<open>cd\<close> turns the bytes \<open>wire\<close> into the packet \<open>data\<close>.\<close>

definition opens :: "('c, 'z) pkt_lib \<Rightarrow> dir_keys \<Rightarrow> u32 \<Rightarrow> byte list \<Rightarrow> 'c cipher_ctx \<Rightarrow> byte list \<Rightarrow> 'c cipher_ctx \<Rightarrow> bool" where
  "opens P k seq data cd wire cd' \<longleftrightarrow>
     (\<exists>x m. wire = x @ m \<and> length x = length data + dk_authlen k \<and> length m = read2_maclen k \<and>
       (\<forall>mc. dk_mac k = Some mc \<longrightarrow>
          mac_compute (P_mac P) mc seq (if sm_etm mc then take (length data) x else data) MAC_DIGEST_LEN_MAX = Inr m) \<and>
       (if dk_aadlen k \<noteq> 0
        then take 4 x = take 4 data \<and>
          (\<forall>z. cipher_crypt (P_evp P) (x @ z) (length data - 4) 4 (dk_authlen k) cd = (Inr (), data, cd'))
        else \<exists>cd1.
          (\<forall>z. cipher_crypt (P_evp P) (take (dk_block_size k) x @ z) (dk_block_size k) 0 0 cd = (Inr (), take (dk_block_size k) data, cd1)) \<and>
          (\<forall>z. cipher_crypt (P_evp P) (drop (dk_block_size k) x @ z) (length data - dk_block_size k) 0 0 cd1 =
             (Inr (), drop (dk_block_size k) data, cd'))))"

text \<open>What holds of the parameters of any keys, and what a cipher of the table adds.\<close>

definition keys_fit :: "('c, 'z) pkt_lib \<Rightarrow> sshcipher \<Rightarrow> dir_keys \<Rightarrow> bool" where
  "keys_fit P c k \<longleftrightarrow>
     dk_aadlen k = (if dk_authlen k \<noteq> 0 \<or> (\<exists>m. dk_mac k = Some m \<and> sm_etm m) then 4 else 0) \<and>
     (dk_authlen k \<noteq> 0 \<longrightarrow> dk_mac k = None) \<and>
     dk_authlen k = ci_auth_len c \<and> dk_block_size k = ci_block_size c \<and>
     8 \<le> dk_block_size k \<and> dk_block_size k \<le> 16 \<and> dk_authlen k \<le> 16 \<and>
     (\<forall>m. dk_mac k = Some m \<longrightarrow> mac_works (P_mac P) m)"

lemma seal_clear:
  assumes fit: "keys_fit P c k" and aad: "dk_aadlen k \<noteq> 0" and pair: "cipher_pair (P_evp P) c R"
    and link: "linked R c cc cd" and len: "4 < length data" "dk_block_size k dvd length data - 4"
  obtains x cc' cd' where "cipher_crypt (P_evp P) data (length data - 4) 4 (dk_authlen k) cc = (Inr (), x, cc')"
    "length x = length data + dk_authlen k" "take 4 x = take 4 data" "linked R c cc' cd'"
    "\<forall>z. cipher_crypt (P_evp P) (x @ z) (length data - 4) 4 (dk_authlen k) cd = (Inr (), data, cd')"
proof -
  let ?h = "take 4 data" and ?a = "drop 4 data"
  have a: "length ?h = 4" "length ?a = length data - 4" "ci_block_size c dvd length ?a" "?a \<noteq> []" "?h @ ?a = data"
    using len fit by (auto simp: keys_fit_def)
  have al: "dk_authlen k = ci_auth_len c" using fit by (simp add: keys_fit_def)
  show thesis
  proof (cases "ci_auth_len c = 0")
    case True
    then have sp: "stream_pair (P_evp P) (ci_block_size c) R" using pair by (simp add: cipher_pair_def)
    have nil: "ci_block_size c dvd length ([] :: byte list)" by simp
    obtain x y cc' cd1 cd' where "cipher_crypt (P_evp P) (?h @ ?a @ []) (length ?a + length ([] :: byte list)) 4 0 cc = (Inr (), ?h @ x @ y, cc')"
      "length x = length ?a" "length y = length ([] :: byte list)" "linked R c cc' cd'"
      "\<forall>z. cipher_crypt (P_evp P) (?h @ (x @ y) @ z) (length ?a + length ([] :: byte list)) 4 0 cd = (Inr (), ?h @ ?a @ [], cd')"
      "\<forall>z. cipher_crypt (P_evp P) (x @ z) (length ?a) 0 0 cd = (Inr (), ?a, cd1)"
      "\<forall>z. cipher_crypt (P_evp P) (y @ z) (length ([] :: byte list)) 0 0 cd1 = (Inr (), [], cd')"
      by (rule crypt_stream [OF sp True link a(3) nil a(1)]) (rule that)
    then show thesis using that [of "?h @ x" cc' cd'] a True al by simp
  next
    case False
    then have ap: "aead_pair (P_evp P) (ci_block_size c) (ci_auth_len c) R" using pair by (simp add: cipher_pair_def)
    obtain x cc' cd' where "cipher_crypt (P_evp P) (?h @ ?a) (length ?a) 4 (ci_auth_len c) cc = (Inr (), ?h @ x, cc')"
      "length x = length ?a + ci_auth_len c" "linked R c cc' cd'"
      "\<forall>z. cipher_crypt (P_evp P) (?h @ x @ z) (length ?a) 4 (ci_auth_len c) cd = (Inr (), ?h @ ?a, cd')"
      by (rule crypt_aead [OF ap False link a(3,4,1) zero_less_numeral]) (rule that)
    then show thesis using that [of "?h @ x" cc' cd'] a al by simp
  qed
qed

lemma seal_block:
  assumes fit: "keys_fit P c k" and aad: "dk_aadlen k = 0" and pair: "cipher_pair (P_evp P) c R"
    and link: "linked R c cc cd" and len: "dk_block_size k \<le> length data" "dk_block_size k dvd length data"
  obtains x cc' cd1 cd' where "cipher_crypt (P_evp P) data (length data) 0 0 cc = (Inr (), x, cc')"
    "length x = length data" "linked R c cc' cd'"
    "\<forall>z. cipher_crypt (P_evp P) (take (dk_block_size k) x @ z) (dk_block_size k) 0 0 cd = (Inr (), take (dk_block_size k) data, cd1)"
    "\<forall>z. cipher_crypt (P_evp P) (drop (dk_block_size k) x @ z) (length data - dk_block_size k) 0 0 cd1 =
       (Inr (), drop (dk_block_size k) data, cd')"
proof -
  let ?bs = "dk_block_size k" and ?a = "take (dk_block_size k) data" and ?b = "drop (dk_block_size k) data"
  have al: "ci_auth_len c = 0" "ci_block_size c = ?bs" using fit aad by (auto simp: keys_fit_def split: if_splits)
  have sp: "stream_pair (P_evp P) (ci_block_size c) R" using pair al by (simp add: cipher_pair_def)
  have ab: "ci_block_size c dvd length ?a" "ci_block_size c dvd length ?b" "?a @ ?b = data"
    "length ?a = ?bs" "length ?b = length data - ?bs" "length ?a + length ?b = length data"
    using len al by (auto simp: min_def)
  obtain x y cc' cd1 cd' where r: "cipher_crypt (P_evp P) ([] @ ?a @ ?b) (length ?a + length ?b) 0 0 cc = (Inr (), [] @ x @ y, cc')"
    "length x = length ?a" "length y = length ?b" "linked R c cc' cd'"
    "\<forall>z. cipher_crypt (P_evp P) ([] @ (x @ y) @ z) (length ?a + length ?b) 0 0 cd = (Inr (), [] @ ?a @ ?b, cd')"
    "\<forall>z. cipher_crypt (P_evp P) (x @ z) (length ?a) 0 0 cd = (Inr (), ?a, cd1)"
    "\<forall>z. cipher_crypt (P_evp P) (y @ z) (length ?b) 0 0 cd1 = (Inr (), ?b, cd')"
    by (rule crypt_stream [OF sp al(1) link ab(1,2) list.size(3)]) (rule that)
  have len_x: "length x = ?bs" using r(2) ab(4) by (simp only:)
  show thesis
  proof (rule that [of "x @ y" cc' cd' cd1])
    show "cipher_crypt (P_evp P) data (length data) 0 0 cc = (Inr (), x @ y, cc')"
      using r(1) by (simp only: ab(3,6) append_Nil)
    show "\<forall>z. cipher_crypt (P_evp P) (take ?bs (x @ y) @ z) ?bs 0 0 cd = (Inr (), ?a, cd1)"
      using r(6) len_x by (simp only: ab(4)) simp
    show "\<forall>z. cipher_crypt (P_evp P) (drop ?bs (x @ y) @ z) (length data - ?bs) 0 0 cd1 = (Inr (), ?b, cd')"
      using r(7) len_x by (simp only: ab(5)) simp
    show "length (x @ y) = length data" using r(2,3) ab(6) by (simp only: length_append)
  qed (rule r(4))
qed

section \<open>The sender\<close>

text \<open>
  A complete packet: its length, the length of the padding, the payload and the padding, which
  make a whole number of blocks where they are encrypted.
\<close>

definition framed :: "dir_keys \<Rightarrow> byte list \<Rightarrow> byte list \<Rightarrow> bool" where
  "framed k body data \<longleftrightarrow>
     (\<exists>pad. data = POKE_U32 (of_nat (1 + length body + length pad)) @ [of_nat (length pad)] @ body @ pad \<and>
       4 \<le> length pad \<and> length pad < 256) \<and>
     dk_block_size k dvd length data - dk_aadlen k \<and> length data \<le> PACKET_MAX_SIZE + 4"

lemma framed_length: "framed k body data \<Longrightarrow> 9 + length body \<le> length data \<and> length data \<le> 260 + length body"
  by (auto simp: framed_def)

text \<open>A payload that leaves room for the largest header and padding.\<close>

definition MAX_BODY :: nat where "MAX_BODY = PACKET_MAX_SIZE - 256"

lemma mutable_ptr_ready: "ready b \<Longrightarrow> sshbuf_mutable_ptr b = Some (sb_off b)"
  by (simp add: ready_def sshbuf_mutable_ptr_def sshbuf_writable_def)

lemma unat_sub_small: "m \<le> n \<Longrightarrow> n < 2 ^ 32 \<Longrightarrow> unat (of_nat n - of_nat m :: u32) = n - m"
proof -
  assume a: "m \<le> n" "n < 2 ^ 32"
  then have "(of_nat n - of_nat m :: u32) = of_nat (n - m)" by simp
  then show ?thesis using a by (simp only: unsigned_of_nat) (simp add: take_bit_nat_eq_self)
qed

lemma fill_bytes: "\<exists>pad g'. (if C then arc4random_buf n g else (replicate n 0, g)) = (pad, g') \<and> length pad = n"
  by (cases C) (simp_all add: arc4random_buf_def)

lemma send2_pad_run:
  assumes am: "\<forall>n. P_am P n \<noteq> None" and fit: "keys_fit P c k" and b: "ready (ss_outgoing_packet s)"
    and body: "contents (ss_outgoing_packet s) = h @ body" "length h = 5" "length body \<le> MAX_BODY"
    and ep: "unat (ss_extra_pad s) \<le> 221"
  obtains pad b g where
    "send2_pad P k s = (Inr (of_nat (length pad)), s\<lparr>ss_extra_pad := 0, ss_outgoing_packet := b, ss_rng := g\<rparr>)"
    "ready b" "contents b = h @ body @ pad" "4 \<le> length pad" "length pad < 256"
    "dk_block_size k dvd 5 + length body + length pad - dk_aadlen k"
proof -
  have k: "8 \<le> dk_block_size k" "dk_block_size k \<le> 16" "dk_aadlen k \<le> 4" using fit by (auto simp: keys_fit_def)
  have len: "sshbuf_len (ss_outgoing_packet s) = 5 + length body" using b body by (simp add: ready_wf del: length_contents)
  let ?len = "of_nat (sshbuf_len (ss_outgoing_packet s)) - of_nat (dk_aadlen k) :: u32"
  have ul: "unat ?len = 5 + length body - dk_aadlen k"
    using k(3) body(3) unfolding len by (intro unat_sub_small) (simp_all add: MAX_BODY_def PACKET_MAX_SIZE_def)
  obtain p where p: "pad_length ?len (dk_block_size k) (ss_extra_pad s) = Some p" "4 \<le> unat p" "dk_block_size k dvd unat ?len + unat p"
  proof (rule pad_length_ok [of "dk_block_size k" "ss_extra_pad s" ?len])
    show "unat ?len + 256 < 2 ^ 32" using body(3) unfolding ul by (simp add: MAX_BODY_def PACKET_MAX_SIZE_def)
  qed (use k ep in simp_all)
  have up: "unat p < 256" by (rule order_less_le_trans [OF unsigned_less]) simp
  have "length (contents (ss_outgoing_packet s)) + unat p \<le> SSHBUF_SIZE_MAX"
    using body up by (simp add: MAX_BODY_def PACKET_MAX_SIZE_def SSHBUF_SIZE_MAX_def)
  with ready_room [OF b am] obtain i b' where r: "sshbuf_reserve (P_am P) (unat p) (ss_outgoing_packet s) = (Inr i, b')"
    "\<And>v. length v = unat p \<Longrightarrow> ready (poke i v b') \<and> contents (poke i v b') = contents (ss_outgoing_packet s) @ v" by metis
  obtain pad g where pad: "(if ss_newkeys s MODE_OUT \<noteq> None \<and> \<not> cc_plaintext (ss_send_context s)
      then arc4random_buf (unat p) (ss_rng s) else (replicate (unat p) 0, ss_rng s)) = (pad, g)" "length pad = unat p"
    using fill_bytes [of _ "unat p" "ss_rng s"] by metis
  have "send2_pad P k s = (Inr (of_nat (length pad)), s\<lparr>ss_extra_pad := 0, ss_outgoing_packet := poke i pad b', ss_rng := g\<rparr>)"
    using p(1) r(1) pad by (simp add: send2_pad_def)
  moreover have "dk_block_size k dvd 5 + length body + length pad - dk_aadlen k"
    using p(3) k(3) unfolding ul pad(2) by simp
  ultimately show thesis using that [where pad = pad and b = "poke i pad b'" and g = g] r(2) [OF pad(2)] body pad(2) p(2) up by simp
qed

lemma send2_header_run:
  assumes b: "ready (ss_outgoing_packet s)" and c: "contents (ss_outgoing_packet s) = h @ r" "length h = 5" "length r < 2 ^ 30"
  obtains b where "send2_header padlen s = (Inr (), s\<lparr>ss_outgoing_packet := b\<rparr>)" "ready b"
    "contents b = POKE_U32 (of_nat (1 + length r)) @ [padlen] @ r"
proof -
  have len: "sshbuf_len (ss_outgoing_packet s) = 5 + length r" using b c by (simp add: ready_wf del: length_contents)
  have "unat (of_nat (5 + length r) - 4 :: u32) = 1 + length r"
    using unat_sub_small [of 4 "5 + length r"] c(3) by simp
  moreover have "(ucast w :: u64) = of_nat (unat w)" for w :: u32 by (rule of_nat_unat [symmetric])
  ultimately have l: "(ucast (of_nat (sshbuf_len (ss_outgoing_packet s)) - 4 :: u32) :: u64) = of_nat (1 + length r)"
    unfolding len by metis
  let ?v = "POKE_U32 (of_nat (1 + length r)) @ [padlen]"
  have "length ?v = length h" using c(2) by simp
  note f = ready_front [OF b c(1) this]
  show thesis
    by (rule that [OF _ f(1)]) (use f(2) l in \<open>simp_all add: send2_header_def mutable_ptr_ready [OF b] Let_def\<close>)
qed

lemma frame_run:
  assumes am: "\<forall>n. P_am P n \<noteq> None" and fit: "keys_fit P c k" and b: "ready (ss_outgoing_packet s)"
    and body: "contents (ss_outgoing_packet s) = h @ body" "length h = 5" "length body \<le> MAX_BODY"
    and ep: "unat (ss_extra_pad s) \<le> 221"
  obtains b g where
    "act_bind (send2_pad P k) (\<lambda>padlen. act_seq (send2_header padlen) G) s =
       G (s\<lparr>ss_extra_pad := 0, ss_outgoing_packet := b, ss_rng := g\<rparr>)"
    "ready b" "framed k body (contents b)"
proof -
  obtain pad b0 g where p: "send2_pad P k s = (Inr (of_nat (length pad)), s\<lparr>ss_extra_pad := 0, ss_outgoing_packet := b0, ss_rng := g\<rparr>)"
    "ready b0" "contents b0 = h @ body @ pad" "4 \<le> length pad" "length pad < 256"
    "dk_block_size k dvd 5 + length body + length pad - dk_aadlen k" by (rule send2_pad_run [OF assms])
  let ?s = "s\<lparr>ss_extra_pad := 0, ss_outgoing_packet := b0, ss_rng := g\<rparr>"
  have "ready (ss_outgoing_packet ?s)" "contents (ss_outgoing_packet ?s) = h @ body @ pad" "length (body @ pad) < 2 ^ 30"
    using p(2,3,5) body(3) by (simp_all add: MAX_BODY_def PACKET_MAX_SIZE_def)
  from send2_header_run [OF this(1,2) body(2) this(3), of "of_nat (length pad)"]
  obtain b where h: "send2_header (of_nat (length pad)) ?s = (Inr (), ?s\<lparr>ss_outgoing_packet := b\<rparr>)" "ready b"
    "contents b = POKE_U32 (of_nat (1 + length (body @ pad))) @ [of_nat (length pad)] @ body @ pad" by metis
  have "framed k body (contents b)"
    unfolding framed_def h(3) using p(4-6) body(3) by (auto simp: MAX_BODY_def PACKET_MAX_SIZE_def add.assoc)
  moreover have "?s\<lparr>ss_outgoing_packet := b\<rparr> = s\<lparr>ss_extra_pad := 0, ss_outgoing_packet := b, ss_rng := g\<rparr>" by simp
  ultimately show thesis
    by (intro that [where b = b and g = g] h(2)) (simp_all only: act_bind_run act_seq_run p(1) h(1) prod.case sum.case)
qed

text \<open>The code that goes with a packet: over the packet, or over what is sent of it.\<close>

definition code_for :: "('c, 'z) pkt_lib \<Rightarrow> dir_keys \<Rightarrow> u32 \<Rightarrow> byte list \<Rightarrow> byte list \<Rightarrow> byte list \<Rightarrow> bool" where
  "code_for P k seq data x m \<longleftrightarrow> length m = read2_maclen k \<and>
     (\<forall>mc. dk_mac k = Some mc \<longrightarrow>
        mac_compute (P_mac P) mc seq (if sm_etm mc then take (length data) x else data) MAC_DIGEST_LEN_MAX = Inr m)"

lemma codes_run:
  assumes fit: "keys_fit P c k"
  obtains m1 m2 where "\<And>s. ps_seqnr (ss_p_send s) = seq \<Longrightarrow> send2_mac P k data False s = (Inr m1, s)"
    "\<And>s. ps_seqnr (ss_p_send s) = seq \<Longrightarrow> send2_mac P k (take (length data) x) True s = (Inr m2, s)"
    "code_for P k seq data x (m1 @ m2)"
proof (cases "dk_mac k")
  case None
  then show thesis using that [of "[]" "[]"] by (simp add: send2_mac_def code_for_def read2_maclen_def)
next
  case (Some mc)
  then have w: "mac_works (P_mac P) mc" using fit by (simp add: keys_fit_def)
  let ?d = "if sm_etm mc then take (length data) x else data"
  obtain m where m: "mac_compute (P_mac P) mc seq ?d MAC_DIGEST_LEN_MAX = Inr m" "length m = sm_mac_len mc"
    by (rule mac_works_compute [OF w])
  then show thesis
    using that [of "if sm_etm mc then [] else m" "if sm_etm mc then m else []"] Some
    by (cases "sm_etm mc") (simp_all add: send2_mac_def code_for_def read2_maclen_def)
qed

lemma seal_opens:
  assumes fit: "keys_fit P c k" and pair: "cipher_pair (P_evp P) c R" and link: "linked R c cc cd"
    and len: "4 < length data" "dk_block_size k dvd length data - dk_aadlen k" "dk_block_size k \<le> length data"
  obtains x cc' cd' where
    "cipher_crypt (P_evp P) data (length data - dk_aadlen k) (dk_aadlen k) (dk_authlen k) cc = (Inr (), x, cc')"
    "length x = length data + dk_authlen k" "linked R c cc' cd'"
    "\<And>m. code_for P k seq data x m \<Longrightarrow> opens P k seq data cd (x @ m) cd'"
proof (cases "dk_aadlen k = 0")
  case True
  have al: "dk_authlen k = 0" using fit True by (auto simp: keys_fit_def split: if_splits)
  obtain x cc' cd1 cd' where x: "cipher_crypt (P_evp P) data (length data) 0 0 cc = (Inr (), x, cc')"
    "length x = length data" "linked R c cc' cd'"
    "\<forall>z. cipher_crypt (P_evp P) (take (dk_block_size k) x @ z) (dk_block_size k) 0 0 cd = (Inr (), take (dk_block_size k) data, cd1)"
    "\<forall>z. cipher_crypt (P_evp P) (drop (dk_block_size k) x @ z) (length data - dk_block_size k) 0 0 cd1 =
       (Inr (), drop (dk_block_size k) data, cd')"
    by (rule seal_block [OF fit True pair link len(3) len(2) [unfolded True, unfolded diff_zero]]) (rule that)
  have "opens P k seq data cd (x @ m) cd'" if "code_for P k seq data x m" for m
    unfolding opens_def using that x al True by (intro exI [of _ x] exI [of _ m]) (auto simp: code_for_def)
  then show thesis using that x al True by simp
next
  case False
  then have aad: "dk_aadlen k = 4" using fit by (auto simp: keys_fit_def split: if_splits)
  obtain x cc' cd' where x: "cipher_crypt (P_evp P) data (length data - 4) 4 (dk_authlen k) cc = (Inr (), x, cc')"
    "length x = length data + dk_authlen k" "take 4 x = take 4 data" "linked R c cc' cd'"
    "\<forall>z. cipher_crypt (P_evp P) (x @ z) (length data - 4) 4 (dk_authlen k) cd = (Inr (), data, cd')"
    by (rule seal_clear [OF fit False pair link len(1) len(2) [unfolded aad]]) (rule that)
  have "opens P k seq data cd (x @ m) cd'" if "code_for P k seq data x m" for m
    unfolding opens_def using that x aad by (intro exI [of _ x] exI [of _ m]) (auto simp: code_for_def)
  then show thesis using that x aad by simp
qed

lemma send2_encrypt_run:
  assumes am: "\<forall>n. P_am P n \<noteq> None" and out: "ready (ss_output s)"
    and room: "length (contents (ss_output s)) + length data + dk_authlen k \<le> SSHBUF_SIZE_MAX"
    and x: "cipher_crypt (P_evp P) data (length data - dk_aadlen k) (dk_aadlen k) (dk_authlen k) (ss_send_context s) = (Inr (), x, cc')"
      "length x = length data + dk_authlen k"
  obtains b where
    "send2_encrypt P k data s = (Inr (take (length data) x), s\<lparr>ss_output := b, ss_send_context := cc'\<rparr>)"
    "ready b" "contents b = contents (ss_output s) @ x"
proof -
  have "length (contents (ss_output s)) + (length data + dk_authlen k) \<le> SSHBUF_SIZE_MAX" using room by simp
  with ready_room [OF out am] obtain i b' where
    r: "sshbuf_reserve (P_am P) (length data + dk_authlen k) (ss_output s) = (Inr i, b')"
      "\<And>v. length v = length data + dk_authlen k \<Longrightarrow> ready (poke i v b') \<and> contents (poke i v b') = contents (ss_output s) @ v"
    by metis
  then show thesis using that [of "poke i x b'"] x r(2) [OF x(2)] by (simp add: send2_encrypt_def)
qed

lemma send2_append_run:
  assumes am: "\<forall>n. P_am P n \<noteq> None" and out: "ready (ss_output s)"
    and code: "code_for P k seq data x m" and room: "length (contents (ss_output s)) + length m \<le> SSHBUF_SIZE_MAX"
  obtains b where "send2_append_mac P k m s = (Inr (), s\<lparr>ss_output := b\<rparr>)" "ready b" "contents b = contents (ss_output s) @ m"
proof (cases "dk_mac k")
  case None
  then show thesis using that [of "ss_output s"] out code
    by (simp add: send2_append_mac_def act_simps code_for_def read2_maclen_def)
next
  case (Some mc)
  then have m: "take (sm_mac_len mc) m = m" using code by (simp add: code_for_def read2_maclen_def)
  obtain b where "sshbuf_put (P_am P) m (ss_output s) = (Inr (), b)" "ready b" "contents b = contents (ss_output s) @ m"
    by (rule writesD [OF writes_put [OF am] out room])
  then show thesis using that [of b] Some m by (simp add: send2_append_mac_def on_output_def rc_def)
qed

lemma act_unit: "act_seq f (act_return ()) = (f :: (_, _, unit) action)"
  by (rule ext) (simp add: act_simps split: prod.splits sum.splits)

lemma packet_type_ready: "ready b \<Longrightarrow> contents b = h @ type # r \<Longrightarrow> length h = 5 \<Longrightarrow> packet_type b = Some type"
  using mem_at_ready [of b] by (auto simp: packet_type_def nth_append)

text \<open>The state after a packet of \<open>len\<close> bytes has been sent.\<close>

definition sent :: "nat \<Rightarrow> dir_keys \<Rightarrow> packet_state \<Rightarrow> packet_state" where
  "sent len k p = p\<lparr>ps_seqnr := ps_seqnr p + 1, ps_packets := ps_packets p + 1,
     ps_blocks := ps_blocks p + of_nat (len div dk_block_size k), ps_bytes := ps_bytes p + of_nat len\<rparr>"

lemma send2_wire:
  assumes am: "\<forall>n. P_am P n \<noteq> None" and fit: "keys_fit P c k" and pair: "cipher_pair (P_evp P) c R"
    and link: "linked R c (ss_send_context s) cd"
    and k: "keys_used (ss_newkeys s MODE_OUT) = Some k" "\<not> dk_comp k"
    and bufs: "ready (ss_outgoing_packet s)" "ready (ss_output s)"
    and body: "contents (ss_outgoing_packet s) = h @ type # rest" "length h = 5" "length (type # rest) \<le> MAX_BODY"
    and ep: "unat (ss_extra_pad s) \<le> 221" and room: "length (contents (ss_output s)) + PACKET_MAX_SIZE + 128 \<le> SSHBUF_SIZE_MAX"
    and cnt: "ps_packets (ss_p_send s) + 1 \<noteq> 0"
  obtains data wire cc' cd' b g out where
    "framed k (type # rest) data" "opens P k (ps_seqnr (ss_p_send s)) data cd wire cd'" "linked R c cc' cd'"
    "ready out" "contents out = contents (ss_output s) @ wire" "ready b" "contents b = []"
    "ssh_packet_send2_wrapped P s = send2_finish P type
       (s\<lparr>ss_extra_pad := 0, ss_outgoing_packet := b, ss_rng := g, ss_output := out, ss_send_context := cc',
          ss_p_send := sent (length data) k (ss_p_send s)\<rparr>)"
proof -
  obtain b0 g where f: "act_bind (send2_pad P k) (\<lambda>padlen. act_seq (send2_header padlen) (send2_rest P k type)) s =
       send2_rest P k type (s\<lparr>ss_extra_pad := 0, ss_outgoing_packet := b0, ss_rng := g\<rparr>)" "ready b0" "framed k (type # rest) (contents b0)"
    by (rule frame_run [OF am fit bufs(1) body ep]) (rule that)
  let ?data = "contents b0" and ?seq = "ps_seqnr (ss_p_send s)"
  let ?s1 = "s\<lparr>ss_extra_pad := 0, ss_outgoing_packet := b0, ss_rng := g\<rparr>"
  have bs: "8 \<le> dk_block_size k" "dk_block_size k \<le> 16" "dk_authlen k \<le> 16" "dk_aadlen k \<le> 4" using fit by (auto simp: keys_fit_def)
  have dvd: "dk_block_size k dvd length ?data - dk_aadlen k" using f(3) by (simp add: framed_def)
  have len: "10 \<le> length ?data" "length ?data \<le> PACKET_MAX_SIZE + 4"
    using framed_length [OF f(3)] f(3) by (simp_all add: framed_def)
  have "0 < length ?data - dk_aadlen k" using len bs by linarith
  then have bl: "dk_block_size k \<le> length ?data" using dvd_imp_le [OF dvd] by linarith
  have l4: "4 < length ?data" using len(1) by linarith
  obtain x cc' cd' where x: "cipher_crypt (P_evp P) ?data (length ?data - dk_aadlen k) (dk_aadlen k) (dk_authlen k) (ss_send_context s) = (Inr (), x, cc')"
    "length x = length ?data + dk_authlen k" "linked R c cc' cd'"
    "\<And>m. code_for P k ?seq ?data x m \<Longrightarrow> opens P k ?seq ?data cd (x @ m) cd'"
    by (rule seal_opens [OF fit pair link l4 dvd bl, where seq = ?seq]) (rule that)
  obtain m1 m2 where m: "\<And>s. ps_seqnr (ss_p_send s) = ?seq \<Longrightarrow> send2_mac P k ?data False s = (Inr m1, s)"
    "\<And>s. ps_seqnr (ss_p_send s) = ?seq \<Longrightarrow> send2_mac P k (take (length ?data) x) True s = (Inr m2, s)"
    "code_for P k ?seq ?data x (m1 @ m2)" by (rule codes_run [OF fit, where seq = ?seq and data = ?data and x = x]) (rule that)
  have ml: "length (m1 @ m2) \<le> 64" using m(3) fit
    by (auto simp: code_for_def read2_maclen_def keys_fit_def mac_works_def MAC_DIGEST_LEN_MAX_def split: option.splits)
  have "length (contents (ss_output ?s1)) + length ?data + dk_authlen k \<le> SSHBUF_SIZE_MAX" using room len bs by simp
  from send2_encrypt_run [of P ?s1, OF am _ this] bufs(2) x(1,2)
  obtain o1 where o1: "send2_encrypt P k ?data ?s1 = (Inr (take (length ?data) x), ?s1\<lparr>ss_output := o1, ss_send_context := cc'\<rparr>)"
    "ready o1" "contents o1 = contents (ss_output s) @ x" by auto
  let ?s2 = "?s1\<lparr>ss_output := o1, ss_send_context := cc'\<rparr>"
  have "length (contents (ss_output ?s2)) + length (m1 @ m2) \<le> SSHBUF_SIZE_MAX" using room len bs o1(3) x(2) ml by (simp del: length_contents)
  from send2_append_run [of P ?s2, OF am _ m(3) this] o1(2,3)
  obtain o2 where o2: "send2_append_mac P k (m1 @ m2) ?s2 = (Inr (), ?s2\<lparr>ss_output := o2\<rparr>)" "ready o2"
    "contents o2 = contents (ss_output s) @ x @ m1 @ m2" by auto
  let ?b = "sshbuf_reset (P_am P) b0"
  have b: "ready ?b" "contents ?b = []" using ready_reset [OF f(2)] by auto
  have "send2_count P k (length ?data)
      (s\<lparr>ss_extra_pad := 0, ss_outgoing_packet := b0, ss_rng := g, ss_send_context := cc', ss_output := o2\<rparr>) =
      (Inr (), s\<lparr>ss_extra_pad := 0, ss_outgoing_packet := ?b, ss_rng := g, ss_output := o2, ss_send_context := cc',
          ss_p_send := sent (length ?data) k (ss_p_send s)\<rparr>)"
    using cnt by (simp add: send2_count_def sent_def Let_def)
  note count = this
  have "ssh_packet_send2_wrapped P s = act_bind (send2_pad P k) (\<lambda>padlen. act_seq (send2_header padlen) (send2_rest P k type)) s"
    using k(2) by (simp add: ssh_packet_send2_wrapped_def k(1) packet_type_ready [OF bufs(1) body(1,2)] act_seq_run [of "act_return ()"] act_return_run)
  also have "\<dots> = send2_rest P k type ?s1" by (rule f(1))
  also have "\<dots> = send2_finish P type
       (s\<lparr>ss_extra_pad := 0, ss_outgoing_packet := ?b, ss_rng := g, ss_output := o2, ss_send_context := cc',
          ss_p_send := sent (length ?data) k (ss_p_send s)\<rparr>)"
    using ready_wf [OF f(2)] m(1) [of ?s1] m(2) [of ?s2]
    by (simp add: send2_rest_def act_unit act_simps o1(1) o2(1) count del: length_contents)
  finally have "ssh_packet_send2_wrapped P s = send2_finish P type
       (s\<lparr>ss_extra_pad := 0, ss_outgoing_packet := ?b, ss_rng := g, ss_output := o2, ss_send_context := cc',
          ss_p_send := sent (length ?data) k (ss_p_send s)\<rparr>)" .
  then show thesis using that [OF f(3) x(4) [OF m(3)] x(3) o2(2) _ b] o2(3) by simp
qed

end
