(* ===== verification/Packet_Recv.thy ===== *)
theory Packet_Recv
  imports Packet_Send
begin

text \<open>
  The receiver of the packet layer: while the bytes of a packet arrive in pieces it waits in one of
  two states, and when the last one is there it returns the packet.
\<close>

section \<open>Waiting for a packet\<close>

text \<open>
  \<open>threshold\<close> is how much of the input the length needs. The packet \<open>data\<close> arrives as \<open>wire\<close>; \<open>t\<close> is what has arrived so far. The length is not known yet,
  or it is known and, where it was encrypted, the first block has been decrypted.
\<close>

definition threshold :: "dir_keys \<Rightarrow> nat" where
  "threshold k = (if dk_aadlen k \<noteq> 0 then 4 else dk_block_size k)"

definition waits_length :: "byte list \<Rightarrow> 'c cipher_ctx \<Rightarrow> ('c, 'z) ssh \<Rightarrow> bool" where
  "waits_length t cd s \<longleftrightarrow> ss_packlen s = 0 \<and> contents (ss_input s) = t \<and> ss_receive_context s = cd"

definition waits_body :: "('c, 'z) pkt_lib \<Rightarrow> dir_keys \<Rightarrow> byte list \<Rightarrow> byte list \<Rightarrow> byte list \<Rightarrow> 'c cipher_ctx \<Rightarrow> ('c, 'z) ssh \<Rightarrow> bool" where
  "waits_body P k data wire t cd s \<longleftrightarrow>
     ss_packlen s = of_nat (length data - 4) \<and> threshold k \<le> length t \<and>
     (if dk_aadlen k \<noteq> 0 then contents (ss_input s) = t \<and> contents (ss_incoming_packet s) = [] \<and> ss_receive_context s = cd
      else contents (ss_input s) = drop (dk_block_size k) t \<and>
        contents (ss_incoming_packet s) = take (dk_block_size k) data \<and>
        (\<forall>z. cipher_crypt (P_evp P) (take (dk_block_size k) wire @ z) (dk_block_size k) 0 0 cd =
           (Inr (), take (dk_block_size k) data, ss_receive_context s)))"

definition receiver :: "dir_keys \<Rightarrow> u32 \<Rightarrow> ('c, 'z) ssh \<Rightarrow> bool" where
  "receiver k seq s \<longleftrightarrow> ss_packet_discard s = 0 \<and> keys_used (ss_newkeys s MODE_IN) = Some k \<and> \<not> dk_comp k \<and>
     ready (ss_input s) \<and> ready (ss_incoming_packet s) \<and> ps_seqnr (ss_p_read s) = seq"

text \<open>What receiving changes of a session.\<close>

definition rcv_frame :: "('c, 'z) ssh \<Rightarrow> ('c, 'z) ssh \<Rightarrow> bool" where
  "rcv_frame s s' \<longleftrightarrow> s' = s\<lparr>ss_input := ss_input s', ss_incoming_packet := ss_incoming_packet s',
     ss_receive_context := ss_receive_context s', ss_packlen := ss_packlen s'\<rparr>"

lemma rcv_frame_refl [simp]: "rcv_frame s s"
  by (simp add: rcv_frame_def)

lemma rcv_frame_upd [simp]:
  "rcv_frame s (s\<lparr>ss_input := a\<rparr>)" "rcv_frame s (s\<lparr>ss_incoming_packet := a\<rparr>)"
  "rcv_frame s (s\<lparr>ss_receive_context := c\<rparr>)" "rcv_frame s (s\<lparr>ss_packlen := n\<rparr>)"
  by (simp_all add: rcv_frame_def)

lemma rcv_frame_trans: "rcv_frame s t \<Longrightarrow> rcv_frame t u \<Longrightarrow> rcv_frame s u"
proof -
  assume st: "rcv_frame s t" and tu: "rcv_frame t u"
  have "u = t\<lparr>ss_input := ss_input u, ss_incoming_packet := ss_incoming_packet u,
     ss_receive_context := ss_receive_context u, ss_packlen := ss_packlen u\<rparr>"
    using tu by (simp only: rcv_frame_def)
  also have "\<dots> = s\<lparr>ss_input := ss_input u, ss_incoming_packet := ss_incoming_packet u,
     ss_receive_context := ss_receive_context u, ss_packlen := ss_packlen u\<rparr>"
    by (subst st [unfolded rcv_frame_def]) simp
  finally show ?thesis by (simp only: rcv_frame_def)
qed

lemma rcv_frame_keeps:
  assumes "rcv_frame s s'"
  shows "ss_newkeys s' = ss_newkeys s" "ss_packet_discard s' = ss_packet_discard s" "ss_compat s' = ss_compat s"
    "ss_server_side s' = ss_server_side s" "ss_compat20 s' = ss_compat20 s"
    "ss_p_read s' = ss_p_read s"
  using arg_cong [OF assms [unfolded rcv_frame_def], of ss_newkeys] arg_cong [OF assms [unfolded rcv_frame_def], of ss_packet_discard]
    arg_cong [OF assms [unfolded rcv_frame_def], of ss_compat] arg_cong [OF assms [unfolded rcv_frame_def], of ss_server_side]
    arg_cong [OF assms [unfolded rcv_frame_def], of ss_compat20] arg_cong [OF assms [unfolded rcv_frame_def], of ss_p_read]
  by simp_all

lemma rcv_frame_read: "rcv_frame s s' \<Longrightarrow> rcv_frame (s\<lparr>ss_p_read := p\<rparr>) (s'\<lparr>ss_p_read := p\<rparr>)"
proof -
  assume "rcv_frame s s'"
  from arg_cong [OF this [unfolded rcv_frame_def], of "ss_p_read_update (\<lambda>_. p)"]
  show ?thesis by (simp add: rcv_frame_def)
qed

section \<open>The length\<close>

lemma framed_head:
  assumes "framed k body data"
  shows "PEEK_U32 (take 4 data @ z) = of_nat (length data - 4)" "\<not> bad_packlen (of_nat (length data - 4))"
    "unat (of_nat (length data - 4) :: u32) = length data - 4" "(of_nat (length data - 4) :: u32) \<noteq> 0"
proof -
  obtain pad where d: "data = POKE_U32 (of_nat (1 + length body + length pad)) @ [of_nat (length pad)] @ body @ pad" "4 \<le> length pad"
    and max: "length data \<le> PACKET_MAX_SIZE + 4" using assms by (auto simp: framed_def)
  have n: "1 + length body + length pad = length data - 4" using d(1) by simp
  have "take 4 data = POKE_U32 (of_nat (length data - 4))" unfolding n [symmetric] by (subst d(1)) simp
  moreover have lo: "5 \<le> length data - 4" "length data - 4 < 2 ^ 32" using n d(2) max by (simp_all add: PACKET_MAX_SIZE_def)
  then have "ucast (of_nat (length data - 4) :: u64) = (of_nat (length data - 4) :: u32)"
    by (simp only: unsigned_of_nat) (simp add: take_bit_nat_eq_self)
  ultimately show "PEEK_U32 (take 4 data @ z) = of_nat (length data - 4)" by (simp add: peek_poke_u32 del: of_nat_diff)
  show u: "unat (of_nat (length data - 4) :: u32) = length data - 4"
    using lo(2) by (simp only: unsigned_of_nat) (simp add: take_bit_nat_eq_self)
  show "\<not> bad_packlen (of_nat (length data - 4))" using u lo max by (simp add: bad_packlen_def del: of_nat_diff)
  show "(of_nat (length data - 4) :: u32) \<noteq> 0" using u lo by (metis not_numeral_le_zero unsigned_0)
qed

lemma length_short:
  "receiver k seq s \<Longrightarrow> waits_length t cd s \<Longrightarrow> length t < threshold k \<Longrightarrow> read2_length P k s = (Inr False, s)"
  by (auto simp: receiver_def waits_length_def threshold_def read2_length_def read2_clear_length_def read2_block_length_def
      ready_wf simp del: length_contents)

lemma length_known: "framed k body data \<Longrightarrow> waits_body P k data wire t cd s \<Longrightarrow> read2_length P k s = (Inr True, s)"
  using framed_head(4) [of k body data] by (simp add: waits_body_def read2_length_def del: of_nat_diff)

lemma length_clear:
  assumes fr: "framed k body data" and rcv: "receiver k seq s" and w: "waits_length t cd s"
    and aad: "dk_aadlen k \<noteq> 0" and t: "4 \<le> length t" "take 4 t = take 4 data"
  obtains s' where "read2_length P k s = (Inr True, s')" "waits_body P k data wire t cd s'" "receiver k seq s'" "rcv_frame s s'"
proof -
  have b: "ready (ss_input s)" "contents (ss_input s) = t" "ready (ss_incoming_packet s)" "ss_packlen s = 0"
    using rcv w by (simp_all add: receiver_def waits_length_def)
  obtain z where "mem_at (ss_input s) = t @ z" using mem_at_ready [OF b(1)] b(2) by auto
  then have "mem_at (ss_input s) = take 4 data @ drop 4 t @ z" using t by (metis append.assoc append_take_drop_id)
  then have n: "PEEK_U32 (mem_at (ss_input s)) = of_nat (length data - 4)" by (simp only: framed_head(1) [OF fr])
  let ?s = "s\<lparr>ss_packlen := of_nat (length data - 4), ss_incoming_packet := sshbuf_reset (P_am P) (ss_incoming_packet s)\<rparr>"
  have "read2_length P k s = (Inr True, ?s)"
    using b t aad framed_head(2) [OF fr]
    by (simp add: read2_length_def read2_clear_length_def n act_simps on_incoming_def reset_buf_def rc_def ready_wf Let_def
        del: length_contents of_nat_diff)
  moreover have "waits_body P k data wire t cd ?s"
    using w aad t(1) ready_reset [OF b(3)] by (simp add: waits_body_def waits_length_def threshold_def del: of_nat_diff)
  moreover have "receiver k seq ?s" using rcv ready_reset [OF b(3)] by (simp add: receiver_def del: of_nat_diff)
  moreover have "rcv_frame s ?s" by (rule rcv_frame_trans [OF rcv_frame_upd(4) rcv_frame_upd(2)])
  ultimately show thesis by (rule that)
qed

lemma length_block:
  assumes am: "\<forall>n. P_am P n \<noteq> None" and fit: "keys_fit P c k"
    and fr: "framed k body data" and rcv: "receiver k seq s" and w: "waits_length t cd s"
    and aad: "dk_aadlen k = 0" and t: "dk_block_size k \<le> length t" "take (dk_block_size k) t = take (dk_block_size k) wire"
    and first: "\<forall>z. cipher_crypt (P_evp P) (take (dk_block_size k) wire @ z) (dk_block_size k) 0 0 cd =
      (Inr (), take (dk_block_size k) data, cd1)"
  obtains s' where "read2_length P k s = (Inr True, s')" "waits_body P k data wire t cd s'" "receiver k seq s'" "rcv_frame s s'"
proof -
  let ?bs = "dk_block_size k"
  have bs: "8 \<le> ?bs" "?bs \<le> 16" using fit by (auto simp: keys_fit_def)
  have b: "ready (ss_input s)" "contents (ss_input s) = t" "ready (ss_incoming_packet s)" "ss_packlen s = 0" "ss_receive_context s = cd"
    using rcv w by (simp_all add: receiver_def waits_length_def)
  obtain z where "mem_at (ss_input s) = t @ z" using mem_at_ready [OF b(1)] b(2) by auto
  then have "mem_at (ss_input s) = take ?bs wire @ drop ?bs t @ z" using t by (metis append.assoc append_take_drop_id)
  then have dec: "cipher_crypt (P_evp P) (mem_at (ss_input s)) ?bs 0 0 cd = (Inr (), take ?bs data, cd1)" using first by simp
  let ?r = "sshbuf_reset (P_am P) (ss_incoming_packet s)"
  have r: "ready ?r" "contents ?r = []" using ready_reset [OF b(3)] by auto
  have "length (contents ?r) + ?bs \<le> SSHBUF_SIZE_MAX" using r(2) bs by (simp add: SSHBUF_SIZE_MAX_def)
  with ready_room [OF r(1) am] obtain i b' where res: "sshbuf_reserve (P_am P) ?bs ?r = (Inr i, b')"
    "\<And>v. length v = ?bs \<Longrightarrow> ready (poke i v b') \<and> contents (poke i v b') = contents ?r @ v" by metis
  have "0 < length data" "?bs dvd length data" using framed_length [OF fr] fr aad by (auto simp: framed_def)
  then have len: "length (take ?bs data) = ?bs" by (simp add: dvd_imp_le min_absorb2)
  let ?in = "poke i (take ?bs data) b'"
  have inc: "ready ?in" "contents ?in = take ?bs data" using res(2) [OF len] r(2) by auto
  have run: "read2_first_block P ?bs s = (Inr (), s\<lparr>ss_incoming_packet := ?in, ss_receive_context := cd1\<rparr>)"
    using res(1) dec b(5) by (simp add: read2_first_block_def act_simps on_incoming_def reset_buf_def rc_def)
  obtain z where z: "mem_at ?in = take ?bs data @ z" using mem_at_ready [OF inc(1)] inc(2) by auto
  have "take ?bs data @ z = take 4 data @ drop 4 (take ?bs data) @ z"
    using bs append_take_drop_id [of 4 "take ?bs data"] by (simp add: min_def)
  then have n: "PEEK_U32 (mem_at ?in) = of_nat (length data - 4)" "4 \<le> length (mem_at ?in)"
    unfolding z using bs len by (simp_all only: framed_head(1) [OF fr]) simp
  let ?s = "s\<lparr>ss_incoming_packet := ?in, ss_receive_context := cd1, ss_packlen := of_nat (length data - 4), ss_input := advance ?bs (ss_input s)\<rparr>"
  have adv: "ready (advance ?bs (ss_input s))" "contents (advance ?bs (ss_input s)) = drop ?bs t"
    "sshbuf_consume ?bs (ss_input s) = (Inr (), advance ?bs (ss_input s))"
    using ready_advance [OF b(1), of ?bs] b(2) t(1) by simp_all
  have "read2_length P k s = (Inr True, ?s)"
    using b t aad framed_head(2) [OF fr] n(2)
    by (simp add: read2_length_def read2_block_length_def act_simps run n(1) on_input_def rc_def ready_wf adv(3) Let_def
        del: length_contents of_nat_diff)
  moreover have "waits_body P k data wire t cd ?s"
    using aad t adv inc first by (simp add: waits_body_def threshold_def del: of_nat_diff)
  moreover have "receiver k seq ?s" using rcv inc adv by (simp add: receiver_def del: of_nat_diff)
  moreover have "rcv_frame s ?s" by (simp add: rcv_frame_def)
  ultimately show thesis by (rule that)
qed

section \<open>The body\<close>

lemma need_eq:
  assumes fit: "keys_fit P c k" and fr: "framed k body data" and bs: "threshold k \<le> length data"
  shows "unat (read2_need k (of_nat (length data - 4))) = length data - threshold k"
proof (cases "dk_aadlen k = 0")
  case True
  have "(4 + of_nat (length data - 4) - of_nat (dk_block_size k) :: u32) = of_nat (length data) - of_nat (dk_block_size k)"
    using framed_length [OF fr] by simp
  moreover have "length data < 2 ^ 32" using fr by (simp add: framed_def PACKET_MAX_SIZE_def)
  ultimately show ?thesis
    using True bs unat_sub_small [of "dk_block_size k" "length data"] by (simp add: read2_need_def threshold_def)
next
  case False
  then show ?thesis using framed_head(3) [OF fr] by (simp add: read2_need_def threshold_def del: of_nat_diff)
qed

text \<open>The sizes that a packet of valid length leads to.\<close>

lemma sizes:
  assumes fit: "keys_fit P c k" and fr: "framed k body data" and op: "opens P k seq data cd wire cd'"
  shows "threshold k \<le> length data" "dk_block_size k dvd length data - threshold k"
    "length wire = length data + dk_authlen k + read2_maclen k" "read2_maclen k \<le> 64" "dk_authlen k \<le> 16" "dk_aadlen k \<le> 4"
    "dk_aadlen k = 0 \<or> dk_aadlen k = 4" "dk_aadlen k = 0 \<longrightarrow> dk_authlen k = 0"
proof -
  have bs: "8 \<le> dk_block_size k" using fit by (simp add: keys_fit_def)
  have aad: "dk_aadlen k = 0 \<or> dk_aadlen k = 4" using fit by (simp add: keys_fit_def split: if_splits)
  have dvd: "dk_block_size k dvd length data - dk_aadlen k" using fr by (simp add: framed_def)
  moreover have "9 \<le> length data" using framed_length [OF fr] by simp
  moreover from this have "0 < length data - dk_aadlen k" using aad by auto
  ultimately have "dk_aadlen k = 0 \<Longrightarrow> dk_block_size k \<le> length data" using dvd_imp_le by fastforce
  then show "threshold k \<le> length data" "dk_block_size k dvd length data - threshold k"
    using aad \<open>9 \<le> length data\<close> dvd by (auto simp: threshold_def dvd_minus_self)
  show "length wire = length data + dk_authlen k + read2_maclen k" using op by (auto simp: opens_def)
  show "read2_maclen k \<le> 64"
    using fit by (auto simp: read2_maclen_def keys_fit_def mac_works_def MAC_DIGEST_LEN_MAX_def split: option.splits)
  show "dk_authlen k \<le> 16" "dk_aadlen k \<le> 4" "dk_aadlen k = 0 \<or> dk_aadlen k = 4" "dk_aadlen k = 0 \<longrightarrow> dk_authlen k = 0"
    using fit aad by (auto simp: keys_fit_def split: if_splits)
qed

lemma total_eq:
  assumes fit: "keys_fit P c k" and fr: "framed k body data" and op: "opens P k seq data cd wire cd'"
  shows "unat (of_nat (dk_aadlen k) + read2_need k (of_nat (length data - 4)) + of_nat (dk_authlen k) + of_nat (read2_maclen k) :: u32) =
      length wire - (threshold k - dk_aadlen k)"
    "unat (of_nat (dk_aadlen k) + read2_need k (of_nat (length data - 4)) :: u32) = dk_aadlen k + (length data - threshold k)"
proof -
  note sz = sizes [OF assms]
  let ?need = "read2_need k (of_nat (length data - 4))"
  have un: "unat ?need = length data - threshold k" using need_eq [OF fit fr sz(1)] .
  then have need: "?need = of_nat (length data - threshold k)" by (metis word_unat_eq_iff of_nat_unat ucast_id)
  have th: "dk_aadlen k \<le> threshold k" using sz(7) fit by (auto simp: threshold_def keys_fit_def)
  have max: "length data \<le> PACKET_MAX_SIZE + 4" using fr by (simp add: framed_def)
  have a: "(of_nat (dk_aadlen k) + ?need + of_nat (dk_authlen k) + of_nat (read2_maclen k) :: u32) =
      of_nat (dk_aadlen k + (length data - threshold k) + dk_authlen k + read2_maclen k)"
    unfolding need by (simp only: of_nat_add)
  have b: "(of_nat (dk_aadlen k) + ?need :: u32) = of_nat (dk_aadlen k + (length data - threshold k))"
    unfolding need by (simp only: of_nat_add)
  have small: "dk_aadlen k + (length data - threshold k) + dk_authlen k + read2_maclen k < 2 ^ 32"
    using sz(4-6) max by (simp add: PACKET_MAX_SIZE_def)
  have of_small: "unat (of_nat n :: u32) = n" if "n < 2 ^ 32" for n
    using that by (simp only: unsigned_of_nat) (simp add: take_bit_nat_eq_self)
  show "unat (of_nat (dk_aadlen k) + ?need + of_nat (dk_authlen k) + of_nat (read2_maclen k) :: u32) =
      length wire - (threshold k - dk_aadlen k)"
    unfolding a of_small [OF small] using sz(1,3) th by linarith
  have "dk_aadlen k + (length data - threshold k) < 2 ^ 32" using small by linarith
  then show "unat (of_nat (dk_aadlen k) + ?need :: u32) = dk_aadlen k + (length data - threshold k)"
    unfolding b by (rule of_small)
qed

lemma input_length:
  assumes "receiver k seq s" "waits_body P k data wire t cd s" "dk_aadlen k = 0 \<or> dk_aadlen k = 4"
  shows "sshbuf_len (ss_input s) = length t - (threshold k - dk_aadlen k)" "threshold k - dk_aadlen k \<le> length t"
  using assms by (auto simp: receiver_def waits_body_def threshold_def ready_wf simp del: length_contents split: if_splits)

lemma body_short:
  assumes fit: "keys_fit P c k" and fr: "framed k body data" and op: "opens P k seq data cd wire cd'"
    and rcv: "receiver k seq s" and w: "waits_body P k data wire t cd s" and t: "length t < length wire"
  shows "read2_body P k s = (Inr False, s)"
proof -
  note sz = sizes [OF fit fr op]
  have pl: "ss_packlen s = of_nat (length data - 4)" using w by (simp add: waits_body_def)
  have "unat (read2_need k (of_nat (length data - 4))) mod dk_block_size k = 0"
    using need_eq [OF fit fr sz(1)] sz(2) by (simp add: dvd_imp_mod_0 del: of_nat_diff)
  moreover have "sshbuf_len (ss_input s) <
      unat (of_nat (dk_aadlen k) + read2_need k (of_nat (length data - 4)) + of_nat (dk_authlen k) + of_nat (read2_maclen k) :: u32)"
    unfolding input_length(1) [OF rcv w sz(7)] total_eq(1) [OF fit fr op] using input_length(2) [OF rcv w sz(7)] t by linarith
  moreover have "dk_block_size k \<noteq> 0" using fit by (simp add: keys_fit_def)
  ultimately show ?thesis by (simp add: read2_body_def pl Let_def del: of_nat_diff)
qed

lemma decrypt_run:
  assumes am: "\<forall>n. P_am P n \<noteq> None" and b: "ready (ss_incoming_packet s)" "ready (ss_input s)"
    and dec: "cipher_crypt (P_evp P) (mem_at (ss_input s)) n (dk_aadlen k) (dk_authlen k) (ss_receive_context s) = (Inr (), dest, cd')"
    and len: "length dest = dk_aadlen k + n" "length (contents (ss_incoming_packet s)) + length dest \<le> SSHBUF_SIZE_MAX"
      "dk_aadlen k + n + dk_authlen k \<le> length (contents (ss_input s))"
  obtains inc inp where
    "read2_decrypt P k n s = (Inr (), s\<lparr>ss_incoming_packet := inc, ss_receive_context := cd', ss_input := inp\<rparr>)"
    "ready inc" "contents inc = contents (ss_incoming_packet s) @ dest" "ready inp"
    "contents inp = drop (dk_aadlen k + n + dk_authlen k) (contents (ss_input s))"
proof -
  obtain i b' where r: "sshbuf_reserve (P_am P) (dk_aadlen k + n) (ss_incoming_packet s) = (Inr i, b')"
    "\<And>v. length v = dk_aadlen k + n \<Longrightarrow> ready (poke i v b') \<and> contents (poke i v b') = contents (ss_incoming_packet s) @ v"
    using ready_room [OF b(1) am len(2)] unfolding len(1) by metis
  note adv = ready_advance [OF b(2) len(3)]
  show thesis
    by (rule that [where inc = "poke i dest b'" and inp = "advance (dk_aadlen k + n + dk_authlen k) (ss_input s)"])
      (use r dec adv r(2) [OF len(1)] in \<open>simp_all add: read2_decrypt_def act_simps on_input_def rc_def\<close>)
qed

lemma check_run:
  assumes b: "ready (ss_input s)" "contents (ss_input s) = m @ rst" and len: "length m = read2_maclen k"
  obtains inp where "read2_check_mac P k m n s = (Inr True, s\<lparr>ss_input := inp\<rparr>)" "ready inp" "contents inp = rst"
proof (cases "dk_mac k")
  case None
  then show thesis using that [of "ss_input s"] b len by (simp add: read2_check_mac_def read2_maclen_def)
next
  case (Some mc)
  then have ml: "length m = sm_mac_len mc" using len by (simp add: read2_maclen_def)
  obtain z where z: "mem_at (ss_input s) = m @ rst @ z" using mem_at_ready [OF b(1)] b(2) by auto
  note adv = ready_advance [OF b(1), of "sm_mac_len mc"]
  show thesis
    by (rule that [of "advance (sm_mac_len mc) (ss_input s)"])
      (use adv b(2) ml Some z in \<open>simp_all add: read2_check_mac_def act_simps on_input_def rc_def\<close>)
qed

text \<open>The two codes the receiver computes; the one that is not used is empty.\<close>

lemma read_codes:
  assumes fit: "keys_fit P c k" and code: "code_for P k seq data x m" and "ps_seqnr (ss_p_read s) = seq" "ps_seqnr (ss_p_read s') = seq"
    and etm: "dk_aadlen k \<noteq> 0 \<Longrightarrow> length data \<le> n \<and> n \<le> length mem \<and> take n mem = take (length data) x"
    and plain: "n' \<le> length mem'" "take n' mem' = data"
  obtains m1 m2 where "read2_mac P k mem n True s = (Inr m1, s)" "read2_mac P k mem' n' False s' = (Inr m2, s')" "m1 @ m2 = m"
proof (cases "dk_mac k")
  case None
  then show thesis using that [of "[]" "[]"] code by (simp add: read2_mac_def code_for_def read2_maclen_def)
next
  case (Some mc)
  then have "dk_aadlen k \<noteq> 0" if "sm_etm mc" using that fit by (auto simp: keys_fit_def)
  then show thesis
    using that [of "if sm_etm mc then m else []" "if sm_etm mc then [] else m"] Some code assms(3,4) etm plain
    by (cases "sm_etm mc") (auto simp: read2_mac_def code_for_def)
qed

text \<open>What the decryption of a complete packet gives.\<close>

lemma body_decrypts:
  assumes fit: "keys_fit P c k" and fr: "framed k body data" and op: "opens P k seq data cd wire cd'"
    and rcv: "receiver k seq s" and w: "waits_body P k data wire (wire @ rst) cd s"
  obtains x m dest where "wire = x @ m" "code_for P k seq data x m" "length x = length data + dk_authlen k"
    "contents (ss_input s) = drop (threshold k - dk_aadlen k) (x @ m @ rst)"
    "cipher_crypt (P_evp P) (mem_at (ss_input s)) (length data - threshold k) (dk_aadlen k) (dk_authlen k) (ss_receive_context s) =
       (Inr (), dest, cd')"
    "contents (ss_incoming_packet s) @ dest = data" "length dest = dk_aadlen k + (length data - threshold k)"
proof -
  note sz = sizes [OF fit fr op]
  obtain x m where xm: "wire = x @ m" "length x = length data + dk_authlen k" "code_for P k seq data x m"
    and crypt: "if dk_aadlen k \<noteq> 0 then take 4 x = take 4 data \<and>
          (\<forall>z. cipher_crypt (P_evp P) (x @ z) (length data - 4) 4 (dk_authlen k) cd = (Inr (), data, cd'))
        else \<exists>cd1.
          (\<forall>z. cipher_crypt (P_evp P) (take (dk_block_size k) x @ z) (dk_block_size k) 0 0 cd = (Inr (), take (dk_block_size k) data, cd1)) \<and>
          (\<forall>z. cipher_crypt (P_evp P) (drop (dk_block_size k) x @ z) (length data - dk_block_size k) 0 0 cd1 =
             (Inr (), drop (dk_block_size k) data, cd'))"
    using op unfolding opens_def code_for_def by blast
  have c: "contents (ss_input s) = drop (threshold k - dk_aadlen k) (x @ m @ rst)"
    using w sz(7) unfolding xm(1) by (auto simp: waits_body_def threshold_def)
  then obtain z where z: "mem_at (ss_input s) = drop (threshold k - dk_aadlen k) (x @ m @ rst) @ z"
    using mem_at_ready [of "ss_input s"] rcv by (auto simp: receiver_def)
  show thesis
  proof (cases "dk_aadlen k = 0")
    case False
    then have "dk_aadlen k = 4" using sz(7) by simp
    then show thesis using that [OF xm(1,3,2) c, of data] crypt w z sz(1) by (simp add: threshold_def waits_body_def)
  next
    case True
    let ?bs = "dk_block_size k"
    have bl: "?bs \<le> length x" using sz(1) xm(2) True by (simp add: threshold_def)
    then have tk: "take ?bs wire = take ?bs x" using xm(1) by simp
    have z': "mem_at (ss_input s) = drop ?bs x @ (m @ rst @ z)" using z True bl by (simp add: threshold_def)
    obtain cd1 where cd1: "\<forall>z. cipher_crypt (P_evp P) (take ?bs x @ z) ?bs 0 0 cd = (Inr (), take ?bs data, cd1)"
      "\<forall>z. cipher_crypt (P_evp P) (drop ?bs x @ z) (length data - ?bs) 0 0 cd1 = (Inr (), drop ?bs data, cd')"
      using crypt True by auto
    have "\<forall>z. cipher_crypt (P_evp P) (take ?bs x @ z) ?bs 0 0 cd = (Inr (), take ?bs data, ss_receive_context s)"
      "contents (ss_incoming_packet s) = take ?bs data" using w True tk by (simp_all add: waits_body_def)
    moreover from this(1) cd1(1) have "ss_receive_context s = cd1" by simp
    ultimately show thesis using that [OF xm(1,3,2) c, of "drop ?bs data"] cd1(2) z' True sz(8) by (simp add: threshold_def)
  qed
qed

lemma body_full:
  assumes am: "\<forall>n. P_am P n \<noteq> None" and fit: "keys_fit P c k" and fr: "framed k body data" and op: "opens P k seq data cd wire cd'"
    and rcv: "receiver k seq s" and w: "waits_body P k data wire (wire @ rst) cd s"
  obtains s' where "read2_body P k s = (Inr True, s')" "contents (ss_incoming_packet s') = data" "contents (ss_input s') = rst"
    "ss_receive_context s' = cd'" "ss_packlen s' = of_nat (length data - 4)" "receiver k seq s'" "rcv_frame s s'"
proof -
  note sz = sizes [OF fit fr op]
  let ?n = "length data - threshold k" and ?nw = "read2_need k (of_nat (length data - 4))"
  obtain x m dest where xm: "wire = x @ m" "code_for P k seq data x m" "length x = length data + dk_authlen k"
    and c: "contents (ss_input s) = drop (threshold k - dk_aadlen k) (x @ m @ rst)"
    and dec: "cipher_crypt (P_evp P) (mem_at (ss_input s)) ?n (dk_aadlen k) (dk_authlen k) (ss_receive_context s) = (Inr (), dest, cd')"
      "contents (ss_incoming_packet s) @ dest = data" "length dest = dk_aadlen k + ?n"
    by (rule body_decrypts [OF fit fr op rcv w])
  have b: "ready (ss_incoming_packet s)" "ready (ss_input s)" "ps_seqnr (ss_p_read s) = seq" using rcv by (simp_all add: receiver_def)
  have th: "dk_aadlen k \<le> threshold k" using sz(7) fit by (auto simp: threshold_def keys_fit_def)
  have max: "length data \<le> SSHBUF_SIZE_MAX" using fr by (simp add: framed_def PACKET_MAX_SIZE_def SSHBUF_SIZE_MAX_def)
  have nl: "dk_aadlen k + ?n + dk_authlen k = length x - (threshold k - dk_aadlen k)" using sz(1) th xm(3) by linarith
  have cl: "length (contents (ss_input s)) = length x - (threshold k - dk_aadlen k) + length m + length rst"
    using c sz(1) xm(3) by (simp del: length_contents)
  obtain inc inp where d: "read2_decrypt P k ?n s = (Inr (), s\<lparr>ss_incoming_packet := inc, ss_receive_context := cd', ss_input := inp\<rparr>)"
    "ready inc" "contents inc = data" "ready inp" "contents inp = m @ rst"
  proof (rule decrypt_run [OF am b(1,2) dec(1,3)])
    show "length (contents (ss_incoming_packet s)) + length dest \<le> SSHBUF_SIZE_MAX"
      using dec(2) max by (metis length_append)
    show "dk_aadlen k + ?n + dk_authlen k \<le> length (contents (ss_input s))" using cl nl by linarith
  qed (use dec(2) c nl sz(1) xm(3) that in \<open>simp del: length_contents\<close>)
  let ?s1 = "s\<lparr>ss_incoming_packet := inc, ss_receive_context := cd', ss_input := inp\<rparr>"
  obtain z where z: "mem_at inc = data @ z" using mem_at_ready [OF d(2)] d(3) by auto
  obtain zi where zi: "mem_at (ss_input s) = drop (threshold k - dk_aadlen k) (x @ m @ rst) @ zi" using mem_at_ready [OF b(2)] c by auto
  obtain m1 m2 where mm: "read2_mac P k (mem_at (ss_input s)) (dk_aadlen k + ?n) True s = (Inr m1, s)"
    "read2_mac P k (mem_at inc) (length data) False ?s1 = (Inr m2, ?s1)" "m1 @ m2 = m"
  proof (rule read_codes [OF fit xm(2), where s = s and s' = ?s1 and n = "dk_aadlen k + ?n" and n' = "length data"
        and mem = "mem_at (ss_input s)" and mem' = "mem_at inc"])
    assume "dk_aadlen k \<noteq> 0"
    then have "threshold k = 4" "dk_aadlen k = 4" using sz(7) by (simp_all add: threshold_def)
    then show "length data \<le> dk_aadlen k + ?n \<and> dk_aadlen k + ?n \<le> length (mem_at (ss_input s)) \<and>
        take (dk_aadlen k + ?n) (mem_at (ss_input s)) = take (length data) x"
      using zi sz(1) xm(3) by simp
  qed (use b z that in simp_all)
  obtain inp' where ck: "read2_check_mac P k m ?n ?s1 = (Inr True, ?s1\<lparr>ss_input := inp'\<rparr>)" "ready inp'" "contents inp' = rst"
    using check_run [of ?s1 m rst k P ?n] d(4,5) xm(2) by (auto simp: code_for_def)
  let ?s2 = "s\<lparr>ss_incoming_packet := inc, ss_receive_context := cd', ss_input := inp'\<rparr>"
  have pl: "ss_packlen s = of_nat (length data - 4)" using w by (simp add: waits_body_def)
  have un: "unat ?nw = ?n" by (rule need_eq [OF fit fr sz(1)])
  have mod: "unat ?nw mod dk_block_size k = 0" using un sz(2) by (simp add: dvd_imp_mod_0 del: of_nat_diff)
  have room: "\<not> sshbuf_len (ss_input s) <
      unat (of_nat (dk_aadlen k) + ?nw + of_nat (dk_authlen k) + of_nat (read2_maclen k) :: u32)"
    unfolding input_length(1) [OF rcv w sz(7)] total_eq(1) [OF fit fr op] by simp
  have bs: "dk_block_size k \<noteq> 0" using fit by (simp add: keys_fit_def)
  have "read2_body P k s = (Inr True, ?s1\<lparr>ss_input := inp'\<rparr>)"
    using bs mod room ready_wf [OF d(2)] d(3) mm ck(1)
    by (simp add: read2_body_def pl Let_def act_simps un total_eq(2) [OF fit fr op] d(1) del: of_nat_diff length_contents)
  then show thesis
    using that [of "?s1\<lparr>ss_input := inp'\<rparr>"] d(2,3) ck(2,3) rcv pl by (simp add: receiver_def rcv_frame_def del: of_nat_diff)
qed

section \<open>The packet\<close>

text \<open>The counters after a packet of \<open>len\<close> bytes has been received.\<close>

definition received :: "nat \<Rightarrow> dir_keys \<Rightarrow> packet_state \<Rightarrow> packet_state" where
  "received len k p = p\<lparr>ps_seqnr := ps_seqnr p + 1, ps_packets := ps_packets p + 1,
     ps_blocks := ps_blocks p + ucast ((of_nat (len - 4) + 4 :: u32) div of_nat (dk_block_size k)),
     ps_bytes := ps_bytes p + ucast (of_nat (len - 4) + 4 :: u32)\<rparr>"

lemma count_run:
  assumes "ps_packets (ss_p_read s) + 1 \<noteq> 0" "ss_packlen s = of_nat (len - 4)"
  shows "read2_count k s = (Inr (ps_seqnr (ss_p_read s)), s\<lparr>ss_p_read := received len k (ss_p_read s)\<rparr>)"
  using assms by (simp add: read2_count_def received_def Let_def del: of_nat_diff)

lemma unpad_run:
  assumes fr: "framed k body data" and b: "ready (ss_incoming_packet s)" "contents (ss_incoming_packet s) = data"
  obtains inc where "read2_unpad P s = (Inr (), s\<lparr>ss_incoming_packet := inc\<rparr>)" "ready inc" "contents inc = body"
proof -
  obtain pad where d: "data = POKE_U32 (of_nat (1 + length body + length pad)) @ [of_nat (length pad)] @ body @ pad"
    "4 \<le> length pad" "length pad < 256" using fr by (auto simp: framed_def)
  have up: "unat (of_nat (length pad) :: byte) = length pad" using d(3) by (simp add: unsigned_of_nat take_bit_nat_eq_self)
  obtain z where z: "mem_at (ss_incoming_packet s) = data @ z" using mem_at_ready [OF b(1)] b(2) by auto
  have m: "5 \<le> length (mem_at (ss_incoming_packet s))" "mem_at (ss_incoming_packet s) ! 4 = of_nat (length pad)"
    unfolding z by (simp_all add: d(1) nth_append)
  have "\<not> (of_nat (length pad) :: byte) < 4" using up d(2) by (simp add: word_less_nat_alt)
  moreover have "5 \<le> length (contents (ss_incoming_packet s))" unfolding b(2) by (simp add: d(1))
  note adv = ready_advance [OF b(1) this]
  have c: "contents (advance 5 (ss_incoming_packet s)) = body @ pad" unfolding adv(3) b(2) by (simp add: d(1))
  then have "length pad \<le> length (contents (advance 5 (ss_incoming_packet s)))" by simp
  from ready_consume_end [OF adv(2) this] obtain inc where
    "sshbuf_consume_end (length pad) (advance 5 (ss_incoming_packet s)) = (Inr (), inc)" "ready inc" "contents inc = body"
    unfolding c by (metis add_diff_cancel_right' append_eq_conv_conj length_append)
  ultimately show thesis
    using that [of inc] m adv(1) up by (simp add: read2_unpad_def Let_def act_simps on_incoming_def rc_def)
qed

lemma type_run:
  assumes b: "ready (ss_incoming_packet s)" "contents (ss_incoming_packet s) = type # rest"
    and type: "SSH2_MSG_MIN \<le> type" "type < SSH2_MSG_LOCAL_MIN"
  obtains inc where "ready inc" "contents inc = rest"
    "read2_type P s = (case read2_finish P type (s\<lparr>ss_incoming_packet := inc\<rparr>) of
       (r, s1) \<Rightarrow> (map_sum id (\<lambda>_. type) r, s1\<lparr>ss_packlen := 0\<rparr>))"
proof -
  have bad: "\<not> (type < SSH2_MSG_MIN \<or> SSH2_MSG_LOCAL_MIN \<le> type)" using type by (simp add: not_le not_less)
  have "contents (ss_incoming_packet s) = [type] @ rest" using b(2) by simp
  from readsD [OF reads_u8 ready_wf [OF b(1)] this] obtain inc where
    i: "sshbuf_get_u8 (ss_incoming_packet s) = (Inr type, inc)" "sshbuf_wf inc" "same_frame (ss_incoming_packet s) inc" "contents inc = rest"
    by auto
  then show thesis
    using that [of inc] ready_frame [OF b(1) i(2,3)] bad
    by (simp add: read2_type_def act_simps on_incoming_def rc_def)
qed

section \<open>Polling\<close>

definition waits :: "('c, 'z) pkt_lib \<Rightarrow> dir_keys \<Rightarrow> byte list \<Rightarrow> byte list \<Rightarrow> byte list \<Rightarrow> 'c cipher_ctx \<Rightarrow> ('c, 'z) ssh \<Rightarrow> bool" where
  "waits P k data wire t cd s \<longleftrightarrow> waits_length t cd s \<or> waits_body P k data wire t cd s"

text \<open>Once the length has arrived the receiver knows it.\<close>

lemma length_step:
  assumes am: "\<forall>n. P_am P n \<noteq> None" and fit: "keys_fit P c k" and fr: "framed k body data" and op: "opens P k seq data cd wire cd'"
    and rcv: "receiver k seq s" and w: "waits P k data wire t cd s"
    and t: "t @ v = wire @ rst" "threshold k \<le> length t"
  obtains s' where "read2_length P k s = (Inr True, s')" "waits_body P k data wire t cd s'" "receiver k seq s'" "rcv_frame s s'"
proof (cases "waits_body P k data wire t cd s")
  case True
  show thesis by (rule that [OF length_known [OF fr True] True rcv]) simp
next
  case False
  then have wl: "waits_length t cd s" using w by (simp add: waits_def)
  note sz = sizes [OF fit fr op]
  have th: "threshold k \<le> length wire" using sz(1,3) by linarith
  have "take (threshold k) t = take (threshold k) (t @ v)" using t(2) by simp
  also have "\<dots> = take (threshold k) wire" unfolding t(1) using th by simp
  finally have tk: "take (threshold k) t = take (threshold k) wire" .
  show thesis
  proof (cases "dk_aadlen k = 0")
    case False
    have "take 4 wire = take 4 data" using op False sz(1) by (auto simp: opens_def threshold_def)
    then have "take 4 t = take 4 data" using tk False by (simp add: threshold_def)
    then show thesis using length_clear [OF fr rcv wl False] t(2) False that by (metis threshold_def)
  next
    case True
    obtain cd1 where first: "\<forall>z. cipher_crypt (P_evp P) (take (dk_block_size k) wire @ z) (dk_block_size k) 0 0 cd =
      (Inr (), take (dk_block_size k) data, cd1)"
      using op True sz(1) by (auto simp: opens_def threshold_def)
    have "dk_block_size k \<le> length t" "take (dk_block_size k) t = take (dk_block_size k) wire"
      using t(2) tk True by (simp_all add: threshold_def)
    then show thesis using length_block [OF am fit fr rcv wl True _ _ first] that by metis
  qed
qed

text \<open>While a part of the packet is missing, polling returns no packet.\<close>

lemma poll_short:
  assumes am: "\<forall>n. P_am P n \<noteq> None" and fit: "keys_fit P c k" and fr: "framed k body data" and op: "opens P k seq data cd wire cd'"
    and rcv: "receiver k seq s" and w: "waits P k data wire t cd s" and t: "t @ v = wire" "v \<noteq> []"
  obtains s' where "ssh_packet_read_poll2 P s = (Inr (SSH_MSG_NONE, None), s')" "receiver k seq s'" "waits P k data wire t cd s'" "rcv_frame s s'"
proof (cases "threshold k \<le> length t")
  case True
  have tv: "t @ v = wire @ []" using t(1) by simp
  obtain s1 where s1: "read2_length P k s = (Inr True, s1)" "waits_body P k data wire t cd s1" "receiver k seq s1" "rcv_frame s s1"
    by (rule length_step [OF am fit fr op rcv w tv True])
  have "length t < length wire" using t by auto
  note short = body_short [OF fit fr op s1(3,2) this]
  have "ssh_packet_read_poll2 P s = (Inr (SSH_MSG_NONE, None), s1)"
    using rcv by (simp add: ssh_packet_read_poll2_def receiver_def act_simps s1(1) short)
  then show thesis using that [of s1] s1 by (simp add: waits_def)
next
  case False
  have "waits_length t cd s"
  proof (rule ccontr)
    assume "\<not> ?thesis"
    then have "waits_body P k data wire t cd s" using w by (simp add: waits_def)
    then show False using False by (simp add: waits_body_def)
  qed
  then have "read2_length P k s = (Inr False, s)" using False by (intro length_short [OF rcv]) (simp_all add: not_le)
  then have "ssh_packet_read_poll2 P s = (Inr (SSH_MSG_NONE, None), s)"
    using rcv by (simp add: ssh_packet_read_poll2_def receiver_def act_simps)
  then show thesis using that [of s] rcv w by simp
qed

text \<open>When all of the packet is there, polling returns it; what follows it stays in the input.\<close>

lemma poll_full:
  assumes am: "\<forall>n. P_am P n \<noteq> None" and fit: "keys_fit P c k" and fr: "framed k (type # rest) data"
    and op: "opens P k seq data cd wire cd'"
    and rcv: "receiver k seq s" and w: "waits P k data wire (wire @ rst) cd s"
    and type: "SSH2_MSG_MIN \<le> type" "type < SSH2_MSG_LOCAL_MIN" and cnt: "ps_packets (ss_p_read s) + 1 \<noteq> 0"
  obtains s' where
    "ssh_packet_read_poll2 P s = (case read2_finish P type s' of
       (r, s1) \<Rightarrow> (map_sum id (\<lambda>_. (type, Some seq)) r, s1\<lparr>ss_packlen := 0\<rparr>))"
    "rcv_frame (s\<lparr>ss_p_read := received (length data) k (ss_p_read s)\<rparr>) s'" "receiver k (seq + 1) s'" "contents (ss_incoming_packet s') = rest" "contents (ss_input s') = rst"
    "ss_receive_context s' = cd'"
proof -
  have th: "threshold k \<le> length (wire @ rst)" using sizes(1,3) [OF fit fr op] by simp
  have nil: "(wire @ rst) @ [] = wire @ rst" by simp
  obtain s1 where s1: "read2_length P k s = (Inr True, s1)" "waits_body P k data wire (wire @ rst) cd s1" "receiver k seq s1" "rcv_frame s s1"
    by (rule length_step [OF am fit fr op rcv w nil th])
  obtain s2 where s2: "read2_body P k s1 = (Inr True, s2)" "contents (ss_incoming_packet s2) = data" "contents (ss_input s2) = rst"
    "ss_receive_context s2 = cd'" "ss_packlen s2 = of_nat (length data - 4)" "receiver k seq s2" "rcv_frame s1 s2"
    by (rule body_full [OF am fit fr op s1(3,2)])
  have pr: "ss_p_read s2 = ss_p_read s" using rcv_frame_keeps(6) [OF s1(4)] rcv_frame_keeps(6) [OF s2(7)] by simp
  let ?s3 = "s2\<lparr>ss_p_read := received (length data) k (ss_p_read s2)\<rparr>"
  have c: "read2_count k s2 = (Inr seq, ?s3)" using count_run [of s2 "length data" k] s2(5,6) cnt pr by (simp add: receiver_def)
  have "ready (ss_incoming_packet ?s3)" "contents (ss_incoming_packet ?s3) = data" using s2(2,6) by (simp_all add: receiver_def)
  then obtain inc where u: "read2_unpad P ?s3 = (Inr (), ?s3\<lparr>ss_incoming_packet := inc\<rparr>)" "ready inc" "contents inc = type # rest"
    by (rule unpad_run [OF fr])
  have "ready (ss_incoming_packet (?s3\<lparr>ss_incoming_packet := inc\<rparr>))"
    "contents (ss_incoming_packet (?s3\<lparr>ss_incoming_packet := inc\<rparr>)) = type # rest" using u(2,3) by simp_all
  then obtain inc' where i: "ready inc'" "contents inc' = rest"
    "read2_type P (?s3\<lparr>ss_incoming_packet := inc\<rparr>) = (case read2_finish P type (?s3\<lparr>ss_incoming_packet := inc'\<rparr>) of
       (r, s1) \<Rightarrow> (map_sum id (\<lambda>_. type) r, s1\<lparr>ss_packlen := 0\<rparr>))"
    by (rule type_run [OF _ _ type]) simp
  let ?s = "?s3\<lparr>ss_incoming_packet := inc'\<rparr>"
  have "ssh_packet_read_poll2 P s = (case read2_finish P type ?s of
       (r, s1) \<Rightarrow> (map_sum id (\<lambda>_. (type, Some seq)) r, s1\<lparr>ss_packlen := 0\<rparr>))"
    using rcv by (cases "read2_finish P type ?s"; cases "fst (read2_finish P type ?s)")
      (auto simp: ssh_packet_read_poll2_def receiver_def act_simps s1(1) s2(1) c u(1) i(3))
  moreover have "rcv_frame (s\<lparr>ss_p_read := received (length data) k (ss_p_read s)\<rparr>) ?s"
    using rcv_frame_trans [OF rcv_frame_read [OF rcv_frame_trans [OF s1(4) s2(7)]] rcv_frame_upd(2)] pr by simp
  moreover have "receiver k (seq + 1) ?s" using s2(6) i(1) by (simp add: receiver_def received_def)
  ultimately show thesis using that [of ?s] i(2) s2(3,4) pr by (simp add: received_def)
qed

end
