(* ===== verification/Packet_Io.thy ===== *)
theory Packet_Io
  imports Packet_Recv
begin

text \<open>
  The connection of \<open>ssh/packet.c\<close>: writing the output to the socket, waiting for a packet, and the
  loop of \<open>ssh/dispatch.c\<close> that gives packets to their handlers.
\<close>

section \<open>The connection\<close>

text \<open>
  What waiting with \<open>select\<close> and the read or write that follows it gives. A write of 0 bytes that is
  to be repeated after roaming is \<open>Wrote 0\<close>; one without is \<open>Write_closed\<close>.
\<close>

datatype io_read = Got "byte list" | Read_closed | Read_failed | Read_timeout
datatype io_write = Wrote nat | Write_again | Write_closed | Write_failed | Write_timeout

text \<open>
  A session with what the connection will still give to its reads, how it will take its writes, and
  what it has taken. A connection that gives nothing more is waited for forever.
\<close>

record ('c, 'z) conn =
  cn_ssh :: "('c, 'z) ssh"
  cn_reads :: "io_read list"
  cn_writes :: "io_write list"
  cn_sent :: "byte list"

definition on_ssh :: "('c, 'z, 'a) pkt \<Rightarrow> (stop, ('c, 'z, 'm) conn_scheme, 'a) action" where
  "on_ssh f d = (case f (cn_ssh d) of (r, s) \<Rightarrow> (r, d\<lparr>cn_ssh := s\<rparr>))"

definition ssh_packet_have_data_to_write :: "('c, 'z) ssh \<Rightarrow> bool" where
  "ssh_packet_have_data_to_write s \<longleftrightarrow> sshbuf_len (ss_output s) \<noteq> 0"

definition write_event :: "io_write \<Rightarrow> (stop, ('c, 'z, 'm) conn_scheme, unit) action" where
  "write_event e d =
     (case e of
        Wrote n \<Rightarrow>
          (case sshbuf_consume n (ss_output (cn_ssh d)) of
             (Inl _, b) \<Rightarrow> (Inl Exits, d\<lparr>cn_ssh := (cn_ssh d)\<lparr>ss_output := b\<rparr>\<rparr>)
           | (Inr _, b) \<Rightarrow>
               (Inr (), d\<lparr>cn_ssh := (cn_ssh d)\<lparr>ss_output := b\<rparr>,
                          cn_sent := cn_sent d @ take n (sshbuf_bytes (ss_output (cn_ssh d)))\<rparr>))
      | Write_again \<Rightarrow> (Inr (), d)
      | _ \<Rightarrow> (Inl Exits, d))"

definition ssh_packet_write_poll :: "(stop, ('c, 'z, 'm) conn_scheme, unit) action" where
  "ssh_packet_write_poll d =
     (if ssh_packet_have_data_to_write (cn_ssh d) then
        (case cn_writes d of [] \<Rightarrow> (Inl Hangs, d) | e # es \<Rightarrow> write_event e (d\<lparr>cn_writes := es\<rparr>))
      else (Inr (), d))"

text \<open>
  The loop of \<open>ssh_packet_write_wait\<close>, over the writes that are still to come. The set of descriptors
  it allocates first is one word for descriptors below 64.
\<close>

fun write_wait_loop :: "io_write list \<Rightarrow> (stop, ('c, 'z, 'm) conn_scheme, unit) action" where
  "write_wait_loop [] d = (if ssh_packet_have_data_to_write (cn_ssh d) then (Inl Hangs, d) else (Inr (), d))"
| "write_wait_loop (e # es) d =
     (if ssh_packet_have_data_to_write (cn_ssh d) then
        (case write_event e (d\<lparr>cn_writes := es\<rparr>) of
           (Inl x, d1) \<Rightarrow> (Inl x, d1)
         | (Inr _, d1) \<Rightarrow> write_wait_loop es d1)
      else (Inr (), d))"

definition ssh_packet_write_wait :: "allocator \<Rightarrow> (stop, ('c, 'z, 'm) conn_scheme, unit) action" where
  "ssh_packet_write_wait am d =
     (if am 8 = None then (Inl Exits, d)
      else case ssh_packet_write_poll d of
             (Inl e, d1) \<Rightarrow> (Inl e, d1)
           | (Inr _, d1) \<Rightarrow> write_wait_loop (cn_writes d1) d1)"

section \<open>Waiting for a packet\<close>

definition SSH_SMSG_SUCCESS :: byte where "SSH_SMSG_SUCCESS = 14"
definition SSH_SMSG_FAILURE :: byte where "SSH_SMSG_FAILURE = 15"
definition SSH_CMSG_EOF :: byte where "SSH_CMSG_EOF = 19"
definition SSH_CMSG_EXIT_CONFIRMATION :: byte where "SSH_CMSG_EXIT_CONFIRMATION = 33"

text \<open>What the buffers give without waiting; some messages of protocol 1 must have no contents.\<close>

definition read_try :: "('c, 'z) pkt_lib \<Rightarrow> ('c, 'z, byte \<times> u32 option) pkt" where
  "read_try P =
     act_bind (ssh_packet_read_poll_seqnr P) (\<lambda>(type, seqnr) s.
       if \<not> ss_compat20 s \<and> type \<in> {SSH_SMSG_SUCCESS, SSH_SMSG_FAILURE, SSH_CMSG_EOF, SSH_CMSG_EXIT_CONFIRMATION}
       then act_seq sshpkt_get_end (act_return (type, seqnr)) s
       else (Inr (type, seqnr), s))"

text \<open>The loop of \<open>ssh_packet_read_seqnr\<close>, over the reads that are still to come.\<close>

fun read_wait_loop :: "('c, 'z) pkt_lib \<Rightarrow> io_read list \<Rightarrow> (stop, ('c, 'z, 'm) conn_scheme, byte \<times> u32 option) action" where
  "read_wait_loop P es d =
     (case on_ssh (read_try P) d of
        (Inl e, d1) \<Rightarrow> (Inl e, d1)
      | (Inr (type, seqnr), d1) \<Rightarrow>
          if type \<noteq> SSH_MSG_NONE then (Inr (type, seqnr), d1)
          else
            (case es of [] \<Rightarrow> (Inl Hangs, d1)
             | Got buf # es' \<Rightarrow>
                 (case on_ssh (ssh_packet_process_incoming P buf) (d1\<lparr>cn_reads := es'\<rparr>) of
                    (Inl e, d2) \<Rightarrow> (Inl e, d2)
                  | (Inr _, d2) \<Rightarrow> read_wait_loop P es' d2)
             | _ # es' \<Rightarrow> (Inl Exits, d1\<lparr>cn_reads := es'\<rparr>)))"

definition ssh_packet_read_seqnr :: "('c, 'z) pkt_lib \<Rightarrow> (stop, ('c, 'z, 'm) conn_scheme, byte \<times> u32 option) action" where
  "ssh_packet_read_seqnr P d =
     (if P_am P 8 = None then (Inl (Rc SSH_ERR_ALLOC_FAIL), d)
      else act_seq (ssh_packet_write_wait (P_am P)) (\<lambda>d1. read_wait_loop P (cn_reads d1) d1) d)"

definition ssh_packet_read :: "('c, 'z) pkt_lib \<Rightarrow> (stop, ('c, 'z, 'm) conn_scheme, byte) action" where
  "ssh_packet_read P d =
     (case ssh_packet_read_seqnr P d of
        (Inl (Rc _), d1) \<Rightarrow> (Inl Exits, d1)
      | (Inl e, d1) \<Rightarrow> (Inl e, d1)
      | (Inr (type, _), d1) \<Rightarrow> (Inr type, d1))"

definition ssh_packet_read_expect :: "('c, 'z) pkt_lib \<Rightarrow> byte \<Rightarrow> (stop, ('c, 'z, 'm) conn_scheme, unit) action" where
  "ssh_packet_read_expect P expected_type =
     act_bind (ssh_packet_read P) (\<lambda>type.
       if type \<noteq> expected_type then on_ssh (ssh_packet_disconnect P ''Protocol error: expected packet type'')
       else act_return ())"

section \<open>Dispatching\<close>

text \<open>
  The table of handlers: function pointers are names of type \<open>'h\<close>, and \<open>'u\<close> is the state the
  handlers work on. \<open>skip_packets\<close> counts packets that are dropped after a wrong guess in the key
  exchange.
\<close>

definition DISPATCH_MAX :: nat where "DISPATCH_MAX = 255"

datatype dispatch_mode = DISPATCH_BLOCK | DISPATCH_NONBLOCK

record ('c, 'z, 'h, 'u) dispatcher = "('c, 'z) conn" +
  dp_dispatch :: "nat \<Rightarrow> 'h option"
  dp_skip_packets :: int
  dp_app :: 'u

definition dispatch_protocol_error :: "('c, 'z) pkt_lib \<Rightarrow> u32 \<Rightarrow> (stop, ('c, 'z, 'm) conn_scheme, unit) action" where
  "dispatch_protocol_error P seq d =
     (if \<not> ss_compat20 (cn_ssh d) then (Inl Exits, d)
      else case on_ssh (act_all [sshpkt_start P SSH2_MSG_UNIMPLEMENTED, sshpkt_put_u32 P seq, sshpkt_send P]) d of
             (Inl (Rc _), d1) \<Rightarrow> (Inl Exits, d1)
           | (Inl e, d1) \<Rightarrow> (Inl e, d1)
           | (Inr _, d1) \<Rightarrow> ssh_packet_write_wait (P_am P) d1)"

definition dispatch_protocol_ignore :: "(stop, ('c, 'z, 'm) conn_scheme, unit) action" where
  "dispatch_protocol_ignore = act_return ()"

definition ssh_dispatch_init :: "'h option \<Rightarrow> (nat \<Rightarrow> 'h option) \<Rightarrow> nat \<Rightarrow> 'h option" where
  "ssh_dispatch_init dflt D = (\<lambda>i. if i < DISPATCH_MAX then dflt else D i)"

definition ssh_dispatch_range :: "nat \<Rightarrow> nat \<Rightarrow> 'h option \<Rightarrow> (nat \<Rightarrow> 'h option) \<Rightarrow> nat \<Rightarrow> 'h option" where
  "ssh_dispatch_range from to fn D = (\<lambda>i. if from \<le> i \<and> i \<le> to \<and> i < DISPATCH_MAX then fn else D i)"

definition ssh_dispatch_set :: "nat \<Rightarrow> 'h option \<Rightarrow> (nat \<Rightarrow> 'h option) \<Rightarrow> nat \<Rightarrow> 'h option" where
  "ssh_dispatch_set type fn D = D(type := fn)"

text \<open>
  One round of \<open>ssh_dispatch_run\<close>: \<open>Inr True\<close> when it returns 0. \<open>exec\<close> runs a handler;
  the sequence number is only there in protocol 2. \<open>finished\<close> is \<open>*done\<close>, false where \<open>done\<close> is NULL.
\<close>

definition dispatch_packet ::
  "('c, 'z) pkt_lib \<Rightarrow> ('h \<Rightarrow> byte \<Rightarrow> u32 option \<Rightarrow> (stop, ('c, 'z, 'h, 'u) dispatcher, unit) action) \<Rightarrow>
   (('c, 'z, 'h, 'u) dispatcher \<Rightarrow> bool) \<Rightarrow> byte \<Rightarrow> u32 option \<Rightarrow> (stop, ('c, 'z, 'h, 'u) dispatcher, bool) action" where
  "dispatch_packet P exec finished type seqnr d =
     (if 0 < type \<and> unat type < DISPATCH_MAX \<and> dp_dispatch d (unat type) \<noteq> None then
        if dp_skip_packets d \<noteq> 0 then (Inr False, d\<lparr>dp_skip_packets := dp_skip_packets d - 1\<rparr>)
        else act_seq (exec (the (dp_dispatch d (unat type))) type seqnr) (\<lambda>d1. (Inr (finished d1), d1)) d
      else act_seq (on_ssh (sshpkt_disconnect P ''protocol error: rcvd type'')) (act_fail (Rc SSH_ERR_DISCONNECTED)) d)"

definition dispatch_round ::
  "('c, 'z) pkt_lib \<Rightarrow> ('h \<Rightarrow> byte \<Rightarrow> u32 option \<Rightarrow> (stop, ('c, 'z, 'h, 'u) dispatcher, unit) action) \<Rightarrow>
   (('c, 'z, 'h, 'u) dispatcher \<Rightarrow> bool) \<Rightarrow> dispatch_mode \<Rightarrow> (stop, ('c, 'z, 'h, 'u) dispatcher, bool) action" where
  "dispatch_round P exec finished mode =
     act_bind (case mode of DISPATCH_BLOCK \<Rightarrow> ssh_packet_read_seqnr P | DISPATCH_NONBLOCK \<Rightarrow> on_ssh (ssh_packet_read_poll_seqnr P))
       (\<lambda>(type, seqnr).
          if mode = DISPATCH_NONBLOCK \<and> type = SSH_MSG_NONE then act_return True
          else dispatch_packet P exec finished type seqnr)"

partial_function (option) dispatch_loop ::
  "('c, 'z) pkt_lib \<Rightarrow> ('h \<Rightarrow> byte \<Rightarrow> u32 option \<Rightarrow> (stop, ('c, 'z, 'h, 'u) dispatcher, unit) action) \<Rightarrow>
   (('c, 'z, 'h, 'u) dispatcher \<Rightarrow> bool) \<Rightarrow> dispatch_mode \<Rightarrow> ('c, 'z, 'h, 'u) dispatcher \<Rightarrow>
   ((stop + unit) \<times> ('c, 'z, 'h, 'u) dispatcher) option" where
  "dispatch_loop P exec finished mode d =
     (case dispatch_round P exec finished mode d of
        (Inl e, d1) \<Rightarrow> Some (Inl e, d1)
      | (Inr stop, d1) \<Rightarrow> if stop then Some (Inr (), d1) else dispatch_loop P exec finished mode d1)"

definition ssh_dispatch_run ::
  "('c, 'z) pkt_lib \<Rightarrow> ('h \<Rightarrow> byte \<Rightarrow> u32 option \<Rightarrow> (stop, ('c, 'z, 'h, 'u) dispatcher, unit) action) \<Rightarrow>
   (('c, 'z, 'h, 'u) dispatcher \<Rightarrow> bool) \<Rightarrow> dispatch_mode \<Rightarrow> (stop, ('c, 'z, 'h, 'u) dispatcher, unit) action" where
  "ssh_dispatch_run P exec finished mode d =
     (case dispatch_loop P exec finished mode d of None \<Rightarrow> (Inl Hangs, d) | Some x \<Rightarrow> x)"

end
