(* ===== verification/Packet_Link.thy ===== *)
theory Packet_Link
  imports Packet_Io
begin

text \<open>
  Both ends of a connection together: the packets one side sends arrive at the other in their order,
  however the connection cuts the bytes into pieces.
\<close>

section \<open>A stream of packets\<close>

text \<open>Messages that are neither answered by the transport layer itself nor change the keys.\<close>

definition plain_type :: "byte \<Rightarrow> bool" where
  "plain_type t \<longleftrightarrow> SSH2_MSG_MIN \<le> t \<and> t < SSH2_MSG_LOCAL_MIN \<and>
     t \<notin> {SSH2_MSG_DISCONNECT, SSH2_MSG_UNIMPLEMENTED, SSH2_MSG_DEBUG, SSH2_MSG_KEXINIT, SSH2_MSG_NEWKEYS, SSH2_MSG_USERAUTH_SUCCESS}"

text \<open>\<open>w\<close> is a sequence of packets for the messages \<open>ms\<close>, which take the receiver from \<open>cd\<close> to \<open>cd'\<close>.\<close>

fun stream :: "('c, 'z) pkt_lib \<Rightarrow> dir_keys \<Rightarrow> u32 \<Rightarrow> 'c cipher_ctx \<Rightarrow> (byte \<times> byte list) list \<Rightarrow> byte list \<Rightarrow> 'c cipher_ctx \<Rightarrow> bool" where
  "stream P k seq cd [] w cd' \<longleftrightarrow> w = [] \<and> cd' = cd"
| "stream P k seq cd ((t, p) # ms) w cd' \<longleftrightarrow>
     (\<exists>data wire w' cd1. framed k (t # p) data \<and> opens P k seq data cd wire cd1 \<and> w = wire @ w' \<and>
        stream P k (seq + 1) cd1 ms w' cd')"

lemma stream_Cons:
  "framed k (fst m # snd m) data \<Longrightarrow> opens P k seq data cd wire cd1 \<Longrightarrow> stream P k (seq + 1) cd1 ms w cd' \<Longrightarrow>
   stream P k seq cd (m # ms) (wire @ w) cd'"
  by (cases m) auto

section \<open>The sender\<close>

definition send_message :: "('c, 'z) pkt_lib \<Rightarrow> byte \<Rightarrow> byte list \<Rightarrow> ('c, 'z, unit) pkt" where
  "send_message P t p = act_all [sshpkt_start P t, sshpkt_put P p, sshpkt_send P]"

fun send_all :: "('c, 'z) pkt_lib \<Rightarrow> (byte \<times> byte list) list \<Rightarrow> ('c, 'z, unit) pkt" where
  "send_all P [] = act_return ()"
| "send_all P ((t, p) # ms) = act_seq (send_message P t p) (send_all P ms)"

definition sender :: "dir_keys \<Rightarrow> ('c, 'z) ssh \<Rightarrow> bool" where
  "sender k s \<longleftrightarrow> keys_used (ss_newkeys s MODE_OUT) = Some k \<and> \<not> dk_comp k \<and> ss_compat20 s \<and>
     ready (ss_outgoing_packet s) \<and> ready (ss_output s) \<and> unat (ss_extra_pad s) \<le> 221"

lemma start_put_run:
  assumes am: "\<forall>n. P_am P n \<noteq> None" and s: "ready (ss_outgoing_packet s)" "ss_compat20 s" and p: "length (t # p) \<le> MAX_BODY"
  obtains b where "act_seq (sshpkt_start P t) (sshpkt_put P p) s = (Inr (), s\<lparr>ss_outgoing_packet := b\<rparr>)" "ready b"
    "contents b = replicate 5 0 @ t # p"
proof -
  let ?b = "sshbuf_reset (P_am P) (ss_outgoing_packet s)"
  have r: "ready ?b" "contents ?b = []" using ready_reset [OF s(1)] by auto
  then have "length (contents ?b) + length (replicate 5 (0 :: byte) @ [t]) \<le> SSHBUF_SIZE_MAX" by (simp add: SSHBUF_SIZE_MAX_def)
  from writesD [OF writes_put [OF am] r(1) this] obtain b1 where
    b1: "sshbuf_put (P_am P) (replicate 5 0 @ [t]) ?b = (Inr (), b1)" "ready b1" "contents b1 = replicate 5 0 @ [t]" using r(2) by auto
  have "length (contents b1) + length p \<le> SSHBUF_SIZE_MAX"
    unfolding b1(3) using p by (simp add: MAX_BODY_def PACKET_MAX_SIZE_def SSHBUF_SIZE_MAX_def)
  from writesD [OF writes_put [OF am] b1(2) this] obtain b2 where
    "sshbuf_put (P_am P) p b1 = (Inr (), b2)" "ready b2" "contents b2 = replicate 5 0 @ t # p" using b1(3) by auto
  then show thesis using that [of b2] b1(1) s(2)
    by (simp add: sshpkt_start_def sshpkt_put_def act_simps on_outgoing_def reset_buf_def rc_def)
qed

text \<open>Sending what has been assembled, and a message from its start; a queued one must not wait.\<close>

definition sent_as ::
  "('c, 'z) pkt_lib \<Rightarrow> sshcipher \<Rightarrow> ('c \<Rightarrow> 'c \<Rightarrow> bool) \<Rightarrow> dir_keys \<Rightarrow> byte \<times> byte list \<Rightarrow> 'c cipher_ctx \<Rightarrow> ('c, 'z) ssh \<Rightarrow>
   byte list \<Rightarrow> 'c cipher_ctx \<Rightarrow> ('c, 'z) ssh \<Rightarrow> bool" where
  "sent_as P c R k m cd s wire cd' s' \<longleftrightarrow>
     (\<exists>data. framed k (fst m # snd m) data \<and> opens P k (ps_seqnr (ss_p_send s)) data cd wire cd') \<and>
     linked R c (ss_send_context s') cd' \<and> sender k s' \<and> contents (ss_output s') = contents (ss_output s) @ wire \<and>
     ps_seqnr (ss_p_send s') = ps_seqnr (ss_p_send s) + 1 \<and> ps_packets (ss_p_send s') = ps_packets (ss_p_send s) + 1 \<and>
     ss_rekeying s' = ss_rekeying s \<and> ss_outgoing s' = ss_outgoing s \<and> ss_kex s' = ss_kex s \<and> ss_now s' = ss_now s \<and>
     ss_newkeys s' = ss_newkeys s \<and> contents (ss_outgoing_packet s') = []"

lemma wrapped_run:
  assumes am: "\<forall>n. P_am P n \<noteq> None" and fit: "keys_fit P c k" and pair: "cipher_pair (P_evp P) c R"
    and s: "sender k s" and link: "linked R c (ss_send_context s) cd"
    and p: "contents (ss_outgoing_packet s) = h @ t # p" "length h = 5" "length (t # p) \<le> MAX_BODY"
    and room: "length (contents (ss_output s)) + PACKET_MAX_SIZE + 128 \<le> SSHBUF_SIZE_MAX"
    and cnt: "ps_packets (ss_p_send s) + 1 \<noteq> 0"
  obtains wire cd' s' where "ssh_packet_send2_wrapped P s = send2_finish P t s'" "sent_as P c R k (t, p) cd s wire cd' s'"
proof -
  have b: "keys_used (ss_newkeys s MODE_OUT) = Some k" "\<not> dk_comp k" "ready (ss_outgoing_packet s)" "ready (ss_output s)"
    "unat (ss_extra_pad s) \<le> 221" using s by (simp_all add: sender_def)
  obtain data wire cc' cd' b' g out where w: "framed k (t # p) data" "opens P k (ps_seqnr (ss_p_send s)) data cd wire cd'"
    "linked R c cc' cd'" "ready out" "contents out = contents (ss_output s) @ wire" "ready b'" "contents b' = []"
    "ssh_packet_send2_wrapped P s = send2_finish P t
       (s\<lparr>ss_extra_pad := 0, ss_outgoing_packet := b', ss_rng := g, ss_output := out, ss_send_context := cc',
          ss_p_send := sent (length data) k (ss_p_send s)\<rparr>)"
    by (rule send2_wire [OF am fit pair link b(1-4) p b(5) room cnt])
  have "sent_as P c R k (t, p) cd s wire cd' (s\<lparr>ss_extra_pad := 0, ss_outgoing_packet := b', ss_rng := g, ss_output := out,
      ss_send_context := cc', ss_p_send := sent (length data) k (ss_p_send s)\<rparr>)"
    using w(1-7) s unfolding sent_as_def by (auto simp: sender_def sent_def)
  then show thesis by (rule that [OF w(8)])
qed

lemma send_assembled:
  assumes am: "\<forall>n. P_am P n \<noteq> None" and s: "ready (ss_outgoing_packet s)" "ss_compat20 s" and p: "length (t # p) \<le> MAX_BODY"
    and t: "ss_rekeying s \<longrightarrow> \<not> must_wait t"
  obtains b where "ready b" "contents b = replicate 5 0 @ t # p"
    "send_message P t p s =
       (case ssh_packet_send2_wrapped P (s\<lparr>ss_outgoing_packet := b, ss_rekeying := (t = SSH2_MSG_KEXINIT \<or> ss_rekeying s)\<rparr>) of
          (Inl e, s1) \<Rightarrow> (Inl e, s1)
        | (Inr _, s1) \<Rightarrow>
            if t = SSH2_MSG_NEWKEYS then send_queue P (ss_outgoing s1) (s1\<lparr>ss_rekeying := False, ss_rekey_time := ss_now s1\<rparr>)
            else (Inr (), s1))"
proof -
  obtain b where b: "act_seq (sshpkt_start P t) (sshpkt_put P p) s = (Inr (), s\<lparr>ss_outgoing_packet := b\<rparr>)" "ready b"
    "contents b = replicate 5 0 @ t # p" by (rule start_put_run [OF am s p])
  have "length (replicate 5 (0 :: byte)) = 5" by simp
  then have pt: "packet_type b = Some t" by (rule packet_type_ready [OF b(2,3)])
  have up: "(if t = SSH2_MSG_KEXINIT then s\<lparr>ss_outgoing_packet := b, ss_rekeying := True\<rparr> else s\<lparr>ss_outgoing_packet := b\<rparr>) =
      s\<lparr>ss_outgoing_packet := b, ss_rekeying := (t = SSH2_MSG_KEXINIT \<or> ss_rekeying s)\<rparr>" by simp
  have "send_message P t p s = sshpkt_send P (s\<lparr>ss_outgoing_packet := b\<rparr>)"
    using b(1) by (auto simp: send_message_def act_unit act_simps split: prod.splits sum.splits)
  also have "\<dots> = ssh_packet_send2 P (s\<lparr>ss_outgoing_packet := b\<rparr>)" using s(2) by (simp add: sshpkt_send_def)
  finally have run: "send_message P t p s = ssh_packet_send2 P (s\<lparr>ss_outgoing_packet := b\<rparr>)" .
  have "(ss_rekeying s \<and> must_wait t) = False" using t by blast
  note go = this
  show thesis using pt by (intro that [OF b(2,3)]) (simp add: run ssh_packet_send2_def up go)
qed

lemma send_message_run:
  assumes am: "\<forall>n. P_am P n \<noteq> None" and fit: "keys_fit P c k" and pair: "cipher_pair (P_evp P) c R"
    and s: "sender k s" and link: "linked R c (ss_send_context s) cd"
    and t: "plain_type t" "ss_rekeying s \<longrightarrow> \<not> must_wait t" and p: "length (t # p) \<le> MAX_BODY"
    and room: "length (contents (ss_output s)) + PACKET_MAX_SIZE + 128 \<le> SSHBUF_SIZE_MAX"
    and cnt: "ps_packets (ss_p_send s) + 1 \<noteq> 0"
  obtains wire cd' s' where "send_message P t p s = (Inr (), s')" "sent_as P c R k (t, p) cd s wire cd' s'"
proof -
  have o: "ready (ss_outgoing_packet s)" "ss_compat20 s" using s by (simp_all add: sender_def)
  have ne: "t \<noteq> SSH2_MSG_KEXINIT" "t \<noteq> SSH2_MSG_NEWKEYS" "t \<noteq> SSH2_MSG_USERAUTH_SUCCESS" using t(1) by (auto simp: plain_type_def)
  obtain b where b: "ready b" "contents b = replicate 5 0 @ t # p" and run: "send_message P t p s =
       (case ssh_packet_send2_wrapped P (s\<lparr>ss_outgoing_packet := b, ss_rekeying := (t = SSH2_MSG_KEXINIT \<or> ss_rekeying s)\<rparr>) of
          (Inl e, s1) \<Rightarrow> (Inl e, s1)
        | (Inr _, s1) \<Rightarrow>
            if t = SSH2_MSG_NEWKEYS then send_queue P (ss_outgoing s1) (s1\<lparr>ss_rekeying := False, ss_rekey_time := ss_now s1\<rparr>)
            else (Inr (), s1))" by (rule send_assembled [OF am o p t(2)])
  let ?s = "s\<lparr>ss_outgoing_packet := b\<rparr>"
  have h: "contents (ss_outgoing_packet ?s) = replicate 5 0 @ t # p" "length (replicate 5 (0 :: byte)) = 5" using b(2) by simp_all
  have s': "sender k ?s" "linked R c (ss_send_context ?s) cd" "ps_packets (ss_p_send ?s) + 1 \<noteq> 0"
    "length (contents (ss_output ?s)) + PACKET_MAX_SIZE + 128 \<le> SSHBUF_SIZE_MAX"
    using s b(1) link cnt room by (simp_all add: sender_def)
  obtain wire cd' s1 where w: "ssh_packet_send2_wrapped P ?s = send2_finish P t s1" "sent_as P c R k (t, p) cd ?s wire cd' s1"
    by (rule wrapped_run [OF am fit pair s'(1,2) h p s'(4,3)])
  have "send_message P t p s = (Inr (), s1)" using run w(1) ne by (simp add: send2_finish_def)
  moreover have "sent_as P c R k (t, p) cd s wire cd' s1" using w(2) by (simp add: sent_as_def)
  ultimately show thesis by (rule that)
qed

lemma packets_next:
  assumes "unat (n :: u32) + Suc m < 2 ^ 32"
  shows "n + 1 \<noteq> 0" "unat (n + 1) + m < 2 ^ 32"
proof -
  have u: "unat (n + 1) = unat n + 1" using assms by (simp add: unat_word_ariths)
  then show "n + 1 \<noteq> 0" by (metis Suc_eq_plus1 nat.simps(3) unsigned_0)
  show "unat (n + 1) + m < 2 ^ 32" using u assms by simp
qed

lemma wire_length:
  assumes "keys_fit P c k" "framed k body data" "opens P k seq data cd wire cd'"
  shows "length wire \<le> PACKET_MAX_SIZE + 128"
  using sizes(3,4,5) [OF assms] assms(2) by (simp add: framed_def)

lemma sent_room:
  assumes "keys_fit P c k" "sent_as P c R k m cd s wire cd' s'"
    "length (contents (ss_output s)) + Suc n * (PACKET_MAX_SIZE + 128) \<le> SSHBUF_SIZE_MAX"
  shows "length (contents (ss_output s')) + n * (PACKET_MAX_SIZE + 128) \<le> SSHBUF_SIZE_MAX"
proof -
  have "length wire \<le> PACKET_MAX_SIZE + 128" using wire_length [OF assms(1)] assms(2) by (auto simp: sent_as_def)
  moreover have "contents (ss_output s') = contents (ss_output s) @ wire" using assms(2) by (simp add: sent_as_def)
  ultimately show ?thesis using assms(3) by (simp del: length_contents)
qed

text \<open>A list of messages has been sent.\<close>

definition all_sent ::
  "('c, 'z) pkt_lib \<Rightarrow> sshcipher \<Rightarrow> ('c \<Rightarrow> 'c \<Rightarrow> bool) \<Rightarrow> dir_keys \<Rightarrow> (byte \<times> byte list) list \<Rightarrow> 'c cipher_ctx \<Rightarrow> ('c, 'z) ssh \<Rightarrow>
   byte list \<Rightarrow> 'c cipher_ctx \<Rightarrow> ('c, 'z) ssh \<Rightarrow> bool" where
  "all_sent P c R k ms cd s w cd' s' \<longleftrightarrow>
     stream P k (ps_seqnr (ss_p_send s)) cd ms w cd' \<and> linked R c (ss_send_context s') cd' \<and> sender k s' \<and>
     contents (ss_output s') = contents (ss_output s) @ w \<and>
     ps_seqnr (ss_p_send s') = ps_seqnr (ss_p_send s) + of_nat (length ms) \<and> ss_rekeying s' = ss_rekeying s"

lemma all_sent_Cons:
  "sent_as P c R k m cd (s\<lparr>ss_outgoing_packet := b, ss_outgoing := q\<rparr>) wire cd1 s1 \<or> sent_as P c R k m cd s wire cd1 s1 \<Longrightarrow>
   all_sent P c R k ms cd1 s1 w cd' s' \<Longrightarrow>
   all_sent P c R k (m # ms) cd s (wire @ w) cd' s'"
  by (auto simp: sent_as_def all_sent_def simp del: stream.simps intro!: stream_Cons)

lemma send_all_run:
  assumes am: "\<forall>n. P_am P n \<noteq> None" and fit: "keys_fit P c k" and pair: "cipher_pair (P_evp P) c R"
    and s: "sender k s" and link: "linked R c (ss_send_context s) cd"
    and ms: "\<forall>(t, p) \<in> set ms. plain_type t \<and> (ss_rekeying s \<longrightarrow> \<not> must_wait t) \<and> length (t # p) \<le> MAX_BODY"
    and room: "length (contents (ss_output s)) + length ms * (PACKET_MAX_SIZE + 128) \<le> SSHBUF_SIZE_MAX"
    and cnt: "unat (ps_packets (ss_p_send s)) + length ms < 2 ^ 32"
  obtains w cd' s' where "send_all P ms s = (Inr (), s')" "all_sent P c R k ms cd s w cd' s'"
  using s link ms room cnt
proof (induction ms arbitrary: s cd thesis)
  case Nil
  show ?case by (rule Nil(1) [where w = "[]" and cd' = cd and s' = s]) (use Nil(2,3) in \<open>simp_all add: act_simps all_sent_def\<close>)
next
  case (Cons m ms)
  obtain t p where m: "m = (t, p)" by (cases m)
  have t: "plain_type t" "ss_rekeying s \<longrightarrow> \<not> must_wait t" "length (t # p) \<le> MAX_BODY" using Cons(5) m by auto
  have room: "length (contents (ss_output s)) + PACKET_MAX_SIZE + 128 \<le> SSHBUF_SIZE_MAX" using Cons(6) by simp
  have n1: "unat (ps_packets (ss_p_send s)) + Suc (length ms) < 2 ^ 32" and
    r1: "length (contents (ss_output s)) + Suc (length ms) * (PACKET_MAX_SIZE + 128) \<le> SSHBUF_SIZE_MAX" using Cons(6,7) by simp_all
  note n = packets_next [OF n1]
  obtain wire cd1 s1 where o: "send_message P t p s = (Inr (), s1)" "sent_as P c R k (t, p) cd s wire cd1 s1"
    by (rule send_message_run [OF am fit pair Cons(3,4) t room n(1)])
  have s1: "sender k s1" "linked R c (ss_send_context s1) cd1" "ps_packets (ss_p_send s1) = ps_packets (ss_p_send s) + 1"
    "ss_rekeying s1 = ss_rekeying s" using o(2) by (simp_all add: sent_as_def)
  have "\<forall>(t, p) \<in> set ms. plain_type t \<and> (ss_rekeying s1 \<longrightarrow> \<not> must_wait t) \<and> length (t # p) \<le> MAX_BODY"
    "unat (ps_packets (ss_p_send s1)) + length ms < 2 ^ 32" using Cons(5) s1(3,4) n(2) by simp_all
  note r = Cons(1) [OF _ s1(1,2) this(1) sent_room [OF fit o(2) r1] this(2)]
  obtain w cd' s' where i: "send_all P ms s1 = (Inr (), s')" "all_sent P c R k ms cd1 s1 w cd' s'" by (rule r)
  have "all_sent P c R k (m # ms) cd s (wire @ w) cd' s'"
    using all_sent_Cons [OF disjI2, OF o(2) i(2)] m by simp
  then show ?case by (rule Cons(2) [rotated]) (use o(1) i(1) m in \<open>simp add: act_simps\<close>)
qed

text \<open>The packets that waited for new keys.\<close>

definition queued :: "byte \<times> byte list \<Rightarrow> byte \<times> sshbuf \<Rightarrow> bool" where
  "queued m e \<longleftrightarrow> fst e = fst m \<and> ready (snd e) \<and> (\<exists>h. contents (snd e) = h @ fst m # snd m \<and> length h = 5)"

lemma send_queue_run:
  assumes am: "\<forall>n. P_am P n \<noteq> None" and fit: "keys_fit P c k" and pair: "cipher_pair (P_evp P) c R"
    and s: "sender k s" and link: "linked R c (ss_send_context s) cd" and q: "list_all2 queued ms q"
    and ms: "\<forall>(t, p) \<in> set ms. plain_type t \<and> length (t # p) \<le> MAX_BODY"
    and room: "length (contents (ss_output s)) + length ms * (PACKET_MAX_SIZE + 128) \<le> SSHBUF_SIZE_MAX"
    and cnt: "unat (ps_packets (ss_p_send s)) + length ms < 2 ^ 32"
  obtains w cd' s' where "send_queue P q s = (Inr (), s')" "all_sent P c R k ms cd s w cd' s'" "q \<noteq> [] \<longrightarrow> ss_outgoing s' = []"
  using s link q ms room cnt
proof (induction ms arbitrary: s cd q thesis)
  case Nil
  then show ?case by (intro Nil(1) [where w = "[]" and cd' = cd and s' = s]) (simp_all add: all_sent_def)
next
  case (Cons m ms)
  obtain t p where m: "m = (t, p)" by (cases m)
  obtain u b q' where q: "q = (u, b) # q'" "queued m (u, b)" "list_all2 queued ms q'" using Cons(5) by (auto simp: list_all2_Cons1)
  then obtain h where h: "ready b" "contents b = h @ t # p" "length h = 5" by (auto simp: queued_def m)
  have t: "plain_type t" "length (t # p) \<le> MAX_BODY" using Cons(6) m by auto
  have n1: "unat (ps_packets (ss_p_send s)) + Suc (length ms) < 2 ^ 32" and
    r1: "length (contents (ss_output s)) + Suc (length ms) * (PACKET_MAX_SIZE + 128) \<le> SSHBUF_SIZE_MAX" using Cons(7,8) by simp_all
  note n = packets_next [OF n1]
  let ?s = "s\<lparr>ss_outgoing_packet := b, ss_outgoing := q'\<rparr>"
  have s: "sender k ?s" "linked R c (ss_send_context ?s) cd" "contents (ss_outgoing_packet ?s) = h @ t # p"
    "length (contents (ss_output ?s)) + PACKET_MAX_SIZE + 128 \<le> SSHBUF_SIZE_MAX" "ps_packets (ss_p_send ?s) + 1 \<noteq> 0"
    using Cons(3,4) h r1 n(1) by (simp_all add: sender_def)
  obtain wire cd1 s1 where o: "ssh_packet_send2_wrapped P ?s = send2_finish P t s1" "sent_as P c R k (t, p) cd ?s wire cd1 s1"
    by (rule wrapped_run [OF am fit pair s(1-3) h(3) t(2) s(4,5)])
  have fin: "send2_finish P t s1 = (Inr (), s1)" using t(1) by (auto simp: send2_finish_def plain_type_def)
  have s1: "sender k s1" "linked R c (ss_send_context s1) cd1" "ps_packets (ss_p_send s1) = ps_packets (ss_p_send s) + 1"
    "ss_outgoing s1 = q'" using o(2) by (simp_all add: sent_as_def)
  have r2: "length (contents (ss_output s1)) + length ms * (PACKET_MAX_SIZE + 128) \<le> SSHBUF_SIZE_MAX"
    using sent_room [OF fit o(2), of "length ms"] r1 by simp
  have ms: "\<forall>(t, p) \<in> set ms. plain_type t \<and> length (t # p) \<le> MAX_BODY"
    "unat (ps_packets (ss_p_send s1)) + length ms < 2 ^ 32" using Cons(6) s1(3) n(2) by simp_all
  obtain w cd' s' where i: "send_queue P q' s1 = (Inr (), s')" "all_sent P c R k ms cd1 s1 w cd' s'" "q' \<noteq> [] \<longrightarrow> ss_outgoing s' = []"
    by (rule Cons(1) [OF _ s1(1,2) q(3) ms(1) r2 ms(2)])
  have "ss_outgoing s' = []" using i s1(4) by (cases q') auto
  moreover have "all_sent P c R k (m # ms) cd s (wire @ w) cd' s'" using all_sent_Cons [OF disjI1, OF o(2) i(2)] m by simp
  moreover have "send_queue P q s = (Inr (), s')" using q(1) o(1) fin i(1) by simp
  ultimately show ?case using Cons(2) by blast
qed

section \<open>The receiver\<close>

text \<open>What the messages \<open>ms\<close> are to the receiver: \<open>SSH2_MSG_IGNORE\<close> is dropped.\<close>

fun arrivals :: "u32 \<Rightarrow> (byte \<times> byte list) list \<Rightarrow> (byte \<times> u32 option \<times> byte list) list" where
  "arrivals seq [] = []"
| "arrivals seq ((t, p) # ms) = (if t = SSH2_MSG_IGNORE then [] else [(t, Some seq, p)]) @ arrivals (seq + 1) ms"

fun read_all :: "('c, 'z) pkt_lib \<Rightarrow> nat \<Rightarrow> (stop, ('c, 'z, 'm) conn_scheme, (byte \<times> u32 option \<times> byte list) list) action" where
  "read_all P 0 = act_return []"
| "read_all P (Suc n) =
     act_bind (ssh_packet_read_seqnr P) (\<lambda>(t, q) d.
       act_bind (read_all P n) (\<lambda>ms. act_return ((t, q, sshbuf_bytes (ss_incoming_packet (cn_ssh d))) # ms)) d)"

text \<open>
  The receiver before the messages \<open>ms\<close>, of whose packets a part \<open>t\<close> has arrived and the rest will,
  in the pieces \<open>cs\<close>.
\<close>

definition listens :: "dir_keys \<Rightarrow> u32 \<Rightarrow> nat \<Rightarrow> ('c, 'z, 'm) conn_scheme \<Rightarrow> bool" where
  "listens k seq n d \<longleftrightarrow> receiver k seq (cn_ssh d) \<and> ss_compat20 (cn_ssh d) \<and> sshbuf_len (ss_output (cn_ssh d)) = 0 \<and>
     unat (ps_packets (ss_p_read (cn_ssh d))) + n < 2 ^ 32"

text \<open>The packet of the message \<open>(t, p)\<close>, followed by the bytes \<open>w\<close>.\<close>

definition arriving :: "('c, 'z) pkt_lib \<Rightarrow> dir_keys \<Rightarrow> u32 \<Rightarrow> 'c cipher_ctx \<Rightarrow> byte \<Rightarrow> byte list \<Rightarrow> 'c cipher_ctx \<Rightarrow>
    byte list \<Rightarrow> byte list list \<Rightarrow> ('c, 'z, 'm) conn_scheme \<Rightarrow> bool" where
  "arriving P k seq cd t p cd1 w cs d \<longleftrightarrow> listens k seq 1 d \<and> cn_reads d = map Got cs \<and> (\<forall>x \<in> set cs. length x \<le> 8192) \<and>
     (\<exists>data wire v. framed k (t # p) data \<and> opens P k seq data cd wire cd1 \<and> v @ concat cs = wire @ w \<and>
        waits P k data wire v cd (cn_ssh d))"

definition flow :: "('c, 'z) pkt_lib \<Rightarrow> dir_keys \<Rightarrow> u32 \<Rightarrow> 'c cipher_ctx \<Rightarrow> (byte \<times> byte list) list \<Rightarrow> 'c cipher_ctx \<Rightarrow>
    byte list list \<Rightarrow> ('c, 'z, 'm) conn_scheme \<Rightarrow> bool" where
  "flow P k seq cd ms cd' cs d \<longleftrightarrow> listens k seq (length ms) d \<and>
     (case ms of [] \<Rightarrow> waits_length [] cd (cn_ssh d) \<and> cd' = cd
      | (t, p) # ms' \<Rightarrow> \<exists>cd1 w. arriving P k seq cd t p cd1 w cs d \<and> stream P k (seq + 1) cd1 ms' w cd')"

lemma listens_less: "listens k seq n d \<Longrightarrow> m \<le> n \<Longrightarrow> listens k seq m d"
  by (simp add: listens_def)

lemma flow_start:
  assumes st: "stream P k seq cd ms w cd'" and l: "listens k seq (length ms) d" and cs: "cn_reads d = map Got cs" "\<forall>x \<in> set cs. length x \<le> 8192"
    and w: "waits_length v cd (cn_ssh d)" "v @ concat cs = w"
  shows "flow P k seq cd ms cd' cs d"
proof (cases ms)
  case Nil
  then show ?thesis using assms by (simp add: flow_def)
next
  case (Cons m ms')
  obtain t p where "m = (t, p)" by (cases m)
  with Cons have m: "ms = (t, p) # ms'" by simp
  then obtain data wire w' cd1 where h: "framed k (t # p) data" "opens P k seq data cd wire cd1" "w = wire @ w'" "stream P k (seq + 1) cd1 ms' w' cd'"
    using st by auto
  have "waits P k data wire v cd (cn_ssh d)" using w(1) by (simp add: waits_def)
  then have "arriving P k seq cd t p cd1 w' cs d" unfolding arriving_def
    using h(1,2,3) w(2) cs listens_less [OF l, of 1] m by auto
  then show ?thesis using h(4) l m unfolding flow_def by auto
qed

text \<open>A packet that has not arrived completely.\<close>

lemma rcv_frame_output: "rcv_frame s s' \<Longrightarrow> ss_output s' = ss_output s"
  unfolding rcv_frame_def by (drule arg_cong [of _ _ ss_output]) simp

lemma loop_short:
  assumes am: "\<forall>n. P_am P n \<noteq> None" and fit: "keys_fit P c k" and fr: "framed k body data" and op: "opens P k seq data cd wire cd'"
    and rcv: "receiver k seq s" "ss_compat20 s" and w: "waits P k data wire t cd s" and t: "t @ v = wire" "v \<noteq> []"
  obtains s' where "read_loop P s = Some (Inr (SSH_MSG_NONE, None), s')" "receiver k seq s'" "waits P k data wire t cd s'" "rcv_frame s s'"
proof -
  obtain s' where s': "ssh_packet_read_poll2 P s = (Inr (SSH_MSG_NONE, None), s')" "receiver k seq s'" "waits P k data wire t cd s'" "rcv_frame s s'"
    by (rule poll_short [OF am fit fr op rcv(1) w t])
  have "read_round P s = (Inr (Some (SSH_MSG_NONE, None)), s')"
    using rcv(2) s'(1) by (simp add: read_round_def act_simps transport_message_def ssh2_msgs)
  then have "read_loop P s = Some (Inr (SSH_MSG_NONE, None), s')"
    by (simp add: read_loop.simps)
  then show thesis using s' by (intro that)
qed

text \<open>A complete one.\<close>

lemma loop_full:
  assumes am: "\<forall>n. P_am P n \<noteq> None" and fit: "keys_fit P c k" and fr: "framed k (type # rest) data"
    and op: "opens P k seq data cd wire cd'"
    and rcv: "receiver k seq s" "ss_compat20 s" and w: "waits P k data wire (wire @ rst) cd s"
    and type: "plain_type type \<or> type = SSH2_MSG_NEWKEYS" and cnt: "ps_packets (ss_p_read s) + 1 \<noteq> 0"
  obtains s' where
    "read_loop P s = (case read2_finish P type s' of
       (Inl e, s1) \<Rightarrow> Some (Inl e, s1\<lparr>ss_packlen := 0\<rparr>)
     | (Inr _, s1) \<Rightarrow> let s2 = s1\<lparr>ss_packlen := 0, ss_keep_alive_timeouts := 0\<rparr>
                    in if type = SSH2_MSG_IGNORE then read_loop P s2 else Some (Inr (type, Some seq), s2))"
    "rcv_frame (s\<lparr>ss_p_read := received (length data) k (ss_p_read s)\<rparr>) s'" "receiver k (seq + 1) s'"
    "contents (ss_incoming_packet s') = rest" "contents (ss_input s') = rst" "ss_receive_context s' = cd'"
proof -
  have ty: "SSH2_MSG_MIN \<le> type" "type < SSH2_MSG_LOCAL_MIN" using type by (auto simp: plain_type_def ssh2_msgs)
  obtain s1 where s1: "ssh_packet_read_poll2 P s = (case read2_finish P type s1 of
       (r, s2) \<Rightarrow> (map_sum id (\<lambda>_. (type, Some seq)) r, s2\<lparr>ss_packlen := 0\<rparr>))"
    "rcv_frame (s\<lparr>ss_p_read := received (length data) k (ss_p_read s)\<rparr>) s1" "receiver k (seq + 1) s1"
    "contents (ss_incoming_packet s1) = rest" "contents (ss_input s1) = rst" "ss_receive_context s1 = cd'"
    by (rule poll_full [OF am fit fr op rcv(1) w ty cnt])
  have ne: "type \<noteq> SSH2_MSG_DEBUG" "type \<noteq> SSH2_MSG_DISCONNECT" "type \<noteq> SSH2_MSG_UNIMPLEMENTED" "type \<noteq> 0"
    using type by (auto simp: plain_type_def ssh2_msgs)
  have tm: "transport_message P type = act_return (type \<noteq> SSH2_MSG_IGNORE)" using ne by (simp add: transport_message_def)
  have "read_loop P s = (case read2_finish P type s1 of
       (Inl e, s2) \<Rightarrow> Some (Inl e, s2\<lparr>ss_packlen := 0\<rparr>)
     | (Inr _, s2) \<Rightarrow> let s2 = s2\<lparr>ss_packlen := 0, ss_keep_alive_timeouts := 0\<rparr>
                    in if type = SSH2_MSG_IGNORE then read_loop P s2 else Some (Inr (type, Some seq), s2))"
  proof (cases "read2_finish P type s1")
    case (Pair r s2)
    then show ?thesis using rcv(2) ne(4) s1(1) by (cases r) (simp_all add: read_loop.simps [of P s] read_round_def act_simps tm Let_def)
  qed
  then show thesis by (rule that [OF _ s1(2-6)])
qed

lemma loop_idle:
  assumes rcv: "receiver k seq s" "ss_compat20 s" and w: "waits_length [] cd s" and fit: "keys_fit P c k"
  shows "read_loop P s = Some (Inr (SSH_MSG_NONE, None), s)"
proof -
  have "length ([] :: byte list) < threshold k" using fit by (auto simp: threshold_def keys_fit_def)
  then have "read2_length P k s = (Inr False, s)" by (rule length_short [OF rcv(1) w])
  then have "ssh_packet_read_poll2 P s = (Inr (SSH_MSG_NONE, None), s)"
    using rcv(1) by (simp add: ssh_packet_read_poll2_def receiver_def act_simps)
  then have "read_round P s = (Inr (Some (SSH_MSG_NONE, None)), s)"
    using rcv(2) by (simp add: read_round_def act_simps transport_message_def ssh2_msgs)
  then show ?thesis by (simp add: read_loop.simps)
qed

text \<open>The input of a receiver that waits is shorter than the packet.\<close>

lemma waits_length_le:
  assumes fit: "keys_fit P c k" and fr: "framed k body data" and op: "opens P k seq data cd wire cd'"
    and w: "waits P k data wire v cd s" and rcv: "receiver k seq s" and v: "length v \<le> length wire"
  shows "sshbuf_len (ss_input s) \<le> PACKET_MAX_SIZE + 128"
proof -
  have "length wire \<le> PACKET_MAX_SIZE + 128" using sizes(3,4,5) [OF fit fr op] fr by (simp add: framed_def)
  moreover have "length (contents (ss_input s)) \<le> length v"
    using w by (auto simp: waits_def waits_length_def waits_body_def simp del: length_contents split: if_splits)
  ultimately show ?thesis using rcv v by (simp add: receiver_def ready_wf)
qed

text \<open>The packet has arrived, or a part of it is missing.\<close>

lemma arriving_cases:
  assumes am: "\<forall>n. P_am P n \<noteq> None" and fit: "keys_fit P c k"
    and ar: "arriving P k seq cd t p cd1 w cs d" and t: "plain_type t \<or> t = SSH2_MSG_NEWKEYS"
  obtains (full) s' rst n where
      "read_loop P (cn_ssh d) = (case read2_finish P t s' of
         (Inl e, s1) \<Rightarrow> Some (Inl e, s1\<lparr>ss_packlen := 0\<rparr>)
       | (Inr _, s1) \<Rightarrow> let s2 = s1\<lparr>ss_packlen := 0, ss_keep_alive_timeouts := 0\<rparr>
                      in if t = SSH2_MSG_IGNORE then read_loop P s2 else Some (Inr (t, Some seq), s2))"
      "rcv_frame ((cn_ssh d)\<lparr>ss_p_read := received n k (ss_p_read (cn_ssh d))\<rparr>) s'" "receiver k (seq + 1) s'"
      "contents (ss_incoming_packet s') = p" "contents (ss_input s') = rst" "ss_receive_context s' = cd1" "rst @ concat cs = w"
  | (short) s' where "arriving P k seq cd t p cd1 w cs (d\<lparr>cn_ssh := s'\<rparr>)" "concat cs \<noteq> []" "rcv_frame (cn_ssh d) s'"
      "sshbuf_len (ss_input s') \<le> PACKET_MAX_SIZE + 128" "read_loop P (cn_ssh d) = Some (Inr (SSH_MSG_NONE, None), s')"
proof -
  obtain data wire v where h: "framed k (t # p) data" "opens P k seq data cd wire cd1" "v @ concat cs = wire @ w" "waits P k data wire v cd (cn_ssh d)"
    and l: "listens k seq 1 d" and cs: "cn_reads d = map Got cs" "\<forall>x \<in> set cs. length x \<le> 8192"
    using ar unfolding arriving_def by auto
  have rcv: "receiver k seq (cn_ssh d)" "ss_compat20 (cn_ssh d)" and
    cnt: "unat (ps_packets (ss_p_read (cn_ssh d))) + Suc 0 < 2 ^ 32" using l by (simp_all add: listens_def)
  show thesis
  proof (cases "length wire \<le> length v")
    case True
    then obtain rst where v: "v = wire @ rst" "rst @ concat cs = w" using h(3) by (auto simp: append_eq_append_conv2)
    show thesis
      by (rule loop_full [OF am fit h(1,2) rcv h(4) [unfolded v(1)] t packets_next(1) [OF cnt]], rule full [where n = "length data", OF _ _ _ _ _ _ v(2)])
  next
    case False
    let ?z = "drop (length v) wire"
    have "take (length v) wire = v" using arg_cong [OF h(3), of "take (length v)"] False by simp
    then have z: "v @ ?z = wire" "?z \<noteq> []" "concat cs = ?z @ w" using False h(3)
      by (metis append_take_drop_id, simp, metis append_take_drop_id append.assoc same_append_eq)
    obtain s' where s': "read_loop P (cn_ssh d) = Some (Inr (SSH_MSG_NONE, None), s')" "receiver k seq s'" "waits P k data wire v cd s'" "rcv_frame (cn_ssh d) s'"
      by (rule loop_short [OF am fit h(1,2) rcv h(4) z(1,2)])
    have "listens k seq 1 (d\<lparr>cn_ssh := s'\<rparr>)"
      using l s'(2) rcv_frame_keeps [OF s'(4)] rcv_frame_output [OF s'(4)] by (simp add: listens_def)
    then have "arriving P k seq cd t p cd1 w cs (d\<lparr>cn_ssh := s'\<rparr>)" unfolding arriving_def using h(1-3) s'(3) cs by auto
    moreover have "sshbuf_len (ss_input s') \<le> PACKET_MAX_SIZE + 128"
      using waits_length_le [OF fit h(1,2) s'(3) s'(2)] False by simp
    ultimately show thesis using short s'(1,4) z(2,3) by auto
  qed
qed

lemma flow_cases:
  assumes am: "\<forall>n. P_am P n \<noteq> None" and fit: "keys_fit P c k"
    and fl: "flow P k seq cd ((t, p) # ms) cd' cs d" and t: "plain_type t"
  obtains (full) s' cd1 where "flow P k (seq + 1) cd1 ms cd' cs (d\<lparr>cn_ssh := s'\<rparr>)" "sshbuf_bytes (ss_incoming_packet s') = p"
      "read_loop P (cn_ssh d) = (if t = SSH2_MSG_IGNORE then read_loop P s' else Some (Inr (t, Some seq), s'))"
  | (short) s' where "flow P k seq cd ((t, p) # ms) cd' cs (d\<lparr>cn_ssh := s'\<rparr>)" "concat cs \<noteq> []"
      "sshbuf_len (ss_input s') \<le> PACKET_MAX_SIZE + 128" "read_loop P (cn_ssh d) = Some (Inr (SSH_MSG_NONE, None), s')"
proof -
  obtain cd1 w where a: "arriving P k seq cd t p cd1 w cs d" "stream P k (seq + 1) cd1 ms w cd'" and l: "listens k seq (length ((t, p) # ms)) d"
    using fl unfolding flow_def by auto
  have cs: "cn_reads d = map Got cs" "\<forall>x \<in> set cs. length x \<le> 8192" using a(1) by (simp_all add: arriving_def)
  show thesis
  proof (rule arriving_cases [OF am fit a(1) disjI1 [OF t]])
    fix s' rst n
    assume f: "read_loop P (cn_ssh d) = (case read2_finish P t s' of
         (Inl e, s1) \<Rightarrow> Some (Inl e, s1\<lparr>ss_packlen := 0\<rparr>)
       | (Inr _, s1) \<Rightarrow> let s2 = s1\<lparr>ss_packlen := 0, ss_keep_alive_timeouts := 0\<rparr>
                      in if t = SSH2_MSG_IGNORE then read_loop P s2 else Some (Inr (t, Some seq), s2))"
      "rcv_frame ((cn_ssh d)\<lparr>ss_p_read := received n k (ss_p_read (cn_ssh d))\<rparr>) s'" "receiver k (seq + 1) s'"
      "contents (ss_incoming_packet s') = p" "contents (ss_input s') = rst" "ss_receive_context s' = cd1" "rst @ concat cs = w"
    let ?s = "s'\<lparr>ss_packlen := 0, ss_keep_alive_timeouts := 0\<rparr>"
    have "read2_finish P t s' = (Inr (), s')" using t by (auto simp: read2_finish_def plain_type_def)
    then have run: "read_loop P (cn_ssh d) = (if t = SSH2_MSG_IGNORE then read_loop P ?s else Some (Inr (t, Some seq), ?s))"
      using f(1) by (simp add: Let_def)
    have "unat (ps_packets (ss_p_read (cn_ssh d))) + Suc (length ms) < 2 ^ 32" using l by (simp add: listens_def)
    note n = packets_next [OF this]
    have "flow P k (seq + 1) cd1 ms cd' cs (d\<lparr>cn_ssh := ?s\<rparr>)"
      by (rule flow_start [OF a(2) _ _ cs(2) _ f(7)])
        (use f l n cs rcv_frame_keeps [OF f(2)] rcv_frame_output [OF f(2)] in
          \<open>simp_all add: listens_def receiver_def received_def waits_length_def\<close>)
    moreover have "sshbuf_bytes (ss_incoming_packet ?s) = p" using f(3,4) ready_wf [of "ss_incoming_packet s'"] by (simp add: receiver_def)
    ultimately show thesis by (rule full [OF _ _ run])
  next
    fix s'
    assume s: "arriving P k seq cd t p cd1 w cs (d\<lparr>cn_ssh := s'\<rparr>)" "concat cs \<noteq> []" "rcv_frame (cn_ssh d) s'"
      "sshbuf_len (ss_input s') \<le> PACKET_MAX_SIZE + 128" "read_loop P (cn_ssh d) = Some (Inr (SSH_MSG_NONE, None), s')"
    have "listens k seq (length ((t, p) # ms)) (d\<lparr>cn_ssh := s'\<rparr>)"
      using l s(1) rcv_frame_keeps [OF s(3)] by (simp add: listens_def arriving_def)
    then have "flow P k seq cd ((t, p) # ms) cd' cs (d\<lparr>cn_ssh := s'\<rparr>)" using s(1) a(2) by (auto simp: flow_def)
    then show thesis using short s(2,4,5) by blast
  qed
qed

text \<open>
  What the loop of \<open>ssh_packet_read_poll_seqnr\<close> does with the bytes that are there: it gives the next
  message, or there is none, and then more bytes are to come when there are more messages.
\<close>

definition progress ::
  "('c, 'z) pkt_lib \<Rightarrow> dir_keys \<Rightarrow> u32 \<Rightarrow> (byte \<times> byte list) list \<Rightarrow> 'c cipher_ctx \<Rightarrow> byte \<times> u32 option \<Rightarrow> byte list list \<Rightarrow>
   u32 \<Rightarrow> (byte \<times> byte list) list \<Rightarrow> ('c, 'z, 'm) conn_scheme \<Rightarrow> bool" where
  "progress P k seq ms cd' r cs seq' ms' d \<longleftrightarrow>
     (\<exists>ce. flow P k seq' ce ms' cd' cs d) \<and> set ms' \<subseteq> set ms \<and>
     seq' + of_nat (length ms') = seq + of_nat (length ms) \<and>
     (if fst r = SSH_MSG_NONE
      then arrivals seq ms = arrivals seq' ms' \<and> (ms' \<noteq> [] \<longrightarrow> concat cs \<noteq> [] \<and> sshbuf_len (ss_input (cn_ssh d)) \<le> PACKET_MAX_SIZE + 128)
      else arrivals seq ms = (fst r, snd r, sshbuf_bytes (ss_incoming_packet (cn_ssh d))) # arrivals seq' ms')"

lemma progress_from:
  "progress P k seq1 ms1 cd' r cs seq' ms' d \<Longrightarrow> arrivals seq ms = arrivals seq1 ms1 \<Longrightarrow>
   seq + of_nat (length ms) = seq1 + of_nat (length ms1) \<Longrightarrow> set ms1 \<subseteq> set ms \<Longrightarrow> progress P k seq ms cd' r cs seq' ms' d"
  by (auto simp: progress_def split: if_splits)

lemma loop_flow:
  assumes am: "\<forall>n. P_am P n \<noteq> None" and fit: "keys_fit P c k"
    and fl: "flow P k seq cd ms cd' cs d" and ms: "\<forall>m \<in> set ms. plain_type (fst m)"
  obtains s' r seq' ms' where "read_loop P (cn_ssh d) = Some (Inr r, s')" "progress P k seq ms cd' r cs seq' ms' (d\<lparr>cn_ssh := s'\<rparr>)"
  using fl ms
proof (induction ms arbitrary: seq cd d thesis)
  case Nil
  have "receiver k seq (cn_ssh d)" "ss_compat20 (cn_ssh d)" "waits_length [] cd (cn_ssh d)"
    using Nil(2) by (simp_all add: flow_def listens_def)
  from loop_idle [OF this fit] Nil(1) [of "(SSH_MSG_NONE, None)" "cn_ssh d" seq "[]"] Nil(2)
  show ?case by (auto simp: progress_def)
next
  case (Cons m ms)
  obtain t p where m: "m = (t, p)" by (cases m)
  have pl: "plain_type t" "\<forall>m \<in> set ms. plain_type (fst m)" using Cons(4) m by auto
  then have ne: "t \<noteq> SSH_MSG_NONE" by (auto simp: plain_type_def ssh2_msgs)
  show ?case
  proof (rule flow_cases [OF am fit Cons(3) [unfolded m] pl(1)])
    fix s' cd1
    assume f: "flow P k (seq + 1) cd1 ms cd' cs (d\<lparr>cn_ssh := s'\<rparr>)" "sshbuf_bytes (ss_incoming_packet s') = p"
      "read_loop P (cn_ssh d) = (if t = SSH2_MSG_IGNORE then read_loop P s' else Some (Inr (t, Some seq), s'))"
    show ?thesis
    proof (cases "t = SSH2_MSG_IGNORE")
      case True
      obtain s2 r seq' ms' where "read_loop P (cn_ssh (d\<lparr>cn_ssh := s'\<rparr>)) = Some (Inr r, s2)"
        "progress P k (seq + 1) ms cd' r cs seq' ms' (d\<lparr>cn_ssh := s'\<rparr>\<lparr>cn_ssh := s2\<rparr>)" by (rule Cons(1) [OF _ f(1) pl(2)])
      then show ?thesis using Cons(2) [OF _ progress_from [of P k "seq + 1" ms]] f(3) True m by (simp add: add.assoc subset_insertI)
    next
      case False
      then show ?thesis
        using Cons(2) [of "(t, Some seq)" s' "seq + 1" ms] f pl(2) ne m by (auto simp: progress_def)
    qed
  next
    fix s'
    assume "flow P k seq cd ((t, p) # ms) cd' cs (d\<lparr>cn_ssh := s'\<rparr>)" "concat cs \<noteq> []"
      "sshbuf_len (ss_input s') \<le> PACKET_MAX_SIZE + 128" "read_loop P (cn_ssh d) = Some (Inr (SSH_MSG_NONE, None), s')"
    then show ?thesis using Cons(2) [of "(SSH_MSG_NONE, None)" s' seq "m # ms"] Cons(4) m by (auto simp: progress_def)
  qed
qed

section \<open>Waiting for the next message\<close>

declare read_wait_loop.simps [simp del]

lemma arriving_process:
  assumes am: "\<forall>n. P_am P n \<noteq> None" and ar: "arriving P k seq cd t p cd1 w (x # cs) d"
    and len: "sshbuf_len (ss_input (cn_ssh d)) \<le> PACKET_MAX_SIZE + 128"
  obtains b where "ssh_packet_process_incoming P x (cn_ssh d) = (Inr (), (cn_ssh d)\<lparr>ss_input := b\<rparr>)" "ready b"
    "arriving P k seq cd t p cd1 w cs (d\<lparr>cn_reads := map Got cs, cn_ssh := (cn_ssh d)\<lparr>ss_input := b\<rparr>\<rparr>)"
proof -
  obtain data wire v where h: "framed k (t # p) data" "opens P k seq data cd wire cd1" "v @ concat (x # cs) = wire @ w" "waits P k data wire v cd (cn_ssh d)"
    and l: "listens k seq 1 d" and cs: "\<forall>y \<in> set (x # cs). length y \<le> 8192"
    using ar unfolding arriving_def by auto
  have r: "ready (ss_input (cn_ssh d))" "ss_packet_discard (cn_ssh d) = 0" using l by (simp_all add: listens_def receiver_def)
  have "length (contents (ss_input (cn_ssh d))) + length x \<le> SSHBUF_SIZE_MAX"
    using len cs ready_wf [OF r(1)] by (simp add: PACKET_MAX_SIZE_def SSHBUF_SIZE_MAX_def)
  from writesD [OF writes_put [OF am] r(1) this] obtain b where
    b: "sshbuf_put (P_am P) x (ss_input (cn_ssh d)) = (Inr (), b)" "ready b" "contents b = contents (ss_input (cn_ssh d)) @ x" by auto
  let ?s = "(cn_ssh d)\<lparr>ss_input := b\<rparr>"
  have "waits P k data wire (v @ x) cd ?s"
    using h(4) b(3) by (auto simp: waits_def waits_length_def waits_body_def threshold_def split: if_splits)
  moreover have "(v @ x) @ concat cs = wire @ w" using h(3) by simp
  moreover have "listens k seq 1 (d\<lparr>cn_reads := map Got cs, cn_ssh := ?s\<rparr>)" using l b(2) by (simp add: listens_def receiver_def)
  ultimately have "arriving P k seq cd t p cd1 w cs (d\<lparr>cn_reads := map Got cs, cn_ssh := ?s\<rparr>)"
    unfolding arriving_def using h(1,2) cs by (simp del: append_assoc) blast
  then show thesis using that [of b] b r(2) by (simp add: ssh_packet_process_incoming_def)
qed

lemma process_run:
  assumes am: "\<forall>n. P_am P n \<noteq> None" and fl: "flow P k seq cd ms cd' (x # cs) d" and ms: "ms \<noteq> []"
    and len: "sshbuf_len (ss_input (cn_ssh d)) \<le> PACKET_MAX_SIZE + 128"
  obtains s' where "ssh_packet_process_incoming P x (cn_ssh d) = (Inr (), s')" "flow P k seq cd ms cd' cs (d\<lparr>cn_reads := map Got cs, cn_ssh := s'\<rparr>)"
proof -
  obtain m ms' where "ms = m # ms'" using ms by (cases ms) auto
  moreover obtain t p where "m = (t, p)" by (cases m)
  ultimately have m: "ms = (t, p) # ms'" by simp
  obtain cd1 w where a: "arriving P k seq cd t p cd1 w (x # cs) d" "stream P k (seq + 1) cd1 ms' w cd'" and l: "listens k seq (length ms) d"
    using fl m unfolding flow_def by auto
  obtain b where b: "ssh_packet_process_incoming P x (cn_ssh d) = (Inr (), (cn_ssh d)\<lparr>ss_input := b\<rparr>)" "ready b"
    "arriving P k seq cd t p cd1 w cs (d\<lparr>cn_reads := map Got cs, cn_ssh := (cn_ssh d)\<lparr>ss_input := b\<rparr>\<rparr>)"
    by (rule arriving_process [OF am a(1) len])
  have "listens k seq (length ms) (d\<lparr>cn_reads := map Got cs, cn_ssh := (cn_ssh d)\<lparr>ss_input := b\<rparr>\<rparr>)"
    using l b(2) by (simp add: listens_def receiver_def)
  then have "flow P k seq cd ms cd' cs (d\<lparr>cn_reads := map Got cs, cn_ssh := (cn_ssh d)\<lparr>ss_input := b\<rparr>\<rparr>)"
    using b(3) a(2) m unfolding flow_def by auto
  then show thesis by (rule that [OF b(1)])
qed

lemma try_run: "ss_compat20 s' \<Longrightarrow> read_loop P s = Some (Inr (ty, q), s') \<Longrightarrow> read_try P s = (Inr (ty, q), s')"
  by (simp add: read_try_def act_simps ssh_packet_read_poll_seqnr_def)

lemma wait_flow:
  assumes am: "\<forall>n. P_am P n \<noteq> None" and fit: "keys_fit P c k"
    and fl: "flow P k seq cd ms cd' cs d" and ms: "\<forall>m \<in> set ms. plain_type (fst m)" and ne: "arrivals seq ms \<noteq> []"
  obtains d' r seq' ms' cs' where "read_wait_loop P (cn_reads d) d = (Inr r, d')" "fst r \<noteq> SSH_MSG_NONE"
    "progress P k seq ms cd' r cs' seq' ms' d'"
  using fl ms ne
proof (induction cs arbitrary: d seq cd ms thesis)
  case (Nil d seq cd ms)
  obtain s' r seq' ms' where l: "read_loop P (cn_ssh d) = Some (Inr r, s')" "progress P k seq ms cd' r [] seq' ms' (d\<lparr>cn_ssh := s'\<rparr>)"
    by (rule loop_flow [OF am fit Nil(2,3)])
  have r: "fst r \<noteq> SSH_MSG_NONE" using l(2) Nil(4) by (auto simp: progress_def)
  have "on_ssh (read_try P) d = (Inr r, d\<lparr>cn_ssh := s'\<rparr>)"
    using l by (cases r) (auto simp: on_ssh_def try_run progress_def flow_def listens_def)
  with r have "read_wait_loop P (cn_reads d) d = (Inr r, d\<lparr>cn_ssh := s'\<rparr>)"
    by (cases r) (simp add: read_wait_loop.simps [of P "cn_reads d"])
  then show ?case using Nil(1) r l(2) by blast
next
  case (Cons x cs d seq cd ms)
  obtain s' r seq' ms' where l: "read_loop P (cn_ssh d) = Some (Inr r, s')" "progress P k seq ms cd' r (x # cs) seq' ms' (d\<lparr>cn_ssh := s'\<rparr>)"
    by (rule loop_flow [OF am fit Cons(3,4)])
  have t: "on_ssh (read_try P) d = (Inr r, d\<lparr>cn_ssh := s'\<rparr>)"
    using l by (cases r) (auto simp: on_ssh_def try_run progress_def flow_def listens_def)
  show ?case
  proof (cases "fst r = SSH_MSG_NONE")
    case False
    then have "read_wait_loop P (cn_reads d) d = (Inr r, d\<lparr>cn_ssh := s'\<rparr>)"
      using t by (cases r) (simp add: read_wait_loop.simps [of P "cn_reads d"])
    then show ?thesis using Cons(2) False l(2) by blast
  next
    case True
    then have a: "arrivals seq ms = arrivals seq' ms'" "ms' \<noteq> []" "sshbuf_len (ss_input s') \<le> PACKET_MAX_SIZE + 128"
      "\<forall>m \<in> set ms'. plain_type (fst m)" "seq' + of_nat (length ms') = seq + of_nat (length ms)"
      "set ms' \<subseteq> set ms"
      using l(2) Cons(4,5) by (auto simp: progress_def)
    obtain ce where "flow P k seq' ce ms' cd' (x # cs) (d\<lparr>cn_ssh := s'\<rparr>)" using l(2) by (auto simp: progress_def)
    then obtain s2 where s2: "ssh_packet_process_incoming P x s' = (Inr (), s2)"
      "flow P k seq' ce ms' cd' cs (d\<lparr>cn_reads := map Got cs, cn_ssh := s2\<rparr>)"
      by (rule process_run [OF am _ a(2)]) (use a(3) in simp_all)
    have "cn_reads d = Got x # map Got cs" using Cons(3,5) by (cases ms) (auto simp: flow_def arriving_def)
    then have w: "read_wait_loop P (cn_reads d) d = read_wait_loop P (map Got cs) (d\<lparr>cn_reads := map Got cs, cn_ssh := s2\<rparr>)"
      using t True s2(1) by (cases r) (simp add: read_wait_loop.simps [of P "Got x # map Got cs"] on_ssh_def [of "ssh_packet_process_incoming P x"])
    have ne: "arrivals seq' ms' \<noteq> []" using a(1) Cons(5) by simp
    obtain d' r1 seq1 ms1 cs1 where
      "read_wait_loop P (cn_reads (d\<lparr>cn_reads := map Got cs, cn_ssh := s2\<rparr>)) (d\<lparr>cn_reads := map Got cs, cn_ssh := s2\<rparr>) = (Inr r1, d')"
      "fst r1 \<noteq> SSH_MSG_NONE" "progress P k seq' ms' cd' r1 cs1 seq1 ms1 d'" by (rule Cons(1) [OF _ s2(2) a(4) ne]) (rule that)
    then show ?thesis using Cons(2) [OF _ _ progress_from [of P k seq' ms']] w a(1,5,6) by simp
  qed
qed


lemma write_wait_idle: "sshbuf_len (ss_output (cn_ssh d)) = 0 \<Longrightarrow> write_wait_loop es d = (Inr (), d)"
  by (cases es) (simp_all add: ssh_packet_have_data_to_write_def)

section \<open>Both ends\<close>

text \<open>
  A sender and a receiver with the same keys that have processed the same packets.
\<close>

definition in_step :: "('c, 'z) pkt_lib \<Rightarrow> sshcipher \<Rightarrow> ('c \<Rightarrow> 'c \<Rightarrow> bool) \<Rightarrow> dir_keys \<Rightarrow> ('c, 'z) ssh \<Rightarrow> ('c, 'z, 'm) conn_scheme \<Rightarrow> bool" where
  "in_step P c R k s d \<longleftrightarrow> sender k s \<and> listens k (ps_seqnr (ss_p_send s)) 0 d \<and>
     linked R c (ss_send_context s) (ss_receive_context (cn_ssh d)) \<and> waits_length [] (ss_receive_context (cn_ssh d)) (cn_ssh d)"

lemma read_all_flow:
  assumes am: "\<forall>n. P_am P n \<noteq> None" and fit: "keys_fit P c k"
    and fl: "flow P k seq cd ms cd' cs d" and ms: "\<forall>m \<in> set ms. plain_type (fst m)"
  obtains d' seq' ce ms' cs' where "read_all P (length (arrivals seq ms)) d = (Inr (arrivals seq ms), d')"
    "flow P k seq' ce ms' cd' cs' d'" "arrivals seq' ms' = []" "seq' + of_nat (length ms') = seq + of_nat (length ms)" "set ms' \<subseteq> set ms"
  using fl ms
proof (induction "arrivals seq ms" arbitrary: seq cd ms cs d thesis)
  case Nil
  then show ?case by (intro Nil(2) [OF _ Nil(3)]) (simp_all add: act_return_run)
next
  case (Cons a as)
  have "arrivals seq ms \<noteq> []" using Cons(2) by auto
  then obtain d1 r seq1 ms1 cs1 where r: "read_wait_loop P (cn_reads d) d = (Inr r, d1)" "fst r \<noteq> SSH_MSG_NONE"
    "progress P k seq ms cd' r cs1 seq1 ms1 d1"
    by (rule wait_flow [OF am fit Cons(4,5)]) (rule that)
  then obtain ce where f: "flow P k seq1 ce ms1 cd' cs1 d1" "\<forall>m \<in> set ms1. plain_type (fst m)"
    and ar: "arrivals seq ms = (fst r, snd r, sshbuf_bytes (ss_incoming_packet (cn_ssh d1))) # arrivals seq1 ms1"
      "seq1 + of_nat (length ms1) = seq + of_nat (length ms)" "set ms1 \<subseteq> set ms"
    using Cons(5) by (auto simp: progress_def)
  have as: "as = arrivals seq1 ms1" using ar(1) Cons(2) by simp
  obtain d' seq' ce' ms' cs' where i: "read_all P (length (arrivals seq1 ms1)) d1 = (Inr (arrivals seq1 ms1), d')"
    "flow P k seq' ce' ms' cd' cs' d'" "arrivals seq' ms' = []" "seq' + of_nat (length ms') = seq1 + of_nat (length ms1)"
    "set ms' \<subseteq> set ms1"
    by (rule Cons(1) [OF as _ f]) (rule that)
  have "ssh_packet_read_seqnr P d = (Inr r, d1)"
    using r(1) am Cons(4) by (simp add: ssh_packet_read_seqnr_def act_simps ssh_packet_write_wait_def ssh_packet_write_poll_def
      ssh_packet_have_data_to_write_def flow_def listens_def write_wait_idle)
  then have "read_all P (length (arrivals seq ms)) d = (Inr (arrivals seq ms), d')"
    using ar(1) i(1) by (cases r) (simp add: act_simps)
  then show ?case by (rule Cons(3) [OF _ i(2,3)]) (use i(4,5) ar(2,3) in auto)
qed


lemma arrivals_quiet: "\<forall>m \<in> set ms. fst m \<noteq> SSH2_MSG_IGNORE \<Longrightarrow> arrivals seq ms = [] \<Longrightarrow> ms = []"
  by (cases ms) auto

text \<open>
  The messages \<open>ms\<close>, sent by one side, are read by the other one: with consecutive sequence numbers,
  in their order and unchanged, whatever the pieces \<open>cs\<close> in which the connection gives the bytes.
  Both sides are in step afterwards, when nothing is left unread.
\<close>

definition delivered ::
  "('c, 'z) pkt_lib \<Rightarrow> sshcipher \<Rightarrow> ('c \<Rightarrow> 'c \<Rightarrow> bool) \<Rightarrow> dir_keys \<Rightarrow> (byte \<times> byte list) list \<Rightarrow> ('c, 'z) ssh \<Rightarrow> ('c, 'z, 'm) conn_scheme \<Rightarrow> bool" where
  "delivered P c R k ms s d \<longleftrightarrow>
     (\<exists>s' w. send_all P ms s = (Inr (), s') \<and> contents (ss_output s') = contents (ss_output s) @ w \<and>
        (\<forall>cs. concat cs = w \<longrightarrow> (\<forall>x \<in> set cs. length x \<le> 8192) \<longrightarrow>
           (let a = arrivals (ps_seqnr (ss_p_send s)) ms
            in \<exists>d'. read_all P (length a) (d\<lparr>cn_reads := map Got cs\<rparr>) = (Inr a, d') \<and>
                 ((\<forall>m \<in> set ms. fst m \<noteq> SSH2_MSG_IGNORE) \<longrightarrow> in_step P c R k s' d'))))"

end
