(* ===== verification/Packet_Setup.thy ===== *)
theory Packet_Setup
  imports Packet_Link Sshbuf_Crypto
begin

text \<open>
  How a session of \<open>ssh/packet.c\<close> starts, the parameters that are set on it, and messages the layer
  sends by itself.
\<close>

section \<open>A new session\<close>

text \<open>
  \<open>c0\<close>, \<open>z0\<close> are an EVP context and a zlib stream of zero bytes, \<open>g\<close> the random numbers, \<open>now\<close> the
  time and \<open>v2\<close> the global \<open>compat20\<close>. The sizes of the two structs depend on the libraries.
\<close>

definition packet_state0 :: packet_state where
  "packet_state0 = \<lparr>ps_seqnr = 0, ps_packets = 0, ps_blocks = 0, ps_bytes = 0\<rparr>"

definition ssh_alloc_session_state ::
  "('c, 'z) pkt_lib \<Rightarrow> size_t \<Rightarrow> size_t \<Rightarrow> 'c \<Rightarrow> 'z \<Rightarrow> (nat \<Rightarrow> byte) \<Rightarrow> int \<Rightarrow> bool \<Rightarrow> ('c, 'z) ssh option" where
  "ssh_alloc_session_state P sizeof_ssh sizeof_state c0 z0 g now v2 =
     (if P_am P sizeof_ssh = None \<or> P_am P sizeof_state = None then None
      else case sshbuf_new (P_am P) of None \<Rightarrow> None
      | Some b \<Rightarrow>
          let cc0 = \<lparr>cc_plaintext = False, cc_encrypt = False, cc_evp = c0, cc_cipher = None\<rparr>
          in Some \<lparr>ss_connection_in = -1, ss_connection_out = -1, ss_remote_protocol_flags = 0,
               ss_receive_context = cc0, ss_send_context = cc0,
               ss_input = b, ss_output = b, ss_outgoing_packet = b, ss_incoming_packet = b, ss_compression_buffer = None,
               ss_in_stream = z0, ss_out_stream = z0, ss_in_started = False, ss_out_started = False,
               ss_in_failures = 0, ss_out_failures = 0, ss_packet_compression = False, ss_max_packet_size = 32768,
               ss_interactive_mode = False, ss_server_side = False, ss_after_authentication = False,
               ss_keep_alive_timeouts = 0, ss_packet_timeout_ms = -1, ss_newkeys = (\<lambda>_. None),
               ss_p_read = packet_state0, ss_p_send = packet_state0, ss_max_blocks_in = 0, ss_max_blocks_out = 0,
               ss_rekey_limit = 0, ss_rekey_interval = 0, ss_rekey_time = 0, ss_ssh1_key = [], ss_extra_pad = 0,
               ss_packet_discard = 0, ss_packet_discard_mac = None, ss_packlen = 0, ss_rekeying = True,
               ss_set_interactive_called = False, ss_set_maxsize_called = False, ss_cipher_warning_done = False,
               ss_deattack = \<lparr>da_h = None, da_n = 0\<rparr>, ss_outgoing = [], ss_kex = None, ss_compat = 0, ss_compat20 = v2,
               ss_rng = g, ss_now = now\<rparr>)"

text \<open>An error of a call that is answered with \<open>fatal\<close>.\<close>

definition or_fatal :: "(stop, 's, 'a) action \<Rightarrow> (stop, 's, 'a) action" where
  "or_fatal f s = (case f s of (Inl (Rc _), s1) \<Rightarrow> (Inl Exits, s1) | x \<Rightarrow> x)"

text \<open>Both directions start with the cipher \<open>none\<close> and its empty key.\<close>

definition ssh_packet_set_connection :: "('c, 'z) pkt_lib \<Rightarrow> int \<Rightarrow> int \<Rightarrow> ('c, 'z, unit) pkt" where
  "ssh_packet_set_connection P fd_in fd_out s =
     (case cipher_by_name ''none'' of None \<Rightarrow> (Inl Exits, s)
      | Some none \<Rightarrow>
          act_seq
            (or_fatal (act_all
              [on_cc MODE_OUT (cipher_init (P_evp P) (P_am P) none (Some []) 0 None 0 True),
               on_cc MODE_IN (cipher_init (P_evp P) (P_am P) none (Some []) 0 None 0 False)]))
            (\<lambda>s1. (Inr (), s1\<lparr>ss_newkeys := (\<lambda>_. None), ss_deattack := deattack_init\<rparr>))
            (s\<lparr>ss_connection_in := fd_in, ss_connection_out := fd_out\<rparr>))"

definition SSH_SESSION_KEY_LENGTH :: nat where "SSH_SESSION_KEY_LENGTH = 32"

text \<open>The key of protocol 1, the same for both directions.\<close>

definition ssh_packet_set_encryption_key :: "('c, 'z) pkt_lib \<Rightarrow> byte list \<Rightarrow> int \<Rightarrow> ('c, 'z, unit) pkt" where
  "ssh_packet_set_encryption_key P key number s =
     (case cipher_by_number number of None \<Rightarrow> (Inl Exits, s)
      | Some cipher \<Rightarrow>
          if length key < 20 \<or> SSH_SESSION_KEY_LENGTH < length key then (Inl Exits, s)
          else
            act_seq
              (or_fatal (act_all
                [on_cc MODE_OUT (cipher_init (P_evp P) (P_am P) cipher (Some key) (length key) None 0 True),
                 on_cc MODE_IN (cipher_init (P_evp P) (P_am P) cipher (Some key) (length key) None 0 False)]))
              (\<lambda>s1. (Inr (), if \<not> ss_cipher_warning_done s1 \<and> cipher_warning_message (ss_send_context s1) \<noteq> None
                            then s1\<lparr>ss_cipher_warning_done := True\<rparr> else s1))
              (s\<lparr>ss_ssh1_key := key\<rparr>))"

section \<open>Parameters\<close>

definition INT_MAX :: int where "INT_MAX = 2 ^ 31 - 1"

definition ssh_packet_set_timeout :: "int \<Rightarrow> int \<Rightarrow> ('c, 'z) ssh \<Rightarrow> ('c, 'z) ssh" where
  "ssh_packet_set_timeout timeout count s =
     (if timeout \<le> 0 \<or> count \<le> 0 then s\<lparr>ss_packet_timeout_ms := -1\<rparr>
      else if INT_MAX div 1000 div count < timeout then s\<lparr>ss_packet_timeout_ms := INT_MAX\<rparr>
      else s\<lparr>ss_packet_timeout_ms := timeout * count * 1000\<rparr>)"

definition ssh_packet_set_maxsize :: "u32 \<Rightarrow> ('c, 'z) ssh \<Rightarrow> int \<times> ('c, 'z) ssh" where
  "ssh_packet_set_maxsize n s =
     (if ss_set_maxsize_called s then (-1, s)
      else if n < 4 * 1024 \<or> 1024 * 1024 < n then (-1, s)
      else (uint n, s\<lparr>ss_set_maxsize_called := True, ss_max_packet_size := n\<rparr>))"

definition ssh_packet_get_maxsize :: "('c, 'z) ssh \<Rightarrow> u32" where
  "ssh_packet_get_maxsize s = ss_max_packet_size s"

text \<open>Without the options of the socket.\<close>

definition ssh_packet_set_interactive :: "bool \<Rightarrow> ('c, 'z) ssh \<Rightarrow> ('c, 'z) ssh" where
  "ssh_packet_set_interactive interactive s =
     (if ss_set_interactive_called s then s
      else s\<lparr>ss_set_interactive_called := True, ss_interactive_mode := interactive\<rparr>)"

definition ssh_packet_is_interactive :: "('c, 'z) ssh \<Rightarrow> bool" where
  "ssh_packet_is_interactive s = ss_interactive_mode s"

definition ssh_packet_not_very_much_data_to_write :: "('c, 'z) ssh \<Rightarrow> bool" where
  "ssh_packet_not_very_much_data_to_write s =
     (if ss_interactive_mode s then sshbuf_len (ss_output s) < 16384 else sshbuf_len (ss_output s) < 128 * 1024)"

definition ssh_packet_inc_alive_timeouts :: "('c, 'z) ssh \<Rightarrow> int \<times> ('c, 'z) ssh" where
  "ssh_packet_inc_alive_timeouts s =
     (let n = ss_keep_alive_timeouts s + 1 in (n, s\<lparr>ss_keep_alive_timeouts := n\<rparr>))"

definition ssh_packet_set_alive_timeouts :: "int \<Rightarrow> ('c, 'z) ssh \<Rightarrow> ('c, 'z) ssh" where
  "ssh_packet_set_alive_timeouts ka s = s\<lparr>ss_keep_alive_timeouts := ka\<rparr>"

definition ssh_packet_set_protocol_flags :: "u32 \<Rightarrow> ('c, 'z) ssh \<Rightarrow> ('c, 'z) ssh" where
  "ssh_packet_set_protocol_flags flags s = s\<lparr>ss_remote_protocol_flags := flags\<rparr>"

definition ssh_packet_get_protocol_flags :: "('c, 'z) ssh \<Rightarrow> u32" where
  "ssh_packet_get_protocol_flags s = ss_remote_protocol_flags s"

definition ssh_packet_get_bytes :: "('c, 'z) ssh \<Rightarrow> u64 \<times> u64" where
  "ssh_packet_get_bytes s = (ps_bytes (ss_p_read s), ps_bytes (ss_p_send s))"

definition ssh_packet_set_server :: "('c, 'z) ssh \<Rightarrow> ('c, 'z) ssh" where
  "ssh_packet_set_server s = s\<lparr>ss_server_side := True\<rparr>"

definition ssh_packet_set_authenticated :: "('c, 'z) ssh \<Rightarrow> ('c, 'z) ssh" where
  "ssh_packet_set_authenticated s = s\<lparr>ss_after_authentication := True\<rparr>"

definition ssh_packet_remaining :: "('c, 'z) ssh \<Rightarrow> nat" where
  "ssh_packet_remaining s = sshbuf_len (ss_incoming_packet s)"

text \<open>A direction's compression buffer is allocated where its keys are compressing.\<close>

definition postauth_mode :: "('c, 'z) pkt_lib \<Rightarrow> kex_mode \<Rightarrow> ('c, 'z, unit) pkt" where
  "postauth_mode P mode s =
     (case ss_newkeys s mode of None \<Rightarrow> (Inr (), s)
      | Some nk \<Rightarrow> if sc_enabled (nk_comp nk) then ssh_packet_init_compression P s else (Inr (), s))"

definition ssh_packet_set_postauth :: "('c, 'z) pkt_lib \<Rightarrow> ('c, 'z, unit) pkt" where
  "ssh_packet_set_postauth P s =
     act_all [postauth_mode P MODE_IN, postauth_mode P MODE_OUT] (s\<lparr>ss_after_authentication := True, ss_rekeying := False\<rparr>)"

section \<open>Further fields of packets\<close>

definition sshpkt_putb :: "('c, 'z) pkt_lib \<Rightarrow> sshbuf \<Rightarrow> ('c, 'z, unit) pkt" where
  "sshpkt_putb P b = on_outgoing (sshbuf_putb (P_am P) b)"

definition sshpkt_put_stringb :: "('c, 'z) pkt_lib \<Rightarrow> sshbuf \<Rightarrow> ('c, 'z, unit) pkt" where
  "sshpkt_put_stringb P b = on_outgoing (sshbuf_put_stringb (P_am P) b)"

definition sshpkt_get :: "size_t \<Rightarrow> ('c, 'z, byte list) pkt" where
  "sshpkt_get n = on_incoming (sshbuf_get n)"

definition sshpkt_get_string_direct :: "('c, 'z, nat \<times> nat) pkt" where
  "sshpkt_get_string_direct = on_incoming sshbuf_get_string_direct"

definition sshpkt_ptr :: "('c, 'z) ssh \<Rightarrow> nat option \<times> nat" where
  "sshpkt_ptr s = (sshbuf_ptr (ss_incoming_packet s), sshbuf_len (ss_incoming_packet s))"

definition sshpkt_put_ec :: "('g, 'p, 'k) ec_lib \<Rightarrow> ('c, 'z) pkt_lib \<Rightarrow> 'p \<Rightarrow> 'g \<Rightarrow> ('c, 'z, unit) pkt" where
  "sshpkt_put_ec L P v g = on_outgoing (sshbuf_put_ec L (P_am P) v g)"

definition sshpkt_put_bignum1 :: "'bn bn_lib \<Rightarrow> ('c, 'z) pkt_lib \<Rightarrow> 'bn \<Rightarrow> ('c, 'z, unit) pkt" where
  "sshpkt_put_bignum1 L P v = on_outgoing (sshbuf_put_bignum1 L (P_am P) v)"

definition sshpkt_put_bignum2 :: "'bn bn_lib \<Rightarrow> ('c, 'z) pkt_lib \<Rightarrow> 'bn \<Rightarrow> ('c, 'z, unit) pkt" where
  "sshpkt_put_bignum2 L P v = on_outgoing (sshbuf_put_bignum2 L (P_am P) v)"

definition sshpkt_get_ec :: "('g, 'p, 'k) ec_lib \<Rightarrow> bool \<Rightarrow> 'g \<Rightarrow> ('c, 'z, 'p option) pkt" where
  "sshpkt_get_ec L want g = on_incoming (sshbuf_get_ec L want g)"

definition sshpkt_get_bignum1 :: "'bn bn_lib \<Rightarrow> bool \<Rightarrow> ('c, 'z, 'bn option) pkt" where
  "sshpkt_get_bignum1 L want = on_incoming (sshbuf_get_bignum1 L want)"

definition sshpkt_get_bignum2 :: "'bn bn_lib \<Rightarrow> bool \<Rightarrow> ('c, 'z, 'bn option) pkt" where
  "sshpkt_get_bignum2 L want = on_incoming (sshbuf_get_bignum2 L want)"

section \<open>Messages of the layer\<close>

text \<open>\<open>SSH2_MSG_IGNORE\<close> with random bytes, 4 of every random number, the lowest byte first; the packet is not sent yet.\<close>

definition ignore_byte :: "('c, 'z) pkt_lib \<Rightarrow> nat \<Rightarrow> u32 \<Rightarrow> ('c, 'z, u32) pkt" where
  "ignore_byte P i rnd s =
     (let (rnd1, g) = (if i mod 4 = 0
            then (case arc4random_buf 4 (ss_rng s) of (b, g) \<Rightarrow> (PEEK_U32 b, g)) else (rnd, ss_rng s))
      in act_seq (sshpkt_put_u8 P (ucast (rnd1 AND 0xff))) (act_return (drop_bit 8 rnd1)) (s\<lparr>ss_rng := g\<rparr>))"

fun ignore_bytes :: "('c, 'z) pkt_lib \<Rightarrow> nat \<Rightarrow> nat \<Rightarrow> u32 \<Rightarrow> ('c, 'z, unit) pkt" where
  "ignore_bytes P i 0 rnd = act_return ()"
| "ignore_bytes P i (Suc n) rnd = act_bind (ignore_byte P i rnd) (ignore_bytes P (Suc i) n)"

definition ssh_packet_send_ignore :: "('c, 'z) pkt_lib \<Rightarrow> nat \<Rightarrow> ('c, 'z, unit) pkt" where
  "ssh_packet_send_ignore P nbytes s =
     or_fatal (act_all
       [sshpkt_start P (if ss_compat20 s then SSH2_MSG_IGNORE else SSH_MSG_IGNORE),
        sshpkt_put_u32 P (of_nat nbytes), ignore_bytes P 0 nbytes 0]) s"

definition SSH_BUG_DEBUG :: u32 where "SSH_BUG_DEBUG = 0x40"

definition ssh_packet_send_debug :: "('c, 'z) pkt_lib \<Rightarrow> string \<Rightarrow> (stop, ('c, 'z, 'm) conn_scheme, unit) action" where
  "ssh_packet_send_debug P msg d =
     (let s = cn_ssh d; buf = bytes_of (take 1023 msg) in
      if ss_compat20 s \<and> ss_compat s AND SSH_BUG_DEBUG \<noteq> 0 then (Inr (), d)
      else
        act_seq
          (on_ssh (or_fatal (act_all
            (if ss_compat20 s
             then [sshpkt_start P SSH2_MSG_DEBUG, sshpkt_put_u8 P 0, sshpkt_put_cstring P buf, sshpkt_put_cstring P [], sshpkt_send P]
             else [sshpkt_start P SSH_MSG_DEBUG, sshpkt_put_cstring P buf, sshpkt_send P]))))
          (ssh_packet_write_wait (P_am P)) d)"

end
