(* ===== verification/Packet_Rekey.thy ===== *)
theory Packet_Rekey
  imports Packet_Setup
begin

text \<open>
  New keys on a connection: how two new sessions start, and how they go from one set of keys to
  the next without losing or repeating a message.
\<close>

section \<open>Keying a cipher\<close>

text \<open>
  What is relied on of libcrypto: the calls of \<open>cipher_init\<close> succeed for both directions, and give
  contexts that belong together.
\<close>

definition evp_keyed :: "('c, 'z) pkt_lib \<Rightarrow> sshcipher \<Rightarrow> byte list option \<Rightarrow> nat \<Rightarrow> byte list option \<Rightarrow> ('c \<Rightarrow> 'c \<Rightarrow> bool) \<Rightarrow> 'c \<Rightarrow> 'c \<Rightarrow> bool" where
  "evp_keyed P c key keylen iv R e d \<longleftrightarrow>
     evp_setup (P_evp P) (P_am P) c key keylen iv True (EVP_CTX_init (P_evp P)) = (Inr (), e) \<and>
     evp_setup (P_evp P) (P_am P) c key keylen iv False (EVP_CTX_init (P_evp P)) = (Inr (), d) \<and> R e d"

definition new_ctx :: "sshcipher \<Rightarrow> bool \<Rightarrow> 'c \<Rightarrow> 'c cipher_ctx" where
  "new_ctx c enc e = \<lparr>cc_plaintext = (ci_number c = SSH_CIPHER_NONE), cc_encrypt = enc, cc_evp = e, cc_cipher = Some c\<rparr>"

definition usable_len :: "sshcipher \<Rightarrow> nat \<Rightarrow> nat" where
  "usable_len c n = (if ci_number c = SSH_CIPHER_DES \<and> 8 < n then 8 else n)"

lemma cipher_init_run:
  assumes "evp_keyed P c key (usable_len c keylen) iv R e d" "ci_key_len c \<le> usable_len c keylen" "iv = None \<or> ci_iv_len c \<le> ivlen"
  shows "cipher_init (P_evp P) (P_am P) c key keylen iv ivlen True cc = (Inr (), new_ctx c True e)"
    "cipher_init (P_evp P) (P_am P) c key keylen iv ivlen False cc = (Inr (), new_ctx c False d)"
  using assms by (auto simp: cipher_init_def usable_len_def evp_keyed_def new_ctx_def Let_def)

lemma new_ctx_linked: "evp_keyed P c key n iv R e d \<Longrightarrow> linked R c (new_ctx c True e) (new_ctx c False d)"
  by (simp add: linked_def new_ctx_def evp_keyed_def)

section \<open>New sessions\<close>

text \<open>The cipher and the keys that are used before the first key exchange.\<close>

definition cipher_none :: sshcipher where
  "cipher_none = the (cipher_by_name ''none'')"

definition initial_keys :: dir_keys where
  "initial_keys = \<lparr>dk_authlen = 0, dk_mac = None, dk_block_size = 8, dk_aadlen = 0, dk_comp = False\<rparr>"

lemma cipher_none_by_name: "cipher_by_name ''none'' = Some cipher_none"
  unfolding cipher_none_def by code_simp

lemma cipher_none_sizes:
  "ci_key_len cipher_none = 0" "ci_block_size cipher_none = 8" "ci_auth_len cipher_none = 0" "ci_number cipher_none = SSH_CIPHER_NONE"
  unfolding cipher_none_def by code_simp+

lemma initial_keys_fit: "keys_fit P cipher_none initial_keys"
  by (simp add: keys_fit_def initial_keys_def cipher_none_sizes)

lemma initial_keys_used: "keys_used None = Some initial_keys"
  by (simp add: keys_used_def initial_keys_def)

text \<open>A session as it is made for a connection.\<close>

definition new_session ::
  "('c, 'z) pkt_lib \<Rightarrow> size_t \<Rightarrow> size_t \<Rightarrow> 'c \<Rightarrow> 'z \<Rightarrow> (nat \<Rightarrow> byte) \<Rightarrow> int \<Rightarrow> int \<Rightarrow> int \<Rightarrow> (stop + unit) \<times> ('c, 'z) ssh option" where
  "new_session P n1 n2 c0 z0 g now fd_in fd_out =
     (case ssh_alloc_session_state P n1 n2 c0 z0 g now True of None \<Rightarrow> (Inl Exits, None)
      | Some s \<Rightarrow> (case ssh_packet_set_connection P fd_in fd_out s of (r, s1) \<Rightarrow> (r, Some s1)))"

text \<open>What is known of a new session: nothing has been sent, received or queued.\<close>

definition session_new :: "('c, 'z) ssh \<Rightarrow> 'c \<Rightarrow> 'c \<Rightarrow> bool" where
  "session_new s e d \<longleftrightarrow> sender initial_keys s \<and> receiver initial_keys 0 s \<and> waits_length [] (new_ctx cipher_none False d) s \<and>
     ss_send_context s = new_ctx cipher_none True e \<and> contents (ss_output s) = [] \<and> ss_p_send s = packet_state0 \<and>
     ss_p_read s = packet_state0 \<and> ss_rekeying s \<and> ss_outgoing s = []"

lemma alloc_session_run:
  assumes am: "\<forall>n. P_am P n \<noteq> None"
  obtains s b where "ssh_alloc_session_state P n1 n2 c0 z0 g now True = Some s" "ready b" "contents b = []"
    "ss_input s = b" "ss_output s = b" "ss_outgoing_packet s = b" "ss_incoming_packet s = b" "ss_newkeys s = (\<lambda>_. None)"
    "ss_p_read s = packet_state0" "ss_p_send s = packet_state0" "ss_extra_pad s = 0" "ss_packet_discard s = 0" "ss_packlen s = 0"
    "ss_rekeying s" "ss_outgoing s = []" "ss_compat20 s"
proof -
  obtain b where b: "sshbuf_new (P_am P) = Some b" using new_total [OF am] by blast
  have "P_am P n1 \<noteq> None" "P_am P n2 \<noteq> None" using am by blast+
  then show thesis
    using that [OF _ ready_new [OF b, THEN conjunct1] ready_new [OF b, THEN conjunct2]] b
    by (simp add: ssh_alloc_session_state_def Let_def)
qed

lemma new_session_run:
  assumes am: "\<forall>n. P_am P n \<noteq> None" and key: "evp_keyed P cipher_none (Some []) 0 None R e d"
  obtains s where "new_session P n1 n2 c0 z0 g now fd_in fd_out = (Inr (), Some s)" "session_new s e d"
proof -
  obtain s b where s: "ssh_alloc_session_state P n1 n2 c0 z0 g now True = Some s" "ready b" "contents b = []"
    "ss_input s = b" "ss_output s = b" "ss_outgoing_packet s = b" "ss_incoming_packet s = b" "ss_newkeys s = (\<lambda>_. None)"
    "ss_p_read s = packet_state0" "ss_p_send s = packet_state0" "ss_extra_pad s = 0" "ss_packet_discard s = 0" "ss_packlen s = 0"
    "ss_rekeying s" "ss_outgoing s = []" "ss_compat20 s" by (rule alloc_session_run [OF am])
  have "usable_len cipher_none 0 = 0" by (simp add: usable_len_def)
  then have i: "cipher_init (P_evp P) (P_am P) cipher_none (Some []) 0 None 0 True cc = (Inr (), new_ctx cipher_none True e)"
    "cipher_init (P_evp P) (P_am P) cipher_none (Some []) 0 None 0 False cc = (Inr (), new_ctx cipher_none False d)" for cc
    using cipher_init_run [of P cipher_none "Some []" 0 None R e d 0] key by (simp_all add: cipher_none_sizes)
  let ?s = "s\<lparr>ss_connection_in := fd_in, ss_connection_out := fd_out, ss_send_context := new_ctx cipher_none True e,
    ss_receive_context := new_ctx cipher_none False d, ss_deattack := deattack_init\<rparr>"
  have "ssh_packet_set_connection P fd_in fd_out s = (Inr (), ?s)"
    using s(8) by (simp add: ssh_packet_set_connection_def cipher_none_by_name act_simps or_fatal_def on_cc_def get_cc_def set_cc_def i rc_def)
  then have "new_session P n1 n2 c0 z0 g now fd_in fd_out = (Inr (), Some ?s)" by (simp add: new_session_def s(1))
  moreover have "session_new ?s e d"
    using s by (simp add: session_new_def sender_def receiver_def waits_length_def initial_keys_used initial_keys_def packet_state0_def)
  ultimately show thesis by (rule that)
qed

lemma new_sessions_in_step:
  assumes "session_new s e d" "session_new (cn_ssh t) e d" "evp_keyed P cipher_none (Some []) 0 None R e d"
  shows "in_step P cipher_none R initial_keys s t"
proof -
  have "ready (ss_output (cn_ssh t))" "contents (ss_output (cn_ssh t)) = []" using assms(2) by (simp_all add: session_new_def sender_def)
  then have "sshbuf_len (ss_output (cn_ssh t)) = 0" using length_contents [of "ss_output (cn_ssh t)"] ready_wf [of "ss_output (cn_ssh t)"] by simp
  moreover have "linked R cipher_none (new_ctx cipher_none True e) (new_ctx cipher_none False d)" by (rule new_ctx_linked [OF assms(3)])
  ultimately show ?thesis using assms(1,2)
    by (simp add: in_step_def session_new_def listens_def sender_def waits_length_def packet_state0_def)
qed

section \<open>Putting new keys to use\<close>

text \<open>
  \<open>nk\<close> are keys as the key exchange leaves them, without compression, \<open>nk'\<close> the same keys when they
  are in use.
\<close>

definition takes_effect :: "('c, 'z) pkt_lib \<Rightarrow> sshcipher \<Rightarrow> newkeys \<Rightarrow> newkeys \<Rightarrow> bool" where
  "takes_effect P c nk nk' \<longleftrightarrow>
     se_cipher (nk_enc nk) = Some c \<and> ci_key_len c \<le> usable_len c (se_key_len (nk_enc nk)) \<and>
     (se_iv (nk_enc nk) = None \<or> ci_iv_len c \<le> se_iv_len (nk_enc nk)) \<and> se_block_size (nk_enc nk) \<noteq> 0 \<and>
     sc_type (nk_comp nk) = COMP_NONE \<and>
     (if cipher_authlen c = 0
      then \<exists>mac. mac_init (P_mac P) (nk_mac nk) = (Inr (), mac) \<and> nk' = nk\<lparr>nk_mac := mac\<lparr>sm_enabled := True\<rparr>\<rparr>
      else nk' = nk\<lparr>nk_mac := (nk_mac nk)\<lparr>sm_enabled := True\<rparr>\<rparr>)"

definition keyed :: "('c, 'z) pkt_lib \<Rightarrow> sshcipher \<Rightarrow> newkeys \<Rightarrow> ('c \<Rightarrow> 'c \<Rightarrow> bool) \<Rightarrow> 'c \<Rightarrow> 'c \<Rightarrow> bool" where
  "keyed P c nk R e d \<longleftrightarrow>
     evp_keyed P c (se_key (nk_enc nk)) (usable_len c (se_key_len (nk_enc nk))) (se_iv (nk_enc nk)) R e d"

text \<open>The session \<open>s\<close> has received the keys \<open>nk\<close> for a direction; an old context can be cleaned up.\<close>

definition has_newkeys :: "('c, 'z) pkt_lib \<Rightarrow> kex_mode \<Rightarrow> newkeys \<Rightarrow> ('c, 'z) ssh \<Rightarrow> bool" where
  "has_newkeys P mode nk s \<longleftrightarrow> (\<exists>kex. ss_kex s = Some kex \<and> kx_newkeys kex mode = Some nk) \<and>
     (ss_newkeys s mode \<noteq> None \<longrightarrow> (\<forall>x. fst (EVP_CTX_cleanup (P_evp P) x)))"

definition switched :: "kex_mode \<Rightarrow> newkeys \<Rightarrow> 'c cipher_ctx \<Rightarrow> ('c, 'z) ssh \<Rightarrow> ('c, 'z) ssh \<Rightarrow> bool" where
  "switched mode nk cc s s' \<longleftrightarrow>
     (\<exists>kex b m. s' = (if mode = MODE_OUT
        then s\<lparr>ss_p_send := (ss_p_send s)\<lparr>ps_packets := 0, ps_blocks := 0\<rparr>, ss_newkeys := (ss_newkeys s)(MODE_OUT := Some nk),
               ss_kex := kex, ss_send_context := cc, ss_cipher_warning_done := b, ss_max_blocks_out := m\<rparr>
        else s\<lparr>ss_p_read := (ss_p_read s)\<lparr>ps_packets := 0, ps_blocks := 0\<rparr>, ss_newkeys := (ss_newkeys s)(mode := Some nk),
               ss_kex := kex, ss_receive_context := cc, ss_cipher_warning_done := b, ss_max_blocks_in := m\<rparr>))"

lemma max_blocks_Some: "n \<noteq> 0 \<Longrightarrow> \<exists>m. max_blocks n l = Some m"
  by (simp add: max_blocks_def Let_def)

lemma helpers_keep [simp]:
  "ss_kex (set_cc mode cc s) = ss_kex s" "ss_rekey_limit (set_cc mode cc s) = ss_rekey_limit s"
  "ss_rekey_limit (set_newkey mode nk s) = ss_rekey_limit s" "ss_rekey_limit (newkeys_reset mode s) = ss_rekey_limit s"
  by (simp_all add: set_cc_def set_newkey_def newkeys_reset_def)

lemma newkeys_move_run:
  assumes "has_newkeys P mode nk s"
  obtains kex cc where "newkeys_move P mode s = (Inr nk, (set_newkey mode (Some nk) (set_cc mode cc s))\<lparr>ss_kex := kex\<rparr>)"
proof -
  obtain kex where kex: "ss_kex s = Some kex" "kx_newkeys kex mode = Some nk" using assms by (auto simp: has_newkeys_def)
  show thesis
  proof (cases "ss_newkeys s mode")
    case None
    have "set_cc mode (get_cc mode s) s = s" by (simp add: set_cc_def get_cc_def)
    with None show thesis using kex that [of "Some (kex\<lparr>kx_newkeys := (kx_newkeys kex)(mode := None)\<rparr>)" "get_cc mode s"]
      by (simp add: newkeys_move_def act_simps set_newkey_def)
  next
    case (Some o1)
    obtain c' where "EVP_CTX_cleanup (P_evp P) (cc_evp (get_cc mode s)) = (True, c')"
      using assms Some by (cases "EVP_CTX_cleanup (P_evp P) (cc_evp (get_cc mode s))") (simp add: has_newkeys_def, metis fst_conv)
    then show thesis using kex Some that [of "Some (kex\<lparr>kx_newkeys := (kx_newkeys kex)(mode := None)\<rparr>)" "(get_cc mode s)\<lparr>cc_evp := c'\<rparr>"]
      by (simp add: newkeys_move_def act_simps on_cc_def cipher_cleanup_def evp_try_def rc_def)
  qed
qed

definition mode_ctx :: "sshcipher \<Rightarrow> 'c \<Rightarrow> 'c \<Rightarrow> kex_mode \<Rightarrow> 'c cipher_ctx" where
  "mode_ctx c e d mode = (if mode = MODE_OUT then new_ctx c True e else new_ctx c False d)"

lemma newkeys_cipher_run:
  assumes ef: "takes_effect P c nk nk'" and key: "keyed P c nk R e d"
  obtains b where "newkeys_cipher P mode c (nk_enc nk') s = (Inr (), (set_cc mode (mode_ctx c e d mode) s)\<lparr>ss_cipher_warning_done := b\<rparr>)"
proof -
  let ?n = "nk_enc nk"
  have enc: "nk_enc nk' = ?n" using ef by (auto simp: takes_effect_def split: if_splits)
  have "cipher_init (P_evp P) (P_am P) c (se_key ?n) (se_key_len ?n) (se_iv ?n) (se_iv_len ?n) (mode = MODE_OUT) cc = (Inr (), mode_ctx c e d mode)" for cc
    using cipher_init_run [OF key [unfolded keyed_def]] ef by (simp add: takes_effect_def mode_ctx_def)
  then have "on_cc mode (cipher_init (P_evp P) (P_am P) c (se_key ?n) (se_key_len ?n) (se_iv ?n) (se_iv_len ?n) (mode = MODE_OUT)) s =
      (Inr (), set_cc mode (mode_ctx c e d mode) s)" by (simp add: on_cc_def rc_def)
  note run = this
  let ?t = "set_cc mode (mode_ctx c e d mode) s"
  have id: "?t = ?t\<lparr>ss_cipher_warning_done := ss_cipher_warning_done ?t\<rparr>" by simp
  show thesis
  proof (cases "\<not> ss_cipher_warning_done ?t \<and> cipher_warning_message (get_cc mode ?t) \<noteq> None")
    case True
    then show thesis using that [of True] run by (simp add: newkeys_cipher_def act_simps enc)
  next
    case False
    then show thesis using that [of "ss_cipher_warning_done ?t"] run id by (auto simp: newkeys_cipher_def act_simps enc)
  qed
qed

lemma newkeys_mac_run:
  assumes "takes_effect P c nk nk'"
  shows "newkeys_mac P mode c nk s = (Inr nk', set_newkey mode (Some nk') s)"
  using assms by (auto simp: newkeys_mac_def takes_effect_def Let_def split: if_splits)

lemma set_newkeys_run:
  assumes hk: "has_newkeys P mode nk s" and ef: "takes_effect P c nk nk'" and key: "keyed P c nk R e d"
  obtains s' where "ssh_set_newkeys P mode s = (Inr (), s')" "switched mode nk' (mode_ctx c e d mode) s s'"
proof -
  have nk: "se_cipher (nk_enc nk) = Some c" "sc_type (nk_comp nk') = COMP_NONE" "se_block_size (nk_enc nk') \<noteq> 0"
    using ef by (auto simp: takes_effect_def split: if_splits)
  have "has_newkeys P mode nk (newkeys_reset mode s)" using hk by (cases "mode = MODE_OUT") (simp_all add: has_newkeys_def newkeys_reset_def get_cc_def)
  then obtain kex cc where mv: "newkeys_move P mode (newkeys_reset mode s) =
      (Inr nk, (set_newkey mode (Some nk) (set_cc mode cc (newkeys_reset mode s)))\<lparr>ss_kex := kex\<rparr>)" by (rule newkeys_move_run)
  let ?s1 = "set_newkey mode (Some nk') ((set_newkey mode (Some nk) (set_cc mode cc (newkeys_reset mode s)))\<lparr>ss_kex := kex\<rparr>)"
  obtain b where ci: "newkeys_cipher P mode c (nk_enc nk') ?s1 = (Inr (), (set_cc mode (mode_ctx c e d mode) ?s1)\<lparr>ss_cipher_warning_done := b\<rparr>)"
    by (rule newkeys_cipher_run [OF ef key])
  let ?s2 = "(set_cc mode (mode_ctx c e d mode) ?s1)\<lparr>ss_cipher_warning_done := b\<rparr>"
  obtain m where m: "max_blocks (se_block_size (nk_enc nk')) (ss_rekey_limit s) = Some m" using max_blocks_Some [OF nk(3)] by blast
  let ?s3 = "if mode = MODE_OUT then ?s2\<lparr>ss_max_blocks_out := m\<rparr> else ?s2\<lparr>ss_max_blocks_in := m\<rparr>"
  have "ssh_set_newkeys P mode s = (Inr (), ?s3)"
    by (simp add: ssh_set_newkeys_def act_simps mv nk newkeys_mac_run [OF ef] ci newkeys_limits_def m)
  moreover have "switched mode nk' (mode_ctx c e d mode) s ?s3" unfolding switched_def
    by (intro exI [of _ kex] exI [of _ b] exI [of _ m]) (simp add: set_cc_def set_newkey_def newkeys_reset_def)
  ultimately show thesis by (rule that)
qed

section \<open>The sender changes its keys\<close>

text \<open>
  After \<open>SSH2_MSG_NEWKEYS\<close>, which goes under the old keys, come the messages that had to wait, under
  the new ones.
\<close>

definition next_keys ::
  "('c, 'z) pkt_lib \<Rightarrow> sshcipher \<Rightarrow> ('c \<Rightarrow> 'c \<Rightarrow> bool) \<Rightarrow> dir_keys \<Rightarrow> newkeys \<Rightarrow> newkeys \<Rightarrow> 'c \<Rightarrow> 'c \<Rightarrow> bool" where
  "next_keys P c R k nk nk' e d \<longleftrightarrow> keys_fit P c k \<and> cipher_pair (P_evp P) c R \<and> keys_used (Some nk') = Some k \<and> \<not> dk_comp k \<and>
     takes_effect P c nk nk' \<and> keyed P c nk R e d"

lemma send_newkeys_run:
  assumes am: "\<forall>n. P_am P n \<noteq> None" and fit: "keys_fit P c k" and pair: "cipher_pair (P_evp P) c R"
    and s: "sender k s" and link: "linked R c (ss_send_context s) cd"
    and nk: "has_newkeys P MODE_OUT nk s" "next_keys P c' R' k' nk nk' e d"
    and q: "list_all2 queued ms (ss_outgoing s)" and ms: "\<forall>(t, p) \<in> set ms. plain_type t \<and> length (t # p) \<le> MAX_BODY"
    and room: "length (contents (ss_output s)) + Suc (length ms) * (PACKET_MAX_SIZE + 128) \<le> SSHBUF_SIZE_MAX"
    and cnt: "ps_packets (ss_p_send s) + 1 \<noteq> 0" "length ms < 2 ^ 32"
  obtains data wire cd1 w cd' s' where "send_message P SSH2_MSG_NEWKEYS [] s = (Inr (), s')"
    "framed k [SSH2_MSG_NEWKEYS] data" "opens P k (ps_seqnr (ss_p_send s)) data cd wire cd1"
    "stream P k' (ps_seqnr (ss_p_send s) + 1) (new_ctx c' False d) ms w cd'" "linked R' c' (ss_send_context s') cd'" "sender k' s'"
    "contents (ss_output s') = contents (ss_output s) @ wire @ w"
    "ps_seqnr (ss_p_send s') = ps_seqnr (ss_p_send s) + 1 + of_nat (length ms)" "\<not> ss_rekeying s'" "ss_outgoing s' = []"
proof -
  let ?t = SSH2_MSG_NEWKEYS
  have o: "ready (ss_outgoing_packet s)" "ss_compat20 s" "length [?t] \<le> MAX_BODY" "ss_rekeying s \<longrightarrow> \<not> must_wait ?t"
    using s by (simp_all add: sender_def MAX_BODY_def PACKET_MAX_SIZE_def must_wait_def ssh2_msgs)
  obtain b where b: "ready b" "contents b = replicate 5 0 @ [?t]" and run: "send_message P ?t [] s =
       (case ssh_packet_send2_wrapped P (s\<lparr>ss_outgoing_packet := b, ss_rekeying := (?t = SSH2_MSG_KEXINIT \<or> ss_rekeying s)\<rparr>) of
          (Inl e, s1) \<Rightarrow> (Inl e, s1)
        | (Inr _, s1) \<Rightarrow>
            if ?t = SSH2_MSG_NEWKEYS then send_queue P (ss_outgoing s1) (s1\<lparr>ss_rekeying := False, ss_rekey_time := ss_now s1\<rparr>)
            else (Inr (), s1))" by (rule send_assembled [OF am o])
  let ?s = "s\<lparr>ss_outgoing_packet := b\<rparr>"
  have h: "contents (ss_outgoing_packet ?s) = replicate 5 0 @ [?t]" "length (replicate 5 (0 :: byte)) = 5" using b(2) by simp_all
  have s': "sender k ?s" "linked R c (ss_send_context ?s) cd" "ps_packets (ss_p_send ?s) + 1 \<noteq> 0"
    "length (contents (ss_output ?s)) + PACKET_MAX_SIZE + 128 \<le> SSHBUF_SIZE_MAX"
    using s b(1) link cnt room by (simp_all add: sender_def)
  obtain wire cd1 s1 where w: "ssh_packet_send2_wrapped P ?s = send2_finish P ?t s1" "sent_as P c R k (?t, []) cd ?s wire cd1 s1"
    by (rule wrapped_run [OF am fit pair s'(1,2) h o(3) s'(4,3)])
  have hk: "has_newkeys P MODE_OUT nk s1" using nk(1) w(2) by (simp add: has_newkeys_def sent_as_def)
  have n: "keys_fit P c' k'" "cipher_pair (P_evp P) c' R'" "keys_used (Some nk') = Some k'" "\<not> dk_comp k'"
    "takes_effect P c' nk nk'" "keyed P c' nk R' e d" using nk(2) by (simp_all add: next_keys_def)
  obtain s2 where s2: "ssh_set_newkeys P MODE_OUT s1 = (Inr (), s2)" "switched MODE_OUT nk' (mode_ctx c' e d MODE_OUT) s1 s2"
    by (rule set_newkeys_run [OF hk n(5,6)])
  let ?s3 = "s2\<lparr>ss_rekeying := False, ss_rekey_time := ss_now s2\<rparr>"
  have s3: "sender k' ?s3" "ss_send_context ?s3 = new_ctx c' True e" "ss_outgoing s2 = ss_outgoing s" "ss_output ?s3 = ss_output s1"
    "ps_packets (ss_p_send ?s3) = 0" "ps_seqnr (ss_p_send ?s3) = ps_seqnr (ss_p_send s) + 1"
    using s2(2) w(2) n(3,4) by (auto simp: switched_def sent_as_def sender_def mode_ctx_def)
  have r3: "length (contents (ss_output ?s3)) + length ms * (PACKET_MAX_SIZE + 128) \<le> SSHBUF_SIZE_MAX"
    using sent_room [OF fit w(2), of "length ms"] room s3(4) by simp
  have l3: "linked R' c' (ss_send_context ?s3) (new_ctx c' False d)" "unat (ps_packets (ss_p_send ?s3)) + length ms < 2 ^ 32"
    using new_ctx_linked [OF n(6) [unfolded keyed_def]] s3(2,5) cnt(2) by simp_all
  obtain v cd' s' where i: "send_queue P (ss_outgoing s) ?s3 = (Inr (), s')" "all_sent P c' R' k' ms (new_ctx c' False d) ?s3 v cd' s'"
    "ss_outgoing s \<noteq> [] \<longrightarrow> ss_outgoing s' = []"
    by (rule send_queue_run [OF am n(1,2) s3(1) l3(1) q ms r3 l3(2)])
  obtain data where f: "framed k [?t] data" "opens P k (ps_seqnr (ss_p_send s)) data cd wire cd1" using w(2) by (auto simp: sent_as_def)
  have m: "send_message P ?t [] s = (Inr (), s')"
    using run w(1) s2(1) i(1) s3(3) by (simp add: send2_finish_def ssh2_msgs)
  have "ss_outgoing s' = []" using i(1,3) s3(3) by (cases "ss_outgoing s") auto
  then show thesis
    by (intro that [where w = v and cd' = cd', OF m f]) (use i(2) s3(4,6) w(2) in \<open>simp_all add: all_sent_def sent_as_def\<close>)
qed

section \<open>The receiver changes its keys\<close>

lemma has_newkeys_frame: "rcv_frame s s' \<Longrightarrow> has_newkeys P mode nk s' = has_newkeys P mode nk s"
  unfolding rcv_frame_def has_newkeys_def by (drule arg_cong [of _ _ "\<lambda>s. (ss_kex s, ss_newkeys s)"]) simp

text \<open>The receiver has read \<open>SSH2_MSG_NEWKEYS\<close> and uses the new keys for what follows.\<close>

definition renewed :: "dir_keys \<Rightarrow> u32 \<Rightarrow> 'c cipher_ctx \<Rightarrow> byte list \<Rightarrow> byte list list \<Rightarrow> ('c, 'z, 'm) conn_scheme \<Rightarrow> bool" where
  "renewed k seq cd w cs d \<longleftrightarrow> receiver k seq (cn_ssh d) \<and> ss_compat20 (cn_ssh d) \<and> sshbuf_len (ss_output (cn_ssh d)) = 0 \<and>
     ps_packets (ss_p_read (cn_ssh d)) = 0 \<and> sshbuf_bytes (ss_incoming_packet (cn_ssh d)) = [] \<and> cn_reads d = map Got cs \<and>
     (\<forall>x \<in> set cs. length x \<le> 8192) \<and> (\<exists>v. waits_length v cd (cn_ssh d) \<and> v @ concat cs = w)"

lemma newkeys_cases:
  assumes am: "\<forall>n. P_am P n \<noteq> None" and fit: "keys_fit P c k" and ar: "arriving P k seq cd SSH2_MSG_NEWKEYS [] cd1 w cs d"
    and nk: "has_newkeys P MODE_IN nk (cn_ssh d)" "next_keys P c' R' k' nk nk' e dd"
  obtains (full) s' where "read_loop P (cn_ssh d) = Some (Inr (SSH2_MSG_NEWKEYS, Some seq), s')"
      "renewed k' (seq + 1) (new_ctx c' False dd) w cs (d\<lparr>cn_ssh := s'\<rparr>)"
  | (short) s' where "arriving P k seq cd SSH2_MSG_NEWKEYS [] cd1 w cs (d\<lparr>cn_ssh := s'\<rparr>)" "concat cs \<noteq> []"
      "has_newkeys P MODE_IN nk s'" "sshbuf_len (ss_input s') \<le> PACKET_MAX_SIZE + 128"
      "read_loop P (cn_ssh d) = Some (Inr (SSH_MSG_NONE, None), s')" "ss_compat20 s'"
proof -
  let ?t = SSH2_MSG_NEWKEYS
  have n: "keys_used (Some nk') = Some k'" "\<not> dk_comp k'" "takes_effect P c' nk nk'" "keyed P c' nk R' e dd"
    using nk(2) by (simp_all add: next_keys_def)
  have cs: "cn_reads d = map Got cs" "\<forall>x \<in> set cs. length x \<le> 8192" and l: "listens k seq 1 d" using ar by (simp_all add: arriving_def)
  have "plain_type ?t \<or> ?t = SSH2_MSG_NEWKEYS" by simp
  then show thesis
  proof (rule arriving_cases [OF am fit ar])
    fix s' rst n
    assume f: "read_loop P (cn_ssh d) = (case read2_finish P ?t s' of
         (Inl e, s1) \<Rightarrow> Some (Inl e, s1\<lparr>ss_packlen := 0\<rparr>)
       | (Inr _, s1) \<Rightarrow> let s2 = s1\<lparr>ss_packlen := 0, ss_keep_alive_timeouts := 0\<rparr>
                      in if ?t = SSH2_MSG_IGNORE then read_loop P s2 else Some (Inr (?t, Some seq), s2))"
      "rcv_frame ((cn_ssh d)\<lparr>ss_p_read := received n k (ss_p_read (cn_ssh d))\<rparr>) s'" "receiver k (seq + 1) s'"
      "contents (ss_incoming_packet s') = []" "contents (ss_input s') = rst" "ss_receive_context s' = cd1" "rst @ concat cs = w"
    have "has_newkeys P MODE_IN nk s'" using nk(1) has_newkeys_frame [OF f(2)] by (simp add: has_newkeys_def)
    then obtain s1 where s1: "ssh_set_newkeys P MODE_IN s' = (Inr (), s1)" "switched MODE_IN nk' (mode_ctx c' e dd MODE_IN) s' s1"
      by (rule set_newkeys_run [OF _ n(3,4)])
    let ?s = "s1\<lparr>ss_packlen := 0, ss_keep_alive_timeouts := 0\<rparr>"
    have run: "read_loop P (cn_ssh d) = Some (Inr (?t, Some seq), ?s)"
      using f(1) s1(1) by (simp add: read2_finish_def Let_def ssh2_msgs)
    have "renewed k' (seq + 1) (new_ctx c' False dd) w cs (d\<lparr>cn_ssh := ?s\<rparr>)"
      using s1(2) f(3-5,7) n(1,2) cs l rcv_frame_keeps [OF f(2)] rcv_frame_output [OF f(2)] ready_wf [of "ss_incoming_packet s'"]
      by (auto simp: renewed_def switched_def receiver_def waits_length_def mode_ctx_def listens_def)
    then show thesis by (rule full [OF run])
  next
    fix s'
    assume s: "arriving P k seq cd ?t [] cd1 w cs (d\<lparr>cn_ssh := s'\<rparr>)" "concat cs \<noteq> []" "rcv_frame (cn_ssh d) s'"
      "sshbuf_len (ss_input s') \<le> PACKET_MAX_SIZE + 128" "read_loop P (cn_ssh d) = Some (Inr (SSH_MSG_NONE, None), s')"
    have "ss_compat20 s'" using s(1) by (simp add: arriving_def listens_def)
    then show thesis using short s nk(1) has_newkeys_frame [OF s(3), of P MODE_IN nk] by blast
  qed
qed

lemma wait_newkeys:
  assumes am: "\<forall>n. P_am P n \<noteq> None" and fit: "keys_fit P c k" and ar: "arriving P k seq cd SSH2_MSG_NEWKEYS [] cd1 w cs d"
    and hk: "has_newkeys P MODE_IN nk (cn_ssh d)" and nk: "next_keys P c' R' k' nk nk' e dd"
  obtains d' cs' where "read_wait_loop P (cn_reads d) d = (Inr (SSH2_MSG_NEWKEYS, Some seq), d')"
    "renewed k' (seq + 1) (new_ctx c' False dd) w cs' d'"
  using ar hk
proof (induction cs arbitrary: d thesis)
  case (Nil d)
  show ?case
  proof (rule newkeys_cases [OF am fit Nil(2,3) nk])
    fix s' assume s: "read_loop P (cn_ssh d) = Some (Inr (SSH2_MSG_NEWKEYS, Some seq), s')"
      "renewed k' (seq + 1) (new_ctx c' False dd) w [] (d\<lparr>cn_ssh := s'\<rparr>)"
    then have "on_ssh (read_try P) d = (Inr (SSH2_MSG_NEWKEYS, Some seq), d\<lparr>cn_ssh := s'\<rparr>)"
      using try_run [OF _ s(1)] by (simp add: on_ssh_def renewed_def)
    then have "read_wait_loop P (cn_reads d) d = (Inr (SSH2_MSG_NEWKEYS, Some seq), d\<lparr>cn_ssh := s'\<rparr>)"
      by (simp add: read_wait_loop.simps [of P "cn_reads d"] ssh2_msgs)
    then show ?thesis using Nil(1) s(2) by blast
  qed simp
next
  case (Cons x cs d)
  show ?case
  proof (rule newkeys_cases [OF am fit Cons(3,4) nk])
    fix s' assume s: "read_loop P (cn_ssh d) = Some (Inr (SSH2_MSG_NEWKEYS, Some seq), s')"
      "renewed k' (seq + 1) (new_ctx c' False dd) w (x # cs) (d\<lparr>cn_ssh := s'\<rparr>)"
    then have "on_ssh (read_try P) d = (Inr (SSH2_MSG_NEWKEYS, Some seq), d\<lparr>cn_ssh := s'\<rparr>)"
      using try_run [OF _ s(1)] by (simp add: on_ssh_def renewed_def)
    then have "read_wait_loop P (cn_reads d) d = (Inr (SSH2_MSG_NEWKEYS, Some seq), d\<lparr>cn_ssh := s'\<rparr>)"
      by (simp add: read_wait_loop.simps [of P "cn_reads d"] ssh2_msgs)
    then show ?thesis using Cons(2) s(2) by blast
  next
    fix s' assume s: "arriving P k seq cd SSH2_MSG_NEWKEYS [] cd1 w (x # cs) (d\<lparr>cn_ssh := s'\<rparr>)" "has_newkeys P MODE_IN nk s'"
      "sshbuf_len (ss_input s') \<le> PACKET_MAX_SIZE + 128" "read_loop P (cn_ssh d) = Some (Inr (SSH_MSG_NONE, None), s')" "ss_compat20 s'"
    have t: "on_ssh (read_try P) d = (Inr (SSH_MSG_NONE, None), d\<lparr>cn_ssh := s'\<rparr>)" by (simp add: on_ssh_def try_run [OF s(5,4)])
    obtain b where b: "ssh_packet_process_incoming P x s' = (Inr (), s'\<lparr>ss_input := b\<rparr>)"
      "arriving P k seq cd SSH2_MSG_NEWKEYS [] cd1 w cs (d\<lparr>cn_reads := map Got cs, cn_ssh := s'\<lparr>ss_input := b\<rparr>\<rparr>)"
      using arriving_process [OF am s(1)] s(3) by (simp, blast)
    let ?d = "d\<lparr>cn_reads := map Got cs, cn_ssh := s'\<lparr>ss_input := b\<rparr>\<rparr>"
    have "cn_reads d = Got x # map Got cs" using Cons(3) by (simp add: arriving_def)
    then have w: "read_wait_loop P (cn_reads d) d = read_wait_loop P (cn_reads ?d) ?d"
      using t b(1) by (simp add: read_wait_loop.simps [of P "Got x # map Got cs"] on_ssh_def [of "ssh_packet_process_incoming P x"])
    have hk: "has_newkeys P MODE_IN nk (cn_ssh ?d)" using s(2) by (simp add: has_newkeys_def)
    show ?thesis by (rule Cons(1) [OF _ b(2) hk]) (use Cons(2) w in simp)
  qed
qed

section \<open>A small library and a connection\<close>

text \<open>A cipher that adds a running counter to the bytes, and a code that adds them up.\<close>

fun count_crypt :: "byte list \<Rightarrow> byte \<Rightarrow> byte list \<times> byte" where
  "count_crypt [] c = ([], c)"
| "count_crypt (x # xs) c = ((x XOR c) # fst (count_crypt xs (c + 1)), snd (count_crypt xs (c + 1)))"

lemma count_crypt_append:
  "count_crypt (a @ b) c = (fst (count_crypt a c) @ fst (count_crypt b (snd (count_crypt a c))), snd (count_crypt b (snd (count_crypt a c))))"
  by (induction a arbitrary: c) simp_all

lemma count_crypt_twice: "count_crypt (fst (count_crypt a c)) c = (a, snd (count_crypt a c))"
  by (induction a arbitrary: c) (simp_all add: ac_simps)

lemma count_crypt_length: "length (fst (count_crypt a c)) = length a"
  by (induction a arbitrary: c) simp_all

definition sample_evp :: "byte evp_lib" where
  "sample_evp = \<lparr>EVP_CTX_init = 0,
     EVP_CipherInit = (\<lambda>_ key _ _ c. (True, case key of None \<Rightarrow> c | Some k \<Rightarrow> sum_list k)),
     EVP_set_iv_fixed = (\<lambda>_ c. (True, c)), EVP_iv_gen = (\<lambda>c. (True, c)), EVP_set_tag = (\<lambda>_ c. (True, c)),
     EVP_get_tag = (\<lambda>n c. (True, replicate n c)), EVP_key_length = (\<lambda>_. 0), EVP_set_key_length = (\<lambda>_ c. (True, c)),
     EVP_Cipher = (\<lambda>x c. (1, fst (count_crypt x c), snd (count_crypt x c))), EVP_Cipher_aad = (\<lambda>_ c. (1, c)),
     EVP_Cipher_final = (\<lambda>c. (1, c)), EVP_CTX_cleanup = (\<lambda>_. (True, 0))\<rparr>"

definition sample_mac :: mac_lib where
  "sample_mac = \<lparr>MD_size = (\<lambda>_. 20), HMAC_Init_ok = (\<lambda>_ _. True),
     HMAC_run = (\<lambda>_ key x. Some (replicate 20 (sum_list key + sum_list x))), umac_new = (\<lambda>_. True), umac128_new = (\<lambda>_. True),
     umac_run = (\<lambda>_ _ _. replicate 8 0), umac128_run = (\<lambda>_ _ _. replicate 16 0)\<rparr>"

definition sample_z :: "unit z_lib" where
  "sample_z = \<lparr>deflateInit = (\<lambda>_ z. (Z_OK, z)), inflateInit = (\<lambda>z. (Z_OK, z)), deflateEnd = id, inflateEnd = id,
     deflate = (\<lambda>x n z. (Z_OK, take n x, drop n x, z)), inflate = (\<lambda>x n z. (if x = [] then Z_BUF_ERROR else Z_OK, take n x, drop n x, z))\<rparr>"

definition sample_lib :: "(byte, unit) pkt_lib" where
  "sample_lib = \<lparr>P_evp = sample_evp, P_mac = sample_mac, P_z = sample_z, P_am = alloc_zero\<rparr>"

lemma sample_am: "\<forall>n. P_am sample_lib n \<noteq> None"
  by (simp add: sample_lib_def alloc_zero_def)

lemma sample_stream: "stream_pair (P_evp sample_lib) n (=)"
  unfolding stream_pair_def
proof (intro allI impI)
  fix e d a b
  assume "e = (d :: byte)"
  then show "\<exists>x y e' d1 d2 r r1 r2 r3. EVP_Cipher (P_evp sample_lib) (a @ b) e = (r, x @ y, e') \<and> length x = length a \<and> length y = length b \<and>
      EVP_Cipher (P_evp sample_lib) x d = (r1, a, d1) \<and> EVP_Cipher (P_evp sample_lib) y d1 = (r2, b, d2) \<and>
      EVP_Cipher (P_evp sample_lib) (x @ y) d = (r3, a @ b, d2) \<and> 0 \<le> r \<and> 0 \<le> r1 \<and> 0 \<le> r2 \<and> 0 \<le> r3 \<and> e' = d2"
    by (intro exI [of _ "fst (count_crypt a e)"] exI [of _ "fst (count_crypt b (snd (count_crypt a e)))"])
      (simp add: sample_lib_def sample_evp_def count_crypt_append count_crypt_twice count_crypt_length)
qed

text \<open>Keys for \<open>aes128-ctr\<close> and \<open>hmac-sha1\<close>.\<close>

definition sample_cipher :: sshcipher where
  "sample_cipher = the (cipher_by_name ''aes128-ctr'')"

definition sample_keys :: newkeys where
  "sample_keys =
     \<lparr>nk_enc = \<lparr>se_name = Some ''aes128-ctr'', se_cipher = Some sample_cipher, se_enabled = False, se_key_len = 16, se_iv_len = 16,
        se_block_size = 16, se_key = Some (replicate 16 7), se_iv = Some (replicate 16 9)\<rparr>,
      nk_mac = \<lparr>sm_name = Some ''hmac-sha1'', sm_enabled = False, sm_mac_len = 20, sm_key = Some (replicate 20 5), sm_key_len = 20,
        sm_type = SSH_EVP, sm_etm = False, sm_evp_md = Some EVP_sha1, sm_evp_ctx = None, sm_umac_ctx = None\<rparr>,
      nk_comp = \<lparr>sc_type = COMP_NONE, sc_enabled = False, sc_name = Some ''none''\<rparr>\<rparr>"

definition sample_used :: newkeys where
  "sample_used = sample_keys\<lparr>nk_mac := (nk_mac sample_keys)\<lparr>sm_evp_ctx := Some (EVP_sha1, replicate 20 5), sm_enabled := True\<rparr>\<rparr>"

definition sample_dir :: dir_keys where
  "sample_dir = the (keys_used (Some sample_used))"

lemma sample_cipher_sizes:
  "ci_key_len sample_cipher = 16" "ci_iv_len sample_cipher = 0" "ci_block_size sample_cipher = 16" "ci_auth_len sample_cipher = 0"
  "ci_number sample_cipher = SSH_CIPHER_SSH2" "ci_discard_len sample_cipher = 0"
  unfolding sample_cipher_def by code_simp+

lemma sample_dir_keys: "keys_used (Some sample_used) = Some sample_dir"
  "dk_authlen sample_dir = 0" "dk_mac sample_dir = Some (nk_mac sample_used)" "dk_block_size sample_dir = 16" "dk_aadlen sample_dir = 0"
  "\<not> dk_comp sample_dir"
  by (simp_all add: sample_dir_def keys_used_def sample_used_def sample_keys_def Let_def cipher_authlen_def sample_cipher_sizes)

lemma sample_fit: "keys_fit sample_lib sample_cipher sample_dir"
  by (simp add: keys_fit_def sample_dir_keys sample_cipher_sizes mac_works_def MAC_DIGEST_LEN_MAX_def mac_digest_def
    sample_used_def sample_keys_def sample_lib_def sample_mac_def)

lemma sample_setup:
  "evp_setup (P_evp sample_lib) am c (Some key) n iv enc (EVP_CTX_init (P_evp sample_lib)) = (Inr (), sum_list key)"
  if "ci_auth_len c = 0" "ci_discard_len c = 0"
  using that by (simp add: evp_setup_def act_simps evp_try_def sample_lib_def sample_evp_def cipher_authlen_def cipher_discard_def Let_def)

lemma sample_next: "next_keys sample_lib sample_cipher (=) sample_dir sample_keys sample_used (sum_list (replicate 16 7)) (sum_list (replicate 16 7))"
proof -
  have "takes_effect sample_lib sample_cipher sample_keys sample_used"
    by (simp add: takes_effect_def cipher_authlen_def sample_cipher_sizes usable_len_def SSH_CIPHER_SSH2_def SSH_CIPHER_DES_def
      sample_keys_def sample_used_def mac_init_def sample_lib_def sample_mac_def)
  moreover have "keyed sample_lib sample_cipher sample_keys (=) (sum_list (replicate 16 7)) (sum_list (replicate 16 7))"
    using sample_setup [of sample_cipher] by (simp add: keyed_def evp_keyed_def sample_cipher_sizes sample_keys_def)
  ultimately show ?thesis
    by (simp add: next_keys_def sample_fit sample_dir_keys(1,6) cipher_pair_def sample_cipher_sizes sample_stream)
qed

text \<open>A new session that holds the keys for both directions and has a message waiting.\<close>

definition sample_kex :: kex where
  "sample_kex = \<lparr>kx_session_id = [], kx_newkeys = (\<lambda>_. Some sample_keys), kx_we_need = 20, kx_server = False, kx_name = None,
     kx_hostkey_type = KEY_RSA, kx_kex_type = Some KEX_DH_GRP14_SHA1, kx_roaming = False, kx_my = fresh_buf, kx_peer = fresh_buf,
     kx_evp_md = Some EVP_sha1, kx_ec_nid = 0, kx_compat = 0, kx_skip_packets = 0\<rparr>"

definition sample_waiting :: sshbuf where
  "sample_waiting = snd (sshbuf_put alloc_zero [0, 0, 0, 0, 0, 94, 1, 2, 3] fresh_buf)"

definition sample_session :: "(byte, unit) ssh" where
  "sample_session = the (snd (new_session sample_lib 8 8 0 () (\<lambda>i. of_nat i) 0 3 4))"

definition sample_side :: "(byte, unit) ssh" where
  "sample_side = sample_session\<lparr>ss_kex := Some sample_kex, ss_outgoing := [(94, sample_waiting)]\<rparr>"

definition sample_conn :: "(byte, unit) ssh \<Rightarrow> (byte, unit) conn" where
  "sample_conn s = \<lparr>cn_ssh = s, cn_reads = [], cn_writes = [], cn_sent = []\<rparr>"

lemma sample_none: "evp_keyed sample_lib cipher_none (Some []) 0 None (=) 0 0"
proof -
  have "ci_discard_len cipher_none = 0" unfolding cipher_none_def by code_simp
  then show ?thesis using sample_setup [of cipher_none] by (simp add: evp_keyed_def cipher_none_sizes)
qed

lemma sample_session_new: "session_new sample_session 0 0"
  unfolding sample_session_def
  by (rule new_session_run [OF sample_am sample_none, of 8 8 0 "()" "\<lambda>i. of_nat i" 0 3 4]) simp

lemma sample_queued: "list_all2 queued [(94, [1, 2, 3])] (ss_outgoing sample_side)"
proof -
  have n: "\<forall>n. alloc_zero n \<noteq> None" by (simp add: alloc_zero_def)
  have f: "ready fresh_buf" "contents fresh_buf = []" using ready_new [OF fresh_buf_new] by simp_all
  let ?v = "[0, 0, 0, 0, 0, 94, 1, 2, 3] :: byte list"
  have "length (contents fresh_buf) + length ?v \<le> SSHBUF_SIZE_MAX" using f(2) by (simp add: SSHBUF_SIZE_MAX_def)
  then obtain b where b: "sshbuf_put alloc_zero ?v fresh_buf = (Inr (), b)" "ready b" "contents b = contents fresh_buf @ ?v"
    by (rule writesD [OF writes_put [OF n] f(1)])
  then show ?thesis using f(2) by (auto simp: sample_side_def sample_waiting_def queued_def intro!: exI [of _ "[0, 0, 0, 0, 0]"])
qed

lemma sample_has_newkeys: "has_newkeys sample_lib mode sample_keys sample_side"
  by (simp add: has_newkeys_def sample_side_def sample_kex_def sample_lib_def sample_evp_def)

lemma sample_in_step: "in_step sample_lib cipher_none (=) initial_keys sample_side (sample_conn sample_side)"
proof -
  have "in_step sample_lib cipher_none (=) initial_keys sample_session (sample_conn sample_session)"
    by (rule new_sessions_in_step [OF _ _ sample_none]) (simp_all add: sample_session_new sample_conn_def)
  then show ?thesis
    by (simp add: in_step_def sample_side_def sample_conn_def sender_def listens_def receiver_def waits_length_def)
qed

lemma sample_counts: "contents (ss_output sample_side) = []" "ss_p_send sample_side = packet_state0" "ss_p_read sample_side = packet_state0"
  using sample_session_new by (simp_all add: session_new_def sample_side_def)

text \<open>The same session after both directions have gone over to the keys.\<close>

definition sample_keyed :: "(byte, unit) ssh" where
  "sample_keyed = sample_session\<lparr>ss_newkeys := (\<lambda>_. Some sample_used), ss_rekeying := False,
     ss_send_context := new_ctx sample_cipher True (sum_list (replicate 16 7)),
     ss_receive_context := new_ctx sample_cipher False (sum_list (replicate 16 7))\<rparr>"

lemma sample_keyed_in_step: "in_step sample_lib sample_cipher (=) sample_dir sample_keyed (sample_conn sample_keyed)"
proof -
  have "in_step sample_lib cipher_none (=) initial_keys sample_session (sample_conn sample_session)"
    by (rule new_sessions_in_step [OF _ _ sample_none]) (simp_all add: sample_session_new sample_conn_def)
  then show ?thesis
    by (simp add: in_step_def sample_keyed_def sample_conn_def sender_def listens_def receiver_def waits_length_def sample_dir_keys
      linked_def new_ctx_def)
qed

section \<open>Both ends\<close>

text \<open>
  \<open>SSH2_MSG_NEWKEYS\<close> is sent; the receiver reads it and then the messages \<open>ms\<close>, whatever the pieces in
  which the bytes come, and both sides are in step with the new keys.
\<close>

definition rekeyed ::
  "('c, 'z) pkt_lib \<Rightarrow> sshcipher \<Rightarrow> ('c \<Rightarrow> 'c \<Rightarrow> bool) \<Rightarrow> dir_keys \<Rightarrow> (byte \<times> byte list) list \<Rightarrow> ('c, 'z) ssh \<Rightarrow> ('c, 'z, 'm) conn_scheme \<Rightarrow> bool" where
  "rekeyed P c R k ms s d \<longleftrightarrow>
     (\<exists>s' w. send_message P SSH2_MSG_NEWKEYS [] s = (Inr (), s') \<and> contents (ss_output s') = contents (ss_output s) @ w \<and>
        \<not> ss_rekeying s' \<and> ss_outgoing s' = [] \<and>
        (\<forall>cs. concat cs = w \<longrightarrow> (\<forall>x \<in> set cs. length x \<le> 8192) \<longrightarrow>
           (let a = (SSH2_MSG_NEWKEYS, Some (ps_seqnr (ss_p_send s)), []) # arrivals (ps_seqnr (ss_p_send s) + 1) ms
            in \<exists>d'. read_all P (length a) (d\<lparr>cn_reads := map Got cs\<rparr>) = (Inr a, d') \<and>
                 ((\<forall>m \<in> set ms. fst m \<noteq> SSH2_MSG_IGNORE) \<longrightarrow> in_step P c R k s' d'))))"

lemma read_rekeyed:
  assumes am: "\<forall>n. P_am P n \<noteq> None" and fit: "keys_fit P c k" and fit': "keys_fit P c' k'"
    and ar: "arriving P k seq cd SSH2_MSG_NEWKEYS [] cd1 w cs d"
    and hk: "has_newkeys P MODE_IN nk (cn_ssh d)" and nk: "next_keys P c' R' k' nk nk' e dd"
    and st: "stream P k' (seq + 1) (new_ctx c' False dd) ms w cd'" and ms: "\<forall>m \<in> set ms. plain_type (fst m)" "length ms < 2 ^ 32"
  obtains d' seq' ce ms' cs' where
    "read_all P (Suc (length (arrivals (seq + 1) ms))) d = (Inr ((SSH2_MSG_NEWKEYS, Some seq, []) # arrivals (seq + 1) ms), d')"
    "flow P k' seq' ce ms' cd' cs' d'" "arrivals seq' ms' = []" "seq' + of_nat (length ms') = seq + 1 + of_nat (length ms)" "set ms' \<subseteq> set ms"
proof -
  obtain d1 cs1 where w: "read_wait_loop P (cn_reads d) d = (Inr (SSH2_MSG_NEWKEYS, Some seq), d1)"
    "renewed k' (seq + 1) (new_ctx c' False dd) w cs1 d1" by (rule wait_newkeys [OF am fit ar hk nk])
  then obtain v where v: "waits_length v (new_ctx c' False dd) (cn_ssh d1)" "v @ concat cs1 = w" by (auto simp: renewed_def)
  have l: "listens k' (seq + 1) (length ms) d1" "cn_reads d1 = map Got cs1" "\<forall>x \<in> set cs1. length x \<le> 8192"
    "sshbuf_bytes (ss_incoming_packet (cn_ssh d1)) = []" using w(2) ms(2) by (simp_all add: renewed_def listens_def)
  have "flow P k' (seq + 1) (new_ctx c' False dd) ms cd' cs1 d1" by (rule flow_start [OF st l(1-3) v])
  then obtain d' seq' ce ms' cs' where r: "read_all P (length (arrivals (seq + 1) ms)) d1 = (Inr (arrivals (seq + 1) ms), d')"
    "flow P k' seq' ce ms' cd' cs' d'" "arrivals seq' ms' = []" "seq' + of_nat (length ms') = seq + 1 + of_nat (length ms)" "set ms' \<subseteq> set ms"
    by (rule read_all_flow [OF am fit' _ ms(1)])
  have "sshbuf_len (ss_output (cn_ssh d)) = 0" using ar by (simp add: arriving_def listens_def)
  then have "ssh_packet_read_seqnr P d = (Inr (SSH2_MSG_NEWKEYS, Some seq), d1)"
    using w(1) am by (simp add: ssh_packet_read_seqnr_def act_simps ssh_packet_write_wait_def ssh_packet_write_poll_def
      ssh_packet_have_data_to_write_def write_wait_idle)
  then have "read_all P (Suc (length (arrivals (seq + 1) ms))) d = (Inr ((SSH2_MSG_NEWKEYS, Some seq, []) # arrivals (seq + 1) ms), d')"
    using r(1) l(4) by (simp add: act_simps)
  then show thesis by (rule that [OF _ r(2-5)])
qed

text \<open>C6: Keys are changed without losing a message. When two sessions are in step and hold the same new
  keys, \<open>SSH2_MSG_NEWKEYS\<close> travels under the old keys, and every message that had to wait in the queue
  follows under the new ones: the receiver reads all of them, in their order, unchanged and under
  consecutive sequence numbers, whatever the pieces in which the bytes arrive. Afterwards the queue is
  empty and both sides are in step with the new keys.\<close>

theorem newkeys_in_step:
  assumes am: "\<forall>n. P_am P n \<noteq> None" and fit: "keys_fit P c k" and pair: "cipher_pair (P_evp P) c R"
    and step: "in_step P c R k s d"
    and nk: "has_newkeys P MODE_OUT nk s" "has_newkeys P MODE_IN nk (cn_ssh d)" "next_keys P c' R' k' nk nk' e dd"
    and ms: "list_all2 queued ms (ss_outgoing s)" "\<forall>(t, p) \<in> set ms. plain_type t \<and> length (t # p) \<le> MAX_BODY" "length ms < 2 ^ 32"
    and room: "length (contents (ss_output s)) + Suc (length ms) * (PACKET_MAX_SIZE + 128) \<le> SSHBUF_SIZE_MAX"
    and cnt: "ps_packets (ss_p_send s) + 1 \<noteq> 0" "unat (ps_packets (ss_p_read (cn_ssh d))) + 1 < 2 ^ 32"
  shows "rekeyed P c' R' k' ms s d"
proof -
  let ?seq = "ps_seqnr (ss_p_send s)" and ?cd = "ss_receive_context (cn_ssh d)" and ?t = SSH2_MSG_NEWKEYS
  have st: "sender k s" "linked R c (ss_send_context s) ?cd" using step by (simp_all add: in_step_def)
  have fit': "keys_fit P c' k'" using nk(3) by (simp add: next_keys_def)
  have pl: "\<forall>m \<in> set ms. plain_type (fst m)" using ms(2) by auto
  obtain data wire cd1 w cd' s' where o: "send_message P ?t [] s = (Inr (), s')"
    "framed k [?t] data" "opens P k ?seq data ?cd wire cd1" "stream P k' (?seq + 1) (new_ctx c' False dd) ms w cd'"
    "linked R' c' (ss_send_context s') cd'" "sender k' s'" "contents (ss_output s') = contents (ss_output s) @ wire @ w"
    "ps_seqnr (ss_p_send s') = ?seq + 1 + of_nat (length ms)" "\<not> ss_rekeying s'" "ss_outgoing s' = []"
    by (rule send_newkeys_run [OF am fit pair st nk(1,3) ms(1,2) room cnt(1) ms(3)])
  have "\<exists>d'. read_all P (Suc (length (arrivals (?seq + 1) ms))) (d\<lparr>cn_reads := map Got cs\<rparr>) =
        (Inr ((?t, Some ?seq, []) # arrivals (?seq + 1) ms), d') \<and> ((\<forall>m \<in> set ms. fst m \<noteq> SSH2_MSG_IGNORE) \<longrightarrow> in_step P c' R' k' s' d')"
    if cs: "concat cs = wire @ w" "\<forall>x \<in> set cs. length x \<le> 8192" for cs
  proof -
    have "waits P k data wire [] ?cd (cn_ssh d)" using step by (simp add: in_step_def waits_def)
    then have ar: "arriving P k ?seq ?cd ?t [] cd1 w cs (d\<lparr>cn_reads := map Got cs\<rparr>)"
      unfolding arriving_def using o(2,3) cs step cnt(2) by (auto simp: in_step_def listens_def)
    have hk: "has_newkeys P MODE_IN nk (cn_ssh (d\<lparr>cn_reads := map Got cs\<rparr>))" using nk(2) by simp
    obtain d' seq' ce ms' cs' where r: "read_all P (Suc (length (arrivals (?seq + 1) ms))) (d\<lparr>cn_reads := map Got cs\<rparr>) =
        (Inr ((?t, Some ?seq, []) # arrivals (?seq + 1) ms), d')"
      "flow P k' seq' ce ms' cd' cs' d'" "arrivals seq' ms' = []" "seq' + of_nat (length ms') = ?seq + 1 + of_nat (length ms)" "set ms' \<subseteq> set ms"
      by (rule read_rekeyed [OF am fit fit' ar hk nk(3) o(4) pl ms(3)])
    have "in_step P c' R' k' s' d'" if "\<forall>m \<in> set ms. fst m \<noteq> SSH2_MSG_IGNORE"
    proof -
      have "ms' = []" using arrivals_quiet [OF _ r(3)] r(5) that by blast
      then show ?thesis using r(2,4) o(5,6,8) by (simp add: flow_def in_step_def waits_length_def)
    qed
    then show ?thesis using r(1) by blast
  qed
  then show ?thesis unfolding rekeyed_def Let_def using o(1,7,9,10) by auto
qed

theorem newkeys_in_step_witness: "rekeyed sample_lib sample_cipher (=) sample_dir [(94, [1, 2, 3])] sample_side (sample_conn sample_side)"
proof (rule newkeys_in_step [OF sample_am initial_keys_fit _ sample_in_step sample_has_newkeys _ sample_next sample_queued])
  show "cipher_pair (P_evp sample_lib) cipher_none (=)" by (simp add: cipher_pair_def cipher_none_sizes sample_stream)
  show "has_newkeys sample_lib MODE_IN sample_keys (cn_ssh (sample_conn sample_side))" by (simp add: sample_conn_def sample_has_newkeys)
qed (simp_all add: sample_counts sample_conn_def packet_state0_def plain_type_def ssh2_msgs MAX_BODY_def PACKET_MAX_SIZE_def SSHBUF_SIZE_MAX_def
  del: length_contents)



text \<open>C40: Any two new sessions can talk to each other: when memory lasts and libcrypto sets up the cipher
  \<open>none\<close>, \<open>ssh_alloc_session_state\<close> and \<open>ssh_packet_set_connection\<close> succeed on both sides, their buffers are
  empty and sound, and the two are in step in both directions.\<close>

theorem new_sessions_agree:
  assumes am: "\<forall>n. P_am P n \<noteq> None" and key: "evp_keyed P cipher_none (Some []) 0 None R e d"
  shows "\<exists>s t. new_session P n1 n2 c0 z0 g now i1 o1 = (Inr (), Some s) \<and> new_session P m1 m2 c1 z1 h later i2 o2 = (Inr (), Some t) \<and>
    in_step P cipher_none R initial_keys s \<lparr>cn_ssh = t, cn_reads = rs, cn_writes = ws, cn_sent = []\<rparr> \<and>
    in_step P cipher_none R initial_keys t \<lparr>cn_ssh = s, cn_reads = qs, cn_writes = us, cn_sent = []\<rparr>"
proof -
  obtain s where s: "new_session P n1 n2 c0 z0 g now i1 o1 = (Inr (), Some s)" "session_new s e d" by (rule new_session_run [OF am key])
  obtain t where t: "new_session P m1 m2 c1 z1 h later i2 o2 = (Inr (), Some t)" "session_new t e d" by (rule new_session_run [OF am key])
  have "in_step P cipher_none R initial_keys s \<lparr>cn_ssh = t, cn_reads = rs, cn_writes = ws, cn_sent = []\<rparr>"
    "in_step P cipher_none R initial_keys t \<lparr>cn_ssh = s, cn_reads = qs, cn_writes = us, cn_sent = []\<rparr>"
    by (simp_all add: new_sessions_in_step [OF s(2) _ key] new_sessions_in_step [OF t(2) _ key] s(2) t(2))
  then show ?thesis using s(1) t(1) by blast
qed

theorem new_sessions_agree_witness:
  "\<exists>s t. new_session sample_lib 8 8 0 () (\<lambda>_. 1) 0 3 4 = (Inr (), Some s) \<and> new_session sample_lib 8 8 5 () (\<lambda>_. 2) 7 5 6 = (Inr (), Some t) \<and>
    in_step sample_lib cipher_none (=) initial_keys s \<lparr>cn_ssh = t, cn_reads = [], cn_writes = [], cn_sent = []\<rparr> \<and>
    in_step sample_lib cipher_none (=) initial_keys t \<lparr>cn_ssh = s, cn_reads = [], cn_writes = [], cn_sent = []\<rparr>"
  by (rule new_sessions_agree [OF sample_am sample_none])

end
