(* ===== verification/Packet_Auth.thy ===== *)
theory Packet_Auth
  imports Packet_Rekey
begin

text \<open>
  What has been checked of a packet that \<open>ssh_packet_read_poll2\<close> returns, whatever bytes have arrived.
\<close>

section \<open>What sending leaves alone\<close>

text \<open>The receiving side of a session; putting new incoming keys to use changes the last part.\<close>

definition rx :: "kex_mode \<Rightarrow> ('c, 'z) ssh \<Rightarrow> sshbuf \<times> sshbuf \<times> ('c cipher_ctx \<times> u32 \<times> u32) option" where
  "rx mode s = (ss_input s, ss_incoming_packet s,
     if mode = MODE_OUT then Some (ss_receive_context s, ps_seqnr (ss_p_read s), ss_packlen s) else None)"

definition keeps_rx :: "kex_mode \<Rightarrow> ('c, 'z, 'a) pkt \<Rightarrow> bool" where
  "keeps_rx mode f \<longleftrightarrow> (\<forall>x. act_keeps (\<lambda>s. rx mode s = x) f)"

lemma keeps_rxI: "(\<And>s. rx mode (snd (f s)) = rx mode s) \<Longrightarrow> keeps_rx mode f"
  unfolding keeps_rx_def act_keeps_def by (metis snd_conv)

lemma keeps_rxD: "keeps_rx mode f \<Longrightarrow> f s = (r, s') \<Longrightarrow> rx mode s' = rx mode s"
  unfolding keeps_rx_def act_keeps_def by blast

lemma keeps_rx_snd: "keeps_rx mode f \<Longrightarrow> rx mode (snd (f s)) = rx mode s"
  by (rule keeps_rxD [OF _ prod.collapse [symmetric]])

named_theorems rx_rules \<open>parts of the packet layer that leave the receiving side alone\<close>

lemma keeps_rx_control [rx_rules]:
  "keeps_rx mode (act_return a)" "keeps_rx mode (act_fail e)"
  "keeps_rx mode f \<Longrightarrow> (\<And>a. keeps_rx mode (h a)) \<Longrightarrow> keeps_rx mode (act_bind f h)"
  "keeps_rx mode f \<Longrightarrow> keeps_rx mode g \<Longrightarrow> keeps_rx mode (act_seq f g)"
  by (auto simp: keeps_rx_def)

lemma keeps_rx_case:
  "(\<And>s. \<exists>f. keeps_rx mode f \<and> g s = f s) \<Longrightarrow> keeps_rx mode g"
  unfolding keeps_rx_def act_keeps_def by metis

lemma keeps_rx_dep: "(\<And>s0. keeps_rx mode (f s0)) \<Longrightarrow> keeps_rx mode (\<lambda>s. f s s)"
  unfolding keeps_rx_def act_keeps_def by blast

lemma keeps_rx_buffers [rx_rules]:
  "keeps_rx mode (on_outgoing f)" "keeps_rx mode (on_output f)" "keeps_rx mode (on_compression f)"
  by (rule keeps_rxI, simp add: on_outgoing_def on_output_def on_compression_def rx_def split: prod.splits option.splits)+

lemma keeps_rx_compression [rx_rules]:
  "keeps_rx mode (ssh_packet_init_compression P)" "keeps_rx mode (start_compression_out P n)" "keeps_rx mode (start_compression_in P)"
  "keeps_rx mode (compress_buffer P)"
  by (rule keeps_rxI, simp add: ssh_packet_init_compression_def start_compression_out_def start_compression_in_def compress_buffer_def
    rx_def Let_def split: prod.splits option.splits)+

lemma rx_set [simp]: "rx mode (set_newkey m nk s) = rx mode s" "rx mode (set_cc mode cc s) = rx mode s" "rx mode (newkeys_reset mode s) = rx mode s"
  "rx mode (s\<lparr>ss_kex := kex\<rparr>) = rx mode s" "rx mode (s\<lparr>ss_cipher_warning_done := b\<rparr>) = rx mode s"
  "rx mode (s\<lparr>ss_after_authentication := b\<rparr>) = rx mode s" "rx mode (s\<lparr>ss_rekeying := b\<rparr>) = rx mode s" "rx mode (s\<lparr>ss_rekey_time := i\<rparr>) = rx mode s"
  "rx mode (s\<lparr>ss_outgoing_packet := o1\<rparr>) = rx mode s" "rx mode (s\<lparr>ss_outgoing := q\<rparr>) = rx mode s" "rx mode (s\<lparr>ss_output := o1\<rparr>) = rx mode s"
  "rx mode (s\<lparr>ss_extra_pad := p\<rparr>) = rx mode s" "rx mode (s\<lparr>ss_rng := g\<rparr>) = rx mode s" "rx mode (s\<lparr>ss_send_context := cc\<rparr>) = rx mode s"
  "rx mode (s\<lparr>ss_p_send := ps\<rparr>) = rx mode s"
  "rx mode (s\<lparr>ss_max_blocks_out := mb\<rparr>) = rx mode s" "rx mode (s\<lparr>ss_max_blocks_in := mb\<rparr>) = rx mode s"
  by (auto simp: rx_def set_newkey_def set_cc_def newkeys_reset_def)

lemma keeps_rx_start [rx_rules]: "keeps_rx mode (start_compression P m nk)"
proof -
  have "keeps_rx mode (\<lambda>s. (Inr (), set_newkey m x s))" for x :: "newkeys option" by (rule keeps_rxI) simp
  then show ?thesis unfolding start_compression_def act_all.simps by (intro rx_rules) (auto intro: rx_rules)
qed

lemma keeps_rx_after: "keeps_rx mode f \<Longrightarrow> (\<And>s. rx mode (h s) = rx mode s) \<Longrightarrow> keeps_rx mode (\<lambda>s. f (h s))"
  unfolding keeps_rx_def act_keeps_def by metis

lemma keeps_rx_cc [rx_rules]: "keeps_rx mode (on_cc mode f)"
  by (rule keeps_rxI) (simp add: on_cc_def split: prod.splits)

lemma keeps_rx_newkeys [rx_rules]: "keeps_rx mode (ssh_set_newkeys P mode)"
proof -
  have mv: "keeps_rx mode (newkeys_move P mode)" unfolding newkeys_move_def
    by (intro rx_rules; rule keeps_rxI; simp split: option.splits add: keeps_rx_snd [OF keeps_rx_cc])
  have mac: "keeps_rx mode (newkeys_mac P mode c nk)" for c nk
    by (rule keeps_rxI) (simp add: newkeys_mac_def Let_def split: prod.splits sum.splits)
  have ci: "keeps_rx mode (newkeys_cipher P mode c enc)" for c enc unfolding newkeys_cipher_def
    by (intro rx_rules) (rule keeps_rxI, simp)
  have co: "keeps_rx mode (\<lambda>s. if C s then start_compression P mode nk s else (Inr (), s))" for C nk
    by (rule keeps_rxI) (simp add: keeps_rx_snd [OF keeps_rx_start])
  have li: "keeps_rx mode (newkeys_limits mode n)" for n
    by (rule keeps_rxI) (simp add: newkeys_limits_def split: option.splits)
  have "keeps_rx mode (act_bind (newkeys_move P mode) (\<lambda>nk0.
       case se_cipher (nk_enc nk0) of None \<Rightarrow> act_fail Faults
       | Some cipher \<Rightarrow>
         act_bind (newkeys_mac P mode cipher nk0) (\<lambda>nk.
           act_all
             [newkeys_cipher P mode cipher (nk_enc nk),
              (\<lambda>s. if (sc_type (nk_comp nk) = COMP_ZLIB \<or>
                       (sc_type (nk_comp nk) = COMP_DELAYED \<and> ss_after_authentication s)) \<and> \<not> sc_enabled (nk_comp nk)
                    then start_compression P mode nk s else (Inr (), s)),
              newkeys_limits mode (se_block_size (nk_enc nk))])))"
    by (intro rx_rules mv) (auto split: option.splits intro!: rx_rules mac ci co li)
  from keeps_rx_after [OF this, of "newkeys_reset mode"] show ?thesis
    unfolding ssh_set_newkeys_def [abs_def] by simp
qed

lemma keeps_rx_delayed [rx_rules]: "keeps_rx mode (ssh_packet_enable_delayed_compress P)"
proof -
  have d: "keeps_rx mode (delayed_compress P m)" for m
    by (rule keeps_rxI) (simp add: delayed_compress_def keeps_rx_snd [OF keeps_rx_start] split: option.splits)
  have "keeps_rx mode (act_all [delayed_compress P MODE_IN, delayed_compress P MODE_OUT])" by (simp add: rx_rules d)
  from keeps_rx_after [OF this, of "\<lambda>s. s\<lparr>ss_after_authentication := True\<rparr>"] show ?thesis
    unfolding ssh_packet_enable_delayed_compress_def [abs_def] by simp
qed

lemma keeps_rx_if [rx_rules]: "keeps_rx mode f \<Longrightarrow> keeps_rx mode g \<Longrightarrow> keeps_rx mode (if C then f else g)"
  by simp

lemma keeps_rx_put_comp [rx_rules]:
  "keeps_rx mode (\<lambda>s. case ss_compression_buffer s of None \<Rightarrow> (Inl Faults, s) | Some cb \<Rightarrow> on_outgoing (f cb) s)"
  by (rule keeps_rxI) (simp add: keeps_rx_snd [OF keeps_rx_buffers(1)] split: option.splits)

lemma keeps_rx_send2_parts [rx_rules]:
  "keeps_rx mode (send2_compress P)" "keeps_rx mode (send2_pad P k)" "keeps_rx mode (send2_header n)" "keeps_rx mode (send2_mac P k x b)"
  "keeps_rx mode (send2_encrypt P k x)" "keeps_rx mode (send2_append_mac P k m)" "keeps_rx mode (send2_count P k l)"
proof -
  show "keeps_rx mode (send2_compress P)" unfolding send2_compress_def act_all.simps by (intro rx_rules)
  show "keeps_rx mode (send2_pad P k)" "keeps_rx mode (send2_header n)" "keeps_rx mode (send2_mac P k x b)"
    "keeps_rx mode (send2_encrypt P k x)" "keeps_rx mode (send2_count P k l)"
    by (rule keeps_rxI, simp add: send2_pad_def send2_header_def send2_mac_def send2_encrypt_def send2_count_def Let_def
      split: option.splits prod.splits sum.splits)+
  show "keeps_rx mode (send2_append_mac P k m)" unfolding send2_append_mac_def by (auto split: option.splits intro: rx_rules)
qed

lemma keeps_rx_wrapped [rx_rules]: "keeps_rx MODE_OUT (ssh_packet_send2_wrapped P)"
proof -
  have f: "keeps_rx MODE_OUT (send2_finish P t)" for t
    by (rule keeps_rxI) (simp add: send2_finish_def keeps_rx_snd [OF keeps_rx_newkeys] keeps_rx_snd [OF keeps_rx_delayed])
  have "keeps_rx MODE_OUT (\<lambda>s. act_bind (send2_mac P k data False) (\<lambda>mac. act_bind (send2_encrypt P k data) (\<lambda>dest.
      act_bind (send2_mac P k dest True) (\<lambda>etm_mac. act_all [send2_append_mac P k (mac @ etm_mac), send2_count P k (length data), send2_finish P t]))) s)"
    for k t data by (simp add: rx_rules f)
  then have r: "keeps_rx MODE_OUT (send2_rest P k t)" for k t
    unfolding send2_rest_def [abs_def] Let_def by (intro keeps_rx_case) blast
  have z: "keeps_rx MODE_OUT (act_seq z (act_bind (send2_pad P k) (\<lambda>padlen. act_seq (send2_header padlen) (send2_rest P k t))))"
    if "keeps_rx MODE_OUT z" for z :: "('a, 'b, unit) pkt" and k t using that by (intro rx_rules r)
  note z = keeps_rx_snd [OF z [OF keeps_rx_send2_parts(1)]] keeps_rx_snd [OF z [OF keeps_rx_control(1)]]
  show ?thesis by (intro keeps_rxI) (simp add: ssh_packet_send2_wrapped_def z split: option.splits)
qed

lemma keeps_rx_queue [rx_rules]: "rx MODE_OUT (snd (send_queue P q s)) = rx MODE_OUT s"
proof (induction P q s rule: send_queue.induct)
  case (2 P t b q s)
  let ?s = "s\<lparr>ss_outgoing_packet := b, ss_outgoing := q\<rparr>"
  obtain r s1 where r: "ssh_packet_send2_wrapped P ?s = (r, s1)" by (cases "ssh_packet_send2_wrapped P ?s")
  have "rx MODE_OUT s1 = rx MODE_OUT s" using keeps_rxD [OF keeps_rx_wrapped r] by simp
  then show ?case using r 2 by (cases r) simp_all
qed simp

lemma keeps_rx_send2 [rx_rules]: "keeps_rx MODE_OUT (ssh_packet_send2 P)"
proof (rule keeps_rxI)
  fix s
  show "rx MODE_OUT (snd (ssh_packet_send2 P s)) = rx MODE_OUT s"
  proof (cases "packet_type (ss_outgoing_packet s)")
    case (Some t)
    let ?s = "if t = SSH2_MSG_KEXINIT then s\<lparr>ss_rekeying := True\<rparr> else s"
    obtain r s1 where w: "ssh_packet_send2_wrapped P ?s = (r, s1)" by fastforce
    have "rx MODE_OUT s1 = rx MODE_OUT s" using keeps_rxD [OF keeps_rx_wrapped w] by (simp split: if_splits)
    moreover have "ssh_packet_send2 P s = (if ss_rekeying s \<and> must_wait t then
            if P_am P sizeof_packet = None then (Inl (Rc SSH_ERR_ALLOC_FAIL), s)
            else let s1 = s\<lparr>ss_outgoing := ss_outgoing s @ [(t, ss_outgoing_packet s)]\<rparr>
              in (case sshbuf_new (P_am P) of None \<Rightarrow> (Inl (Rc SSH_ERR_ALLOC_FAIL), s1) | Some b \<Rightarrow> (Inr (), s1\<lparr>ss_outgoing_packet := b\<rparr>))
          else (case r of Inl e \<Rightarrow> (Inl e, s1)
             | Inr _ \<Rightarrow> if t = SSH2_MSG_NEWKEYS then send_queue P (ss_outgoing s1) (s1\<lparr>ss_rekeying := False, ss_rekey_time := ss_now s1\<rparr>)
                 else (Inr (), s1)))"
      unfolding ssh_packet_send2_def Some option.case w by (cases r) simp_all
    ultimately show ?thesis by (simp add: Let_def keeps_rx_queue split: option.splits sum.splits)
  qed (simp add: ssh_packet_send2_def)
qed

lemma keeps_rx_send1 [rx_rules]: "keeps_rx MODE_OUT (ssh_packet_send1 P)"
proof -
  have c: "keeps_rx MODE_OUT (send1_compress P)" unfolding send1_compress_def act_all.simps by (intro rx_rules)
  have p: "keeps_rx MODE_OUT (send1_pad n)" for n unfolding send1_pad_def Let_def
    by (intro rx_rules) (rule keeps_rxI, simp split: option.splits prod.splits)
  have e: "keeps_rx MODE_OUT (send1_encrypt P)"
    by (rule keeps_rxI) (simp add: send1_encrypt_def Let_def split: prod.splits sum.splits)
  have k: "keeps_rx MODE_OUT (\<lambda>s. on_outgoing (f s) s)" for f :: "('a, 'b) ssh \<Rightarrow> (ssh_err, sshbuf, unit) action"
    by (rule keeps_rxI) (rule keeps_rx_snd [OF keeps_rx_buffers(1)])
  have n: "keeps_rx MODE_OUT (\<lambda>s. (Inr (), s\<lparr>ss_p_send := f s, ss_outgoing_packet := g s\<rparr>))"
    for f :: "('a, 'b) ssh \<Rightarrow> packet_state" and g by (rule keeps_rxI) simp
  have z: "keeps_rx MODE_OUT (\<lambda>s. if ss_packet_compression s then send1_compress P s else (Inr (), s))"
    by (rule keeps_rxI) (simp add: keeps_rx_snd [OF c])
  show ?thesis unfolding ssh_packet_send1_def Let_def
    by (intro keeps_rx_control(4) z, rule keeps_rx_dep, unfold act_all.simps) (intro rx_rules p e k n)
qed

lemma keeps_rx_disconnect [rx_rules]: "keeps_rx MODE_OUT (sshpkt_disconnect P msg)"
proof -
  have st: "keeps_rx MODE_OUT (sshpkt_start P t)" for t
    unfolding sshpkt_start_def [abs_def] by (rule keeps_rx_dep) (intro rx_rules)
  have se: "keeps_rx MODE_OUT (sshpkt_send P)"
    by (rule keeps_rxI) (simp add: sshpkt_send_def keeps_rx_snd [OF keeps_rx_send2] keeps_rx_snd [OF keeps_rx_send1])
  have "keeps_rx MODE_OUT (act_all [sshpkt_start P t, sshpkt_put_u32 P v, sshpkt_put_cstring P x, sshpkt_put_cstring P y, sshpkt_send P])"
    "keeps_rx MODE_OUT (act_all [sshpkt_start P t, sshpkt_put_cstring P x, sshpkt_send P])" for t v x y
    unfolding act_all.simps sshpkt_put_u32_def sshpkt_put_cstring_def by (intro rx_rules st se)+
  note d = this [THEN keeps_rx_snd]
  show ?thesis by (rule keeps_rxI) (simp add: sshpkt_disconnect_def Let_def d del: act_all.simps)
qed

section \<open>Steps that succeed\<close>

lemma act_bindE:
  assumes "act_bind f g s = (Inr r, s')"
  obtains a s1 where "f s = (Inr a, s1)" "g a s1 = (Inr r, s')"
  using assms that by (auto simp: act_bind_def split: prod.splits sum.splits)

lemma act_seqE:
  assumes "act_seq f g s = (Inr r, s')"
  obtains a s1 where "f s = (Inr a, s1)" "g s1 = (Inr r, s')"
  using assms unfolding act_seq_def by (rule act_bindE)

lemma rc_Inr [simp]: "rc x = Inr y \<longleftrightarrow> x = Inr y"
  by (cases x) (simp_all add: rc_def)

lemma on_bufferE:
  "on_input f s = (Inr r, s') \<Longrightarrow> (\<And>b. f (ss_input s) = (Inr r, b) \<Longrightarrow> s' = s\<lparr>ss_input := b\<rparr> \<Longrightarrow> thesis) \<Longrightarrow> thesis"
  "on_incoming f s = (Inr r, s') \<Longrightarrow> (\<And>b. f (ss_incoming_packet s) = (Inr r, b) \<Longrightarrow> s' = s\<lparr>ss_incoming_packet := b\<rparr> \<Longrightarrow> thesis) \<Longrightarrow> thesis"
  by (auto simp: on_input_def on_incoming_def split: prod.splits)

text \<open>What is relied on of libcrypto: a cipher gives as many bytes as it is given.\<close>

definition evp_sized :: "'c evp_lib \<Rightarrow> bool" where
  "evp_sized L \<longleftrightarrow> (\<forall>x c. length (fst (snd (EVP_Cipher L x c))) = length x)"

lemma crypt_sized:
  assumes "evp_sized L" "cipher_crypt L src len aadlen 0 cc = (Inr (), dest, cc')"
  shows "length dest = aadlen + len" "aadlen + len \<le> length src"
proof -
  obtain c where c: "cc_cipher cc = Some c" using assms(2) by (cases "cc_cipher cc") (simp_all add: cipher_crypt_def)
  show l: "aadlen + len \<le> length src" using assms(2) c by (auto simp: cipher_crypt_def split: if_splits)
  obtain rc x c3 where e: "EVP_Cipher L (take len (drop aadlen src)) (cc_evp cc) = (rc, x, c3)" by (metis prod.exhaust)
  then have "length x = len" using assms(1) [unfolded evp_sized_def] l by (metis diff_add_inverse fst_conv length_drop length_take min_absorb2 snd_conv add_le_imp_le_diff add.commute)
  then show "length dest = aadlen + len" using assms(2) c e l
    by (auto simp: cipher_crypt_def evp_crypt_def crypt_begin_def crypt_end_def act_simps split: if_splits)
qed

lemma reserve_poke:
  assumes "ready b" "sshbuf_reserve am n b = (Inr i, b')" "length v = n"
  shows "ready (poke i v b')" "contents (poke i v b') = contents b @ v" "length (contents b) + n \<le> SSHBUF_SIZE_MAX"
proof -
  have r: "sshbuf_reserve am (length v) b = (Inr i, b')" using assms(2,3) by simp
  note f = reserve_fill [OF ready_wf [OF assms(1)] r]
  show "contents (poke i v b') = contents b @ v" by (rule f(2))
  show "ready (poke i v b')" by (rule ready_frame [OF assms(1) f(1,3)])
  then show "length (contents b) + n \<le> SSHBUF_SIZE_MAX" using ready_small [of "poke i v b'"] f(2) assms(3) by simp
qed

lemma consume_inv:
  assumes "ready b" "sshbuf_consume n b = (Inr x, b')"
  shows "ready b'" "contents b = take n (contents b) @ contents b'" "n \<le> length (contents b)"
proof -
  show n: "n \<le> length (contents b)" using assms(2) consume_wf [OF ready_wf [OF assms(1)], of n] by (auto split: if_splits)
  show "ready b'" "contents b = take n (contents b) @ contents b'" using ready_advance [OF assms(1) n] assms(2) by simp_all
qed

lemma decrypt_inv:
  assumes sz: "evp_sized (P_evp P)" and al: "dk_authlen k = 0" and b: "ready (ss_input s)" "ready (ss_incoming_packet s)"
    and run: "read2_decrypt P k n s = (Inr r, s')"
  obtains x y z cc' where "contents (ss_input s) = x @ contents (ss_input s')" "length x = dk_aadlen k + n" "dk_aadlen k + n \<le> SSHBUF_SIZE_MAX"
    "contents (ss_incoming_packet s') = contents (ss_incoming_packet s) @ y" "ready (ss_input s')" "ready (ss_incoming_packet s')"
    "cipher_crypt (P_evp P) (x @ z) n (dk_aadlen k) 0 (ss_receive_context s) = (Inr (), y, cc')" "ss_p_read s' = ss_p_read s"
proof -
  let ?a = "dk_aadlen k" and ?m = "mem_at (ss_input s)"
  from run obtain r1 s1 where s1: "(case sshbuf_reserve (P_am P) (?a + n) (ss_incoming_packet s) of
            (Inl e, b) \<Rightarrow> (Inl (Rc e), s\<lparr>ss_incoming_packet := b\<rparr>)
          | (Inr i, b) \<Rightarrow>
             (case cipher_crypt (P_evp P) ?m n ?a (dk_authlen k) (ss_receive_context s) of
                (r, dest, cc) \<Rightarrow> (r, s\<lparr>ss_incoming_packet := poke i dest b, ss_receive_context := cc\<rparr>))) = (Inr r1, s1)"
    "on_input (sshbuf_consume (?a + n + dk_authlen k)) s1 = (Inr r, s')" unfolding read2_decrypt_def by (rule act_seqE)
  obtain i b1 where i: "sshbuf_reserve (P_am P) (?a + n) (ss_incoming_packet s) = (Inr i, b1)"
    using s1(1) by (auto split: prod.splits sum.splits)
  obtain y cc' where c: "cipher_crypt (P_evp P) ?m n ?a 0 (ss_receive_context s) = (Inr (), y, cc')"
    "s1 = s\<lparr>ss_incoming_packet := poke i y b1, ss_receive_context := cc'\<rparr>"
    using s1(1) i al by (auto split: prod.splits)
  note y = crypt_sized [OF sz c(1)]
  note p = reserve_poke [OF b(2) i y(1)]
  obtain b2 where b2: "sshbuf_consume (?a + n) (ss_input s) = (Inr r, b2)" "s' = s1\<lparr>ss_input := b2\<rparr>"
    by (rule on_bufferE(1) [OF s1(2)]) (use al c(2) in simp)
  note x = consume_inv [OF b(1) b2(1)]
  obtain z where z: "?m = contents (ss_input s) @ z" using mem_at_ready [OF b(1)] by blast
  show thesis
  proof (rule that [of "take (?a + n) (contents (ss_input s))" y "contents b2 @ z" cc'])
    show "cipher_crypt (P_evp P) (take (?a + n) (contents (ss_input s)) @ contents b2 @ z) n ?a 0 (ss_receive_context s) = (Inr (), y, cc')"
      using c(1) z x(2) by (metis append.assoc)
  qed (use x p c(2) b2(2) in simp_all)
qed

lemma check_inv:
  assumes m: "dk_mac k = Some m" and b: "ready (ss_input s)" and run: "read2_check_mac P k mac n s = (Inr True, s')"
  obtains b' where "s' = s\<lparr>ss_input := b'\<rparr>" "ready b'" "contents (ss_input s) = take (sm_mac_len m) mac @ contents b'"
    "length (take (sm_mac_len m) mac) = sm_mac_len m"
proof -
  let ?n = "sm_mac_len m"
  have eq: "take ?n mac = take ?n (mem_at (ss_input s))"
    and r: "act_seq (on_input (sshbuf_consume ?n)) (act_return True) s = (Inr True, s')"
    using run m by (auto simp: read2_check_mac_def act_simps split: if_splits prod.splits sum.splits)
  from r obtain u s1 where u: "on_input (sshbuf_consume ?n) s = (Inr u, s1)" "s1 = s'" by (rule act_seqE) (simp add: act_simps)
  obtain b' where b': "sshbuf_consume ?n (ss_input s) = (Inr u, b')" "s1 = s\<lparr>ss_input := b'\<rparr>" by (rule on_bufferE(1) [OF u(1)])
  note c = consume_inv [OF b b'(1)]
  obtain z where z: "mem_at (ss_input s) = contents (ss_input s) @ z" using mem_at_ready [OF b] by blast
  have "take ?n mac = take ?n (contents (ss_input s))" using eq z c(3) by simp
  then show thesis using that [OF _ c(1)] b'(2) u(2) c(2,3) by simp
qed

lemma mac_compute_short: "mac_compute M m seq x n = Inr d \<Longrightarrow> length d \<le> sm_mac_len m"
  by (cases "mac_digest M m seq x") (auto simp: mac_compute_def split: if_splits)

text \<open>
  The body of a packet has been read with a message authentication code: \<open>x\<close> was still in the input,
  \<open>tag\<close> followed it, and the packet is what \<open>x\<close> decrypts to after what had been decrypted before.
\<close>

definition body_checked :: "('c, 'z) pkt_lib \<Rightarrow> dir_keys \<Rightarrow> sshmac \<Rightarrow> ('c, 'z) ssh \<Rightarrow> ('c, 'z) ssh \<Rightarrow> bool" where
  "body_checked P k m s s' \<longleftrightarrow>
     (\<exists>x y z tag cc' n. contents (ss_input s) = x @ tag @ contents (ss_input s') \<and> length x = dk_aadlen k + n \<and>
        contents (ss_incoming_packet s') = contents (ss_incoming_packet s) @ y \<and>
        cipher_crypt (P_evp P) (x @ z) n (dk_aadlen k) 0 (ss_receive_context s) = (Inr (), y, cc') \<and>
        mac_compute (P_mac P) m (ps_seqnr (ss_p_read s)) (if sm_etm m then x else contents (ss_incoming_packet s')) MAC_DIGEST_LEN_MAX = Inr tag \<and>
        length tag = sm_mac_len m) \<and>
     ready (ss_input s') \<and> ready (ss_incoming_packet s') \<and> ss_p_read s' = ss_p_read s"

lemma body_inv:
  assumes sz: "evp_sized (P_evp P)" and k: "dk_authlen k = 0" "dk_mac k = Some m" and b: "ready (ss_input s)" "ready (ss_incoming_packet s)"
    and run: "read2_body P k s = (Inr True, s')"
  shows "body_checked P k m s s'"
proof -
  let ?need = "read2_need k (ss_packlen s)" and ?a = "dk_aadlen k"
  let ?n = "unat ?need"
  have "act_bind (read2_mac P k (mem_at (ss_input s)) (unat (of_nat ?a + ?need)) True) (\<lambda>etm_mac.
        act_seq (read2_decrypt P k ?n) (\<lambda>s1.
        act_bind (read2_mac P k (mem_at (ss_incoming_packet s1)) (sshbuf_len (ss_incoming_packet s1)) False)
          (\<lambda>mac. read2_check_mac P k (etm_mac @ mac) ?n) s1)) s = (Inr True, s')"
    using run by (auto simp: read2_body_def Let_def act_simps split: if_splits prod.splits sum.splits)
  then obtain em s0 where em: "read2_mac P k (mem_at (ss_input s)) (unat (of_nat ?a + ?need)) True s = (Inr em, s0)"
    "act_seq (read2_decrypt P k ?n) (\<lambda>s1.
        act_bind (read2_mac P k (mem_at (ss_incoming_packet s1)) (sshbuf_len (ss_incoming_packet s1)) False)
          (\<lambda>mac. read2_check_mac P k (em @ mac) ?n) s1) s0 = (Inr True, s')" by (rule act_bindE)
  have "s0 = s" using em(1) k(2) by (auto simp: read2_mac_def split: if_splits)
  with em(2) obtain u s1 where s1: "read2_decrypt P k ?n s = (Inr u, s1)"
    "act_bind (read2_mac P k (mem_at (ss_incoming_packet s1)) (sshbuf_len (ss_incoming_packet s1)) False)
          (\<lambda>mac. read2_check_mac P k (em @ mac) ?n) s1 = (Inr True, s')" by (auto elim: act_seqE)
  obtain x y z cc' where d: "contents (ss_input s) = x @ contents (ss_input s1)" "length x = ?a + ?n" "?a + ?n \<le> SSHBUF_SIZE_MAX"
    "contents (ss_incoming_packet s1) = contents (ss_incoming_packet s) @ y" "ready (ss_input s1)" "ready (ss_incoming_packet s1)"
    "cipher_crypt (P_evp P) (x @ z) ?n ?a 0 (ss_receive_context s) = (Inr (), y, cc')" "ss_p_read s1 = ss_p_read s"
    by (rule decrypt_inv [OF sz k(1) b s1(1)])
  obtain mc s2 where mc: "read2_mac P k (mem_at (ss_incoming_packet s1)) (sshbuf_len (ss_incoming_packet s1)) False s1 = (Inr mc, s2)"
    "read2_check_mac P k (em @ mc) ?n s2 = (Inr True, s')" using s1(2) by (rule act_bindE)
  have s2: "s2 = s1" using mc(1) k(2) by (auto simp: read2_mac_def split: if_splits)
  obtain b' where ck: "s' = s1\<lparr>ss_input := b'\<rparr>" "ready b'" "contents (ss_input s1) = take (sm_mac_len m) (em @ mc) @ contents b'"
    "length (take (sm_mac_len m) (em @ mc)) = sm_mac_len m" by (rule check_inv [OF k(2) _ mc(2) [unfolded s2]]) (use d(5) in blast)
  let ?seq = "ps_seqnr (ss_p_read s)"
  have "unat (of_nat ?a + ?need) = ?a + ?n"
  proof -
    have "of_nat ?a + ?need = of_nat (?a + ?n)" by simp
    moreover have "?a + ?n < 2 ^ 32" using d(3) by (simp add: SSHBUF_SIZE_MAX_def)
    ultimately show ?thesis by (simp only: unsigned_of_nat) (simp add: take_bit_nat_eq_self)
  qed
  moreover obtain v where "mem_at (ss_input s) = contents (ss_input s) @ v" using mem_at_ready [OF b(1)] by blast
  ultimately have "take (unat (of_nat ?a + ?need)) (mem_at (ss_input s)) = x" using d(1,2) by simp
  moreover obtain v where "mem_at (ss_incoming_packet s1) = contents (ss_incoming_packet s1) @ v" using mem_at_ready [OF d(6)] by blast
  then have "take (sshbuf_len (ss_incoming_packet s1)) (mem_at (ss_incoming_packet s1)) = contents (ss_incoming_packet s1)"
    using ready_wf [OF d(6)] by (simp del: length_contents)
  ultimately have tag: "mac_compute (P_mac P) m ?seq (if sm_etm m then x else contents (ss_incoming_packet s1)) MAC_DIGEST_LEN_MAX = Inr (em @ mc)"
    using em(1) mc(1) k(2) d(8) by (auto simp: read2_mac_def split: if_splits)
  have whole: "take (sm_mac_len m) (em @ mc) = em @ mc" using mac_compute_short [OF tag] by simp
  show ?thesis unfolding body_checked_def
    by (rule conjI, rule exI [of _ x], rule exI [of _ y], rule exI [of _ z], rule exI [of _ "em @ mc"],
        rule exI [of _ cc'], rule exI [of _ ?n]) (use tag whole d ck in \<open>simp_all split: if_splits\<close>)
qed

text \<open>The length: what is left of the input, and what has been decrypted of the packet so far.\<close>

definition length_read :: "dir_keys \<Rightarrow> ('c, 'z) ssh \<Rightarrow> ('c, 'z) ssh \<Rightarrow> bool" where
  "length_read k s s' \<longleftrightarrow> ready (ss_input s') \<and> ready (ss_incoming_packet s') \<and> ps_seqnr (ss_p_read s') = ps_seqnr (ss_p_read s) \<and>
     (\<exists>x. contents (ss_input s) = x @ contents (ss_input s') \<and>
        (dk_aadlen k \<noteq> 0 \<longrightarrow> x = [] \<and> ss_receive_context s' = ss_receive_context s \<and>
           (if ss_packlen s = 0 then contents (ss_incoming_packet s') = [] else ss_incoming_packet s' = ss_incoming_packet s)))"

lemma clear_length_inv:
  assumes b: "ready (ss_input s)" "ready (ss_incoming_packet s)" and p: "ss_packlen s = 0" and run: "read2_clear_length P s = (Inr True, s')"
  shows "length_read k s s'"
proof -
  let ?n = "PEEK_U32 (mem_at (ss_input s))"
  let ?d = "if bad_packlen ?n then sshpkt_disconnect P ''Packet corrupt'' else act_return ()"
  have "act_seq ?d (act_seq (on_incoming (reset_buf (P_am P))) (act_return True)) (s\<lparr>ss_packlen := ?n\<rparr>) = (Inr True, s')"
    using run by (auto simp: read2_clear_length_def Let_def split: if_splits)
  then obtain u s1 where d: "?d (s\<lparr>ss_packlen := ?n\<rparr>) = (Inr u, s1)" and r: "act_seq (on_incoming (reset_buf (P_am P))) (act_return True) s1 = (Inr True, s')"
    by (rule act_seqE)
  have "keeps_rx MODE_OUT ?d" by (intro rx_rules)
  from keeps_rxD [OF this d] have "rx MODE_OUT s1 = rx MODE_OUT (s\<lparr>ss_packlen := ?n\<rparr>)" .
  moreover have "s' = s1\<lparr>ss_incoming_packet := sshbuf_reset (P_am P) (ss_incoming_packet s1)\<rparr>"
    using r by (simp add: act_simps on_incoming_def reset_buf_def rc_def)
  ultimately show ?thesis using b p ready_reset [OF b(2), of "P_am P"] by (simp add: length_read_def rx_def)
qed

lemma block_length_inv:
  assumes sz: "evp_sized (P_evp P)" and b: "ready (ss_input s)" "ready (ss_incoming_packet s)" and k: "dk_aadlen k = 0"
    and run: "read2_block_length P k s = (Inr True, s')"
  shows "length_read k s s'"
proof -
  let ?bs = "dk_block_size k" and ?i0 = "sshbuf_reset (P_am P) (ss_incoming_packet s)"
  obtain u s1 where f: "read2_first_block P ?bs s = (Inr u, s1)" and
    r: "on_input (sshbuf_consume ?bs) (s1\<lparr>ss_packlen := PEEK_U32 (mem_at (ss_incoming_packet s1))\<rparr>) = (Inr (), s')"
    using run by (auto simp: read2_block_length_def act_simps Let_def split: if_splits prod.splits sum.splits)
  have i0: "ready ?i0" "contents ?i0 = []" using ready_reset [OF b(2)] by simp_all
  obtain i b1 where i: "sshbuf_reserve (P_am P) ?bs ?i0 = (Inr i, b1)"
    using f by (auto simp: read2_first_block_def act_simps on_incoming_def reset_buf_def rc_def split: prod.splits sum.splits)
  obtain y cc' where c: "cipher_crypt (P_evp P) (mem_at (ss_input s)) ?bs 0 0 (ss_receive_context s) = (Inr (), y, cc')"
    "s1 = s\<lparr>ss_incoming_packet := poke i y b1, ss_receive_context := cc'\<rparr>"
    using f i by (auto simp: read2_first_block_def act_simps on_incoming_def reset_buf_def rc_def split: prod.splits)
  have "length y = ?bs" using crypt_sized(1) [OF sz c(1)] by simp
  note p = reserve_poke [OF i0(1) i this]
  obtain b2 where b2: "sshbuf_consume ?bs (ss_input s) = (Inr (), b2)" "s' = s1\<lparr>ss_packlen := PEEK_U32 (mem_at (ss_incoming_packet s1)), ss_input := b2\<rparr>"
    by (rule on_bufferE(1) [OF r]) (use c(2) in simp)
  note x = consume_inv [OF b(1) b2(1)]
  show ?thesis using x p c(2) b2(2) k by (auto simp: length_read_def)
qed

lemma length_inv:
  assumes sz: "evp_sized (P_evp P)" and b: "ready (ss_input s)" "ready (ss_incoming_packet s)" and run: "read2_length P k s = (Inr True, s')"
  shows "length_read k s s'"
proof (cases "ss_packlen s = 0")
  case True
  then show ?thesis using run clear_length_inv [OF b True] block_length_inv [OF sz b] by (auto simp: read2_length_def split: if_splits)
next
  case False
  then show ?thesis using run b by (simp add: read2_length_def length_read_def)
qed

lemma unpad_inv:
  assumes b: "ready (ss_incoming_packet s)" and run: "read2_unpad P s = (Inr u, s')"
  obtains h padlen pad b' where "contents (ss_incoming_packet s) = h @ padlen # contents b' @ pad" "length h = 4" "4 \<le> unat padlen"
    "length pad = unat padlen" "s' = s\<lparr>ss_incoming_packet := b'\<rparr>" "ready b'"
proof -
  let ?b = "ss_incoming_packet s" and ?p = "mem_at (ss_incoming_packet s) ! 4"
  have p: "\<not> ?p < 4" and r: "act_seq (on_incoming (sshbuf_consume 5)) (on_incoming (sshbuf_consume_end (unat ?p))) s = (Inr u, s')"
    using run by (auto simp: read2_unpad_def Let_def ssh_packet_disconnect_def split: if_splits)
  from r obtain v s1 where s1: "on_incoming (sshbuf_consume 5) s = (Inr v, s1)" "on_incoming (sshbuf_consume_end (unat ?p)) s1 = (Inr u, s')"
    by (rule act_seqE)
  obtain b1 where b1: "sshbuf_consume 5 ?b = (Inr v, b1)" "s1 = s\<lparr>ss_incoming_packet := b1\<rparr>" by (rule on_bufferE(2) [OF s1(1)])
  obtain b2 where b2: "sshbuf_consume_end (unat ?p) b1 = (Inr u, b2)" "s' = s\<lparr>ss_incoming_packet := b2\<rparr>"
    by (rule on_bufferE(2) [OF s1(2)]) (use b1(2) in simp)
  note x = consume_inv [OF b b1(1)]
  have n: "unat ?p \<le> length (contents b1)" using b2(1) consume_end_wf [OF ready_wf [OF x(1)], of "unat ?p"] by (auto split: if_splits)
  have e: "ready b2" "contents b2 = take (length (contents b1) - unat ?p) (contents b1)"
    by (rule ready_consume_end [OF x(1) n], use b2(1) in simp)+
  obtain z where z: "mem_at ?b = contents ?b @ z" using mem_at_ready [OF b] by blast
  have pl: "?p = contents ?b ! 4" using z x(3) by (simp add: nth_append)
  have "take 5 (contents ?b) = take 4 (contents ?b) @ [?p]" using x(3) pl by (simp add: take_Suc_conv_app_nth numeral_eq_Suc)
  then have c: "contents ?b = take 4 (contents ?b) @ ?p # contents b2 @ drop (length (contents b1) - unat ?p) (contents b1)"
    using x(2) e(2) by (metis append_Cons append_Nil append_assoc append_take_drop_id)
  show thesis
    by (rule that [OF c]) (use x(3) p n b2(2) e(1) in \<open>simp_all add: word_less_nat_alt not_less del: length_contents\<close>)
qed

lemma type_inv:
  assumes b: "ready (ss_incoming_packet s)" and run: "read2_type P s = (Inr t, s')"
  shows "contents (ss_incoming_packet s) = t # contents (ss_incoming_packet s')" "ss_input s' = ss_input s"
proof -
  from run obtain t0 s1 where g: "on_incoming sshbuf_get_u8 s = (Inr t0, s1)"
    "(if t0 < SSH2_MSG_MIN \<or> SSH2_MSG_LOCAL_MIN \<le> t0 then ssh_packet_disconnect P ''Invalid ssh2 packet type''
       else (\<lambda>s. case read2_finish P t0 s of (r, s1) \<Rightarrow> (map_sum id (\<lambda>_. t0) r, s1\<lparr>ss_packlen := 0\<rparr>))) s1 = (Inr t, s')"
    unfolding read2_type_def by (rule act_bindE)
  obtain b1 where b1: "sshbuf_get_u8 (ss_incoming_packet s) = (Inr t0, b1)" "s1 = s\<lparr>ss_incoming_packet := b1\<rparr>" by (rule on_bufferE(2) [OF g(1)])
  have c: "contents (ss_incoming_packet s) = t0 # contents b1"
    using b1(1) get_int_wf(4) [OF ready_wf [OF b]] ready_advance(3) [OF b, of 1]
    by (cases "contents (ss_incoming_packet s)") (auto split: if_splits simp del: length_contents)
  obtain r s2 where f: "read2_finish P t0 s1 = (r, s2)" by fastforce
  have "keeps_rx MODE_IN (read2_finish P t0)"
    by (rule keeps_rxI) (simp add: read2_finish_def keeps_rx_snd [OF keeps_rx_newkeys] keeps_rx_snd [OF keeps_rx_delayed])
  then have "rx MODE_IN s2 = rx MODE_IN s1" using f by (rule keeps_rxD)
  moreover have "t = t0" "s' = s2\<lparr>ss_packlen := 0\<rparr>"
    using g(2) f by (cases r; auto simp: ssh_packet_disconnect_def split: if_splits)+
  ultimately show "contents (ss_incoming_packet s) = t # contents (ss_incoming_packet s')" "ss_input s' = ss_input s"
    using c b1(2) by (simp_all add: rx_def)
qed

section \<open>Packets that are returned\<close>

text \<open>
  The packet \<open>data\<close>, with the type \<open>t\<close> and the payload that is left in the incoming packet, has a valid
  message authentication code: \<open>tag\<close>, which arrived behind the bytes \<open>x\<close>, is the code of the packet
  under its sequence number; where the code is over the encrypted bytes, \<open>tag\<close> is the code of \<open>x\<close> and
  \<open>x\<close> decrypts to \<open>data\<close>.
\<close>

definition authenticated :: "('c, 'z) pkt_lib \<Rightarrow> sshmac \<Rightarrow> ('c, 'z) ssh \<Rightarrow> byte \<Rightarrow> u32 \<Rightarrow> ('c, 'z) ssh \<Rightarrow> bool" where
  "authenticated P m s t seq s' \<longleftrightarrow> seq = ps_seqnr (ss_p_read s) \<and>
     (\<exists>u x tag h padlen pad data. contents (ss_input s) = u @ x @ tag @ contents (ss_input s') \<and>
        data = h @ padlen # t # contents (ss_incoming_packet s') @ pad \<and> length h = 4 \<and> 4 \<le> unat padlen \<and> length pad = unat padlen \<and>
        length tag = sm_mac_len m \<and>
        mac_compute (P_mac P) m seq (if sm_etm m then x else data) MAC_DIGEST_LEN_MAX = Inr tag \<and>
        (sm_etm m \<longrightarrow> u = [] \<and>
           (\<exists>z n cc'. length x = 4 + n \<and> cipher_crypt (P_evp P) (x @ z) n 4 0 (ss_receive_context s) = (Inr (), data, cc'))))"

lemma poll_inv:
  assumes k: "keys_used (ss_newkeys s MODE_IN) = Some k" "\<not> dk_comp k" and run: "ssh_packet_read_poll2 P s = (Inr (t, Some seq), s')"
  obtains s1 s2 s3 s4 u where "read2_length P k s = (Inr True, s1)" "read2_body P k s1 = (Inr True, s2)" "read2_count k s2 = (Inr seq, s3)"
    "read2_unpad P s3 = (Inr u, s4)" "read2_type P s4 = (Inr t, s')"
proof -
  let ?D = "\<lambda>seqnr. act_seq (read2_unpad P) (act_seq (if dk_comp k then read2_uncompress P else act_return ())
     (act_bind (read2_type P) (\<lambda>type. act_return (type, Some seqnr))))"
  let ?B = "act_bind (read2_body P k) (\<lambda>go. if \<not> go then act_return (SSH_MSG_NONE, None) else act_bind (read2_count k) ?D)"
  have "act_bind (read2_length P k) (\<lambda>go. if \<not> go then act_return (SSH_MSG_NONE, None) else ?B) s = (Inr (t, Some seq), s')"
    using run k(1) by (auto simp: ssh_packet_read_poll2_def split: if_splits)
  then obtain go s1 where s1: "read2_length P k s = (Inr go, s1)" "(if \<not> go then act_return (SSH_MSG_NONE, None) else ?B) s1 = (Inr (t, Some seq), s')"
    by (rule act_bindE)
  then have "go" "?B s1 = (Inr (t, Some seq), s')" by (cases go; simp add: act_return_run)+
  then obtain go' s2 where s2: "read2_body P k s1 = (Inr go', s2)"
    "(if \<not> go' then act_return (SSH_MSG_NONE, None) else act_bind (read2_count k) ?D) s2 = (Inr (t, Some seq), s')" by (elim act_bindE)
  then have "go'" "act_bind (read2_count k) ?D s2 = (Inr (t, Some seq), s')" by (cases go'; simp add: act_return_run)+
  then obtain q s3 where s3: "read2_count k s2 = (Inr q, s3)" "?D q s3 = (Inr (t, Some seq), s')" by (elim act_bindE)
  then obtain u s4 where s4: "read2_unpad P s3 = (Inr u, s4)" "act_bind (read2_type P) (\<lambda>type. act_return (type, Some q)) s4 = (Inr (t, Some seq), s')"
    using k(2) by (elim act_seqE) (simp add: act_return_run)
  then have "read2_type P s4 = (Inr t, s')" "q = seq" by (auto elim!: act_bindE simp: act_return_run)
  then show thesis using s1(1) s2(1) s3(1) s4(1) \<open>go\<close> \<open>go'\<close> by (intro that [of s1 s2 s3 u s4]) simp_all
qed

text \<open>C2: Only authenticated packets are returned. Whatever bytes have arrived, when \<open>ssh_packet_read_poll2\<close>
  returns a packet and the incoming keys have a message authentication code, then the code that
  arrived with the packet is the right one for its bytes and its sequence number: for the decrypted
  packet, or for the encrypted bytes it was decrypted from. The packet has at least 4 bytes of
  padding, and what is handed on is all of it but the padding and the lengths.\<close>

theorem returned_packet_authenticated:
  assumes keys: "keys_used (ss_newkeys s MODE_IN) = Some k" "dk_mac k = Some m" "\<not> dk_comp k" and sz: "evp_sized (P_evp P)"
    and b: "ready (ss_input s)" "ready (ss_incoming_packet s)"
    and fresh: "ss_packlen s \<noteq> 0 \<longrightarrow> sm_etm m \<longrightarrow> contents (ss_incoming_packet s) = []"
    and run: "ssh_packet_read_poll2 P s = (Inr (t, Some seq), s')"
  shows "authenticated P m s t seq s'"
proof -
  have k: "dk_authlen k = 0" "dk_aadlen k = (if sm_etm m then 4 else 0)"
    using keys(1,2) by (auto simp: keys_used_def Let_def split: option.splits if_splits)
  obtain s1 s2 s3 s4 u where r: "read2_length P k s = (Inr True, s1)" "read2_body P k s1 = (Inr True, s2)" "read2_count k s2 = (Inr seq, s3)"
    "read2_unpad P s3 = (Inr u, s4)" "read2_type P s4 = (Inr t, s')" by (rule poll_inv [OF keys(1,3) run])
  have l: "length_read k s s1" by (rule length_inv [OF sz b r(1)])
  then have b1: "ready (ss_input s1)" "ready (ss_incoming_packet s1)" "ps_seqnr (ss_p_read s1) = ps_seqnr (ss_p_read s)" by (simp_all add: length_read_def)
  obtain v where v: "contents (ss_input s) = v @ contents (ss_input s1)"
    "sm_etm m \<longrightarrow> v = [] \<and> ss_receive_context s1 = ss_receive_context s \<and> contents (ss_incoming_packet s1) = []"
    using l k(2) fresh by (auto simp: length_read_def split: if_splits)
  have "body_checked P k m s1 s2" by (rule body_inv [OF sz k(1) keys(2) b1(1,2) r(2)])
  then obtain x y z tag cc' n where c: "contents (ss_input s1) = x @ tag @ contents (ss_input s2)" "length x = dk_aadlen k + n"
    "contents (ss_incoming_packet s2) = contents (ss_incoming_packet s1) @ y" "length tag = sm_mac_len m"
    "cipher_crypt (P_evp P) (x @ z) n (dk_aadlen k) 0 (ss_receive_context s1) = (Inr (), y, cc')"
    "mac_compute (P_mac P) m (ps_seqnr (ss_p_read s1)) (if sm_etm m then x else contents (ss_incoming_packet s2)) MAC_DIGEST_LEN_MAX = Inr tag"
    and b2: "ready (ss_input s2)" "ready (ss_incoming_packet s2)" "ss_p_read s2 = ss_p_read s1"
    unfolding body_checked_def by blast
  have s3: "seq = ps_seqnr (ss_p_read s)" "ss_input s3 = ss_input s2" "ss_incoming_packet s3 = ss_incoming_packet s2"
    using r(3) b2(3) b1(3) by (auto simp: read2_count_def Let_def split: if_splits)
  obtain h padlen pad b' where p: "contents (ss_incoming_packet s3) = h @ padlen # contents b' @ pad" "length h = 4" "4 \<le> unat padlen"
    "length pad = unat padlen" "s4 = s3\<lparr>ss_incoming_packet := b'\<rparr>" "ready b'"
    by (rule unpad_inv [OF _ r(4)]) (use b2(2) s3(3) in simp_all)
  have ty: "contents b' = t # contents (ss_incoming_packet s')" "ss_input s' = ss_input s2"
    using type_inv [OF _ r(5)] p(5,6) s3(2) by simp_all
  let ?data = "h @ padlen # t # contents (ss_incoming_packet s') @ pad"
  have data: "contents (ss_incoming_packet s2) = ?data" using p(1) s3(3) ty(1) by simp
  show ?thesis unfolding authenticated_def
    by (rule conjI [OF s3(1)], rule exI [of _ v], rule exI [of _ x], rule exI [of _ tag], rule exI [of _ h], rule exI [of _ padlen],
        rule exI [of _ pad], rule exI [of _ ?data])
      (use v c p data ty(2) s3(1) b1(3) k(2) in \<open>auto split: if_splits\<close>)
qed

theorem returned_packet_authenticated_witness:
  "\<exists>b s'. ssh_packet_read_poll2 sample_lib (sample_keyed\<lparr>ss_input := b\<rparr>) = (Inr (94, Some 0), s') \<and> contents (ss_incoming_packet s') = [1, 2] \<and>
     authenticated sample_lib (nk_mac sample_used) (sample_keyed\<lparr>ss_input := b\<rparr>) 94 0 s'"
proof -
  let ?P = sample_lib and ?k = sample_dir and ?s = sample_keyed and ?cd = "ss_receive_context sample_keyed"
  have st: "sender ?k ?s" "linked (=) sample_cipher (ss_send_context ?s) ?cd" "receiver ?k 0 ?s"
    "ss_packlen ?s = 0" "contents (ss_input ?s) = []" "ps_packets (ss_p_read ?s) = 0" "contents (ss_output ?s) = []" "ss_p_send ?s = packet_state0"
    using sample_keyed_in_step sample_session_new
    by (simp_all add: in_step_def sample_conn_def listens_def waits_length_def session_new_def sample_keyed_def packet_state0_def)
  have pair: "cipher_pair (P_evp ?P) sample_cipher (=)" by (simp add: cipher_pair_def sample_cipher_sizes sample_stream)
  obtain wire cd' s1 where "send_message ?P 94 [1, 2] ?s = (Inr (), s1)" "sent_as ?P sample_cipher (=) ?k (94, [1, 2]) ?cd ?s wire cd' s1"
    by (rule send_message_run [OF sample_am sample_fit pair st(1,2), of 94 "[1, 2]"])
      (use st(7,8) in \<open>simp_all add: plain_type_def ssh2_msgs sample_keyed_def MAX_BODY_def PACKET_MAX_SIZE_def SSHBUF_SIZE_MAX_def
         packet_state0_def del: length_contents\<close>)
  then obtain data where f: "framed ?k [94, 1, 2] data" "opens ?P ?k 0 data ?cd wire cd'"
    using st(8) by (auto simp: sent_as_def packet_state0_def)
  have "ready (ss_input ?s)" using st(3) by (simp add: receiver_def)
  moreover have "length (contents (ss_input ?s)) + length wire \<le> SSHBUF_SIZE_MAX"
    using wire_length [OF sample_fit f] st(5) by (simp add: PACKET_MAX_SIZE_def SSHBUF_SIZE_MAX_def)
  ultimately obtain b where b: "ready b" "contents b = wire"
    by (rule writesD [OF writes_put [OF sample_am]]) (use st(5) in simp)
  let ?r = "?s\<lparr>ss_input := b\<rparr>"
  have r: "receiver ?k 0 ?r" "waits ?P ?k data wire (wire @ []) ?cd ?r"
    using st(3,4) b by (simp_all add: receiver_def waits_def waits_length_def)
  obtain s' where s': "ssh_packet_read_poll2 ?P ?r = (case read2_finish ?P 94 s' of
       (r, s1) \<Rightarrow> (map_sum id (\<lambda>_. (94, Some 0)) r, s1\<lparr>ss_packlen := 0\<rparr>))" "contents (ss_incoming_packet s') = [1, 2]"
    by (rule poll_full [OF sample_am sample_fit f r]) (use st(6) in \<open>simp_all add: ssh2_msgs\<close>)
  let ?s' = "s'\<lparr>ss_packlen := 0\<rparr>"
  have run: "ssh_packet_read_poll2 ?P ?r = (Inr (94, Some 0), ?s')" using s'(1) by (simp add: read2_finish_def ssh2_msgs)
  have "evp_sized (P_evp ?P)" by (simp add: evp_sized_def sample_lib_def sample_evp_def count_crypt_length)
  from returned_packet_authenticated [OF _ sample_dir_keys(3,6) this _ _ _ run] r(1) st(4)
  have "authenticated ?P (nk_mac sample_used) ?r 94 0 ?s'" by (simp add: receiver_def)
  then show ?thesis using run s'(2) by (intro exI [of _ b] exI [of _ ?s']) simp
qed

section \<open>A length that is not stopped\<close>

lemma on_outgoing_run: "f (ss_outgoing_packet s) = (Inr r, b) \<Longrightarrow> on_outgoing f s = (Inr r, s\<lparr>ss_outgoing_packet := b\<rparr>)"
  by (simp add: on_outgoing_def rc_def)

text \<open>The message that ends a connection is queued, when memory lasts.\<close>

lemma disconnect_run:
  assumes am: "\<forall>n. P_am P n \<noteq> None" and fit: "keys_fit P c k" and pair: "cipher_pair (P_evp P) c R"
    and s: "sender k s" and link: "linked R c (ss_send_context s) cd" and msg: "length msg \<le> 1000" "CHR 0x00 \<notin> set msg"
    and room: "length (contents (ss_output s)) + PACKET_MAX_SIZE + 128 \<le> SSHBUF_SIZE_MAX"
    and cnt: "ps_packets (ss_p_send s) + 1 \<noteq> 0"
  obtains s' where "sshpkt_disconnect P msg s = (Inr (), s')"
proof -
  have o: "ready (ss_outgoing_packet s)" "ss_compat20 s" using s by (simp_all add: sender_def)
  let ?t = SSH2_MSG_DISCONNECT and ?m = "bytes_of (take 1023 msg)" and ?b0 = "sshbuf_reset (P_am P) (ss_outgoing_packet s)"
  have b0: "ready ?b0" "contents ?b0 = []" using ready_reset [OF o(1)] by auto
  have "length (contents ?b0) + length (replicate 5 (0 :: byte) @ [?t]) \<le> SSHBUF_SIZE_MAX" using b0(2) by (simp add: SSHBUF_SIZE_MAX_def)
  then obtain b1 where b1: "sshbuf_put (P_am P) (replicate 5 0 @ [?t]) ?b0 = (Inr (), b1)" "ready b1"
    "contents b1 = contents ?b0 @ replicate 5 0 @ [?t]" by (rule writesD [OF writes_put [OF am] b0(1)])
  have "length (contents b1) + length (POKE_U32 (ucast SSH2_DISCONNECT_PROTOCOL_ERROR)) \<le> SSHBUF_SIZE_MAX"
    using b1(3) b0(2) by (simp add: SSHBUF_SIZE_MAX_def del: length_contents)
  then obtain b2 where b2: "sshbuf_put_u32 (P_am P) SSH2_DISCONNECT_PROTOCOL_ERROR b1 = (Inr (), b2)" "ready b2"
    "contents b2 = contents b1 @ POKE_U32 (ucast SSH2_DISCONNECT_PROTOCOL_ERROR)" by (rule writesD [OF writes_int(2) [OF am] b1(2)])
  have nul0: "0 \<notin> set ([] :: byte list)" by simp
  have nul: "0 \<notin> set ?m" using msg(2) in_set_takeD by fastforce
  have "length (contents b2) + length (wire_string ?m) \<le> SSHBUF_SIZE_MAX"
    using b2(3) b1(3) b0(2) msg(1) by (simp add: wire_string_def SSHBUF_SIZE_MAX_def del: length_contents)
  then obtain b3 where b3: "sshbuf_put_cstring (P_am P) ?m b2 = (Inr (), b3)" "ready b3" "contents b3 = contents b2 @ wire_string ?m"
    by (rule writesD [OF writes_cstring [OF am nul] b2(2)])
  have "length (contents b3) + length (wire_string []) \<le> SSHBUF_SIZE_MAX"
    using b3(3) b2(3) b1(3) b0(2) msg(1) by (simp add: wire_string_def SSHBUF_SIZE_MAX_def del: length_contents)
  then obtain b4 where b4: "sshbuf_put_cstring (P_am P) [] b3 = (Inr (), b4)" "ready b4" "contents b4 = contents b3 @ wire_string []"
    by (rule writesD [OF writes_cstring [OF am nul0] b3(2)])
  let ?s = "s\<lparr>ss_outgoing_packet := b4\<rparr>"
  let ?p = "POKE_U32 (ucast SSH2_DISCONNECT_PROTOCOL_ERROR) @ wire_string ?m @ wire_string []"
  have run: "sshpkt_disconnect P msg s = sshpkt_send P ?s"
    using o(2) b1(1) b2(1) b3(1) b4(1)
    by (simp add: sshpkt_disconnect_def Let_def act_unit act_simps sshpkt_start_def sshpkt_put_u32_def sshpkt_put_cstring_def
      on_outgoing_def reset_buf_def rc_def)
  have h: "contents (ss_outgoing_packet ?s) = replicate 5 0 @ ?t # ?p" "length (replicate 5 (0 :: byte)) = 5" "length (?t # ?p) \<le> MAX_BODY"
    using b4(3) b3(3) b2(3) b1(3) b0(2) msg(1) by (simp_all add: wire_string_def MAX_BODY_def PACKET_MAX_SIZE_def)
  have s': "sender k ?s" "linked R c (ss_send_context ?s) cd" "ps_packets (ss_p_send ?s) + 1 \<noteq> 0"
    "length (contents (ss_output ?s)) + PACKET_MAX_SIZE + 128 \<le> SSHBUF_SIZE_MAX" "ready (ss_outgoing_packet ?s)"
    using s b4(2) link cnt room by (simp_all add: sender_def)
  obtain wire cd' s1 where w: "ssh_packet_send2_wrapped P ?s = send2_finish P ?t s1" by (rule wrapped_run [OF am fit pair s'(1,2) h s'(4,3)])
  have "packet_type b4 = Some ?t" using packet_type_ready [OF s'(5) h(1,2)] by simp
  then have "sshpkt_send P ?s = (Inr (), s1)"
    using w o(2) by (simp add: sshpkt_send_def ssh_packet_send2_def must_wait_def send2_finish_def ssh2_msgs)
  then show thesis using that run by simp
qed

text \<open>
  A length whose sum with what belongs to the packet is past \<open>2 ^ 32\<close>: the sum is small again, and the
  check that the packet is complete passes.
\<close>

definition wrapping_length :: u32 where "wrapping_length = 0xFFFFFFF0"

lemma mem_at_bound: "ready b \<Longrightarrow> length (mem_at b) \<le> SSHBUF_SIZE_MAX"
  using wf_bounds [of b] by (auto simp: ready_def mem_at_def bytes_at_def sshbuf_ptr_def split: option.splits sum.splits)

text \<open>C14: With encrypt-then-MAC the length of a packet is not authenticated when it is used, and a bad one
  does not stop the reader: after the message that ends the connection has been queued, it goes on.
  For a length of \<open>0xFFFFFFF0\<close> and a code of at least 16 bytes the number of bytes to wait for wraps to
  a small one, and the code is then computed over far more bytes than the memory of the input buffer
  has. Anyone who can change the stream can do this.\<close>

theorem etm_length_faults:
  assumes am: "\<forall>n. P_am P n \<noteq> None" and out: "keys_fit P c ko" "cipher_pair (P_evp P) c R" "sender ko s" "linked R c (ss_send_context s) cd"
      "length (contents (ss_output s)) + PACKET_MAX_SIZE + 128 \<le> SSHBUF_SIZE_MAX" "ps_packets (ss_p_send s) + 1 \<noteq> 0"
    and inp: "receiver k seq s" "ss_packlen s = 0" "dk_mac k = Some m" "sm_etm m" "dk_block_size k \<in> {8, 16}" "16 \<le> sm_mac_len m" "sm_mac_len m \<le> 64"
    and bytes: "contents (ss_input s) = POKE_U32 (ucast wrapping_length) @ rest" "sm_mac_len m \<le> 16 + length rest"
  shows "fst (ssh_packet_read_poll2 P s) = Inl Faults"
proof -
  have k: "dk_authlen k = 0" "dk_aadlen k = 4" and b: "ready (ss_input s)" "ready (ss_incoming_packet s)"
    and kk: "ss_packet_discard s = 0" "keys_used (ss_newkeys s MODE_IN) = Some k"
    using inp(1,3,4) by (auto simp: receiver_def keys_used_def Let_def split: option.splits if_splits)
  let ?n = wrapping_length
  obtain z where z: "mem_at (ss_input s) = contents (ss_input s) @ z" using mem_at_ready [OF b(1)] by blast
  have n: "PEEK_U32 (mem_at (ss_input s)) = ?n" unfolding z bytes(1) by (simp add: peek_poke_u32 wrapping_length_def)
  have bad: "bad_packlen ?n" by (simp add: bad_packlen_def wrapping_length_def PACKET_MAX_SIZE_def)
  let ?s0 = "s\<lparr>ss_packlen := ?n\<rparr>"
  have s0: "sender ko ?s0" "linked R c (ss_send_context ?s0) cd" "length (contents (ss_output ?s0)) + PACKET_MAX_SIZE + 128 \<le> SSHBUF_SIZE_MAX"
    "ps_packets (ss_p_send ?s0) + 1 \<noteq> 0" using out(3-6) by (simp_all add: sender_def)
  obtain s1 where d: "sshpkt_disconnect P ''Packet corrupt'' ?s0 = (Inr (), s1)"
    by (rule disconnect_run [OF am out(1,2) s0(1,2) _ _ s0(3,4), of "''Packet corrupt''"]) simp_all
  have "rx MODE_OUT s1 = rx MODE_OUT ?s0" by (rule keeps_rxD [OF keeps_rx_disconnect d])
  then have s1: "ss_input s1 = ss_input s" "ss_packlen s1 = ?n" by (simp_all add: rx_def)
  let ?s2 = "s1\<lparr>ss_incoming_packet := sshbuf_reset (P_am P) (ss_incoming_packet s1)\<rparr>"
  have len: "sshbuf_len (ss_input s) = 4 + length rest" using bytes(1) ready_wf [OF b(1)] by (simp del: length_contents)
  have l: "read2_length P k s = (Inr True, ?s2)"
    using len inp(2) k(2) d by (simp add: read2_length_def read2_clear_length_def n bad act_simps on_incoming_def reset_buf_def rc_def Let_def)
  have "of_nat 4 + ?n + of_nat 0 + of_nat (sm_mac_len m) = (of_nat (sm_mac_len m - 12) :: u32)"
    using inp(6) by (simp add: wrapping_length_def of_nat_diff)
  moreover have "sm_mac_len m - 12 < 2 ^ 32" using inp(7) by simp
  ultimately have tot: "unat (of_nat 4 + ?n + of_nat 0 + of_nat (sm_mac_len m) :: u32) = sm_mac_len m - 12"
    by (simp only: unsigned_of_nat) (simp add: take_bit_nat_eq_self)
  have need: "read2_need k ?n = ?n" "unat ?n mod dk_block_size k = 0" "dk_block_size k \<noteq> 0" "read2_maclen k = sm_mac_len m"
    using k(2) inp(3,5) by (auto simp: read2_need_def wrapping_length_def read2_maclen_def)
  have "length (mem_at (ss_input s)) < unat (of_nat 4 + ?n :: u32)" using mem_at_bound [OF b(1)] by (simp add: wrapping_length_def SSHBUF_SIZE_MAX_def)
  then have mac: "read2_mac P k (mem_at (ss_input s)) (unat (of_nat 4 + ?n :: u32)) True ?s2 = (Inl Faults, ?s2)"
    using inp(3,4) by (simp add: read2_mac_def)
  have "\<not> sshbuf_len (ss_input s) < sm_mac_len m - 12" using len bytes(2) by simp
  then have "read2_body P k ?s2 = (Inl Faults, ?s2)"
    unfolding read2_body_def using s1 need k tot mac by (simp add: Let_def act_bind_run)
  then show ?thesis using kk l by (simp add: ssh_packet_read_poll2_def act_simps)
qed

text \<open>The sample session, with encrypt-then-MAC for what it receives and such a length in its input.\<close>

definition sample_etm :: newkeys where
  "sample_etm = sample_used\<lparr>nk_mac := (nk_mac sample_used)\<lparr>sm_etm := True\<rparr>\<rparr>"

definition sample_attacked :: "(byte, unit) ssh" where
  "sample_attacked = sample_keyed\<lparr>ss_newkeys := (\<lambda>mode. Some (if mode = MODE_IN then sample_etm else sample_used)),
     ss_input := snd (sshbuf_put alloc_zero (POKE_U32 (ucast wrapping_length) @ replicate 4 0) fresh_buf)\<rparr>"

theorem etm_length_faults_witness: "fst (ssh_packet_read_poll2 sample_lib sample_attacked) = Inl Faults"
proof -
  let ?s = sample_attacked and ?v = "POKE_U32 (ucast wrapping_length) @ replicate 4 (0 :: byte)"
  have am: "\<forall>n. alloc_zero n \<noteq> None" by (simp add: alloc_zero_def)
  have fb: "ready fresh_buf" "contents fresh_buf = []" using ready_new [OF fresh_buf_new] by simp_all
  have "length (contents fresh_buf) + length ?v \<le> SSHBUF_SIZE_MAX" using fb(2) by (simp add: SSHBUF_SIZE_MAX_def)
  then obtain b where b: "sshbuf_put alloc_zero ?v fresh_buf = (Inr (), b)" "ready b" "contents b = contents fresh_buf @ ?v"
    by (rule writesD [OF writes_put [OF am] fb(1)])
  have i: "ss_input ?s = b" using b(1) by (simp add: sample_attacked_def)
  let ?k = "sample_dir\<lparr>dk_mac := Some (nk_mac sample_etm), dk_aadlen := 4\<rparr>"
  have k: "keys_used (ss_newkeys ?s MODE_IN) = Some ?k"
    by (simp add: sample_attacked_def sample_etm_def keys_used_def sample_used_def sample_keys_def sample_dir_def Let_def
      cipher_authlen_def sample_cipher_sizes)
  have st: "sender sample_dir ?s" "linked (=) sample_cipher (ss_send_context ?s) (ss_receive_context ?s)" "receiver ?k 0 ?s"
    "ss_packlen ?s = 0" "contents (ss_output ?s) = []" "ss_p_send ?s = packet_state0"
    using sample_keyed_in_step sample_session_new k i b(2)
    by (simp_all add: in_step_def sample_conn_def listens_def waits_length_def session_new_def sample_keyed_def sample_attacked_def
      sender_def receiver_def sample_dir_keys packet_state0_def)
  have pair: "cipher_pair (P_evp sample_lib) sample_cipher (=)" by (simp add: cipher_pair_def sample_cipher_sizes sample_stream)
  show ?thesis
    by (rule etm_length_faults [OF sample_am sample_fit pair st(1,2) _ _ st(3,4), of "nk_mac sample_etm" "replicate 4 0"])
      (use st(5,6) i b(3) fb(2) in \<open>simp_all add: sample_etm_def sample_used_def sample_keys_def sample_dir_keys PACKET_MAX_SIZE_def
        SSHBUF_SIZE_MAX_def packet_state0_def del: length_contents\<close>)
qed

end
