(* ===== verification/Sshkey.thy ===== *)
theory Sshkey
  imports Sshbuf_Crypto Algs
begin

text \<open>
  Public keys and certificates, \<open>ssh/key.c\<close>: their wire format, comparison, certificates and
  what they are checked for. The memory of the key structures themselves (\<open>sshkey_new\<close>, whose
  result most callers do not check) is taken to be there.
\<close>

section \<open>Data\<close>

definition SSH2_CERT_TYPE_USER :: u32 where "SSH2_CERT_TYPE_USER = 1"
definition SSH2_CERT_TYPE_HOST :: u32 where "SSH2_CERT_TYPE_HOST = 2"
definition SSHKEY_CERT_MAX_PRINCIPALS :: nat where "SSHKEY_CERT_MAX_PRINCIPALS = 256"
definition SSH_KEY_MAX_SIGN_DATA_SIZE :: nat where "SSH_KEY_MAX_SIGN_DATA_SIZE = 1048576"

text \<open>
  \<open>struct sshkey\<close> and \<open>struct sshkey_cert\<close>, the public parts: an RSA key is \<open>(e, n)\<close>, a DSA key
  \<open>(p, q, g, pub_key)\<close>. The buffers of a certificate are what they contain.
\<close>

datatype ('bn, 'k) sshkey =
  Sshkey (k_type: sshkey_types) (k_rsa: "('bn \<times> 'bn) option") (k_dsa: "('bn \<times> 'bn \<times> 'bn \<times> 'bn) option")
    (k_ecdsa_nid: int) (k_ecdsa: "'k option") (k_cert: "('bn, 'k) sshkey_cert option")
and ('bn, 'k) sshkey_cert =
  Sshkey_cert (c_certblob: "byte list") (c_type: u32) (c_serial: u64) (c_key_id: "byte list option")
    (c_principals: "byte list list") (c_valid_after: u64) (c_valid_before: u64)
    (c_critical: "byte list") (c_extensions: "byte list") (c_signature_key: "('bn, 'k) sshkey option")

text \<open>
  What is called of OpenSSL, and the three functions that check a signature: \<open>ssh_verify ty\<close> is
  \<open>ssh_rsa_verify\<close>, \<open>ssh_dss_verify\<close> or \<open>ssh_ecdsa_verify\<close>.
\<close>

record ('bn, 'g, 'p, 'k) key_lib =
  kl_bn :: "'bn bn_lib"
  kl_ec :: "('g, 'p, 'k) ec_lib"
  kl_zero :: 'bn
  kl_bn_cmp :: "'bn \<Rightarrow> 'bn \<Rightarrow> int"
  kl_sub_one :: "'bn \<Rightarrow> 'bn option"
  kl_new_curve :: "int \<Rightarrow> 'k option"
  kl_group_eq :: "'g \<Rightarrow> 'g \<Rightarrow> bool"
  kl_point_eq :: "'g \<Rightarrow> 'p \<Rightarrow> 'p \<Rightarrow> bool"
  kl_prime_field :: "'g \<Rightarrow> bool"
  kl_infinite :: "'g \<Rightarrow> 'p \<Rightarrow> bool"
  kl_order :: "'g \<Rightarrow> 'bn option"
  kl_affine :: "'g \<Rightarrow> 'p \<Rightarrow> ('bn \<times> 'bn) option"
  kl_mul :: "'g \<Rightarrow> 'p \<Rightarrow> 'bn \<Rightarrow> 'p option"
  kl_verify :: "sshkey_types \<Rightarrow> ('bn, 'k) sshkey \<Rightarrow> byte list \<Rightarrow> byte list \<Rightarrow> u32 \<Rightarrow> unit res"

section \<open>Types and names\<close>

definition sshkey_is_cert :: "('bn, 'k) sshkey \<Rightarrow> bool" where
  "sshkey_is_cert k \<longleftrightarrow>
     k_type k \<in> {KEY_RSA_CERT_V00, KEY_DSA_CERT_V00, KEY_RSA_CERT, KEY_DSA_CERT, KEY_ECDSA_CERT}"

fun sshkey_type_plain :: "sshkey_types \<Rightarrow> sshkey_types" where
  "sshkey_type_plain KEY_RSA_CERT_V00 = KEY_RSA"
| "sshkey_type_plain KEY_RSA_CERT = KEY_RSA"
| "sshkey_type_plain KEY_DSA_CERT_V00 = KEY_DSA"
| "sshkey_type_plain KEY_DSA_CERT = KEY_DSA"
| "sshkey_type_plain KEY_ECDSA_CERT = KEY_ECDSA"
| "sshkey_type_plain t = t"

definition sshkey_cert_is_legacy :: "('bn, 'k) sshkey \<Rightarrow> bool" where
  "sshkey_cert_is_legacy k \<longleftrightarrow> k_type k = KEY_DSA_CERT_V00 \<or> k_type k = KEY_RSA_CERT_V00"

definition sshkey_type :: "('bn, 'k) sshkey \<Rightarrow> string" where
  "sshkey_type k =
     (case find (\<lambda>kt. kt_type kt = k_type k) keytypes of None \<Rightarrow> ''unknown'' | Some kt \<Rightarrow> kt_shortname kt)"

definition sshkey_ssh_name :: "('bn, 'k) sshkey \<Rightarrow> string option" where
  "sshkey_ssh_name k = sshkey_ssh_name_from_type_nid (k_type k) (k_ecdsa_nid k)"

definition sshkey_ssh_name_plain :: "('bn, 'k) sshkey \<Rightarrow> string option" where
  "sshkey_ssh_name_plain k = sshkey_ssh_name_from_type_nid (sshkey_type_plain (k_type k)) (k_ecdsa_nid k)"

definition sshkey_curve_name_to_nid :: "string \<Rightarrow> int" where
  "sshkey_curve_name_to_nid name =
     (if name = ''nistp256'' then NID_X9_62_prime256v1
      else if name = ''nistp384'' then NID_secp384r1
      else if name = ''nistp521'' then NID_secp521r1
      else -1)"

definition sshkey_curve_nid_to_bits :: "int \<Rightarrow> nat" where
  "sshkey_curve_nid_to_bits nid =
     (if nid = NID_X9_62_prime256v1 then 256 else if nid = NID_secp384r1 then 384
      else if nid = NID_secp521r1 then 521 else 0)"

definition sshkey_curve_nid_to_name :: "int \<Rightarrow> string option" where
  "sshkey_curve_nid_to_name nid =
     (if nid = NID_X9_62_prime256v1 then Some ''nistp256'' else if nid = NID_secp384r1 then Some ''nistp384''
      else if nid = NID_secp521r1 then Some ''nistp521'' else None)"

definition sshkey_ec_nid_to_evpmd :: "int \<Rightarrow> evp_md option" where
  "sshkey_ec_nid_to_evpmd nid =
     (let kbits = sshkey_curve_nid_to_bits nid in
      if kbits = 0 then None else if kbits \<le> 256 then Some EVP_sha256
      else if kbits \<le> 384 then Some EVP_sha384 else Some EVP_sha512)"

definition sshkey_ecdsa_bits_to_nid :: "int \<Rightarrow> int" where
  "sshkey_ecdsa_bits_to_nid bits =
     (if bits = 256 then NID_X9_62_prime256v1 else if bits = 384 then NID_secp384r1
      else if bits = 521 then NID_secp521r1 else -1)"

definition sshkey_cert_type :: "('bn, 'k) sshkey_cert \<Rightarrow> string" where
  "sshkey_cert_type c =
     (if c_type c = SSH2_CERT_TYPE_USER then ''user'' else if c_type c = SSH2_CERT_TYPE_HOST then ''host''
      else ''unknown'')"

text \<open>\<open>None\<close> is a null pointer read: a key without the part its type calls for.\<close>

definition sshkey_size :: "('bn, 'g, 'p, 'k) key_lib \<Rightarrow> ('bn, 'k) sshkey \<Rightarrow> int option" where
  "sshkey_size L k =
     (let t = sshkey_type_plain (k_type k) in
      if t = KEY_RSA1 \<or> t = KEY_RSA then map_option (\<lambda>(e, n). BN_num_bits (kl_bn L) n) (k_rsa k)
      else if t = KEY_DSA then map_option (\<lambda>(p, q, g, pub). BN_num_bits (kl_bn L) p) (k_dsa k)
      else if t = KEY_ECDSA then Some (int (sshkey_curve_nid_to_bits (k_ecdsa_nid k)))
      else Some 0)"

section \<open>New keys and certificates\<close>

definition cert_new :: "('bn, 'k) sshkey_cert" where
  "cert_new = Sshkey_cert [] 0 0 None [] 0 0 [] [] None"

definition sshkey_new :: "('bn, 'g, 'p, 'k) key_lib \<Rightarrow> sshkey_types \<Rightarrow> ('bn, 'k) sshkey" where
  "sshkey_new L t =
     (let z = kl_zero L; p = sshkey_type_plain t in
      Sshkey t (if p = KEY_RSA1 \<or> p = KEY_RSA then Some (z, z) else None) (if p = KEY_DSA then Some (z, z, z, z) else None)
        (-1) None
        (if t \<in> {KEY_RSA_CERT_V00, KEY_DSA_CERT_V00, KEY_RSA_CERT, KEY_DSA_CERT, KEY_ECDSA_CERT}
         then Some cert_new else None))"

definition with_type :: "sshkey_types \<Rightarrow> ('bn, 'k) sshkey_cert option \<Rightarrow> ('bn, 'k) sshkey \<Rightarrow> ('bn, 'k) sshkey" where
  "with_type t c k = Sshkey t (k_rsa k) (k_dsa k) (k_ecdsa_nid k) (k_ecdsa k) c"

definition sshkey_to_certified :: "bool \<Rightarrow> bool \<Rightarrow> ('bn, 'k) sshkey \<Rightarrow> ('bn, 'k) sshkey res" where
  "sshkey_to_certified mem legacy k =
     (if k_type k \<notin> {KEY_RSA, KEY_DSA, KEY_ECDSA} then Inl SSH_ERR_KEY_TYPE_UNKNOWN
      else if k_type k = KEY_ECDSA \<and> legacy then Inl SSH_ERR_INVALID_ARGUMENT
      else if \<not> mem then Inl SSH_ERR_ALLOC_FAIL
      else Inr (with_type
        (if k_type k = KEY_RSA then (if legacy then KEY_RSA_CERT_V00 else KEY_RSA_CERT)
         else if k_type k = KEY_DSA then (if legacy then KEY_DSA_CERT_V00 else KEY_DSA_CERT)
         else KEY_ECDSA_CERT) (Some cert_new) k))"

text \<open>The freed certificate stays referenced: \<open>k->cert\<close> keeps its old value.\<close>

definition sshkey_drop_cert :: "('bn, 'k) sshkey \<Rightarrow> ('bn, 'k) sshkey res" where
  "sshkey_drop_cert k =
     (if sshkey_is_cert k then Inr (with_type (sshkey_type_plain (k_type k)) (k_cert k) k)
      else Inl SSH_ERR_KEY_TYPE_UNKNOWN)"

section \<open>Comparing\<close>

definition cert_compare :: "('bn, 'k) sshkey_cert option \<Rightarrow> ('bn, 'k) sshkey_cert option \<Rightarrow> bool" where
  "cert_compare a b =
     (case (a, b) of (None, None) \<Rightarrow> True | (Some a, Some b) \<Rightarrow> c_certblob a = c_certblob b | _ \<Rightarrow> False)"

definition sshkey_equal_public ::
  "('bn, 'g, 'p, 'k) key_lib \<Rightarrow> ('bn, 'k) sshkey \<Rightarrow> ('bn, 'k) sshkey \<Rightarrow> bool" where
  "sshkey_equal_public L a b =
     (let eq = (\<lambda>x y. kl_bn_cmp L x y = 0); t = sshkey_type_plain (k_type a) in
      if t \<noteq> sshkey_type_plain (k_type b) then False
      else if t = KEY_RSA1 \<or> t = KEY_RSA then
        (case (k_rsa a, k_rsa b) of (Some (e, n), Some (e', n')) \<Rightarrow> eq e e' \<and> eq n n' | _ \<Rightarrow> False)
      else if t = KEY_DSA then
        (case (k_dsa a, k_dsa b) of
           (Some (p, q, g, y), Some (p', q', g', y')) \<Rightarrow> eq p p' \<and> eq q q' \<and> eq g g' \<and> eq y y'
         | _ \<Rightarrow> False)
      else if t = KEY_ECDSA then
        (case (k_ecdsa a, k_ecdsa b) of
           (Some x, Some y) \<Rightarrow>
             EC_ctx_new (kl_ec L) \<and> kl_group_eq L (EC_key_group (kl_ec L) x) (EC_key_group (kl_ec L) y) \<and>
             kl_point_eq L (EC_key_group (kl_ec L) x) (EC_key_public (kl_ec L) x) (EC_key_public (kl_ec L) y)
         | _ \<Rightarrow> False)
      else False)"

definition sshkey_equal :: "('bn, 'g, 'p, 'k) key_lib \<Rightarrow> ('bn, 'k) sshkey \<Rightarrow> ('bn, 'k) sshkey \<Rightarrow> bool" where
  "sshkey_equal L a b \<longleftrightarrow>
     k_type a = k_type b \<and> (sshkey_is_cert a \<longrightarrow> cert_compare (k_cert a) (k_cert b)) \<and> sshkey_equal_public L a b"

section \<open>Writing\<close>

definition to_blob_buf ::
  "('bn, 'g, 'p, 'k) key_lib \<Rightarrow> allocator \<Rightarrow> ('bn, 'k) sshkey \<Rightarrow> bool \<Rightarrow> (ssh_err, sshbuf, unit) action" where
  "to_blob_buf L am key force_plain =
     (let t = (if force_plain then sshkey_type_plain (k_type key) else k_type key);
          typename = bytes_of (the (sshkey_ssh_name_from_type_nid t (k_ecdsa_nid key)));
          put_bn = sshbuf_put_bignum2 (kl_bn L) am
      in
      if t \<in> {KEY_DSA_CERT_V00, KEY_RSA_CERT_V00, KEY_DSA_CERT, KEY_ECDSA_CERT, KEY_RSA_CERT} then
        sshbuf_put am (c_certblob (the (k_cert key)))
      else if t = KEY_DSA then
        (case k_dsa key of None \<Rightarrow> act_fail SSH_ERR_INVALID_ARGUMENT
         | Some (p, q, g, pub) \<Rightarrow> act_all [sshbuf_put_cstring am typename, put_bn p, put_bn q, put_bn g, put_bn pub])
      else if t = KEY_ECDSA then
        (case k_ecdsa key of None \<Rightarrow> act_fail SSH_ERR_INVALID_ARGUMENT
         | Some ec \<Rightarrow>
             act_all [sshbuf_put_cstring am typename,
               sshbuf_put_cstring am (bytes_of (the (sshkey_curve_nid_to_name (k_ecdsa_nid key)))),
               sshbuf_put_eckey (kl_ec L) am ec])
      else if t = KEY_RSA then
        (case k_rsa key of None \<Rightarrow> act_fail SSH_ERR_INVALID_ARGUMENT
         | Some (e, n) \<Rightarrow> act_all [sshbuf_put_cstring am typename, put_bn e, put_bn n])
      else act_fail SSH_ERR_KEY_TYPE_UNKNOWN)"

definition sshkey_to_blob_buf where "sshkey_to_blob_buf L am key = to_blob_buf L am key False"
definition sshkey_plain_to_blob_buf where "sshkey_plain_to_blob_buf L am key = to_blob_buf L am key True"

definition to_blob ::
  "('bn, 'g, 'p, 'k) key_lib \<Rightarrow> allocator \<Rightarrow> ('bn, 'k) sshkey \<Rightarrow> bool \<Rightarrow> byte list res" where
  "to_blob L am key force_plain =
     (case sshbuf_new am of None \<Rightarrow> Inl SSH_ERR_ALLOC_FAIL
      | Some b0 \<Rightarrow>
          (case to_blob_buf L am key force_plain b0 of (Inl e, _) \<Rightarrow> Inl e
           | (Inr _, b) \<Rightarrow> if am (sshbuf_len b) = None then Inl SSH_ERR_ALLOC_FAIL else Inr (sshbuf_bytes b)))"

definition sshkey_to_blob where "sshkey_to_blob L am key = to_blob L am key False"
definition sshkey_plain_to_blob where "sshkey_plain_to_blob L am key = to_blob L am key True"

section \<open>Signatures and curve points\<close>

definition sshkey_verify ::
  "('bn, 'g, 'p, 'k) key_lib \<Rightarrow> ('bn, 'k) sshkey \<Rightarrow> byte list \<Rightarrow> byte list \<Rightarrow> u32 \<Rightarrow> unit res" where
  "sshkey_verify L key sig data cflags =
     (if sig = [] then Inl (RAW_RC (-1))
      else if length data > SSH_KEY_MAX_SIGN_DATA_SIZE then Inl SSH_ERR_INVALID_ARGUMENT
      else if sshkey_type_plain (k_type key) \<in> {KEY_DSA, KEY_ECDSA, KEY_RSA} then
        kl_verify L (sshkey_type_plain (k_type key)) key sig data cflags
      else Inl SSH_ERR_KEY_TYPE_UNKNOWN)"

definition sshkey_ec_validate_public :: "('bn, 'g, 'p, 'k) key_lib \<Rightarrow> 'g \<Rightarrow> 'p \<Rightarrow> unit res" where
  "sshkey_ec_validate_public L g pub =
     (if \<not> EC_ctx_new (kl_ec L) then Inl SSH_ERR_ALLOC_FAIL
      else if \<not> kl_prime_field L g \<or> kl_infinite L g pub then Inl SSH_ERR_KEY_INVALID_EC_VALUE
      else case (kl_order L g, kl_affine L g pub) of
        (Some order, Some (x, y)) \<Rightarrow>
          if BN_num_bits (kl_bn L) x \<le> BN_num_bits (kl_bn L) order div 2 \<or>
             BN_num_bits (kl_bn L) y \<le> BN_num_bits (kl_bn L) order div 2 then Inl SSH_ERR_KEY_INVALID_EC_VALUE
          else if \<not> EC_point_new (kl_ec L) g then Inl SSH_ERR_ALLOC_FAIL
          else (case kl_mul L g pub order of None \<Rightarrow> Inl SSH_ERR_LIBCRYPTO_ERROR
            | Some nq \<Rightarrow>
                if \<not> kl_infinite L g nq then Inl SSH_ERR_KEY_INVALID_EC_VALUE
                else (case kl_sub_one L order of None \<Rightarrow> Inl SSH_ERR_LIBCRYPTO_ERROR
                  | Some tmp \<Rightarrow>
                      if kl_bn_cmp L x tmp \<ge> 0 \<or> kl_bn_cmp L y tmp \<ge> 0 then Inl SSH_ERR_KEY_INVALID_EC_VALUE
                      else Inr ()))
      | _ \<Rightarrow> Inl SSH_ERR_LIBCRYPTO_ERROR)"

section \<open>Reading\<close>

text \<open>Replacing whatever error an operation reports.\<close>

definition act_err :: "'e \<Rightarrow> ('e, 's, 'a) action \<Rightarrow> ('e, 's, 'a) action" where
  "act_err e f s = (case f s of (Inl _, s') \<Rightarrow> (Inl e, s') | (Inr v, s') \<Rightarrow> (Inr v, s'))"

text \<open>
  A number of a key: the code only looks for the error number \<open>-1\<close>; after any other error it
  goes on with the number as \<open>sshkey_new\<close> has made it, which is zero.
\<close>

definition key_bignum :: "('bn, 'g, 'p, 'k) key_lib \<Rightarrow> (ssh_err, sshbuf, 'bn) action" where
  "key_bignum L b =
     (case sshbuf_get_bignum2 (kl_bn L) True b of
        (Inl e, b') \<Rightarrow> if err_code e = -1 then (Inl SSH_ERR_INVALID_FORMAT, b') else (Inr (kl_zero L), b')
      | (Inr v, b') \<Rightarrow> (Inr (the v), b'))"

definition key_skip :: "(ssh_err, sshbuf, unit) action" where
  "key_skip = act_seq (act_err SSH_ERR_INVALID_FORMAT sshbuf_get_string_direct) (act_return ())"

definition ec_material ::
  "('bn, 'g, 'p, 'k) key_lib \<Rightarrow> allocator \<Rightarrow> sshkey_types \<Rightarrow> int \<Rightarrow> (ssh_err, sshbuf, ('bn, 'k) sshkey) action" where
  "ec_material L am t nid =
     act_bind (act_err SSH_ERR_INVALID_FORMAT (sshbuf_get_cstring am)) (\<lambda>curve b.
       if nid \<noteq> sshkey_curve_name_to_nid (string_of (c_str curve)) then (Inl SSH_ERR_EC_CURVE_MISMATCH, b)
       else case kl_new_curve L nid of None \<Rightarrow> (Inl SSH_ERR_EC_CURVE_INVALID, b)
         | Some ec \<Rightarrow>
             let g = EC_key_group (kl_ec L) ec in
             if \<not> EC_point_new (kl_ec L) g then (Inl SSH_ERR_ALLOC_FAIL, b)
             else act_bind (act_err SSH_ERR_INVALID_FORMAT (sshbuf_get_ec (kl_ec L) True g)) (\<lambda>q b.
               if sshkey_ec_validate_public L g (the q) \<noteq> Inr () then (Inl SSH_ERR_KEY_INVALID_EC_VALUE, b)
               else case EC_key_set_public (kl_ec L) ec (the q) of None \<Rightarrow> (Inl SSH_ERR_ALLOC_FAIL, b)
                 | Some ec' \<Rightarrow> (Inr (Sshkey t None None nid (Some ec') (k_cert (sshkey_new L t))), b)) b)"

text \<open>The \<open>switch\<close> of \<open>sshkey_from_blob\<close>; \<open>ktype\<close> is the name at the front of the blob.\<close>

definition key_material ::
  "('bn, 'g, 'p, 'k) key_lib \<Rightarrow> allocator \<Rightarrow> string \<Rightarrow> (ssh_err, sshbuf, ('bn, 'k) sshkey) action" where
  "key_material L am ktype =
     (let t = sshkey_type_from_name ktype;
          nid = (if sshkey_type_plain t = KEY_ECDSA then sshkey_ecdsa_nid_from_name ktype else -1);
          nonce = (if t \<in> {KEY_RSA_CERT, KEY_DSA_CERT, KEY_ECDSA_CERT} then key_skip else act_return ());
          cert = k_cert (sshkey_new L t :: ('bn, 'k) sshkey)
      in
      if sshkey_type_plain t = KEY_RSA then
        act_seq nonce (act_bind (key_bignum L) (\<lambda>e. act_bind (key_bignum L) (\<lambda>n.
          act_return (Sshkey t (Some (e, n)) None (-1) None cert))))
      else if sshkey_type_plain t = KEY_DSA then
        act_seq nonce (act_bind (key_bignum L) (\<lambda>p. act_bind (key_bignum L) (\<lambda>q. act_bind (key_bignum L) (\<lambda>g.
          act_bind (key_bignum L) (\<lambda>pub. act_return (Sshkey t None (Some (p, q, g, pub)) (-1) None cert))))))
      else if sshkey_type_plain t = KEY_ECDSA then act_seq nonce (ec_material L am t nid)
      else if t = KEY_UNSPEC then act_return (sshkey_new L t)
      else act_fail SSH_ERR_KEY_TYPE_UNKNOWN)"

text \<open>A buffer of the certificate, filled once.\<close>

definition buf_with :: "allocator \<Rightarrow> byte list \<Rightarrow> byte list res" where
  "buf_with am d =
     (case sshbuf_new am of None \<Rightarrow> Inl SSH_ERR_ALLOC_FAIL
      | Some b0 \<Rightarrow> (case sshbuf_put am d b0 of (Inl e, _) \<Rightarrow> Inl e | (Inr _, b) \<Rightarrow> Inr (sshbuf_bytes b)))"

text \<open>The loop over the principals; \<open>n\<close> counts how many more there may be.\<close>

fun cert_principals :: "allocator \<Rightarrow> nat \<Rightarrow> (ssh_err, sshbuf, byte list list) action" where
  "cert_principals am n b =
     (if sshbuf_len b = 0 then (Inr [], b)
      else if n = 0 then (Inl SSH_ERR_INVALID_FORMAT, b)
      else case sshbuf_get_cstring am b of (Inl _, b') \<Rightarrow> (Inl SSH_ERR_INVALID_FORMAT, b')
        | (Inr s, b') \<Rightarrow>
            if am ((SSHKEY_CERT_MAX_PRINCIPALS - n + 1) * 8) = None then (Inl SSH_ERR_ALLOC_FAIL, b')
            else (case cert_principals am (n - 1) b' of (Inl e, b'') \<Rightarrow> (Inl e, b'') | (Inr ss, b'') \<Rightarrow> (Inr (s # ss), b'')))"

text \<open>The loops that check the structure of options: pairs of strings. One round takes eight bytes
  or more, so as many rounds as there are bytes are enough.\<close>

fun cert_options :: "nat \<Rightarrow> (ssh_err, sshbuf, unit) action" where
  "cert_options n b =
     (if sshbuf_len b = 0 then (Inr (), b)
      else if n = 0 then (Inl SSH_ERR_INTERNAL_ERROR, b)
      else act_seq (act_err SSH_ERR_INVALID_FORMAT (act_seq sshbuf_get_string_direct sshbuf_get_string_direct))
        (cert_options (n - 1)) b)"

declare cert_principals.simps [simp del] cert_options.simps [simp del]

definition sshbuf_clear :: "allocator \<Rightarrow> (ssh_err, sshbuf, unit) action" where
  "sshbuf_clear am b = (Inr (), sshbuf_reset am b)"

text \<open>What \<open>cert_parse\<close> does with the buffer \<open>tmp\<close>.\<close>

definition cert_lists ::
  "allocator \<Rightarrow> byte list \<Rightarrow> byte list \<Rightarrow> byte list \<Rightarrow> (ssh_err, sshbuf, byte list list \<times> byte list \<times> byte list) action" where
  "cert_lists am principals critical exts =
     act_seq (sshbuf_put am principals) (act_bind (cert_principals am SSHKEY_CERT_MAX_PRINCIPALS) (\<lambda>ps.
       act_seq (sshbuf_clear am) (act_bind (\<lambda>b. (buf_with am critical, b)) (\<lambda>crit.
         act_seq (sshbuf_put am critical) (act_seq (\<lambda>b. cert_options (sshbuf_len b) b)
           (act_seq (sshbuf_clear am) (act_bind (\<lambda>b. (buf_with am exts, b)) (\<lambda>ext.
             act_seq (sshbuf_put am exts) (act_seq (\<lambda>b. cert_options (sshbuf_len b) b)
               (act_seq (sshbuf_clear am) (act_return (ps, crit, ext))))))))))))"

text \<open>The fields in front of the signature.\<close>

record cert_fields =
  cf_serial :: u64
  cf_type :: u32
  cf_key_id :: "byte list"
  cf_principals :: "byte list"
  cf_valid_after :: u64
  cf_valid_before :: u64
  cf_critical :: "byte list"
  cf_exts :: "byte list"
  cf_sig_key :: "byte list"

definition get_cert_fields :: "allocator \<Rightarrow> bool \<Rightarrow> (ssh_err, sshbuf, cert_fields) action" where
  "get_cert_fields am v00 =
     act_bind (if v00 then act_return 0 else sshbuf_get_u64) (\<lambda>serial.
     act_bind sshbuf_get_u32 (\<lambda>ty. act_bind (sshbuf_get_cstring am) (\<lambda>kid. act_bind (sshbuf_get_string am) (\<lambda>pr.
     act_bind sshbuf_get_u64 (\<lambda>va. act_bind sshbuf_get_u64 (\<lambda>vb. act_bind (sshbuf_get_string am) (\<lambda>crit.
     act_bind (if v00 then act_return [] else sshbuf_get_string am) (\<lambda>ext.
     act_seq (if v00 then act_seq sshbuf_get_string_direct (act_return ()) else act_return ())
     (act_seq sshbuf_get_string_direct (act_bind (sshbuf_get_string am) (\<lambda>sk.
       act_return \<lparr>cf_serial = serial, cf_type = ty, cf_key_id = kid, cf_principals = pr, cf_valid_after = va,
         cf_valid_before = vb, cf_critical = crit, cf_exts = ext, cf_sig_key = sk\<rparr>)))))))))))"

text \<open>Everything after the signature has been read; \<open>from_blob\<close> reads the key that signed.\<close>

definition cert_finish ::
  "('bn, 'g, 'p, 'k) key_lib \<Rightarrow> allocator \<Rightarrow> (byte list \<Rightarrow> ('bn, 'k) sshkey res) \<Rightarrow> sshbuf \<Rightarrow> ('bn, 'k) sshkey \<Rightarrow>
   byte list \<Rightarrow> nat \<Rightarrow> cert_fields \<Rightarrow> byte list \<Rightarrow> ('bn, 'k) sshkey res" where
  "cert_finish L am from_blob tmp key certblob signed_len f sig =
     (if cf_type f \<noteq> SSH2_CERT_TYPE_USER \<and> cf_type f \<noteq> SSH2_CERT_TYPE_HOST then Inl SSH_ERR_KEY_CERT_UNKNOWN_TYPE
      else case fst (cert_lists am (cf_principals f) (cf_critical f) (cf_exts f) tmp) of Inl e \<Rightarrow> Inl e
        | Inr (ps, crit, ext) \<Rightarrow>
            (case from_blob (cf_sig_key f) of Inl _ \<Rightarrow> Inl SSH_ERR_KEY_CERT_INVALID_SIGN_KEY
             | Inr sk \<Rightarrow>
                 if k_type sk \<notin> {KEY_RSA, KEY_DSA, KEY_ECDSA} then Inl SSH_ERR_KEY_CERT_INVALID_SIGN_KEY
                 else case sshkey_verify L sk sig (take signed_len certblob) 0 of Inl e \<Rightarrow> Inl e
                   | Inr _ \<Rightarrow> Inr (with_type (k_type key)
                       (Some (Sshkey_cert certblob (cf_type f) (cf_serial f) (Some (cf_key_id f)) ps (cf_valid_after f)
                         (cf_valid_before f) crit ext (Some sk))) key)))"

definition cert_parse ::
  "('bn, 'g, 'p, 'k) key_lib \<Rightarrow> allocator \<Rightarrow> (byte list \<Rightarrow> ('bn, 'k) sshkey res) \<Rightarrow> ('bn, 'k) sshkey \<Rightarrow> byte list \<Rightarrow>
   (ssh_err, sshbuf, ('bn, 'k) sshkey) action" where
  "cert_parse L am from_blob key blob b =
     (case sshbuf_new am of None \<Rightarrow> (Inl SSH_ERR_ALLOC_FAIL, b)
      | Some tmp \<Rightarrow>
          (case buf_with am blob of Inl e \<Rightarrow> (Inl e, b)
           | Inr certblob \<Rightarrow>
               act_bind (act_err SSH_ERR_INVALID_FORMAT (get_cert_fields am (sshkey_cert_is_legacy key)))
                 (\<lambda>f b1. act_bind (act_err SSH_ERR_INVALID_FORMAT (sshbuf_get_string am))
                   (\<lambda>sig b2. (cert_finish L am from_blob tmp key certblob (length certblob - sshbuf_len b1) f sig, b2)) b1) b))"

text \<open>
  \<open>sshkey_from_blob\<close> and \<open>cert_parse\<close> call each other: the key that signed a certificate may be a
  certificate again. \<open>from_blob_body\<close> is the function with that call as a parameter; the first
  argument of \<open>from_blob_depth\<close> bounds the depth of the calls. A blob is longer than the blob of
  the key that signed it, so its length is enough.
\<close>

definition from_blob_body ::
  "('bn, 'g, 'p, 'k) key_lib \<Rightarrow> allocator \<Rightarrow> (byte list \<Rightarrow> ('bn, 'k) sshkey res) \<Rightarrow> byte list \<Rightarrow> ('bn, 'k) sshkey res" where
  "from_blob_body L am from_blob blob =
     (case sshbuf_new am of None \<Rightarrow> Inl SSH_ERR_ALLOC_FAIL
      | Some b0 \<Rightarrow>
          fst (act_seq (sshbuf_put am blob)
            (act_bind (act_err SSH_ERR_INVALID_FORMAT (sshbuf_get_cstring am)) (\<lambda>ktype.
             act_bind (key_material L am (string_of (c_str ktype))) (\<lambda>key.
             act_bind (if sshkey_is_cert key then cert_parse L am from_blob key blob else act_return key)
               (\<lambda>key b. if sshbuf_len b \<noteq> 0 then (Inl SSH_ERR_INVALID_FORMAT, b) else (Inr key, b))))) b0))"

fun from_blob_depth :: "nat \<Rightarrow> ('bn, 'g, 'p, 'k) key_lib \<Rightarrow> allocator \<Rightarrow> byte list \<Rightarrow> ('bn, 'k) sshkey res" where
  "from_blob_depth 0 L am blob = Inl SSH_ERR_INTERNAL_ERROR"
| "from_blob_depth (Suc n) L am blob = from_blob_body L am (from_blob_depth n L am) blob"

definition sshkey_from_blob :: "('bn, 'g, 'p, 'k) key_lib \<Rightarrow> allocator \<Rightarrow> byte list \<Rightarrow> ('bn, 'k) sshkey res" where
  "sshkey_from_blob L am blob = from_blob_depth (Suc (length blob)) L am blob"

section \<open>Authority\<close>

text \<open>\<open>now\<close> is the clock; every refusal is \<open>SSH_ERR_KEY_CERT_INVALID\<close> with the reason given.\<close>

definition sshkey_cert_check_authority ::
  "int \<Rightarrow> bool \<Rightarrow> bool \<Rightarrow> byte list option \<Rightarrow> ('bn, 'k) sshkey_cert \<Rightarrow> string + unit" where
  "sshkey_cert_check_authority now want_host require_principal name c =
     (if want_host \<and> c_type c \<noteq> SSH2_CERT_TYPE_HOST then Inl ''Certificate invalid: not a host certificate''
      else if \<not> want_host \<and> c_type c \<noteq> SSH2_CERT_TYPE_USER then Inl ''Certificate invalid: not a user certificate''
      else if now < 0 then Inl ''Certificate invalid: not yet valid''
      else if (of_int now :: u64) < c_valid_after c then Inl ''Certificate invalid: not yet valid''
      else if (of_int now :: u64) \<ge> c_valid_before c then Inl ''Certificate invalid: expired''
      else if c_principals c = [] then
        (if require_principal then Inl ''Certificate lacks principal list'' else Inr ())
      else case name of None \<Rightarrow> Inr ()
        | Some n \<Rightarrow> if list_ex (\<lambda>p. c_str p = c_str n) (c_principals c) then Inr () else Inl ''Certificate invalid: name is not a listed principal'')"

section \<open>Copying\<close>

text \<open>
  \<open>sshkey_cert_copy\<close> and \<open>sshkey_from_private\<close>; the copied parts are the public ones. A failed
  copy of the extensions is reported as the number 1: the comparison binds tighter than the
  assignment.
\<close>

definition strdup_all :: "allocator \<Rightarrow> byte list list \<Rightarrow> byte list list res" where
  "strdup_all am ps =
     (if ps \<noteq> [] \<and> am (length ps * 8) = None then Inl SSH_ERR_ALLOC_FAIL
      else if list_ex (\<lambda>p. am (length (c_str p) + 1) = None) ps then Inl SSH_ERR_ALLOC_FAIL
      else Inr (map c_str ps))"

fun sshkey_from_private :: "('bn, 'g, 'p, 'k) key_lib \<Rightarrow> allocator \<Rightarrow> ('bn, 'k) sshkey \<Rightarrow> ('bn, 'k) sshkey res"
and sshkey_cert_copy :: "('bn, 'g, 'p, 'k) key_lib \<Rightarrow> allocator \<Rightarrow> ('bn, 'k) sshkey_cert \<Rightarrow> ('bn, 'k) sshkey_cert res" where
  "sshkey_from_private L am (Sshkey t rsa dsa nid ec cert) =
     (let p = sshkey_type_plain t;
          n = (if p = KEY_DSA then Inr (Sshkey t None (Some (the dsa)) (-1) None None)
               else if p = KEY_ECDSA then
                 (case kl_new_curve L nid of None \<Rightarrow> Inl SSH_ERR_ALLOC_FAIL
                  | Some e \<Rightarrow> (case EC_key_set_public (kl_ec L) e (EC_key_public (kl_ec L) (the ec)) of
                      None \<Rightarrow> Inl SSH_ERR_LIBCRYPTO_ERROR | Some e' \<Rightarrow> Inr (Sshkey t None None nid (Some e') None)))
               else if p = KEY_RSA \<or> p = KEY_RSA1 then Inr (Sshkey t (Some (the rsa)) None (-1) None None)
               else Inl SSH_ERR_KEY_TYPE_UNKNOWN)
      in case n of Inl e \<Rightarrow> Inl e
         | Inr n \<Rightarrow>
             if \<not> sshkey_is_cert n then Inr n
             else (case cert of None \<Rightarrow> Inl SSH_ERR_INVALID_ARGUMENT
               | Some c \<Rightarrow> (case sshkey_cert_copy L am c of Inl e \<Rightarrow> Inl e | Inr c' \<Rightarrow> Inr (with_type t (Some c') n))))"
| "sshkey_cert_copy L am (Sshkey_cert blob ty serial kid ps va vb crit ext sk) =
     (case buf_with am blob of Inl e \<Rightarrow> Inl e
      | Inr blob' \<Rightarrow>
     (case buf_with am crit of Inl e \<Rightarrow> Inl e
      | Inr crit' \<Rightarrow>
     (case buf_with am ext of Inl _ \<Rightarrow> Inl (RAW_RC 1)
      | Inr ext' \<Rightarrow>
          if kid \<noteq> None \<and> am (length (c_str (the kid)) + 1) = None then Inl SSH_ERR_ALLOC_FAIL
          else (case (case sk of None \<Rightarrow> Inr None
                      | Some k \<Rightarrow> (case sshkey_from_private L am k of Inl e \<Rightarrow> Inl e | Inr k' \<Rightarrow> Inr (Some k'))) of
             Inl e \<Rightarrow> Inl e
           | Inr sk' \<Rightarrow>
               if length ps > SSHKEY_CERT_MAX_PRINCIPALS then Inl SSH_ERR_INVALID_ARGUMENT
               else (case strdup_all am ps of Inl e \<Rightarrow> Inl e
                 | Inr ps' \<Rightarrow> Inr (Sshkey_cert blob' ty serial (map_option c_str kid) ps' va vb crit' ext' sk'))))))"

section \<open>Signing and certifying\<close>

text \<open>\<open>sign\<close> is \<open>ssh_rsa_sign\<close>, \<open>ssh_dss_sign\<close> or \<open>ssh_ecdsa_sign\<close> with the private part of the key.\<close>

definition sshkey_sign ::
  "(sshkey_types \<Rightarrow> byte list \<Rightarrow> u32 \<Rightarrow> byte list res) \<Rightarrow> ('bn, 'k) sshkey \<Rightarrow> byte list \<Rightarrow> u32 \<Rightarrow> byte list res" where
  "sshkey_sign sign key data cflags =
     (if length data > SSH_KEY_MAX_SIGN_DATA_SIZE then Inl SSH_ERR_INVALID_ARGUMENT
      else if sshkey_type_plain (k_type key) \<in> {KEY_DSA, KEY_ECDSA, KEY_RSA} then
        sign (sshkey_type_plain (k_type key)) data cflags
      else Inl SSH_ERR_KEY_TYPE_UNKNOWN)"

text \<open>The name, the nonce of newer certificates and the public key; for RSA without \<open>n\<close>.\<close>

definition certify_front ::
  "('bn, 'g, 'p, 'k) key_lib \<Rightarrow> allocator \<Rightarrow> byte list \<Rightarrow> ('bn, 'k) sshkey \<Rightarrow> (ssh_err, sshbuf, unit) action" where
  "certify_front L am nonce k =
     (let put_bn = sshbuf_put_bignum2 (kl_bn L) am in
      act_seq (sshbuf_put_cstring am (bytes_of (the (sshkey_ssh_name k))))
       (act_seq (if sshkey_cert_is_legacy k then act_return () else sshbuf_put_string am nonce)
         (if sshkey_type_plain (k_type k) = KEY_DSA then
            (case the (k_dsa k) of (p, q, g, pub) \<Rightarrow> act_seq (put_bn p) (act_seq (put_bn q) (act_seq (put_bn g) (put_bn pub))))
          else if sshkey_type_plain (k_type k) = KEY_ECDSA then
            act_seq (sshbuf_put_cstring am (bytes_of (the (sshkey_curve_nid_to_name (k_ecdsa_nid k)))))
              (sshbuf_put_ec (kl_ec L) am (EC_key_public (kl_ec L) (the (k_ecdsa k))) (EC_key_group (kl_ec L) (the (k_ecdsa k))))
          else put_bn (fst (the (k_rsa k))))))"

definition principals_blob :: "allocator \<Rightarrow> byte list list \<Rightarrow> byte list res" where
  "principals_blob am ps =
     (case sshbuf_new am of None \<Rightarrow> Inl SSH_ERR_ALLOC_FAIL
      | Some b0 \<Rightarrow>
          (case act_all (map (sshbuf_put_cstring am) ps) b0 of (Inl e, _) \<Rightarrow> Inl e | (Inr _, b) \<Rightarrow> Inr (sshbuf_bytes b)))"

text \<open>Everything after the public key.\<close>

definition certify_back ::
  "allocator \<Rightarrow> (sshkey_types \<Rightarrow> byte list \<Rightarrow> u32 \<Rightarrow> byte list res) \<Rightarrow> byte list \<Rightarrow> bool \<Rightarrow> ('bn, 'k) sshkey_cert \<Rightarrow>
   ('bn, 'k) sshkey \<Rightarrow> byte list \<Rightarrow> (ssh_err, sshbuf, unit) action" where
  "certify_back am sign nonce legacy c ca ca_blob =
     act_seq (if legacy then act_return () else sshbuf_put_u64 am (c_serial c))
     (act_seq (sshbuf_put_u32 am (c_type c)) (act_seq (sshbuf_put_cstring am (the (c_key_id c)))
     (act_bind (\<lambda>b. (principals_blob am (c_principals c), b)) (\<lambda>ps.
      act_seq (sshbuf_put_string am ps) (act_seq (sshbuf_put_u64 am (c_valid_after c))
      (act_seq (sshbuf_put_u64 am (c_valid_before c)) (act_seq (sshbuf_put_string am (c_critical c))
      (act_seq (sshbuf_put_string am (if legacy then nonce else c_extensions c))
      (act_seq (sshbuf_put_string am []) (act_seq (sshbuf_put_string am ca_blob)
      (\<lambda>b. case sshkey_sign sign ca (sshbuf_bytes b) 0 of Inl e \<Rightarrow> (Inl e, b)
         | Inr sig \<Rightarrow> sshbuf_put_string am sig b)))))))))))"

text \<open>
  \<open>sshkey_certify\<close> on the buffer \<open>k->cert->certblob\<close>. The result of writing \<open>n\<close> is not stored: when
  that fails the function returns 0 and leaves what it has written.
\<close>

definition sshkey_certify ::
  "('bn, 'g, 'p, 'k) key_lib \<Rightarrow> allocator \<Rightarrow> (sshkey_types \<Rightarrow> byte list \<Rightarrow> u32 \<Rightarrow> byte list res) \<Rightarrow> byte list \<Rightarrow>
   ('bn, 'k) sshkey \<Rightarrow> ('bn, 'k) sshkey \<Rightarrow> (ssh_err, sshbuf, unit) action" where
  "sshkey_certify L am sign nonce k ca b =
     (case k_cert k of None \<Rightarrow> (Inl SSH_ERR_INVALID_ARGUMENT, b)
      | Some c \<Rightarrow>
      if \<not> sshkey_is_cert k then (Inl SSH_ERR_KEY_TYPE_UNKNOWN, b)
      else if k_type ca \<notin> {KEY_RSA, KEY_DSA, KEY_ECDSA} then (Inl SSH_ERR_KEY_CERT_INVALID_SIGN_KEY, b)
      else (case sshkey_to_blob L am ca of Inl _ \<Rightarrow> (Inl SSH_ERR_KEY_CERT_INVALID_SIGN_KEY, b)
        | Inr ca_blob \<Rightarrow>
            let fail = (\<lambda>e b. (Inl e, sshbuf_reset am b));
                rest = (\<lambda>b. case certify_back am sign nonce (sshkey_cert_is_legacy k) c ca ca_blob b of
                    (Inl e, b') \<Rightarrow> fail e b' | (Inr _, b') \<Rightarrow> (Inr (), b'))
            in (case certify_front L am nonce k (sshbuf_reset am b) of (Inl e, b1) \<Rightarrow> fail e b1
              | (Inr _, b1) \<Rightarrow>
                  if sshkey_type_plain (k_type k) = KEY_RSA then
                    (case sshbuf_put_bignum2 (kl_bn L) am (snd (the (k_rsa k))) b1 of
                       (Inl _, b2) \<Rightarrow> (Inr (), b2) | (Inr _, b2) \<Rightarrow> rest b2)
                  else rest b1)))"

end
