(* ===== verification/Sshkey_Blob.thy ===== *)
theory Sshkey_Blob
  imports Sshkey Sshbuf_Wire
begin

text \<open>
  The wire format of keys: what \<open>to_blob\<close> writes, and that \<open>sshkey_from_blob\<close> reads it back.
\<close>

section \<open>Well-formed keys\<close>

definition bn_ok :: "('bn, 'g, 'p, 'k) key_lib \<Rightarrow> 'bn \<Rightarrow> bool" where
  "bn_ok L v \<longleftrightarrow> \<not> BN_is_negative (kl_bn L) v \<and> length (mpint (kl_bn L) v) \<le> SSHBUF_MAX_BIGNUM"

text \<open>A public key on a curve the library knows by its number, which can be written and validated.\<close>

definition ec_ok :: "('bn, 'g, 'p, 'k) key_lib \<Rightarrow> int \<Rightarrow> 'k \<Rightarrow> bool" where
  "ec_ok L nid ec \<longleftrightarrow>
     (let E = kl_ec L; g = EC_key_group E ec; q = EC_key_public E ec in
      ec_lib_ok E g q \<and> EC_oct_len E g q \<le> SSHBUF_MAX_ECPOINT \<and> EC_point_new E g \<and>
      sshkey_ec_validate_public L g q = Inr () \<and>
      (case kl_new_curve L nid of None \<Rightarrow> False
       | Some ec0 \<Rightarrow> EC_key_group E ec0 = g \<and> EC_key_set_public E ec0 q = Some ec))"

definition ec_nids :: "int list" where "ec_nids = [NID_X9_62_prime256v1, NID_secp384r1, NID_secp521r1]"

definition key_pub_ok :: "('bn, 'g, 'p, 'k) key_lib \<Rightarrow> ('bn, 'k) sshkey \<Rightarrow> bool" where
  "key_pub_ok L k \<longleftrightarrow>
     (let t = sshkey_type_plain (k_type k) in
      (t = KEY_RSA \<and> (\<exists>e n. k_rsa k = Some (e, n) \<and> bn_ok L e \<and> bn_ok L n) \<and> k_dsa k = None \<and>
         k_ecdsa_nid k = -1 \<and> k_ecdsa k = None) \<or>
      (t = KEY_DSA \<and> (\<exists>p q g y. k_dsa k = Some (p, q, g, y) \<and> bn_ok L p \<and> bn_ok L q \<and> bn_ok L g \<and> bn_ok L y) \<and>
         k_rsa k = None \<and> k_ecdsa_nid k = -1 \<and> k_ecdsa k = None) \<or>
      (t = KEY_ECDSA \<and> (\<exists>ec. k_ecdsa k = Some ec \<and> ec_ok L (k_ecdsa_nid k) ec) \<and> k_rsa k = None \<and> k_dsa k = None \<and>
         k_ecdsa_nid k \<in> set ec_nids))"

text \<open>What the public part of a key is on the wire.\<close>

definition bn_enc :: "('bn, 'g, 'p, 'k) key_lib \<Rightarrow> 'bn \<Rightarrow> byte list" where
  "bn_enc L v = wire_string (mpint (kl_bn L) v)"

definition pub_enc :: "('bn, 'g, 'p, 'k) key_lib \<Rightarrow> ('bn, 'k) sshkey \<Rightarrow> byte list" where
  "pub_enc L k =
     (let t = sshkey_type_plain (k_type k) in
      if t = KEY_RSA then (case the (k_rsa k) of (e, n) \<Rightarrow> bn_enc L e @ bn_enc L n)
      else if t = KEY_DSA then (case the (k_dsa k) of (p, q, g, y) \<Rightarrow> bn_enc L p @ bn_enc L q @ bn_enc L g @ bn_enc L y)
      else
        (let E = kl_ec L; ec = the (k_ecdsa k); g = EC_key_group E ec; q = EC_key_public E ec in
         wire_string (bytes_of (the (sshkey_curve_nid_to_name (k_ecdsa_nid k)))) @
         wire_string (EC_point2oct E g q (EC_oct_len E g q))))"

definition name_enc :: "('bn, 'k) sshkey \<Rightarrow> byte list" where
  "name_enc k = wire_string (bytes_of (the (sshkey_ssh_name k)))"

definition bare_key :: "('bn, 'k) sshkey \<Rightarrow> ('bn, 'k) sshkey" where
  "bare_key k = with_type (k_type k) (if sshkey_is_cert k then Some cert_new else None) k"

section \<open>Names\<close>

definition name_ok :: "sshkey_types \<Rightarrow> string \<Rightarrow> bool" where
  "name_ok t n \<longleftrightarrow> sshkey_type_from_name n = t \<and> CHR 0x00 \<notin> set n \<and> length n \<le> 40"

text \<open>The short names, which are looked up as well, have at most five characters.\<close>

lemma strcasecmp_length: "strcasecmp_eq a b \<Longrightarrow> length a = length b"
  unfolding strcasecmp_eq_def by (rule map_eq_imp_length_eq)

lemma short_names: "\<forall>kt\<in>set keytypes. kt_cert kt \<or> length (kt_shortname kt) \<le> 5"
  by (simp add: keytypes_def key_row_def)

lemma type_from_long_name:
  assumes "5 < length n"
  shows "sshkey_type_from_name n =
    (case find (\<lambda>kt. kt_name kt = Some n) keytypes of None \<Rightarrow> KEY_UNSPEC | Some kt \<Rightarrow> kt_type kt)"
proof -
  have "\<not> strcasecmp_eq (kt_shortname kt) n" if "kt \<in> set keytypes" "\<not> kt_cert kt" for kt
    using bspec [OF short_names that(1)] that(2) assms strcasecmp_length [of "kt_shortname kt" n] by auto
  then have "find (\<lambda>kt. kt_name kt = Some n \<or> (\<not> kt_cert kt \<and> strcasecmp_eq (kt_shortname kt) n)) keytypes =
      find (\<lambda>kt. kt_name kt = Some n) keytypes" by (intro find_cong) auto
  then show ?thesis by (simp add: sshkey_type_from_name_def)
qed

lemmas key_table_simps = name_ok_def type_from_long_name sshkey_ssh_name_from_type_nid_def keytypes_def key_row_def
  NID_X9_62_prime256v1_def NID_secp384r1_def NID_secp521r1_def

lemma name_table:
  "list_all (\<lambda>t. name_ok t (the (sshkey_ssh_name_from_type_nid t (-1))))
     [KEY_RSA, KEY_DSA, KEY_RSA_CERT, KEY_DSA_CERT, KEY_RSA_CERT_V00, KEY_DSA_CERT_V00]"
  by (simp add: key_table_simps)

lemma name_table_ec:
  "list_all (\<lambda>nid. list_all (\<lambda>t. let n = the (sshkey_ssh_name_from_type_nid t nid) in
       name_ok t n \<and> sshkey_ecdsa_nid_from_name n = nid) [KEY_ECDSA, KEY_ECDSA_CERT] \<and>
     (let c = the (sshkey_curve_nid_to_name nid) in
       sshkey_curve_name_to_nid c = nid \<and> CHR 0x00 \<notin> set c \<and> length c \<le> 40)) ec_nids"
  by (simp add: key_table_simps ec_nids_def sshkey_ecdsa_nid_from_name_def sshkey_curve_nid_to_name_def
      sshkey_curve_name_to_nid_def)

lemma name_types:
  assumes "sshkey_type_plain t \<in> {KEY_RSA, KEY_DSA}"
  shows "name_ok t (the (sshkey_ssh_name_from_type_nid t (-1)))"
  using assms name_table by (cases t) simp_all

lemma name_types_ec:
  assumes "sshkey_type_plain t = KEY_ECDSA" "nid \<in> set ec_nids"
  shows "name_ok t (the (sshkey_ssh_name_from_type_nid t nid))"
    "sshkey_ecdsa_nid_from_name (the (sshkey_ssh_name_from_type_nid t nid)) = nid"
    "sshkey_curve_name_to_nid (the (sshkey_curve_nid_to_name nid)) = nid"
    "CHR 0x00 \<notin> set (the (sshkey_curve_nid_to_name nid))"
    "length (the (sshkey_curve_nid_to_name nid)) \<le> 40"
  using assms(1) bspec [OF name_table_ec [unfolded list_all_iff] assms(2)] by (cases t; simp add: Let_def)+

section \<open>Reading and writing the public part\<close>

lemma reads_err [reads_rules]: "reads f e v \<Longrightarrow> reads (act_err x f) e v"
  by (fastforce simp: reads_def act_err_def)

lemma takes_err [takes_rules]: "takes f n \<Longrightarrow> takes (act_err x f) n"
  unfolding takes_def by (auto simp: act_err_def split: prod.splits sum.splits)

lemma reads_key_bignum:
  assumes "bn_lib_ok (kl_bn L)" "bn_ok L v"
  shows "reads (key_bignum L) (bn_enc L v) v"
proof -
  have r: "reads (value_of (sshbuf_get_bignum2 (kl_bn L) True)) (bn_enc L v) v"
    unfolding bn_enc_def using assms by (intro bignum2_field.reads_get) (auto simp: bn_ok_def)
  have "key_bignum L b = (Inr v, b')" if "value_of (sshbuf_get_bignum2 (kl_bn L) True) b = (Inr v, b')" for b b'
    using that by (auto simp: value_of_def key_bignum_def act_simps split: prod.splits sum.splits)
  with r show ?thesis unfolding reads_def by blast
qed

lemma reads_key_skip: "length v < 2 ^ 32 \<Longrightarrow> reads key_skip (wire_string v) ()"
  using reads_skip [OF _ reads_return, of v "()"]
  by (fastforce simp: key_skip_def reads_def act_err_def act_simps split: prod.splits sum.splits)

lemma get_ec_some: "get_ec E d True g = Inr v \<Longrightarrow> v \<noteq> None"
  by (cases v) (simp_all add: get_ec_def split: if_splits option.splits)

lemma sshbuf_get_ec_some: "sshbuf_get_ec E True g b = (Inr v, b') \<Longrightarrow> v \<noteq> None"
  using get_ec_some by (fastforce simp: sshbuf_get_ec_def split: prod.splits sum.splits)

lemma reads_ec_point:
  assumes "ec_lib_ok E g q" "EC_oct_len E g q \<le> SSHBUF_MAX_ECPOINT"
  shows "reads (sshbuf_get_ec E True g) (wire_string (EC_point2oct E g q (EC_oct_len E g q))) (Some q)"
proof -
  have r: "reads (value_of (sshbuf_get_ec E True g)) (wire_string (EC_point2oct E g q (EC_oct_len E g q))) q"
    using assms by (intro ec_field.reads_get) auto
  have "sshbuf_get_ec E True g b = (Inr (Some q), b')" if "value_of (sshbuf_get_ec E True g) b = (Inr q, b')" for b b'
    using that sshbuf_get_ec_some [of E g b] by (cases "sshbuf_get_ec E True g b"; cases "fst (sshbuf_get_ec E True g b)")
      (auto simp: value_of_def act_simps)
  with r show ?thesis unfolding reads_def by blast
qed

lemma reads_fun: "(\<And>b. sshbuf_wf b \<Longrightarrow> f b = g b) \<Longrightarrow> reads g e v \<Longrightarrow> reads f e v"
  by (simp add: reads_def)

lemma reads_ec_material:
  assumes "\<forall>n. am n \<noteq> None" "nid \<in> set ec_nids" "ec_ok L nid ec"
  shows "reads (ec_material L am t nid)
    (wire_string (bytes_of (the (sshkey_curve_nid_to_name nid))) @
     wire_string (EC_point2oct (kl_ec L) (EC_key_group (kl_ec L) ec) (EC_key_public (kl_ec L) ec) (EC_oct_len (kl_ec L) (EC_key_group (kl_ec L) ec) (EC_key_public (kl_ec L) ec))))
    (Sshkey t None None nid (Some ec) (k_cert (sshkey_new L t)))"
proof -
  let ?g = "EC_key_group (kl_ec L) ec" and ?q = "EC_key_public (kl_ec L) ec" and ?c = "bytes_of (the (sshkey_curve_nid_to_name nid))"
  obtain ec0 where ok: "ec_lib_ok (kl_ec L) ?g ?q" "EC_oct_len (kl_ec L) ?g ?q \<le> SSHBUF_MAX_ECPOINT" "EC_point_new (kl_ec L) ?g"
    "sshkey_ec_validate_public L ?g ?q = Inr ()"
    and ec0: "kl_new_curve L nid = Some ec0" "EC_key_group (kl_ec L) ec0 = ?g" "EC_key_set_public (kl_ec L) ec0 ?q = Some ec"
    using assms(3) by (auto simp: ec_ok_def Let_def split: option.splits)
  have c: "0 \<notin> set ?c" "length ?c < 2 ^ 32" "sshkey_curve_name_to_nid (string_of ?c) = nid"
    using name_types_ec [of KEY_ECDSA nid] assms(2) by simp_all
  note first = reads_err [OF reads_cstring [OF assms(1) c(1,2)], of SSH_ERR_INVALID_FORMAT]
  let ?fin = "\<lambda>q b. if sshkey_ec_validate_public L ?g (the q) \<noteq> Inr () then (Inl SSH_ERR_KEY_INVALID_EC_VALUE, b)
    else case EC_key_set_public (kl_ec L) ec0 (the q) of None \<Rightarrow> (Inl SSH_ERR_ALLOC_FAIL, b)
    | Some ec' \<Rightarrow> (Inr (Sshkey t None None nid (Some ec') (k_cert (sshkey_new L t))), b)"
  have last: "reads (?fin (Some ?q)) [] (Sshkey t None None nid (Some ec) (k_cert (sshkey_new L t)))"
    using ok(4) ec0(3) by (auto simp: reads_def)
  note rest = reads_bind [where g = ?fin, OF reads_err [OF reads_ec_point [OF ok(1,2)], of SSH_ERR_INVALID_FORMAT] last]
  show ?thesis unfolding ec_material_def
    by (rule reads_bind [OF first], rule reads_fun [OF _ rest [simplified append_Nil2]])
      (use c ok(3) ec0(1,2) in \<open>simp add: Let_def\<close>)
qed

definition nonce_enc :: "('bn, 'k) sshkey \<Rightarrow> byte list \<Rightarrow> byte list" where
  "nonce_enc k nonce = (if sshkey_is_cert k \<and> \<not> sshkey_cert_is_legacy k then wire_string nonce else [])"

lemma has_nonce: "k_type k \<in> {KEY_RSA_CERT, KEY_DSA_CERT, KEY_ECDSA_CERT} \<longleftrightarrow> sshkey_is_cert k \<and> \<not> sshkey_cert_is_legacy k"
  by (cases "k_type k") (simp_all add: sshkey_is_cert_def sshkey_cert_is_legacy_def)

lemma new_cert: "k_cert (sshkey_new L (k_type k)) = (if sshkey_is_cert k then Some cert_new else None)"
  by (simp add: sshkey_new_def sshkey_is_cert_def Let_def)

lemma reads_nonce:
  "length nonce < 2 ^ 32 \<Longrightarrow> reads (if k_type k \<in> {KEY_RSA_CERT, KEY_DSA_CERT, KEY_ECDSA_CERT} then key_skip else act_return ())
    (nonce_enc k nonce) ()"
  unfolding nonce_enc_def has_nonce by (auto intro: reads_key_skip reads_return)

lemma key_name:
  assumes "key_pub_ok L k"
  shows "name_ok (k_type k) (the (sshkey_ssh_name k))"
    "sshkey_type_plain (k_type k) = KEY_ECDSA \<Longrightarrow> sshkey_ecdsa_nid_from_name (the (sshkey_ssh_name k)) = k_ecdsa_nid k"
  using assms name_types [of "k_type k"] name_types_ec [of "k_type k" "k_ecdsa_nid k"]
  by (auto simp: key_pub_ok_def sshkey_ssh_name_def Let_def)

lemma reads_key_bignums:
  assumes "bn_lib_ok (kl_bn L)" "bn_ok L x" "bn_ok L y"
  shows "reads (act_bind (key_bignum L) (\<lambda>x. act_bind (key_bignum L) (\<lambda>y. act_return (F x y)))) (bn_enc L x @ bn_enc L y) (F x y)"
    "reads (h x y) e w \<Longrightarrow> reads (act_bind (key_bignum L) (\<lambda>x. act_bind (key_bignum L) (\<lambda>y. h x y))) (bn_enc L x @ bn_enc L y @ e) w"
  by (auto intro!: reads_bind reads_map reads_key_bignum assms)

lemma reads_key_material:
  assumes "bn_lib_ok (kl_bn L)" "\<forall>n. am n \<noteq> None" "key_pub_ok L k" "length nonce < 2 ^ 32"
  shows "reads (key_material L am (the (sshkey_ssh_name k))) (nonce_enc k nonce @ pub_enc L k) (bare_key k)"
proof -
  let ?N = "if k_type k \<in> {KEY_RSA_CERT, KEY_DSA_CERT, KEY_ECDSA_CERT} then key_skip else act_return ()"
  let ?c = "k_cert (sshkey_new L (k_type k))" and ?n = "the (sshkey_ssh_name k)"
  have bare: "bare_key k = Sshkey (k_type k) (k_rsa k) (k_dsa k) (k_ecdsa_nid k) (k_ecdsa k) ?c"
    by (simp add: bare_key_def with_type_def new_cert)
  note nonce = reads_seq [OF reads_nonce [OF assms(4), of k]]
  have name: "sshkey_type_from_name (the (sshkey_ssh_name k)) = k_type k"
    using key_name(1) [OF assms(3)] by (simp add: name_ok_def)
  consider (rsa) e n where "sshkey_type_plain (k_type k) = KEY_RSA" "k_rsa k = Some (e, n)" "bn_ok L e" "bn_ok L n"
      "k_dsa k = None" "k_ecdsa_nid k = -1" "k_ecdsa k = None"
    | (dsa) p q g y where "sshkey_type_plain (k_type k) = KEY_DSA" "k_dsa k = Some (p, q, g, y)" "bn_ok L p" "bn_ok L q"
      "bn_ok L g" "bn_ok L y" "k_rsa k = None" "k_ecdsa_nid k = -1" "k_ecdsa k = None"
    | (ec) ec where "sshkey_type_plain (k_type k) = KEY_ECDSA" "k_ecdsa k = Some ec" "ec_ok L (k_ecdsa_nid k) ec"
      "k_rsa k = None" "k_dsa k = None" "k_ecdsa_nid k \<in> set ec_nids"
    using assms(3) by (auto simp: key_pub_ok_def Let_def)
  then show ?thesis
  proof cases
    case rsa
    note bn = reads_key_bignums(1) [OF assms(1) rsa(3,4), of "\<lambda>e n. Sshkey (k_type k) (Some (e, n)) None (-1) None ?c"]
    have "key_material L am ?n = act_seq ?N (act_bind (key_bignum L) (\<lambda>e. act_bind (key_bignum L) (\<lambda>n.
        act_return (Sshkey (k_type k) (Some (e, n)) None (-1) None ?c))))"
      using rsa(1) by (simp add: key_material_def name Let_def)
    then show ?thesis using nonce [OF bn] rsa by (simp add: pub_enc_def bare)
  next
    case dsa
    let ?F = "\<lambda>p q g y. Sshkey (k_type k) None (Some (p, q, g, y)) (-1) None ?c"
    note bn = reads_key_bignums(2) [where h = "\<lambda>p q. act_bind (key_bignum L) (\<lambda>g. act_bind (key_bignum L) (\<lambda>y. act_return (?F p q g y)))",
      OF assms(1) dsa(3,4) reads_key_bignums(1) [OF assms(1) dsa(5,6), of "?F p q"]]
    have "key_material L am ?n = act_seq ?N (act_bind (key_bignum L) (\<lambda>p. act_bind (key_bignum L) (\<lambda>q.
        act_bind (key_bignum L) (\<lambda>g. act_bind (key_bignum L) (\<lambda>y. act_return (?F p q g y))))))"
      using dsa(1) by (simp add: key_material_def name Let_def)
    then show ?thesis using nonce [OF bn] dsa by (simp add: pub_enc_def bare)
  next
    case ec
    have "key_material L am ?n = act_seq ?N (ec_material L am (k_type k) (k_ecdsa_nid k))"
      using ec(1) key_name(2) [OF assms(3) ec(1)] by (simp add: key_material_def name Let_def)
    then show ?thesis using nonce [OF reads_ec_material [OF assms(2) ec(6,3), of "k_type k"]] ec
      by (simp add: pub_enc_def bare Let_def)
  qed
qed

end
