(* ===== verification/Sshkey_Cert.thy ===== *)
theory Sshkey_Cert
  imports Sshkey_Blob
begin

text \<open>
  Keys and certificates through the wire format: what is written is read back, what is
  accepted as a certificate has been checked, and reading ends.
\<close>

section \<open>Writing keys\<close>

lemma buf_with_ok: "\<forall>n. am n \<noteq> None \<Longrightarrow> length d \<le> SSHBUF_SIZE_MAX \<Longrightarrow> buf_with am d = Inr d"
proof -
  assume am: "\<forall>n. am n \<noteq> None" and d: "length d \<le> SSHBUF_SIZE_MAX"
  from new_total [OF am] obtain b where b: "sshbuf_new am = Some b" by auto
  obtain b' where "sshbuf_put am d b = (Inr (), b')" "ready b'" "contents b' = d"
    using writesD [OF writes_put [OF am], of b d] ready_new [OF b] d by auto
  then show ?thesis using b by (simp add: buf_with_def ready_wf)
qed

lemma buf_with_val: "buf_with am d = Inr d' \<Longrightarrow> d' = d"
proof -
  assume a: "buf_with am d = Inr d'"
  then obtain b b' v where b: "sshbuf_new am = Some b" "sshbuf_put am d b = (Inr v, b')" "d' = sshbuf_bytes b'"
    by (auto simp: buf_with_def split: option.splits prod.splits sum.splits)
  have "sshbuf_wf b'" "contents b' = contents b @ d"
    using put_cases [OF ready_wf b(2)] ready_new [OF b(1)] by auto
  then show ?thesis using b(3) ready_new [OF b(1)] by simp
qed

lemma key_pub_cases:
  assumes "key_pub_ok L k"
  obtains (rsa) e n where "sshkey_type_plain (k_type k) = KEY_RSA" "k_rsa k = Some (e, n)" "bn_ok L e" "bn_ok L n"
      "k_dsa k = None" "k_ecdsa_nid k = -1" "k_ecdsa k = None"
    | (dsa) p q g y where "sshkey_type_plain (k_type k) = KEY_DSA" "k_dsa k = Some (p, q, g, y)" "bn_ok L p" "bn_ok L q"
      "bn_ok L g" "bn_ok L y" "k_rsa k = None" "k_ecdsa_nid k = -1" "k_ecdsa k = None"
    | (ec) ec where "sshkey_type_plain (k_type k) = KEY_ECDSA" "k_ecdsa k = Some ec" "ec_ok L (k_ecdsa_nid k) ec"
      "k_rsa k = None" "k_dsa k = None" "k_ecdsa_nid k \<in> set ec_nids"
  using assms by (auto simp: key_pub_ok_def Let_def)

lemma writes_name:
  assumes "\<forall>n. am n \<noteq> None" "key_pub_ok L k"
  shows "writes (sshbuf_put_cstring am (bytes_of (the (sshkey_ssh_name k)))) (name_enc k)"
  using key_name(1) [OF assms(2)] unfolding name_enc_def by (intro writes_cstring assms(1)) (simp add: name_ok_def)

lemma writes_bn:
  "\<forall>n. am n \<noteq> None \<Longrightarrow> bn_lib_ok (kl_bn L) \<Longrightarrow> bn_ok L v \<Longrightarrow> writes (sshbuf_put_bignum2 (kl_bn L) am v) (bn_enc L v)"
  unfolding bn_enc_def bn_ok_def by (intro writes_bignum2) auto

lemma writes_curve:
  assumes "\<forall>n. am n \<noteq> None" "nid \<in> set ec_nids"
  shows "writes (sshbuf_put_cstring am (bytes_of (the (sshkey_curve_nid_to_name nid))))
    (wire_string (bytes_of (the (sshkey_curve_nid_to_name nid))))"
  using name_types_ec(4) [of KEY_ECDSA nid] assms(2) by (intro writes_cstring assms(1)) simp

lemma writes_point:
  assumes "\<forall>n. am n \<noteq> None" "ec_ok L nid ec" "E = kl_ec L"
  shows "writes (sshbuf_put_ec E am (EC_key_public E ec) (EC_key_group E ec))
    (wire_string (EC_point2oct E (EC_key_group E ec) (EC_key_public E ec) (EC_oct_len E (EC_key_group E ec) (EC_key_public E ec))))"
  using assms(2,3) by (intro writes_ec assms(1)) (auto simp: ec_ok_def Let_def sshkey_ec_validate_public_def split: if_splits)

lemma writes_key:
  assumes "\<forall>n. am n \<noteq> None" "bn_lib_ok (kl_bn L)" "key_pub_ok L k" "\<not> sshkey_is_cert k"
  shows "writes (to_blob_buf L am k fp) (name_enc k @ pub_enc L k)"
proof -
  have plain: "sshkey_type_plain (k_type k) = k_type k"
    using assms(4) by (cases "k_type k") (simp_all add: sshkey_is_cert_def)
  note name = writes_name [OF assms(1,3), unfolded sshkey_ssh_name_def]
  from assms(3) show ?thesis
  proof (cases rule: key_pub_cases)
    case (rsa e n)
    have "writes (act_all [sshbuf_put_cstring am (bytes_of (the (sshkey_ssh_name_from_type_nid (k_type k) (k_ecdsa_nid k)))),
        sshbuf_put_bignum2 (kl_bn L) am e, sshbuf_put_bignum2 (kl_bn L) am n]) (name_enc k @ bn_enc L e @ bn_enc L n)"
      unfolding act_all.simps by (intro writes_seq name writes_bn writes_last assms(1,2) rsa)
    then show ?thesis using rsa plain by (simp add: to_blob_buf_def pub_enc_def Let_def)
  next
    case (dsa p q g y)
    have "writes (act_all [sshbuf_put_cstring am (bytes_of (the (sshkey_ssh_name_from_type_nid (k_type k) (k_ecdsa_nid k)))),
        sshbuf_put_bignum2 (kl_bn L) am p, sshbuf_put_bignum2 (kl_bn L) am q, sshbuf_put_bignum2 (kl_bn L) am g,
        sshbuf_put_bignum2 (kl_bn L) am y]) (name_enc k @ bn_enc L p @ bn_enc L q @ bn_enc L g @ bn_enc L y)"
      unfolding act_all.simps by (intro writes_seq name writes_bn writes_last assms(1,2) dsa)
    then show ?thesis using dsa plain by (simp add: to_blob_buf_def pub_enc_def Let_def)
  next
    case (ec ec)
    let ?c = "bytes_of (the (sshkey_curve_nid_to_name (k_ecdsa_nid k)))" and ?g = "EC_key_group (kl_ec L) ec"
      and ?q = "EC_key_public (kl_ec L) ec"
    have "writes (act_all [sshbuf_put_cstring am (bytes_of (the (sshkey_ssh_name_from_type_nid (k_type k) (k_ecdsa_nid k)))),
        sshbuf_put_cstring am ?c, sshbuf_put_eckey (kl_ec L) am ec])
        (name_enc k @ wire_string ?c @ wire_string (EC_point2oct (kl_ec L) ?g ?q (EC_oct_len (kl_ec L) ?g ?q)))"
      unfolding act_all.simps sshbuf_put_eckey_def
      by (intro writes_seq name writes_curve ec(6) writes_point [OF assms(1) ec(3) refl] writes_last assms(1))
    then show ?thesis using ec plain by (simp add: to_blob_buf_def pub_enc_def Let_def)
  qed
qed

lemma pub_enc_small:
  assumes "key_pub_ok L k"
  shows "length (name_enc k) \<le> 44" "length (pub_enc L k) \<le> 4112"
proof -
  show "length (name_enc k) \<le> 44" using key_name(1) [OF assms] by (simp add: name_enc_def name_ok_def)
  from assms show "length (pub_enc L k) \<le> 4112"
  proof (cases rule: key_pub_cases)
    case (ec ec)
    then have "length (EC_point2oct (kl_ec L) (EC_key_group (kl_ec L) ec) (EC_key_public (kl_ec L) ec)
        (EC_oct_len (kl_ec L) (EC_key_group (kl_ec L) ec) (EC_key_public (kl_ec L) ec))) \<le> 133"
      by (simp add: ec_ok_def ec_lib_ok_def Let_def SSHBUF_MAX_ECPOINT_def)
    then show ?thesis using ec name_types_ec(5) [OF ec(1,6)] by (simp add: pub_enc_def Let_def)
  qed (auto simp: pub_enc_def bn_enc_def bn_ok_def SSHBUF_MAX_BIGNUM_def)
qed

lemma key_blob_fits: "key_pub_ok L k \<Longrightarrow> length (name_enc k @ pub_enc L k) \<le> SSHBUF_SIZE_MAX"
  using pub_enc_small [of L k] by (simp add: SSHBUF_SIZE_MAX_def)

lemma to_blob_enc:
  assumes "\<forall>n. am n \<noteq> None" "bn_lib_ok (kl_bn L)" "key_pub_ok L k" "\<not> sshkey_is_cert k"
  shows "to_blob L am k fp = Inr (name_enc k @ pub_enc L k)"
proof -
  obtain b0 where b0: "sshbuf_new am = Some b0" using new_total [OF assms(1)] by auto
  obtain b where "to_blob_buf L am k fp b0 = (Inr (), b)" "ready b" "contents b = name_enc k @ pub_enc L k"
    using writesD [OF writes_key [OF assms], of b0] ready_new [OF b0] key_blob_fits [OF assms(3)] by auto
  then show ?thesis using b0 assms(1) by (simp add: to_blob_def ready_wf)
qed

section \<open>Reading keys\<close>

text \<open>Reading a blob up to the end of its public part.\<close>

lemma from_blob_public:
  assumes "bn_lib_ok (kl_bn L)" "\<forall>n. am n \<noteq> None" "key_pub_ok L k" "length nonce < 2 ^ 32"
    "blob = name_enc k @ nonce_enc k nonce @ pub_enc L k @ rest" "length blob \<le> SSHBUF_SIZE_MAX"
  shows "\<exists>b. sshbuf_wf b \<and> contents b = rest \<and> from_blob_depth (Suc n) L am blob =
    fst (act_bind (if sshkey_is_cert k then cert_parse L am (from_blob_depth n L am) (bare_key k) blob else act_return (bare_key k))
      (\<lambda>key b. if sshbuf_len b \<noteq> 0 then (Inl SSH_ERR_INVALID_FORMAT, b) else (Inr key, b)) b)"
proof -
  let ?n = "bytes_of (the (sshkey_ssh_name k))"
  from new_total [OF assms(2)] obtain b0 where b0: "sshbuf_new am = Some b0" by auto
  then obtain b1 where b1: "sshbuf_put am blob b0 = (Inr (), b1)" "ready b1" "contents b1 = blob"
    using writesD [OF writes_put [OF assms(2)], of b0 blob] ready_new [OF b0] assms(6) by auto
  have name: "0 \<notin> set ?n" "length ?n < 2 ^ 32" using key_name(1) [OF assms(3)] by (simp_all add: name_ok_def)
  obtain b2 where b2: "act_err SSH_ERR_INVALID_FORMAT (sshbuf_get_cstring am) b1 = (Inr ?n, b2)" "sshbuf_wf b2"
      "contents b2 = nonce_enc k nonce @ pub_enc L k @ rest"
    by (rule readsD [OF reads_err [OF reads_cstring [OF assms(2) name]] ready_wf [OF b1(2)]])
      (use b1(3) assms(5) in \<open>auto simp: name_enc_def\<close>)
  obtain b3 where b3: "key_material L am (the (sshkey_ssh_name k)) b2 = (Inr (bare_key k), b3)" "sshbuf_wf b3" "contents b3 = rest"
    by (rule readsD [OF reads_key_material [OF assms(1-4)] b2(2), of rest]) (use b2(3) in auto)
  have "sshkey_is_cert (bare_key k) = sshkey_is_cert k" by (simp add: bare_key_def with_type_def sshkey_is_cert_def)
  then show ?thesis using b0 b1(1) b2(1) b3 name
    by (intro exI [of _ b3]) (simp add: from_blob_body_def act_bind_run [of _ _ b2] act_seq_run act_bind_run [of _ _ b1])
qed

lemma from_blob_plain:
  assumes "bn_lib_ok (kl_bn L)" "\<forall>n. am n \<noteq> None" "key_pub_ok L k" "\<not> sshkey_is_cert k" "k_cert k = None"
  shows "from_blob_depth (Suc n) L am (name_enc k @ pub_enc L k) = Inr k"
proof -
  have "nonce_enc k [] = []" using assms(4) by (simp add: nonce_enc_def)
  moreover have "bare_key k = k" using assms(4,5) by (cases k) (simp add: bare_key_def with_type_def)
  ultimately show ?thesis using from_blob_public [OF assms(1-3), of "[]" "name_enc k @ pub_enc L k" "[]" n] assms(4) key_blob_fits [OF assms(3)]
    by (auto simp: act_simps simp del: length_contents)
qed

section \<open>Reading certificates\<close>

definition options_enc :: "(byte list \<times> byte list) list \<Rightarrow> byte list" where
  "options_enc xs = concat (map (\<lambda>(n, v). wire_string n @ wire_string v) xs)"

definition options_ok :: "(byte list \<times> byte list) list \<Rightarrow> bool" where
  "options_ok xs \<longleftrightarrow> list_all (\<lambda>(n, v). length n < 2 ^ 32 \<and> length v < 2 ^ 32) xs"

lemma options_enc_simps [simp]:
  "options_enc [] = []" "options_enc (x # xs) = wire_string (fst x) @ wire_string (snd x) @ options_enc xs"
  by (simp_all add: options_enc_def split: prod.splits)

lemma length_options_enc: "length xs \<le> length (options_enc xs)"
  by (induction xs) auto

lemma reads_principals:
  assumes "\<forall>n. am n \<noteq> None" "sshbuf_wf b" "contents b = concat (map wire_string ps)" "length ps \<le> n"
    "list_all (\<lambda>p. 0 \<notin> set p \<and> length p < 2 ^ 32) ps"
  shows "\<exists>b'. cert_principals am n b = (Inr ps, b') \<and> sshbuf_wf b' \<and> same_frame b b'"
  using assms(2-5)
proof (induction ps arbitrary: n b)
  case Nil
  then show ?case by (simp add: cert_principals.simps [of am n b] del: length_contents)
next
  case (Cons p ps)
  obtain b1 where b1: "sshbuf_get_cstring am b = (Inr p, b1)" "sshbuf_wf b1" "same_frame b b1" "contents b1 = concat (map wire_string ps)"
    by (rule readsD [OF reads_cstring [OF assms(1), of p] Cons.prems(1)]) (use Cons.prems in auto)
  obtain b2 where "cert_principals am (n - 1) b1 = (Inr ps, b2)" "sshbuf_wf b2" "same_frame b1 b2"
    using Cons.IH [OF b1(2,4), of "n - 1"] Cons.prems(3,4) by (cases n) auto
  moreover have "sshbuf_len b \<noteq> 0" using Cons.prems(1,2) by (simp del: length_contents)
  ultimately show ?case using b1 Cons.prems(3) assms(1)
    by (auto simp: cert_principals.simps [of am n b] intro: same_frame_trans)
qed

lemma reads_options:
  assumes "sshbuf_wf b" "contents b = options_enc xs" "length xs \<le> n" "options_ok xs"
  shows "\<exists>b'. cert_options n b = (Inr (), b') \<and> sshbuf_wf b' \<and> same_frame b b'"
  using assms
proof (induction xs arbitrary: n b)
  case Nil
  then show ?case by (simp add: cert_options.simps [of n b] del: length_contents)
next
  case (Cons x xs)
  let ?two = "act_seq sshbuf_get_string_direct (act_seq sshbuf_get_string_direct (act_return ()))"
  have ok: "length (fst x) < 2 ^ 32" "length (snd x) < 2 ^ 32" "options_ok xs"
    using Cons.prems(4) by (simp_all add: options_ok_def split: prod.splits)
  have c: "contents b = (wire_string (fst x) @ wire_string (snd x) @ []) @ options_enc xs" using Cons.prems(2) by simp
  obtain b1 where b1: "?two b = (Inr (), b1)" "sshbuf_wf b1" "same_frame b b1" "contents b1 = options_enc xs"
    by (rule readsD [OF reads_skip [OF ok(1) reads_skip [OF ok(2) reads_return]] Cons.prems(1) c])
  obtain v where "act_seq sshbuf_get_string_direct sshbuf_get_string_direct b = (Inr v, b1)"
    using b1(1) by (auto simp: act_simps split: prod.splits sum.splits)
  moreover obtain b2 where "cert_options (n - 1) b1 = (Inr (), b2)" "sshbuf_wf b2" "same_frame b1 b2"
    using Cons.IH [OF b1(2,4), of "n - 1"] Cons.prems(3) ok(3) by (cases n) auto
  moreover have "sshbuf_len b \<noteq> 0" using Cons.prems(1) c by (simp del: length_contents)
  ultimately show ?case using b1(3) Cons.prems(3)
    by (auto simp: cert_options.simps [of n b] act_err_def act_seq_run [of "act_err SSH_ERR_INVALID_FORMAT _"] intro: same_frame_trans)
qed

lemma options_check:
  assumes "ready b" "contents b = []" "\<forall>n. am n \<noteq> None" "options_ok xs" "length (options_enc xs) \<le> SSHBUF_SIZE_MAX"
  shows "\<exists>b1 b2. sshbuf_put am (options_enc xs) b = (Inr (), b1) \<and> cert_options (sshbuf_len b1) b1 = (Inr (), b2) \<and>
    ready (sshbuf_reset am b2) \<and> contents (sshbuf_reset am b2) = []"
proof -
  obtain b1 where b1: "sshbuf_put am (options_enc xs) b = (Inr (), b1)" "ready b1" "contents b1 = options_enc xs"
    using writesD [OF writes_put [OF assms(3)] assms(1), of "options_enc xs"] assms(2,5) by auto
  have "length xs \<le> sshbuf_len b1" using b1(3) ready_wf [OF b1(2)] length_options_enc [of xs] by (simp del: length_contents)
  from reads_options [OF ready_wf [OF b1(2)] b1(3) this assms(4)]
  obtain b2 where "cert_options (sshbuf_len b1) b1 = (Inr (), b2)" "sshbuf_wf b2" "same_frame b1 b2" by auto
  with b1 ready_frame [OF b1(2)] ready_reset [of b2 am] show ?thesis by auto
qed

lemma cert_lists_ok:
  assumes "ready tmp" "contents tmp = []" "\<forall>n. am n \<noteq> None"
    "length ps \<le> SSHKEY_CERT_MAX_PRINCIPALS" "list_all (\<lambda>p. 0 \<notin> set p \<and> length p < 2 ^ 32) ps"
    "length (concat (map wire_string ps)) \<le> SSHBUF_SIZE_MAX" "options_ok xs" "length (options_enc xs) \<le> SSHBUF_SIZE_MAX"
    "options_ok ys" "length (options_enc ys) \<le> SSHBUF_SIZE_MAX"
  shows "fst (cert_lists am (concat (map wire_string ps)) (options_enc xs) (options_enc ys) tmp) = Inr (ps, options_enc xs, options_enc ys)"
proof -
  obtain t1 where t1: "sshbuf_put am (concat (map wire_string ps)) tmp = (Inr (), t1)" "ready t1" "contents t1 = concat (map wire_string ps)"
    using writesD [OF writes_put [OF assms(3)] assms(1), of "concat (map wire_string ps)"] assms(2,6) by auto
  obtain t2 where t2: "cert_principals am SSHKEY_CERT_MAX_PRINCIPALS t1 = (Inr ps, t2)" "sshbuf_wf t2" "same_frame t1 t2"
    using reads_principals [OF assms(3) ready_wf [OF t1(2)] t1(3) assms(4,5)] by auto
  let ?t3 = "sshbuf_reset am t2"
  have t3: "ready ?t3" "contents ?t3 = []" using ready_reset [of t2 am] ready_frame [OF t1(2) t2(2,3)] by auto
  obtain t4 t5 where t5: "sshbuf_put am (options_enc xs) ?t3 = (Inr (), t4)" "cert_options (sshbuf_len t4) t4 = (Inr (), t5)"
    "ready (sshbuf_reset am t5)" "contents (sshbuf_reset am t5) = []"
    using options_check [OF t3 assms(3,7,8)] by auto
  obtain t6 t7 where t7: "sshbuf_put am (options_enc ys) (sshbuf_reset am t5) = (Inr (), t6)" "cert_options (sshbuf_len t6) t6 = (Inr (), t7)"
    using options_check [OF t5(3,4) assms(3,9,10)] by auto
  show ?thesis using t1(1) t2(1) t5 t7 buf_with_ok [OF assms(3,8)] buf_with_ok [OF assms(3,10)]
    by (simp add: cert_lists_def act_simps sshbuf_clear_def)
qed

text \<open>What is signed of a certificate, after the public key.\<close>

definition cert_enc :: "bool \<Rightarrow> byte list \<Rightarrow> ('bn, 'k) sshkey_cert \<Rightarrow> byte list \<Rightarrow> byte list" where
  "cert_enc legacy nonce c ca_blob =
     (if legacy then [] else POKE_U64 (c_serial c)) @ POKE_U32 (ucast (c_type c)) @ wire_string (the (c_key_id c)) @
     wire_string (concat (map wire_string (c_principals c))) @ POKE_U64 (c_valid_after c) @ POKE_U64 (c_valid_before c) @
     wire_string (c_critical c) @ wire_string (if legacy then nonce else c_extensions c) @ wire_string [] @ wire_string ca_blob"

definition fields_of :: "('bn, 'k) sshkey_cert \<Rightarrow> byte list \<Rightarrow> cert_fields" where
  "fields_of c ca_blob =
     \<lparr>cf_serial = c_serial c, cf_type = c_type c, cf_key_id = the (c_key_id c),
      cf_principals = concat (map wire_string (c_principals c)), cf_valid_after = c_valid_after c,
      cf_valid_before = c_valid_before c, cf_critical = c_critical c, cf_exts = c_extensions c, cf_sig_key = ca_blob\<rparr>"

text \<open>A certificate that can be written: the older format has no serial number and no extensions.\<close>

definition cert_ok :: "bool \<Rightarrow> ('bn, 'k) sshkey_cert \<Rightarrow> bool" where
  "cert_ok legacy c \<longleftrightarrow>
     c_type c \<in> {SSH2_CERT_TYPE_USER, SSH2_CERT_TYPE_HOST} \<and> c_key_id c \<noteq> None \<and> 0 \<notin> set (the (c_key_id c)) \<and>
     length (c_principals c) \<le> SSHKEY_CERT_MAX_PRINCIPALS \<and> list_all (\<lambda>p. 0 \<notin> set p) (c_principals c) \<and>
     (\<exists>xs. c_critical c = options_enc xs) \<and> (\<exists>xs. c_extensions c = options_enc xs) \<and>
     (legacy \<longrightarrow> c_serial c = 0 \<and> c_extensions c = [])"

lemma act_return_seq [simp]: "act_bind (act_return v) g = g v" "act_seq (act_return w) f = f"
  by (simp_all add: act_bind_def act_seq_def act_return_def)

lemma act_seq_skip [simp]: "act_seq (act_seq f (act_return v)) g = act_seq f g"
  by (rule ext) (simp add: act_simps split: prod.splits sum.splits)

lemma reads_cert_fields:
  assumes "\<forall>n. am n \<noteq> None" "cert_ok legacy c" "length (cert_enc legacy nonce c ca_blob) < 2 ^ 32"
  shows "reads (get_cert_fields am legacy) (cert_enc legacy nonce c ca_blob) (fields_of c ca_blob)"
proof -
  have kid: "0 \<notin> set (the (c_key_id c))" and leg: "legacy \<longrightarrow> c_serial c = 0 \<and> c_extensions c = []"
    using assms(2) by (simp_all add: cert_ok_def)
  have len: "length (the (c_key_id c)) < 2 ^ 32" "length (concat (map wire_string (c_principals c))) < 2 ^ 32"
    "length (c_critical c) < 2 ^ 32" "length (if legacy then nonce else c_extensions c) < 2 ^ 32" "length ([] :: byte list) < 2 ^ 32"
    "length ca_blob < 2 ^ 32"
    using assms(3) by (simp_all add: cert_enc_def split: if_splits)
  note string = reads_string [OF assms(1)] and cstring = reads_cstring [OF assms(1) kid len(1)]
  show ?thesis
  proof (cases legacy)
    case True
    show ?thesis unfolding get_cert_fields_def cert_enc_def fields_of_def if_P [OF True]
      using True leg len by (simp del: length_concat)
        (rule reads_map reads_bind reads_skip reads_u32 reads_u64 cstring string | simp)+
  next
    case False
    then show ?thesis unfolding get_cert_fields_def cert_enc_def fields_of_def
      using False len by (simp del: length_concat)
        (rule reads_map reads_bind reads_skip reads_u32 reads_u64 cstring string | simp)+
  qed
qed

lemma option_strings: "length (options_enc xs) < 2 ^ 32 \<Longrightarrow> options_ok xs"
  by (induction xs) (auto simp: options_ok_def)

lemma principal_strings: "length (concat (map wire_string ps)) < 2 ^ 32 \<Longrightarrow> list_all (\<lambda>p. length p < 2 ^ 32) ps"
  by (induction ps) auto

definition cert_signed :: "('bn, 'k) sshkey_cert \<Rightarrow> byte list \<Rightarrow> ('bn, 'k) sshkey \<Rightarrow> ('bn, 'k) sshkey_cert" where
  "cert_signed c blob ca =
     Sshkey_cert blob (c_type c) (c_serial c) (c_key_id c) (c_principals c) (c_valid_after c) (c_valid_before c)
       (c_critical c) (c_extensions c) (Some ca)"

lemma cert_lists_enc:
  assumes "\<forall>n. am n \<noteq> None" "ready tmp" "contents tmp = []" "cert_ok legacy c"
    "length (cert_enc legacy nonce c ca_blob) \<le> SSHBUF_SIZE_MAX"
  shows "fst (cert_lists am (concat (map wire_string (c_principals c))) (c_critical c) (c_extensions c) tmp) =
    Inr (c_principals c, c_critical c, c_extensions c)"
proof -
  obtain xs ys where o: "c_critical c = options_enc xs" "c_extensions c = options_enc ys"
    using assms(4) by (auto simp: cert_ok_def)
  have len: "length (concat (map wire_string (c_principals c))) \<le> SSHBUF_SIZE_MAX" "length (options_enc xs) \<le> SSHBUF_SIZE_MAX"
    "length (options_enc ys) \<le> SSHBUF_SIZE_MAX"
    using assms(4,5) o by (auto simp: cert_enc_def cert_ok_def split: if_splits simp del: length_concat)
  have max: "SSHBUF_SIZE_MAX < 2 ^ 32" by (simp add: SSHBUF_SIZE_MAX_def)
  have ps: "list_all (\<lambda>p. 0 \<notin> set p \<and> length p < 2 ^ 32) (c_principals c)"
    using principal_strings [OF le_less_trans [OF len(1) max]] assms(4) by (auto simp: cert_ok_def list_all_iff)
  have "length (c_principals c) \<le> SSHKEY_CERT_MAX_PRINCIPALS" using assms(4) by (simp add: cert_ok_def)
  from cert_lists_ok [OF assms(2,3,1) this ps len(1) option_strings len(2) option_strings len(3)] len max
  show ?thesis by (simp add: o del: length_concat)
qed

lemma cert_parse_enc:
  assumes "\<forall>n. am n \<noteq> None" "cert_ok legacy c" "sshkey_cert_is_legacy key = legacy" "sshbuf_wf b"
    "blob = front @ cert_enc legacy nonce c ca_blob @ wire_string sig" "length blob \<le> SSHBUF_SIZE_MAX"
    "contents b = cert_enc legacy nonce c ca_blob @ wire_string sig"
    "from_blob ca_blob = Inr ca" "k_type ca \<in> {KEY_RSA, KEY_DSA, KEY_ECDSA}"
    "sshkey_verify L ca sig (front @ cert_enc legacy nonce c ca_blob) 0 = Inr ()"
  shows "\<exists>b'. cert_parse L am from_blob key blob b = (Inr (with_type (k_type key) (Some (cert_signed c blob ca)) key), b') \<and>
    sshbuf_wf b' \<and> contents b' = []"
proof -
  let ?e = "cert_enc legacy nonce c ca_blob"
  have max: "SSHBUF_SIZE_MAX < 2 ^ 32" by (simp add: SSHBUF_SIZE_MAX_def)
  have len: "length ?e \<le> SSHBUF_SIZE_MAX" "length ?e < 2 ^ 32" "length sig < 2 ^ 32" using assms(5,6) max by simp_all
  obtain tmp where tmp: "sshbuf_new am = Some tmp" using new_total [OF assms(1)] by auto
  obtain b1 where b1: "act_err SSH_ERR_INVALID_FORMAT (get_cert_fields am legacy) b = (Inr (fields_of c ca_blob), b1)"
    "sshbuf_wf b1" "contents b1 = wire_string sig"
    by (rule readsD [OF reads_err [OF reads_cert_fields [OF assms(1,2) len(2)]] assms(4,7)])
  obtain b2 where b2: "act_err SSH_ERR_INVALID_FORMAT (sshbuf_get_string am) b1 = (Inr sig, b2)" "sshbuf_wf b2" "contents b2 = []"
    by (rule readsD [OF reads_err [OF reads_string [OF assms(1) len(3)]] b1(2), of "[]"]) (use b1(3) in auto)
  have "take (length blob - sshbuf_len b1) blob = front @ ?e" using b1(2,3) assms(5) by (simp del: length_contents)
  moreover have "fst (cert_lists am (cf_principals (fields_of c ca_blob)) (cf_critical (fields_of c ca_blob)) (cf_exts (fields_of c ca_blob)) tmp) =
      Inr (c_principals c, c_critical c, c_extensions c)"
    using cert_lists_enc [OF assms(1) _ _ assms(2) len(1), of tmp] ready_new [OF tmp] by (simp add: fields_of_def)
  ultimately have "cert_finish L am from_blob tmp key blob (length blob - sshbuf_len b1) (fields_of c ca_blob) sig =
      Inr (with_type (k_type key) (Some (cert_signed c blob ca)) key)"
    using assms(2,8-10) by (auto simp: cert_finish_def fields_of_def cert_signed_def cert_ok_def)
  with b1(1) b2 tmp buf_with_ok [OF assms(1,6)] assms(3) show ?thesis
    by (simp add: cert_parse_def act_bind_run [of _ _ b] act_bind_run [of _ _ b1])
qed

section \<open>Writing certificates\<close>

lemma act_seq_assoc: "act_seq (act_seq f g) h = act_seq f (act_seq g h)"
  by (rule ext) (simp add: act_simps split: prod.splits sum.splits)

lemma principals_blob_enc:
  assumes "\<forall>n. am n \<noteq> None" "list_all (\<lambda>p. 0 \<notin> set p) ps" "length (concat (map wire_string ps)) \<le> SSHBUF_SIZE_MAX"
  shows "principals_blob am ps = Inr (concat (map wire_string ps))"
proof -
  obtain b0 where b0: "sshbuf_new am = Some b0" using new_total [OF assms(1)] by auto
  obtain b where "act_all (map (sshbuf_put_cstring am) ps) b0 = (Inr (), b)" "ready b" "contents b = concat (map wire_string ps)"
    using writesD [OF writes_list [OF assms(1,2)], of b0] ready_new [OF b0] assms(3) by auto
  then show ?thesis using b0 by (simp add: principals_blob_def ready_wf)
qed

text \<open>What is written before the signature.\<close>

definition certify_puts ::
  "allocator \<Rightarrow> byte list \<Rightarrow> bool \<Rightarrow> ('bn, 'k) sshkey_cert \<Rightarrow> byte list \<Rightarrow> byte list \<Rightarrow> (ssh_err, sshbuf, unit) action" where
  "certify_puts am nonce legacy c ca_blob ps =
     act_seq (if legacy then act_return () else sshbuf_put_u64 am (c_serial c))
     (act_seq (sshbuf_put_u32 am (c_type c)) (act_seq (sshbuf_put_cstring am (the (c_key_id c)))
      (act_seq (sshbuf_put_string am ps) (act_seq (sshbuf_put_u64 am (c_valid_after c))
      (act_seq (sshbuf_put_u64 am (c_valid_before c)) (act_seq (sshbuf_put_string am (c_critical c))
      (act_seq (sshbuf_put_string am (if legacy then nonce else c_extensions c))
      (act_seq (sshbuf_put_string am []) (sshbuf_put_string am ca_blob)))))))))"

lemma certify_back_split:
  assumes "principals_blob am (c_principals c) = Inr ps"
  shows "certify_back am sign nonce legacy c ca ca_blob =
    act_seq (certify_puts am nonce legacy c ca_blob ps)
      (\<lambda>b. case sshkey_sign sign ca (sshbuf_bytes b) 0 of Inl e \<Rightarrow> (Inl e, b) | Inr sig \<Rightarrow> sshbuf_put_string am sig b)"
proof -
  have "act_bind (\<lambda>b. (Inr ps, b)) h = h ps" for h :: "byte list \<Rightarrow> (ssh_err, sshbuf, unit) action"
    by (simp add: act_bind_def)
  then show ?thesis by (simp add: certify_back_def certify_puts_def act_seq_assoc assms)
qed

lemma writes_certify_puts:
  assumes "\<forall>n. am n \<noteq> None" "cert_ok legacy c" "ps = concat (map wire_string (c_principals c))"
  shows "writes (certify_puts am nonce legacy c ca_blob ps) (cert_enc legacy nonce c ca_blob)"
proof -
  have "writes (if legacy then act_return () else sshbuf_put_u64 am (c_serial c)) (if legacy then [] else POKE_U64 (c_serial c))"
    by (simp add: writes_return writes_int [OF assms(1)])
  moreover have "0 \<notin> set (the (c_key_id c))" using assms(2) by (simp add: cert_ok_def)
  ultimately show ?thesis unfolding certify_puts_def cert_enc_def assms(3)
    by (intro writes_seq writes_int writes_string writes_cstring assms(1))
qed

lemma certify_back_enc:
  assumes "\<forall>n. am n \<noteq> None" "ready b" "cert_ok legacy c" "e = cert_enc legacy nonce c ca_blob"
    "sshkey_sign sign ca (contents b @ e) 0 = Inr sig" "length (contents b @ e @ wire_string sig) \<le> SSHBUF_SIZE_MAX"
  shows "\<exists>b'. certify_back am sign nonce legacy c ca ca_blob b = (Inr (), b') \<and> contents b' = contents b @ e @ wire_string sig"
proof -
  let ?ps = "concat (map wire_string (c_principals c))"
  have "length (wire_string ?ps) \<le> length e" by (simp add: assms(4) cert_enc_def del: length_concat)
  then have len: "length ?ps \<le> SSHBUF_SIZE_MAX" using assms(6) by (simp del: length_contents length_concat)
  have "list_all (\<lambda>p. 0 \<notin> set p) (c_principals c)" using assms(3) by (simp add: cert_ok_def)
  note ps = principals_blob_enc [OF assms(1) this len]
  obtain b1 where b1: "certify_puts am nonce legacy c ca_blob ?ps b = (Inr (), b1)" "ready b1" "contents b1 = contents b @ e"
    using writesD [OF writes_certify_puts [OF assms(1,3) refl, of nonce ca_blob] assms(2)] assms(4,6) by (auto simp del: length_contents)
  obtain b2 where "sshbuf_put_string am sig b1 = (Inr (), b2)" "contents b2 = contents b @ e @ wire_string sig"
    using writesD [OF writes_string [OF assms(1), of sig] b1(2)] b1(3) assms(6) by (auto simp del: length_contents)
  then show ?thesis using b1 assms(5) by (simp add: certify_back_split [OF ps] act_seq_run ready_wf)
qed

text \<open>The part before \<open>n\<close>, and \<open>n\<close>.\<close>

definition front_enc :: "('bn, 'g, 'p, 'k) key_lib \<Rightarrow> ('bn, 'k) sshkey \<Rightarrow> byte list" where
  "front_enc L k = (if sshkey_type_plain (k_type k) = KEY_RSA then bn_enc L (fst (the (k_rsa k))) else pub_enc L k)"

lemma writes_front:
  assumes "\<forall>n. am n \<noteq> None" "bn_lib_ok (kl_bn L)" "key_pub_ok L k" "sshkey_is_cert k"
  shows "writes (certify_front L am nonce k) (name_enc k @ nonce_enc k nonce @ front_enc L k)"
proof -
  have nonce: "writes (if sshkey_cert_is_legacy k then act_return () else sshbuf_put_string am nonce) (nonce_enc k nonce)"
    using assms(4) by (simp add: nonce_enc_def writes_return writes_string [OF assms(1)])
  note parts = writes_seq writes_name [OF assms(1,3)] nonce writes_bn [OF assms(1,2)]
  from assms(3) show ?thesis
  proof (cases rule: key_pub_cases)
    case (rsa e n)
    then show ?thesis by (simp add: certify_front_def front_enc_def Let_def parts)
  next
    case (dsa p q g y)
    then show ?thesis by (simp add: certify_front_def front_enc_def pub_enc_def Let_def parts)
  next
    case (ec ec)
    then show ?thesis using writes_point [OF assms(1) ec(3) refl]
      by (simp add: certify_front_def front_enc_def pub_enc_def Let_def parts writes_curve [OF assms(1)])
  qed
qed

text \<open>What the code has put into the buffer when the rest of the certificate is written.\<close>

lemma certify_public:
  assumes "bn_lib_ok (kl_bn L)" "\<forall>n. am n \<noteq> None" "key_pub_ok L k" "sshkey_is_cert k" "ready b" "length nonce = 32"
  shows "\<exists>b1 b2. certify_front L am nonce k (sshbuf_reset am b) = (Inr (), b1) \<and>
    (if sshkey_type_plain (k_type k) = KEY_RSA
      then sshbuf_put_bignum2 (kl_bn L) am (snd (the (k_rsa k))) b1 = (Inr (), b2) else b2 = b1) \<and>
    ready b2 \<and> contents b2 = name_enc k @ nonce_enc k nonce @ pub_enc L k"
proof -
  have b0: "ready (sshbuf_reset am b)" "contents (sshbuf_reset am b) = []" using ready_reset [OF assms(5)] by auto
  have "length (nonce_enc k nonce) \<le> 36" using assms(6) by (simp add: nonce_enc_def)
  then have len: "length (name_enc k @ nonce_enc k nonce @ pub_enc L k) \<le> SSHBUF_SIZE_MAX"
    using pub_enc_small [OF assms(3)] by (simp add: SSHBUF_SIZE_MAX_def)
  show ?thesis
  proof (cases "sshkey_type_plain (k_type k) = KEY_RSA")
    case True
    then obtain x n where rsa: "k_rsa k = Some (x, n)" "bn_ok L x" "bn_ok L n" using assms(3) by (auto simp: key_pub_ok_def)
    then have enc: "pub_enc L k = front_enc L k @ bn_enc L n" using True by (simp add: pub_enc_def front_enc_def)
    obtain b1 where b1: "certify_front L am nonce k (sshbuf_reset am b) = (Inr (), b1)" "ready b1"
        "contents b1 = name_enc k @ nonce_enc k nonce @ front_enc L k"
      using writesD [OF writes_front [OF assms(2,1,3,4), of nonce] b0(1)] b0(2) len enc by auto
    obtain b2 where "sshbuf_put_bignum2 (kl_bn L) am n b1 = (Inr (), b2)" "ready b2" "contents b2 = contents b1 @ bn_enc L n"
      using writesD [OF writes_bn [OF assms(2,1) rsa(3)] b1(2)] b1(3) len enc by (auto simp del: length_contents)
    with b1 show ?thesis using True rsa(1) enc by (intro exI [of _ b1] exI [of _ b2]) simp
  next
    case False
    then show ?thesis using writesD [OF writes_front [OF assms(2,1,3,4), of nonce] b0(1)] b0(2) len by (auto simp: front_enc_def)
  qed
qed

text \<open>What is signed of a certificate.\<close>

definition cert_body ::
  "('bn, 'g, 'p, 'k) key_lib \<Rightarrow> byte list \<Rightarrow> ('bn, 'k) sshkey \<Rightarrow> ('bn, 'k) sshkey_cert \<Rightarrow> ('bn, 'k) sshkey \<Rightarrow> byte list" where
  "cert_body L nonce k c ca =
     (name_enc k @ nonce_enc k nonce @ pub_enc L k) @ cert_enc (sshkey_cert_is_legacy k) nonce c (name_enc ca @ pub_enc L ca)"

lemma certify_enc:
  assumes "bn_lib_ok (kl_bn L)" "\<forall>n. am n \<noteq> None" "key_pub_ok L k" "sshkey_is_cert k" "k_cert k = Some c"
    "cert_ok (sshkey_cert_is_legacy k) c" "key_pub_ok L ca" "k_type ca \<in> {KEY_RSA, KEY_DSA, KEY_ECDSA}" "ready b" "length nonce = 32"
    "sshkey_sign sign ca (cert_body L nonce k c ca) 0 = Inr sig"
    "length (cert_body L nonce k c ca @ wire_string sig) \<le> SSHBUF_SIZE_MAX"
  shows "\<exists>b'. sshkey_certify L am sign nonce k ca b = (Inr (), b') \<and> contents b' = cert_body L nonce k c ca @ wire_string sig"
proof -
  have plain: "\<not> sshkey_is_cert ca" using assms(8) by (auto simp: sshkey_is_cert_def)
  have blob: "sshkey_to_blob L am ca = Inr (name_enc ca @ pub_enc L ca)"
    unfolding sshkey_to_blob_def by (rule to_blob_enc [OF assms(2,1,7) plain])
  obtain b1 b2 where b1: "certify_front L am nonce k (sshbuf_reset am b) = (Inr (), b1)"
    and n: "if sshkey_type_plain (k_type k) = KEY_RSA
      then sshbuf_put_bignum2 (kl_bn L) am (snd (the (k_rsa k))) b1 = (Inr (), b2) else b2 = b1"
    and b2: "ready b2" "contents b2 = name_enc k @ nonce_enc k nonce @ pub_enc L k"
    using certify_public [OF assms(1-4,9,10)] by auto
  obtain b' where "certify_back am sign nonce (sshkey_cert_is_legacy k) c ca (name_enc ca @ pub_enc L ca) b2 = (Inr (), b')"
    "contents b' = cert_body L nonce k c ca @ wire_string sig"
    using certify_back_enc [OF assms(2) b2(1) assms(6) refl, of sign ca nonce "name_enc ca @ pub_enc L ca" sig] b2(2) assms(11,12)
    by (auto simp: cert_body_def)
  then show ?thesis using assms(4,5,8) blob b1 n by (auto simp: sshkey_certify_def Let_def)
qed

lemma from_blob_cert:
  assumes "bn_lib_ok (kl_bn L)" "\<forall>n. am n \<noteq> None" "key_pub_ok L k" "sshkey_is_cert k"
    "cert_ok (sshkey_cert_is_legacy k) c" "key_pub_ok L ca" "k_cert ca = None" "k_type ca \<in> {KEY_RSA, KEY_DSA, KEY_ECDSA}"
    "length nonce = 32" "blob = cert_body L nonce k c ca @ wire_string sig" "length blob \<le> SSHBUF_SIZE_MAX"
    "sshkey_verify L ca sig (cert_body L nonce k c ca) 0 = Inr ()"
  shows "sshkey_from_blob L am blob = Inr (with_type (k_type k) (Some (cert_signed c blob ca)) k)"
proof -
  let ?ca = "name_enc ca @ pub_enc L ca" and ?legacy = "sshkey_cert_is_legacy k"
  let ?front = "name_enc k @ nonce_enc k nonce @ pub_enc L k" and ?e = "cert_enc ?legacy nonce c ?ca"
  let ?rec = "from_blob_depth (length blob) L am"
  obtain n where n: "length blob = Suc n" using assms(10) by (cases "length blob") (auto simp: cert_body_def name_enc_def)
  have plain: "\<not> sshkey_is_cert ca" using assms(8) by (auto simp: sshkey_is_cert_def)
  have read_ca: "?rec ?ca = Inr ca" unfolding n using from_blob_plain [OF assms(1,2,6) plain assms(7)] .
  have c: "blob = ?front @ ?e @ wire_string sig" and k: "blob = name_enc k @ nonce_enc k nonce @ pub_enc L k @ ?e @ wire_string sig"
    using assms(10) by (simp_all add: cert_body_def)
  obtain b1 where b1: "sshbuf_wf b1" "contents b1 = ?e @ wire_string sig"
    and run: "sshkey_from_blob L am blob =
      fst (act_bind (cert_parse L am ?rec (bare_key k) blob)
        (\<lambda>key b. if sshbuf_len b \<noteq> 0 then (Inl SSH_ERR_INVALID_FORMAT, b) else (Inr key, b)) b1)"
    using from_blob_public [OF assms(1-3) _ k assms(11), of "length blob"] assms(4,9)
    by (auto simp: sshkey_from_blob_def simp del: length_contents)
  have leg: "sshkey_cert_is_legacy (bare_key k) = ?legacy" by (simp add: bare_key_def with_type_def sshkey_cert_is_legacy_def)
  obtain b2 where "cert_parse L am ?rec (bare_key k) blob b1 = (Inr (with_type (k_type k) (Some (cert_signed c blob ca)) k), b2)"
      "sshbuf_wf b2" "contents b2 = []"
    using cert_parse_enc [where L = L and from_blob = ?rec, OF assms(2,5) leg b1(1) c assms(11) b1(2) read_ca assms(8)
      assms(12) [unfolded cert_body_def]] by (auto simp: bare_key_def with_type_def)
  then show ?thesis unfolding run by (simp add: act_bind_run del: length_contents)
qed

lemma sign_verifies:
  assumes "sshkey_sign sign ca d 0 = Inr sig" "k_type ca \<in> {KEY_RSA, KEY_DSA, KEY_ECDSA}"
    "\<forall>t d s. sign t d 0 = Inr s \<longrightarrow> s \<noteq> [] \<and> kl_verify L t ca s d 0 = Inr ()"
  shows "sshkey_verify L ca sig d 0 = Inr ()"
  using assms by (auto simp: sshkey_sign_def sshkey_verify_def split: if_splits)

end
