(* ===== verification/Sshkey_Accept.thy ===== *)
theory Sshkey_Accept
  imports Sshkey_Cert
begin

text \<open>
  What \<open>sshkey_from_blob\<close> accepts, whatever bytes it is given: reading ends, and a certificate it
  returns has been checked.
\<close>

section \<open>What the readers consume\<close>

lemma takes_ret: "takes (\<lambda>b. (Inr x, b)) (\<lambda>_. 0)"
  by (auto simp: takes_def)

lemma takes_if: "takes f n \<Longrightarrow> takes (\<lambda>b. if P then (Inl e, b) else f b) n"
  by (auto simp: takes_def)

lemma takes_option: "(\<And>x. takes (f x) n) \<Longrightarrow> takes (\<lambda>b. case opt of None \<Rightarrow> (Inl e, b) | Some x \<Rightarrow> f x b) n"
  by (cases opt) (auto simp: takes_def)

lemma takes_bignum: "takes (key_bignum L) (\<lambda>_. 0)"
  unfolding takes_def
proof (intro allI impI)
  fix b v b' assume wf: "sshbuf_wf b" and run: "key_bignum L b = (Inr v, b')"
  let ?n = "4 + wire_len (contents b)"
  have "b' = b \<or> wire_complete (contents b) \<and> b' = advance ?n b"
    using run by (auto simp: key_bignum_def get_bignum2_wf [OF wf] Let_def split: if_splits sum.splits)
  then show "sshbuf_wf b' \<and> (\<exists>e. contents b = e @ contents b' \<and> 0 \<le> length e)"
    using takes_string_advance [OF wf, of 0 b'] wf by auto
qed

lemma takes_get_ec: "takes (sshbuf_get_ec E True g) (\<lambda>_. 0)"
  unfolding takes_def
proof (intro allI impI)
  fix b v b' assume wf: "sshbuf_wf b" and run: "sshbuf_get_ec E True g b = (Inr v, b')"
  then have "wire_complete (contents b) \<and> b' = advance (4 + wire_len (contents b)) b"
    by (auto simp: sshbuf_get_ec_def get_string_direct_wf [OF wf] split: if_splits sum.splits prod.splits)
  then show "sshbuf_wf b' \<and> (\<exists>e. contents b = e @ contents b' \<and> 0 \<le> length e)"
    using takes_string_advance [OF wf, of 0 b'] wf by auto
qed

lemma takes_any: "takes f n \<Longrightarrow> takes f (\<lambda>_. 0)"
  by (rule takes_mono) simp_all

lemma takes_bind0: "takes f m \<Longrightarrow> (\<And>v. takes (g v) (\<lambda>_. 0)) \<Longrightarrow> takes (act_bind f g) (\<lambda>_. 0)"
  using takes_bind [of f m g "\<lambda>_. 0"] by simp

lemma takes_seq0: "takes f m \<Longrightarrow> takes g (\<lambda>_. 0) \<Longrightarrow> takes (act_seq f g) (\<lambda>_. 0)"
  using takes_seq [of f m g "\<lambda>_. 0"] by simp

lemma takes_ec_material: "takes (ec_material L am t nid) (\<lambda>_. 0)"
  unfolding ec_material_def Let_def
  by (intro takes_bind0 [OF takes_err [OF takes_cstring]] takes_if takes_option takes_bind0 [OF takes_err [OF takes_get_ec]] takes_ret)

lemma takes_key_skip: "takes key_skip (\<lambda>_. 0)"
  unfolding key_skip_def by (intro takes_seq0 [OF takes_err [OF takes_string_direct]] takes_return) simp

lemma takes_key_material: "takes (key_material L am name) (\<lambda>_. 0)"
proof -
  have nonce: "takes (if P then key_skip else act_return ()) (\<lambda>_. 0)" for P
    by (simp add: takes_key_skip takes_return)
  have bn: "takes (act_bind (key_bignum L) g) (\<lambda>_. 0)" if "\<And>v. takes (g v) (\<lambda>_. 0)" for g :: "_ \<Rightarrow> (ssh_err, sshbuf, _) action"
    using that by (rule takes_bind0 [OF takes_bignum])
  show ?thesis unfolding key_material_def Let_def
    by (auto intro!: takes_seq0 [OF nonce] takes_seq0 [OF takes_key_skip] bn takes_ec_material takes_return takes_fail)
qed

lemma takes_cert_fields: "takes (get_cert_fields am v00) (\<lambda>f. 4 + length (cf_sig_key f))"
proof -
  have rest: "takes (act_seq (if v00 then act_seq sshbuf_get_string_direct (act_return ()) else act_return ())
      (act_seq sshbuf_get_string_direct (act_bind (sshbuf_get_string am) (\<lambda>sk. act_return (F sk))))) (\<lambda>f. 4 + length (cf_sig_key f))"
    if "\<And>sk. cf_sig_key (F sk) = sk" for F
  proof -
    have "takes (act_bind (sshbuf_get_string am) (\<lambda>sk. act_return (F sk))) (\<lambda>f. 4 + length (cf_sig_key f))"
      by (rule takes_bind [OF takes_string]) (simp add: takes_return that)
    then have last: "takes (act_seq sshbuf_get_string_direct (act_bind (sshbuf_get_string am) (\<lambda>sk. act_return (F sk)))) (\<lambda>f. 4 + length (cf_sig_key f))"
      by (intro takes_seq [OF takes_any [OF takes_string_direct]]) simp
    have skip: "takes (if v00 then act_seq sshbuf_get_string_direct (act_return ()) else act_return ()) (\<lambda>_. 0)"
      by (simp add: takes_return takes_seq0 [OF takes_string_direct])
    show ?thesis by (rule takes_seq [OF skip]) (use last in simp)
  qed
  have bind: "takes (act_bind f g) (\<lambda>f. 4 + length (cf_sig_key f))"
    if "takes f m" "\<And>v. takes (g v) (\<lambda>f. 4 + length (cf_sig_key f))" for f m and g :: "_ \<Rightarrow> (ssh_err, sshbuf, cert_fields) action"
    using that by (intro takes_bind [OF takes_any [OF that(1)]]) simp
  have serial: "takes (if v00 then act_return 0 else sshbuf_get_u64) (\<lambda>_. 0)"
    and ext: "takes (if v00 then act_return [] else sshbuf_get_string am) (\<lambda>_. 0)"
    by (simp_all add: takes_return takes_any [OF takes_u64] takes_any [OF takes_string])
  show ?thesis unfolding get_cert_fields_def
    by (rule bind [OF serial], rule bind [OF takes_u32], rule bind [OF takes_cstring], rule bind [OF takes_string],
      rule bind [OF takes_u64], rule bind [OF takes_u64], rule bind [OF takes_string], rule bind [OF ext], rule rest) simp
qed

section \<open>Depth of the calls\<close>

lemma cert_parse_cong:
  assumes "sshbuf_wf b" "length (contents b) \<le> length blob" "\<And>x. length x < length blob \<Longrightarrow> f x = g x"
  shows "cert_parse L am f key blob b = cert_parse L am g key blob b"
proof -
  have "f (cf_sig_key cf) = g (cf_sig_key cf)"
    if run: "act_err SSH_ERR_INVALID_FORMAT (get_cert_fields am v00) b = (Inr cf, b1)" for cf b1 v00
  proof -
    obtain e where "contents b = e @ contents b1" "4 + length (cf_sig_key cf) \<le> length e"
      by (rule takesD [OF takes_err [OF takes_cert_fields] assms(1) run])
    then have "length (cf_sig_key cf) < length blob" using assms(2) by (simp del: length_contents)
    then show ?thesis by (rule assms(3))
  qed
  then show ?thesis
    by (auto simp: cert_parse_def cert_finish_def act_simps split: option.splits sum.splits prod.splits)
qed

lemma from_blob_body_cong:
  assumes "\<And>x. length x < length blob \<Longrightarrow> f x = g x"
  shows "from_blob_body L am f blob = from_blob_body L am g blob"
proof (cases "sshbuf_new am")
  case (Some b0)
  have "cert_parse L am f key blob b3 = cert_parse L am g key blob b3"
    if run: "sshbuf_put am blob b0 = (Inr u, b1)" "act_err SSH_ERR_INVALID_FORMAT (sshbuf_get_cstring am) b1 = (Inr t, b2)"
      "key_material L am (string_of (c_str t)) b2 = (Inr key, b3)" for u t key b1 b2 b3
  proof -
    have b1: "sshbuf_wf b1" "contents b1 = blob"
      using put_cases [OF ready_wf run(1)] ready_new [OF Some] by auto
    obtain e where e: "sshbuf_wf b2" "contents b1 = e @ contents b2" by (rule takesD [OF takes_err [OF takes_cstring] b1(1) run(2)])
    obtain e' where "sshbuf_wf b3" "contents b2 = e' @ contents b3" by (rule takesD [OF takes_key_material e(1) run(3)])
    with e b1(2) show ?thesis by (intro cert_parse_cong assms) (auto simp del: length_contents)
  qed
  then show ?thesis using Some
    by (auto simp: from_blob_body_def act_simps split: option.splits sum.splits prod.splits)
qed (simp add: from_blob_body_def)

lemma from_blob_depth_enough:
  "length blob < n \<Longrightarrow> length blob < m \<Longrightarrow> from_blob_depth n L am blob = from_blob_depth m L am blob"
proof (induction n arbitrary: m blob)
  case (Suc n)
  then obtain m' where m: "m = Suc m'" by (cases m) auto
  have "from_blob_depth n L am x = from_blob_depth m' L am x" if "length x < length blob" for x
    using Suc.IH [of x m'] Suc.prems m that by simp
  then show ?case by (simp add: m from_blob_body_cong [where f = "from_blob_depth n L am"])
qed simp

section \<open>Accepted certificates\<close>

lemma get_string_enc:
  assumes "sshbuf_wf b" "sshbuf_get_string am b = (Inr v, b')"
  shows "contents b = wire_string v @ contents b'" "sshbuf_wf b'"
proof -
  let ?c = "contents b" and ?n = "4 + wire_len (contents b)"
  have w: "wire_complete ?c" and v: "v = take (wire_len ?c) (drop 4 ?c)" and b': "b' = advance ?n b"
    using assms(2) by (auto simp: get_string_wf [OF assms(1)] Let_def split: if_splits)
  have len: "?n \<le> length ?c" using wire_complete_length [OF w] .
  show "contents b = wire_string v @ contents b'" "sshbuf_wf b'"
    using wire_complete_split [OF w] advance [OF assms(1) len] v b' by (simp_all add: add.commute)
qed

lemma principals_bounded: "cert_principals am n b = (Inr ps, b') \<Longrightarrow> length ps \<le> n"
proof (induction n arbitrary: b ps)
  case 0
  then show ?case by (subst (asm) cert_principals.simps) (auto split: if_splits)
next
  case (Suc n)
  from Suc.prems show ?case
    by (subst (asm) cert_principals.simps) (auto split: if_splits prod.splits sum.splits dest: Suc.IH)
qed

lemma cert_lists_bounded:
  "fst (cert_lists am p c e tmp) = Inr (ps, crit, ext) \<Longrightarrow> length ps \<le> SSHKEY_CERT_MAX_PRINCIPALS"
  by (auto simp: cert_lists_def act_simps split: prod.splits sum.splits dest: principals_bounded)

text \<open>What \<open>cert_parse\<close> has checked when it returns a key.\<close>

definition cert_checked :: "('bn, 'g, 'p, 'k) key_lib \<Rightarrow> byte list \<Rightarrow> byte list \<Rightarrow> byte list \<Rightarrow> ('bn, 'k) sshkey_cert \<Rightarrow> bool" where
  "cert_checked L blob body sig c \<longleftrightarrow>
     c_certblob c = blob \<and> c_type c \<in> {SSH2_CERT_TYPE_USER, SSH2_CERT_TYPE_HOST} \<and>
     length (c_principals c) \<le> SSHKEY_CERT_MAX_PRINCIPALS \<and>
     (case c_signature_key c of None \<Rightarrow> False
      | Some ca \<Rightarrow> k_type ca \<in> {KEY_RSA, KEY_DSA, KEY_ECDSA} \<and> sig \<noteq> [] \<and>
          length body \<le> SSH_KEY_MAX_SIGN_DATA_SIZE \<and> kl_verify L (k_type ca) ca sig body 0 = Inr ())"

lemma verify_checked:
  assumes "sshkey_verify L ca sig d 0 = Inr x" "k_type ca \<in> {KEY_RSA, KEY_DSA, KEY_ECDSA}"
  shows "sig \<noteq> [] \<and> length d \<le> SSH_KEY_MAX_SIGN_DATA_SIZE \<and> kl_verify L (k_type ca) ca sig d 0 = Inr ()"
  using assms by (auto simp: sshkey_verify_def not_less split: if_splits)

lemma cert_finish_checked:
  assumes "cert_finish L am rd tmp key certblob n f sig = Inr k"
  shows "\<exists>c. k = with_type (k_type key) (Some c) key \<and> cert_checked L certblob (take n certblob) sig c"
proof -
  obtain ps crit ext ca x where ty: "cf_type f \<in> {SSH2_CERT_TYPE_USER, SSH2_CERT_TYPE_HOST}"
    and ls: "fst (cert_lists am (cf_principals f) (cf_critical f) (cf_exts f) tmp) = Inr (ps, crit, ext)"
    and ca: "k_type ca \<in> {KEY_RSA, KEY_DSA, KEY_ECDSA}" "sshkey_verify L ca sig (take n certblob) 0 = Inr x"
    and k: "k = with_type (k_type key) (Some (Sshkey_cert certblob (cf_type f) (cf_serial f) (Some (cf_key_id f)) ps (cf_valid_after f)
      (cf_valid_before f) crit ext (Some ca))) key"
    using assms by (auto simp: cert_finish_def split: if_splits sum.splits)
  have "cert_checked L certblob (take n certblob) sig (Sshkey_cert certblob (cf_type f) (cf_serial f) (Some (cf_key_id f)) ps
      (cf_valid_after f) (cf_valid_before f) crit ext (Some ca))"
    using ty cert_lists_bounded [OF ls] ca(1) verify_checked [OF ca(2,1)] by (simp add: cert_checked_def)
  then show ?thesis unfolding k by blast
qed

lemma cert_parse_checked:
  assumes "cert_parse L am rd key blob b = (Inr k, b')" "sshbuf_wf b" "blob = pre @ contents b"
  shows "\<exists>c body sig. k = with_type (k_type key) (Some c) key \<and> cert_checked L blob body sig c \<and> blob = body @ wire_string sig @ contents b' \<and>
    sshbuf_wf b'"
proof -
  let ?v = "sshkey_cert_is_legacy key"
  obtain tmp f b1 sig where buf: "buf_with am blob = Inr blob"
    and f: "act_err SSH_ERR_INVALID_FORMAT (get_cert_fields am ?v) b = (Inr f, b1)"
    and sig: "act_err SSH_ERR_INVALID_FORMAT (sshbuf_get_string am) b1 = (Inr sig, b')"
    and fin: "cert_finish L am rd tmp key blob (length blob - sshbuf_len b1) f sig = Inr k"
    using assms(1) by (auto simp: cert_parse_def act_bind_run dest: buf_with_val split: option.splits sum.splits prod.splits)
  obtain e where e: "sshbuf_wf b1" "contents b = e @ contents b1"
    by (rule takesD [OF takes_err [OF takes_cert_fields] assms(2) f])
  have "sshbuf_get_string am b1 = (Inr sig, b')" using sig by (auto simp: act_err_def split: prod.splits sum.splits)
  note s = get_string_enc [OF e(1) this]
  have "take (length blob - sshbuf_len b1) blob = pre @ e" using assms(3) e by (simp del: length_contents)
  with cert_finish_checked [OF fin] s e(2) assms(3) show ?thesis by force
qed

lemma from_blob_body_checked:
  assumes "from_blob_body L am rd blob = Inr k" "sshkey_is_cert k"
  shows "\<exists>c body sig. k_cert k = Some c \<and> cert_checked L blob body sig c \<and> blob = body @ wire_string sig"
proof -
  obtain b0 u b1 t b2 key b3 b4 where new: "sshbuf_new am = Some b0" and put: "sshbuf_put am blob b0 = (Inr u, b1)"
    and name: "act_err SSH_ERR_INVALID_FORMAT (sshbuf_get_cstring am) b1 = (Inr t, b2)"
    and pub: "key_material L am (string_of (c_str t)) b2 = (Inr key, b3)"
    and cert: "(if sshkey_is_cert key then cert_parse L am rd key blob else act_return key) b3 = (Inr k, b4)" "sshbuf_len b4 = 0"
    using assms(1) by (auto simp: from_blob_body_def act_seq_run act_bind_run split: option.splits sum.splits prod.splits if_splits)
  have b1: "sshbuf_wf b1" "contents b1 = blob" using put_cases [OF ready_wf put] ready_new [OF new] by auto
  obtain e where e: "sshbuf_wf b2" "contents b1 = e @ contents b2" by (rule takesD [OF takes_err [OF takes_cstring] b1(1) name])
  obtain e' where e': "sshbuf_wf b3" "contents b2 = e' @ contents b3" by (rule takesD [OF takes_key_material e(1) pub])
  have key: "sshkey_is_cert key"
    using cert(1) assms(2) by (cases "sshkey_is_cert key") (auto simp: act_simps)
  have "blob = (e @ e') @ contents b3" using b1(2) e(2) e'(2) by simp
  from cert_parse_checked [OF _ e'(1) this, of L am rd key k b4] cert(1) key
  obtain c body sig where c: "k = with_type (k_type key) (Some c) key" "cert_checked L blob body sig c"
    "blob = body @ wire_string sig @ contents b4" "sshbuf_wf b4" by auto
  moreover have "contents b4 = []" using cert(2) c(4) by (simp del: length_contents)
  ultimately show ?thesis by (auto simp: with_type_def)
qed

section \<open>Examples\<close>

text \<open>Natural numbers as keys, no curves, and a checksum for a signature.\<close>

definition ec_none :: "(unit, unit, unit) ec_lib" where
  "ec_none = \<lparr>EC_oct2point = \<lambda>_ _. None, EC_oct_len = \<lambda>_ _. 0, EC_point2oct = \<lambda>_ _ _. [], EC_key_group = \<lambda>_. (),
     EC_key_public = \<lambda>_. (), EC_key_set_public = \<lambda>_ _. None, EC_ctx_new = False, EC_point_new = \<lambda>_. False\<rparr>"

definition sign_example :: "sshkey_types \<Rightarrow> byte list \<Rightarrow> u32 \<Rightarrow> byte list res" where
  "sign_example t d c = Inr [sum_list d]"

definition lib_example :: "(nat, unit, unit, unit) key_lib" where
  "lib_example = \<lparr>kl_bn = bn_nat, kl_ec = ec_none, kl_zero = 0, kl_bn_cmp = \<lambda>a b. int a - int b, kl_sub_one = \<lambda>a. Some (a - 1),
     kl_new_curve = \<lambda>_. None, kl_group_eq = \<lambda>_ _. True, kl_point_eq = \<lambda>_ _ _. True, kl_prime_field = \<lambda>_. True,
     kl_infinite = \<lambda>_ _. False, kl_order = \<lambda>_. None, kl_affine = \<lambda>_ _. None, kl_mul = \<lambda>_ _ _. None,
     kl_verify = \<lambda>t k s d c. if s = [sum_list d] then Inr () else Inl SSH_ERR_SIGNATURE_INVALID\<rparr>"

definition ca_example :: "(nat, unit) sshkey" where
  "ca_example = Sshkey KEY_RSA (Some (3, 33)) None (-1) None None"

definition cert_example :: "(nat, unit) sshkey_cert" where
  "cert_example = Sshkey_cert [] SSH2_CERT_TYPE_USER 7 (Some [105, 100]) [[114, 111]] 0 100 [] [] None"

definition key_example :: "(nat, unit) sshkey" where
  "key_example = Sshkey KEY_RSA_CERT (Some (5, 35)) None (-1) None (Some cert_example)"

definition nonce_example :: "byte list" where "nonce_example = replicate 32 9"

lemma example_keys: "key_pub_ok lib_example ca_example" "key_pub_ok lib_example key_example"
  "bn_lib_ok (kl_bn lib_example)" "sshkey_is_cert key_example" "\<not> sshkey_is_cert ca_example"
  using bn_nat_ok by (simp_all add: key_pub_ok_def bn_ok_def lib_example_def ca_example_def key_example_def bn_nat_def mpint_def
    SSHBUF_MAX_BIGNUM_def sshkey_is_cert_def nat_bytes.simps)

lemma example_cert: "cert_ok legacy cert_example \<longleftrightarrow> \<not> legacy"
  by (auto simp: cert_ok_def cert_example_def SSHKEY_CERT_MAX_PRINCIPALS_def intro: exI [of _ "[]"])

lemma example_body: "length (cert_body lib_example nonce_example key_example cert_example ca_example) \<le> 10000"
proof -
  have "length (name_enc ca_example @ pub_enc lib_example ca_example) \<le> 4156"
    using pub_enc_small [OF example_keys(1)] by simp
  then have "length (cert_enc False nonce_example cert_example (name_enc ca_example @ pub_enc lib_example ca_example)) \<le> 4300"
    by (simp add: cert_enc_def cert_example_def)
  moreover have "length (nonce_enc key_example nonce_example) \<le> 36" by (simp add: nonce_enc_def nonce_example_def)
  moreover have "\<not> sshkey_cert_is_legacy key_example" by (simp add: sshkey_cert_is_legacy_def key_example_def)
  ultimately show ?thesis using pub_enc_small [OF example_keys(2)] by (simp add: cert_body_def)
qed

lemma example_sign:
  "sshkey_sign sign_example ca_example (cert_body lib_example nonce_example key_example cert_example ca_example) 0 =
    Inr [sum_list (cert_body lib_example nonce_example key_example cert_example ca_example)]"
  using example_body by (simp add: sshkey_sign_def sign_example_def ca_example_def SSH_KEY_MAX_SIGN_DATA_SIZE_def)

definition blob_example :: "byte list" where
  "blob_example = cert_body lib_example nonce_example key_example cert_example ca_example @
     wire_string [sum_list (cert_body lib_example nonce_example key_example cert_example ca_example)]"

lemma example_fits: "length blob_example \<le> SSHBUF_SIZE_MAX"
  using example_body by (simp add: blob_example_def SSHBUF_SIZE_MAX_def)

lemma example_read:
  "sshkey_from_blob lib_example alloc_zero blob_example =
    Inr (with_type KEY_RSA_CERT (Some (cert_signed cert_example blob_example ca_example)) key_example)"
proof -
  have v: "sshkey_verify lib_example ca_example [sum_list (cert_body lib_example nonce_example key_example cert_example ca_example)]
      (cert_body lib_example nonce_example key_example cert_example ca_example) 0 = Inr ()"
    using example_body by (simp add: sshkey_verify_def ca_example_def lib_example_def SSH_KEY_MAX_SIGN_DATA_SIZE_def)
  have t: "k_type key_example = KEY_RSA_CERT" "k_cert ca_example = None" "k_type ca_example \<in> {KEY_RSA, KEY_DSA, KEY_ECDSA}"
    "length nonce_example = 32" "cert_ok (sshkey_cert_is_legacy key_example) cert_example"
    by (simp_all add: key_example_def ca_example_def nonce_example_def example_cert sshkey_cert_is_legacy_def)
  show ?thesis
    using from_blob_cert [OF example_keys(3) alloc_zero_total example_keys(2,4) t(5) example_keys(1) t(2-4) blob_example_def example_fits v]
    by (simp add: t(1))
qed

section \<open>Properties\<close>



text \<open>C1: whatever bytes \<open>sshkey_from_blob\<close> is given, a certificate it returns carries exactly these
  bytes, is a user or a host certificate, names at most 256 principals, and was signed by a plain
  key (never by another certificate) with a signature that has been verified and that covers
  every byte in front of it.\<close>

theorem sshkey_from_blob_cert_checked:
  assumes "sshkey_from_blob L am blob = Inr k" "sshkey_is_cert k"
  shows "\<exists>c body sig. k_cert k = Some c \<and> cert_checked L blob body sig c \<and> blob = body @ wire_string sig"
  using from_blob_body_checked [of L am _ blob k] assms by (simp add: sshkey_from_blob_def)

theorem sshkey_from_blob_cert_checked_witness:
  "\<exists>k c body sig. sshkey_from_blob lib_example alloc_zero blob_example = Inr k \<and> sshkey_is_cert k \<and> k_cert k = Some c \<and>
    cert_checked lib_example blob_example body sig c \<and> blob_example = body @ wire_string sig"
proof -
  have "sshkey_is_cert (with_type KEY_RSA_CERT (Some (cert_signed cert_example blob_example ca_example)) key_example)"
    by (simp add: sshkey_is_cert_def with_type_def)
  with sshkey_from_blob_cert_checked [OF example_read this] example_read show ?thesis by blast
qed





text \<open>C38: a blob that holds nothing but the name of the RSA type is accepted as a key whose numbers are
  both zero: the errors of the number reader are compared with \<open>-1\<close> only, which is not the
  number for missing data.\<close>

theorem sshkey_from_blob_truncated:
  assumes "\<forall>n. am n \<noteq> None"
  shows "sshkey_from_blob L am (wire_string (bytes_of ''ssh-rsa'')) = Inr (sshkey_new L KEY_RSA)"
proof -
  let ?n = "bytes_of ''ssh-rsa''"
  obtain b0 where b0: "sshbuf_new am = Some b0" using new_total [OF assms] by auto
  obtain b1 where b1: "sshbuf_put am (wire_string ?n) b0 = (Inr (), b1)" "ready b1" "contents b1 = wire_string ?n"
    using writesD [OF writes_put [OF assms], of b0 "wire_string ?n"] ready_new [OF b0] by (auto simp: SSHBUF_SIZE_MAX_def)
  have "0 \<notin> set ?n" "length ?n < 2 ^ 32" by (simp_all del: One_nat_def)
  from readsD [OF reads_err [OF reads_cstring [OF assms this]] ready_wf [OF b1(2)], of "[]"] b1(3)
  obtain b2 where b2: "act_err SSH_ERR_INVALID_FORMAT (sshbuf_get_cstring am) b1 = (Inr ?n, b2)" "sshbuf_wf b2" "contents b2 = []"
    by auto
  have "key_bignum L b2 = (Inr (kl_zero L), b2)"
    using b2(2,3) by (simp add: key_bignum_def get_bignum2_wf wire_complete_def Let_def del: length_contents)
  moreover have "sshkey_type_from_name ''ssh-rsa'' = KEY_RSA" by (simp add: type_from_long_name keytypes_def key_row_def)
  ultimately have "key_material L am ''ssh-rsa'' b2 = (Inr (sshkey_new L KEY_RSA), b2)"
    by (simp add: key_material_def sshkey_new_def act_simps Let_def)
  then show ?thesis using b0 b1(1) b2
    unfolding sshkey_from_blob_def from_blob_depth.simps(2)
    by (simp add: from_blob_body_def act_seq_run act_bind_run sshkey_is_cert_def sshkey_new_def act_simps Let_def
      del: length_contents)
qed

theorem sshkey_from_blob_truncated_witness:
  "sshkey_from_blob lib_example alloc_zero (wire_string (bytes_of ''ssh-rsa'')) = Inr (Sshkey KEY_RSA (Some (0, 0)) None (-1) None None)"
  using sshkey_from_blob_truncated [OF alloc_zero_total, of lib_example] by (simp add: sshkey_new_def lib_example_def)

end
