(* ===== verification/Sshkey_Fp.thy ===== *)
theory Sshkey_Fp
  imports Sshkey
begin

text \<open>
  Fingerprints of keys, \<open>ssh/key.c\<close>: the digest of a key and its three textual forms. Memory is
  explicit: a read or a write outside an array is the result \<open>Wild\<close>.
\<close>

section \<open>Memory\<close>

datatype 'a c_ptr = Null | Wild | Ptr 'a

datatype sshkey_fp_type = SSH_FP_SHA1 | SSH_FP_MD5 | SSH_FP_SHA256
datatype sshkey_fp_rep = SSH_FP_HEX | SSH_FP_BUBBLEBABBLE | SSH_FP_RANDOMART

definition ptr_bind :: "'a c_ptr \<Rightarrow> ('a \<Rightarrow> 'b c_ptr) \<Rightarrow> 'b c_ptr" where
  "ptr_bind p f = (case p of Null \<Rightarrow> Null | Wild \<Rightarrow> Wild | Ptr x \<Rightarrow> f x)"

text \<open>Reading an array, and writing characters one after the other into a block of \<open>cap\<close> bytes.\<close>

definition array_at :: "'a list \<Rightarrow> nat \<Rightarrow> 'a c_ptr" where
  "array_at xs i = (if i < length xs then Ptr (xs ! i) else Wild)"

definition put_chars :: "nat \<Rightarrow> string \<Rightarrow> string \<Rightarrow> string c_ptr" where
  "put_chars cap s cs = (if length s + length cs \<le> cap then Ptr (s @ cs) else Wild)"

section \<open>The digest\<close>

text \<open>
  \<open>md\<close> is the digest function chosen by \<open>dgst_type\<close>. An error of \<open>to_blob\<close> other than \<open>-1\<close> is not
  noticed, and the pointer to the blob is then used without having been set.
\<close>

definition EVP_MAX_MD_SIZE :: nat where "EVP_MAX_MD_SIZE = 64"

definition sshkey_fingerprint_raw ::
  "('bn, 'g, 'p, 'k) key_lib \<Rightarrow> allocator \<Rightarrow> (sshkey_fp_type \<Rightarrow> byte list \<Rightarrow> byte list) \<Rightarrow> ('bn, 'k) sshkey \<Rightarrow> sshkey_fp_type \<Rightarrow>
   byte list c_ptr" where
  "sshkey_fingerprint_raw L am md k dgst_type =
     (let digest = (\<lambda>blob. if am EVP_MAX_MD_SIZE = None then Null else Ptr (md dgst_type blob)) in
      if k_type k = KEY_RSA1 then
        (case k_rsa k of None \<Rightarrow> Wild
         | Some (e, n) \<Rightarrow>
             let blob = BN_bn2bin (kl_bn L) n @ BN_bn2bin (kl_bn L) e in
             if am (length blob) = None then Null else digest blob)
      else if k_type k = KEY_UNSPEC then Null
      else (case to_blob L am k (sshkey_is_cert k) of
              Inl e \<Rightarrow> if err_code e = -1 then Null else Wild
            | Inr blob \<Rightarrow> digest blob))"

section \<open>Hexadecimal\<close>

definition strlcat :: "string \<Rightarrow> string \<Rightarrow> nat \<Rightarrow> string" where
  "strlcat dst src sz = dst @ take (sz - 1 - length dst) src"

fun hex_loop :: "byte list \<Rightarrow> nat \<Rightarrow> string \<Rightarrow> string" where
  "hex_loop [] cap s = s"
| "hex_loop (x # xs) cap s =
     hex_loop xs cap (strlcat s [hex_digits ! (unat x div 16), hex_digits ! (unat x mod 16), CHR '':''] cap)"

text \<open>The last assignment puts the end of the string at \<open>dgst_raw_len * 3 - 1\<close>.\<close>

definition fingerprint_hex :: "allocator \<Rightarrow> byte list \<Rightarrow> string c_ptr" where
  "fingerprint_hex am d =
     (if am (length d * 3 + 1) = None then Null
      else if length d = 0 then Wild
      else Ptr (take (length d * 3 - 1) (hex_loop d (length d * 3 + 1) [])))"

section \<open>Bubble babble\<close>

definition vowels :: string where "vowels = ''aeiouy''"
definition consonants :: string where "consonants = ''bcdfghklmnprstvzx''"

definition bubble_three :: "nat \<Rightarrow> nat \<Rightarrow> nat \<Rightarrow> string c_ptr" where
  "bubble_three i j k =
     ptr_bind (array_at vowels i) (\<lambda>a. ptr_bind (array_at consonants j) (\<lambda>b. ptr_bind (array_at vowels k) (\<lambda>c. Ptr [a, b, c])))"

text \<open>
  One round of the loop, on the text so far and \<open>seed\<close>. The digest has at most 64 bytes, so that
  the counters, which are \<open>u_int\<close> in the code, do not wrap.
\<close>

definition bubble_round :: "byte list \<Rightarrow> nat \<Rightarrow> nat \<Rightarrow> nat \<times> string \<Rightarrow> (nat \<times> string) c_ptr" where
  "bubble_round d rounds i st =
     (case st of (seed, s) \<Rightarrow>
      if i + 1 < rounds \<or> length d mod 2 \<noteq> 0 then
        ptr_bind (array_at d (2 * i)) (\<lambda>x.
        ptr_bind (bubble_three ((unat x div 64 mod 4 + seed) mod 6) (unat x div 4 mod 16) ((unat x mod 4 + seed div 6) mod 6)) (\<lambda>cs.
        ptr_bind (put_chars (rounds * 6) s cs) (\<lambda>s1.
        if i + 1 < rounds then
          ptr_bind (array_at d (2 * i + 1)) (\<lambda>y.
          ptr_bind (array_at consonants (unat y div 16 mod 16)) (\<lambda>c3.
          ptr_bind (array_at consonants (unat y mod 16)) (\<lambda>c4.
          ptr_bind (put_chars (rounds * 6) s1 [c3, CHR ''-'', c4]) (\<lambda>s2.
          Ptr ((seed * 5 + (unat x * 7 + unat y)) mod 36, s2)))))
        else Ptr (seed, s1))))
      else
        ptr_bind (bubble_three (seed mod 6) 16 (seed div 6)) (\<lambda>cs.
        ptr_bind (put_chars (rounds * 6) s cs) (\<lambda>s1. Ptr (seed, s1))))"

fun bubble_rounds :: "byte list \<Rightarrow> nat \<Rightarrow> nat \<Rightarrow> nat \<times> string \<Rightarrow> (nat \<times> string) c_ptr" where
  "bubble_rounds d rounds 0 st = Ptr st"
| "bubble_rounds d rounds (Suc n) st =
     ptr_bind (bubble_round d rounds (rounds - Suc n) st) (bubble_rounds d rounds n)"

definition fingerprint_bubblebabble :: "allocator \<Rightarrow> byte list \<Rightarrow> string c_ptr" where
  "fingerprint_bubblebabble am d =
     (let rounds = length d div 2 + 1 in
      if am (rounds * 6) = None then Null
      else ptr_bind (put_chars (rounds * 6) [] ''x'') (\<lambda>s0.
        ptr_bind (bubble_rounds d rounds rounds (1, s0)) (\<lambda>(seed, s).
        ptr_bind (put_chars (rounds * 6) s [CHR ''x'', CHR 0x00]) (\<lambda>s'. Ptr (butlast s')))))"

section \<open>Random art\<close>

definition FLDBASE :: nat where "FLDBASE = 8"
definition FLDSIZE_Y :: nat where "FLDSIZE_Y = FLDBASE + 1"
definition FLDSIZE_X :: nat where "FLDSIZE_X = FLDBASE * 2 + 1"

definition augmentation_string :: string where
  "augmentation_string = '' .o+=*BOX@%&#/^SE''"

type_synonym field_map = "nat list list"

definition field_at :: "field_map \<Rightarrow> int \<Rightarrow> int \<Rightarrow> nat c_ptr" where
  "field_at f x y = (if x < 0 \<or> y < 0 then Wild else ptr_bind (array_at f (nat x)) (\<lambda>col. array_at col (nat y)))"

definition field_set :: "field_map \<Rightarrow> int \<Rightarrow> int \<Rightarrow> nat \<Rightarrow> field_map c_ptr" where
  "field_set f x y v = ptr_bind (field_at f x y) (\<lambda>_. Ptr (f[nat x := (f ! nat x)[nat y := v]]))"

text \<open>One move of the worm: two bits of the digest, the walls, and the trace.\<close>

definition worm_move :: "nat \<Rightarrow> field_map \<times> int \<times> int \<Rightarrow> (field_map \<times> int \<times> int) c_ptr" where
  "worm_move input st =
     (case st of (f, x, y) \<Rightarrow>
      let x1 = x + (if input mod 2 = 1 then 1 else -1); y1 = y + (if input div 2 mod 2 = 1 then 1 else -1);
          x2 = min (max x1 0) (int FLDSIZE_X - 1); y2 = min (max y1 0) (int FLDSIZE_Y - 1);
          len = length augmentation_string - 1
      in ptr_bind (field_at f x2 y2) (\<lambda>v.
         if v < len - 2 then ptr_bind (field_set f x2 y2 (v + 1)) (\<lambda>f'. Ptr (f', x2, y2))
         else Ptr (f, x2, y2)))"

fun worm_moves :: "nat list \<Rightarrow> field_map \<times> int \<times> int \<Rightarrow> (field_map \<times> int \<times> int) c_ptr" where
  "worm_moves [] st = Ptr st"
| "worm_moves (m # ms) st = ptr_bind (worm_move m st) (worm_moves ms)"

definition moves_of :: "byte list \<Rightarrow> nat list" where
  "moves_of d = concat (map (\<lambda>b. [unat b, unat b div 4, unat b div 16, unat b div 64]) d)"

text \<open>\<open>%4s\<close> and \<open>%4u\<close>.\<close>

fun decimal :: "nat \<Rightarrow> string" where
  "decimal n = (if n < 10 then [char_of (48 + n)] else decimal (n div 10) @ [char_of (48 + n mod 10)])"

declare decimal.simps [simp del]

definition pad4 :: "string \<Rightarrow> string" where
  "pad4 s = replicate (4 - length s) CHR '' '' @ s"

definition art_row :: "field_map \<Rightarrow> nat \<Rightarrow> string c_ptr" where
  "art_row f y =
     foldr (\<lambda>x r. ptr_bind (field_at f (int x) (int y)) (\<lambda>v.
        ptr_bind (array_at augmentation_string (min v (length augmentation_string - 1))) (\<lambda>c. ptr_bind r (\<lambda>s. Ptr (c # s)))))
       [0..<FLDSIZE_X] (Ptr [])"

definition art_rows :: "field_map \<Rightarrow> string c_ptr" where
  "art_rows f =
     foldr (\<lambda>y r. ptr_bind (art_row f y) (\<lambda>row. ptr_bind r (\<lambda>s. Ptr (CHR ''|'' # row @ [CHR ''|'', CHR 0x0A] @ s))))
       [0..<FLDSIZE_Y] (Ptr [])"

text \<open>The text is written from the start of the block on; \<open>bits\<close> is \<open>sshkey_size\<close>.\<close>

definition art_header :: "string \<Rightarrow> nat \<Rightarrow> string" where
  "art_header name bits =
     (let h = take (FLDSIZE_X - 1) (''+--['' @ pad4 name @ '' '' @ pad4 (decimal bits) @ '']'') in
      h @ replicate (FLDSIZE_X - (length h - 1)) CHR ''-'' @ [CHR ''+'', CHR 0x0A])"

definition fingerprint_randomart :: "allocator \<Rightarrow> byte list \<Rightarrow> string \<Rightarrow> nat \<Rightarrow> string c_ptr" where
  "fingerprint_randomart am d name bits =
     (let cap = (FLDSIZE_X + 3) * (FLDSIZE_Y + 2); len = length augmentation_string - 1;
          f0 = replicate FLDSIZE_X (replicate FLDSIZE_Y 0); mx = int (FLDSIZE_X div 2); my = int (FLDSIZE_Y div 2) in
      if am cap = None then Null
      else ptr_bind (worm_moves (moves_of d) (f0, mx, my)) (\<lambda>(f, x, y).
        ptr_bind (field_set f mx my (len - 1)) (\<lambda>f1.
        ptr_bind (field_set f1 x y len) (\<lambda>f2.
        ptr_bind (art_rows f2) (\<lambda>rows.
        ptr_bind (put_chars cap [] (art_header name bits)) (\<lambda>s1.
        ptr_bind (put_chars cap s1 rows) (\<lambda>s2.
        ptr_bind (put_chars cap s2 (''+'' @ replicate FLDSIZE_X CHR ''-'' @ ''+'')) (\<lambda>s3.
        if length s3 < cap then Ptr s3 else Wild))))))))"

definition sshkey_fingerprint ::
  "('bn, 'g, 'p, 'k) key_lib \<Rightarrow> allocator \<Rightarrow> (sshkey_fp_type \<Rightarrow> byte list \<Rightarrow> byte list) \<Rightarrow> ('bn, 'k) sshkey \<Rightarrow> sshkey_fp_type \<Rightarrow>
   sshkey_fp_rep \<Rightarrow> string c_ptr" where
  "sshkey_fingerprint L am md k dgst_type dgst_rep =
     ptr_bind (sshkey_fingerprint_raw L am md k dgst_type) (\<lambda>d.
       case dgst_rep of SSH_FP_HEX \<Rightarrow> fingerprint_hex am d
       | SSH_FP_BUBBLEBABBLE \<Rightarrow> fingerprint_bubblebabble am d
       | SSH_FP_RANDOMART \<Rightarrow>
           (case sshkey_size L k of None \<Rightarrow> Wild | Some n \<Rightarrow> fingerprint_randomart am d (sshkey_type k) (unat (of_int n :: u32))))"

section \<open>Bounds\<close>

lemma ptr_bind_Ptr [simp]: "ptr_bind (Ptr x) f = f x"
  by (simp add: ptr_bind_def)

lemma array_at_Ptr: "i < length xs \<Longrightarrow> array_at xs i = Ptr (xs ! i)"
  by (simp add: array_at_def)

lemma put_chars_Ptr: "length s + length cs \<le> cap \<Longrightarrow> put_chars cap s cs = Ptr (s @ cs)"
  by (simp add: put_chars_def)

lemma letters [simp]: "length vowels = 6" "length consonants = 17"
  by (simp_all add: vowels_def consonants_def)

lemma bubble_three_Ptr: "i < 6 \<Longrightarrow> j < 17 \<Longrightarrow> k < 6 \<Longrightarrow> \<exists>cs. bubble_three i j k = Ptr cs \<and> length cs = 3"
  by (simp add: bubble_three_def array_at_Ptr)

lemma bubble_three_mod: "\<exists>cs. bubble_three (a mod 6) (b mod 16) (c mod 6) = Ptr cs \<and> length cs = 3"
  using bubble_three_Ptr [of "a mod 6" "b mod 16" "c mod 6"] mod_less_divisor [of 16 b] by (simp add: less_trans)

lemma bubble_round_inner:
  assumes "i + 1 < rounds" "2 * i + 1 < length d" "length s + 6 \<le> rounds * 6"
  shows "\<exists>seed' s'. bubble_round d rounds i (seed, s) = Ptr (seed', s') \<and> seed' < 36 \<and> length s' = length s + 6"
proof -
  let ?x = "d ! (2 * i)" and ?y = "d ! (2 * i + 1)"
  have idx: "a mod 16 < 17" for a :: nat using mod_less_divisor [of 16 a] by simp
  obtain cs where cs: "bubble_three ((unat ?x div 64 mod 4 + seed) mod 6) (unat ?x div 4 mod 16) ((unat ?x mod 4 + seed div 6) mod 6) = Ptr cs"
    "length cs = 3" using bubble_three_mod by blast
  show ?thesis using assms idx cs by (simp add: bubble_round_def array_at_Ptr put_chars_Ptr)
qed

lemma bubble_round_last:
  assumes "i + 1 = rounds" "rounds = length d div 2 + 1" "seed < 36" "length s + 3 \<le> rounds * 6"
  shows "\<exists>s'. bubble_round d rounds i (seed, s) = Ptr (seed, s') \<and> length s' = length s + 3"
proof (cases "length d mod 2 = 0")
  case True
  obtain cs where "bubble_three (seed mod 6) 16 (seed div 6) = Ptr cs" "length cs = 3"
    using bubble_three_Ptr [of "seed mod 6" 16 "seed div 6"] less_mult_imp_div_less [of seed 6 6] assms(3) by auto
  then show ?thesis using True assms by (simp add: bubble_round_def put_chars_Ptr)
next
  case False
  let ?x = "d ! (2 * i)"
  have i: "2 * i < length d" using False assms(1,2) by presburger
  obtain cs where "bubble_three ((unat ?x div 64 mod 4 + seed) mod 6) (unat ?x div 4 mod 16) ((unat ?x mod 4 + seed div 6) mod 6) = Ptr cs"
    "length cs = 3" using bubble_three_mod by blast
  then show ?thesis using False i assms by (simp add: bubble_round_def array_at_Ptr put_chars_Ptr)
qed

lemma bubble_rounds_Ptr:
  assumes "rounds = length d div 2 + 1" "0 < n" "n \<le> rounds" "seed < 36" "length s = 1 + 6 * (rounds - n)"
  shows "\<exists>seed' s'. bubble_rounds d rounds n (seed, s) = Ptr (seed', s') \<and> length s' = 6 * rounds - 2"
  using assms(2-5)
proof (induction n arbitrary: seed s)
  case (Suc n)
  show ?case
  proof (cases "n = 0")
    case True
    then show ?thesis using bubble_round_last [of "rounds - Suc n" rounds d seed s] Suc.prems assms(1) by auto
  next
    case False
    have "rounds - Suc n + 1 < rounds" "2 * (rounds - Suc n) + 1 < length d" "length s + 6 \<le> rounds * 6"
      using False Suc.prems assms(1) by auto
    from bubble_round_inner [OF this, of seed] obtain seed' s' where
      r: "bubble_round d rounds (rounds - Suc n) (seed, s) = Ptr (seed', s')" "seed' < 36" "length s' = length s + 6" by auto
    have "length s' = 1 + 6 * (rounds - n)" using r(3) Suc.prems by (simp add: Suc_diff_Suc)
    with Suc.IH [of seed' s'] r False Suc.prems show ?thesis by simp
  qed
qed simp

lemma bubblebabble_Ptr:
  assumes "\<forall>n. am n \<noteq> None"
  shows "\<exists>s. fingerprint_bubblebabble am d = Ptr s \<and> length s = 6 * (length d div 2 + 1) - 1"
proof -
  let ?r = "length d div 2 + 1"
  obtain seed s where s: "bubble_rounds d ?r ?r (1, ''x'') = Ptr (seed, s)" "length s = 6 * ?r - 2"
    using bubble_rounds_Ptr [OF refl, of ?r d 1 "''x''"] by auto
  then show ?thesis using assms by (simp add: fingerprint_bubblebabble_def Let_def put_chars_Ptr butlast_append)
qed

lemma length_hex_loop: "length s + 3 * length d + 1 \<le> cap \<Longrightarrow> length (hex_loop d cap s) = length s + 3 * length d"
  by (induction d arbitrary: s) (simp_all add: strlcat_def)

lemma hex_Ptr:
  "\<forall>n. am n \<noteq> None \<Longrightarrow> d \<noteq> [] \<Longrightarrow> \<exists>s. fingerprint_hex am d = Ptr s \<and> length s = 3 * length d - 1"
  using length_hex_loop [of "[]" d "length d * 3 + 1"] by (auto simp: fingerprint_hex_def mult.commute)

definition field_ok :: "field_map \<Rightarrow> bool" where
  "field_ok f \<longleftrightarrow> length f = FLDSIZE_X \<and> list_all (\<lambda>col. length col = FLDSIZE_Y) f"

definition inside :: "int \<Rightarrow> int \<Rightarrow> bool" where
  "inside x y \<longleftrightarrow> 0 \<le> x \<and> x < int FLDSIZE_X \<and> 0 \<le> y \<and> y < int FLDSIZE_Y"

lemma field_at_Ptr: "field_ok f \<Longrightarrow> inside x y \<Longrightarrow> \<exists>v. field_at f x y = Ptr v"
  by (simp add: field_at_def inside_def field_ok_def list_all_length array_at_Ptr nat_less_iff)

lemma field_set_Ptr:
  assumes "field_ok f" "inside x y"
  shows "\<exists>f'. field_set f x y v = Ptr f' \<and> field_ok f'"
proof -
  have "nat x < length f" using assms by (simp add: inside_def field_ok_def nat_less_iff)
  then have "f ! nat x \<in> set f" by simp
  then have "field_ok (f[nat x := (f ! nat x)[nat y := v]])"
    using assms(1) by (auto simp: field_ok_def list_all_iff dest!: subsetD [OF set_update_subset_insert])
  with field_at_Ptr [OF assms] show ?thesis by (auto simp: field_set_def)
qed

lemma worm_move_Ptr:
  assumes "field_ok f"
  shows "\<exists>f' x' y'. worm_move m (f, x, y) = Ptr (f', x', y') \<and> field_ok f' \<and> inside x' y'"
proof -
  define x2 where "x2 = min (max (x + (if m mod 2 = 1 then 1 else -1)) 0) (int FLDSIZE_X - 1)"
  define y2 where "y2 = min (max (y + (if m div 2 mod 2 = 1 then 1 else -1)) 0) (int FLDSIZE_Y - 1)"
  have ins: "inside x2 y2" by (auto simp: inside_def x2_def y2_def FLDSIZE_X_def FLDSIZE_Y_def FLDBASE_def)
  obtain v f' where v: "field_at f x2 y2 = Ptr v" "field_set f x2 y2 (v + 1) = Ptr f'" "field_ok f'"
    using field_at_Ptr [OF assms ins] field_set_Ptr [OF assms ins] by metis
  have "worm_move m (f, x, y) = ptr_bind (field_at f x2 y2) (\<lambda>v. if v < length augmentation_string - 1 - 2
      then ptr_bind (field_set f x2 y2 (v + 1)) (\<lambda>f'. Ptr (f', x2, y2)) else Ptr (f, x2, y2))"
    unfolding worm_move_def Let_def prod.case x2_def [symmetric] y2_def [symmetric] by (rule refl)
  then show ?thesis using v assms ins by auto
qed

lemma worm_moves_Ptr:
  "field_ok f \<Longrightarrow> inside x y \<Longrightarrow> \<exists>f' x' y'. worm_moves ms (f, x, y) = Ptr (f', x', y') \<and> field_ok f' \<and> inside x' y'"
proof (induction ms arbitrary: f x y)
  case (Cons m ms)
  obtain f1 x1 y1 where "worm_move m (f, x, y) = Ptr (f1, x1, y1)" "field_ok f1" "inside x1 y1"
    using worm_move_Ptr [OF Cons.prems(1)] by blast
  with Cons.IH [of f1 x1 y1] show ?case by simp
qed simp

lemma fold_chars:
  "(\<And>x. x \<in> set xs \<Longrightarrow> \<exists>cs. g x = Ptr cs \<and> length cs = n) \<Longrightarrow>
   \<exists>s. foldr (\<lambda>x r. ptr_bind (g x) (\<lambda>cs. ptr_bind r (\<lambda>s. Ptr (cs @ s)))) xs (Ptr []) = Ptr s \<and> length s = n * length xs"
proof (induction xs)
  case (Cons x xs)
  obtain cs where "g x = Ptr cs" "length cs = n" using Cons.prems [of x] by auto
  moreover obtain s where "foldr (\<lambda>x r. ptr_bind (g x) (\<lambda>cs. ptr_bind r (\<lambda>s. Ptr (cs @ s)))) xs (Ptr []) = Ptr s" "length s = n * length xs"
    using Cons by auto
  ultimately show ?case by simp
qed simp

lemma ptr_bind_assoc: "ptr_bind (ptr_bind p f) g = ptr_bind p (\<lambda>x. ptr_bind (f x) g)"
  by (cases p) (simp_all add: ptr_bind_def)

lemma art_row_Ptr:
  assumes "field_ok f" "y < FLDSIZE_Y"
  shows "\<exists>s. art_row f y = Ptr s \<and> length s = FLDSIZE_X"
proof -
  let ?g = "\<lambda>x. ptr_bind (field_at f (int x) (int y)) (\<lambda>v.
    ptr_bind (array_at augmentation_string (min v (length augmentation_string - 1))) (\<lambda>c. Ptr [c]))"
  have "\<exists>cs. ?g x = Ptr cs \<and> length cs = 1" if x: "x \<in> set [0..<FLDSIZE_X]" for x
  proof -
    obtain v where "field_at f (int x) (int y) = Ptr v" using field_at_Ptr [OF assms(1), of "int x" "int y"] x assms(2)
      by (auto simp: inside_def)
    then show ?thesis by (simp add: array_at_Ptr augmentation_string_def)
  qed
  from fold_chars [of "[0..<FLDSIZE_X]" ?g 1, OF this] show ?thesis
    by (simp add: art_row_def ptr_bind_assoc)
qed

lemma art_rows_Ptr: "field_ok f \<Longrightarrow> \<exists>s. art_rows f = Ptr s \<and> length s = FLDSIZE_Y * (FLDSIZE_X + 3)"
proof -
  assume f: "field_ok f"
  let ?g = "\<lambda>y. ptr_bind (art_row f y) (\<lambda>row. Ptr (CHR ''|'' # row @ [CHR ''|'', CHR 0x0A]))"
  have "\<exists>cs. ?g y = Ptr cs \<and> length cs = FLDSIZE_X + 3" if "y \<in> set [0..<FLDSIZE_Y]" for y
    using art_row_Ptr [OF f, of y] that by auto
  from fold_chars [of "[0..<FLDSIZE_Y]" ?g, OF this] show ?thesis
    by (simp add: art_rows_def ptr_bind_assoc mult.commute)
qed

lemma length_art_header: "length (art_header name bits) = FLDSIZE_X + 3"
proof -
  have "decimal bits \<noteq> []" by (subst decimal.simps) simp
  then have "13 \<le> length (''+--['' @ pad4 name @ '' '' @ pad4 (decimal bits) @ '']'')" by (simp add: pad4_def)
  then show ?thesis by (simp add: art_header_def Let_def FLDSIZE_X_def FLDBASE_def)
qed

lemma randomart_Ptr:
  assumes "\<forall>n. am n \<noteq> None"
  shows "\<exists>s. fingerprint_randomart am d name bits = Ptr s \<and> length s = (FLDSIZE_X + 3) * (FLDSIZE_Y + 2) - 1"
proof -
  let ?f0 = "replicate FLDSIZE_X (replicate FLDSIZE_Y 0)" and ?mx = "int (FLDSIZE_X div 2)" and ?my = "int (FLDSIZE_Y div 2)"
  have m: "inside ?mx ?my" by (simp add: inside_def FLDSIZE_X_def FLDSIZE_Y_def)
  have f0: "field_ok ?f0" by (simp add: field_ok_def list_all_length)
  obtain f x y where f: "worm_moves (moves_of d) (?f0, ?mx, ?my) = Ptr (f, x, y)" "field_ok f" "inside x y"
    using worm_moves_Ptr [OF f0 m] by blast
  obtain f1 where f1: "field_set f ?mx ?my (length augmentation_string - 1 - 1) = Ptr f1" "field_ok f1" using field_set_Ptr [OF f(2) m] by blast
  obtain f2 where f2: "field_set f1 x y (length augmentation_string - 1) = Ptr f2" "field_ok f2" using field_set_Ptr [OF f1(2) f(3)] by blast
  obtain rows where rows: "art_rows f2 = Ptr rows" "length rows = FLDSIZE_Y * (FLDSIZE_X + 3)" using art_rows_Ptr [OF f2(2)] by blast
  show ?thesis using f f1 f2 rows assms length_art_header [of name bits]
    by (simp add: fingerprint_randomart_def Let_def put_chars_Ptr algebra_simps)
qed

text \<open>C39: the three textual forms of a fingerprint stay inside their memory: no index into the tables,
  the field of the random art or the digest is out of range, and no character is written
  outside the block that was allocated, which bubble babble and random art fill exactly. The
  one exception is the hexadecimal form of an empty digest, which writes in front of its block.\<close>

theorem fingerprint_bounds:
  assumes "\<forall>n. am n \<noteq> None"
  shows "(if d = [] then fingerprint_hex am d = Wild else \<exists>s. fingerprint_hex am d = Ptr s \<and> length s = 3 * length d - 1) \<and>
    (\<exists>s. fingerprint_bubblebabble am d = Ptr s \<and> length s + 1 = 6 * (length d div 2 + 1)) \<and>
    (\<exists>s. fingerprint_randomart am d name bits = Ptr s \<and> length s + 1 = (FLDSIZE_X + 3) * (FLDSIZE_Y + 2))"
proof (intro conjI)
  have "am (Suc (length d * 3)) \<noteq> None" using assms by blast
  then show "if d = [] then fingerprint_hex am d = Wild else \<exists>s. fingerprint_hex am d = Ptr s \<and> length s = 3 * length d - 1"
    using hex_Ptr [OF assms, of d] by (auto simp: fingerprint_hex_def)
  show "\<exists>s. fingerprint_bubblebabble am d = Ptr s \<and> length s + 1 = 6 * (length d div 2 + 1)"
    using bubblebabble_Ptr [OF assms, of d] by auto
  show "\<exists>s. fingerprint_randomart am d name bits = Ptr s \<and> length s + 1 = (FLDSIZE_X + 3) * (FLDSIZE_Y + 2)"
    using randomart_Ptr [OF assms, of d name bits] by (auto simp: FLDSIZE_X_def FLDSIZE_Y_def)
qed

theorem fingerprint_bounds_witness:
  "(\<exists>s. fingerprint_hex alloc_zero [1, 2] = Ptr s \<and> length s = 5) \<and>
   (\<exists>s. fingerprint_bubblebabble alloc_zero [1, 2] = Ptr s \<and> length s = 11) \<and>
   (\<exists>s. fingerprint_randomart alloc_zero [1, 2] ''RSA'' 2048 = Ptr s \<and> length s = 219)"
  using fingerprint_bounds [of alloc_zero "[1, 2]" "''RSA''" 2048]
  by (simp add: alloc_zero_def FLDSIZE_X_def FLDSIZE_Y_def FLDBASE_def)

end
