(* ===== verification/Krl.thy ===== *)
theory Krl
  imports Sshkey Sshkey_Fp
begin

text \<open>
  Key revocation lists, \<open>ssh/krl.c\<close>. The balanced trees of \<open>sys/tree.h\<close> are the lists of their
  elements in order, and the macros do what their manual says: \<open>RB_INSERT\<close> keeps the order and
  refuses an element that compares equal, \<open>RB_FIND\<close> finds an element that compares equal,
  \<open>RB_NEXT\<close> and \<open>RB_PREV\<close> are the neighbours. \<open>RB_NFIND\<close>, which may find any of several
  elements that compare equal, and the sizes of the structs, which depend on the header, are
  parameters.
\<close>

section \<open>Trees\<close>

definition rb_find :: "('a \<Rightarrow> 'a \<Rightarrow> int) \<Rightarrow> 'a \<Rightarrow> 'a list \<Rightarrow> bool" where
  "rb_find cmp x xs = list_ex (\<lambda>y. cmp x y = 0) xs"

text \<open>The result says whether an equal element was there already.\<close>

definition rb_insert :: "('a \<Rightarrow> 'a \<Rightarrow> int) \<Rightarrow> 'a \<Rightarrow> 'a list \<Rightarrow> bool \<times> 'a list" where
  "rb_insert cmp x xs =
     (if rb_find cmp x xs then (True, xs)
      else (False, takeWhile (\<lambda>y. cmp x y > 0) xs @ x # dropWhile (\<lambda>y. cmp x y > 0) xs))"

definition memcmp :: "byte list \<Rightarrow> byte list \<Rightarrow> int" where
  "memcmp a b =
     (case filter (\<lambda>(x, y). x \<noteq> y) (zip a b) of [] \<Rightarrow> 0 | (x, y) # _ \<Rightarrow> int (unat x) - int (unat y))"

definition strcmp :: "byte list \<Rightarrow> byte list \<Rightarrow> int" where
  "strcmp a b = memcmp (c_str a @ [0]) (c_str b @ [0])"

section \<open>Data\<close>

record revoked_serial =
  rs_lo :: u64
  rs_hi :: u64

record ('bn, 'k) revoked_certs =
  rc_ca_key :: "('bn, 'k) sshkey"
  rc_serials :: "revoked_serial list"
  rc_key_ids :: "byte list list"

record ('bn, 'k) ssh_krl =
  krl_version :: u64
  krl_generated_date :: u64
  krl_flags :: u64
  krl_comment :: "byte list option"
  krl_revoked_keys :: "byte list list"
  krl_revoked_sha1s :: "byte list list"
  krl_revoked_certs :: "('bn, 'k) revoked_certs list"

definition serial_cmp :: "revoked_serial \<Rightarrow> revoked_serial \<Rightarrow> int" where
  "serial_cmp a b = (if rs_hi a \<ge> rs_lo b \<and> rs_lo a \<le> rs_hi b then 0 else if rs_lo a < rs_lo b then -1 else 1)"

definition key_id_cmp :: "byte list \<Rightarrow> byte list \<Rightarrow> int" where
  "key_id_cmp a b = strcmp a b"

definition blob_cmp :: "byte list \<Rightarrow> byte list \<Rightarrow> int" where
  "blob_cmp a b =
     (if length a \<noteq> length b then
        (let r = memcmp (take (min (length a) (length b)) a) (take (min (length a) (length b)) b) in
         if r \<noteq> 0 then r else if length a > length b then 1 else -1)
      else memcmp a b)"

record rb_lib =
  rb_nfind :: "revoked_serial list \<Rightarrow> revoked_serial \<Rightarrow> nat option"
  sizeof_ssh_krl :: nat
  sizeof_certs :: nat
  sizeof_serial :: nat
  sizeof_key_id :: nat
  sizeof_blob :: nat

definition empty_krl :: "('bn, 'k) ssh_krl" where
  "empty_krl =
     \<lparr>krl_version = 0, krl_generated_date = 0, krl_flags = 0, krl_comment = None, krl_revoked_keys = [],
      krl_revoked_sha1s = [], krl_revoked_certs = []\<rparr>"

definition ssh_krl_init :: "rb_lib \<Rightarrow> allocator \<Rightarrow> ('bn, 'k) ssh_krl option" where
  "ssh_krl_init R am = (if am (sizeof_ssh_krl R) = None then None else Some empty_krl)"

definition ssh_krl_set_version :: "u64 \<Rightarrow> ('bn, 'k) ssh_krl \<Rightarrow> ('bn, 'k) ssh_krl" where
  "ssh_krl_set_version version krl = krl\<lparr>krl_version := version\<rparr>"

definition ssh_krl_set_comment :: "allocator \<Rightarrow> byte list \<Rightarrow> (ssh_err, ('bn, 'k) ssh_krl, unit) action" where
  "ssh_krl_set_comment am comment krl =
     (if am (length (c_str comment) + 1) = None then (Inl SSH_ERR_ALLOC_FAIL, krl\<lparr>krl_comment := None\<rparr>)
      else (Inr (), krl\<lparr>krl_comment := Some (c_str comment)\<rparr>))"

section \<open>Revoking\<close>

text \<open>The index of the entry for a CA; a new entry goes to the end of the list.\<close>

definition find_ca :: "('bn, 'g, 'p, 'k) key_lib \<Rightarrow> ('bn, 'k) sshkey \<Rightarrow> ('bn, 'k) revoked_certs list \<Rightarrow> nat option" where
  "find_ca L ca rcs = (case filter (\<lambda>i. sshkey_equal L (rc_ca_key (rcs ! i)) ca) [0..<length rcs] of [] \<Rightarrow> None | i # _ \<Rightarrow> Some i)"

definition revoked_certs_for_ca_key ::
  "('bn, 'g, 'p, 'k) key_lib \<Rightarrow> rb_lib \<Rightarrow> allocator \<Rightarrow> ('bn, 'k) sshkey \<Rightarrow> bool \<Rightarrow> (ssh_err, ('bn, 'k) ssh_krl, nat option) action" where
  "revoked_certs_for_ca_key L R am ca allow_create krl =
     (case find_ca L ca (krl_revoked_certs krl) of Some i \<Rightarrow> (Inr (Some i), krl)
      | None \<Rightarrow>
          if \<not> allow_create then (Inr None, krl)
          else if am (sizeof_certs R) = None then (Inl SSH_ERR_ALLOC_FAIL, krl)
          else (case sshkey_from_private L am ca of Inl e \<Rightarrow> (Inl e, krl)
            | Inr k \<Rightarrow> (Inr (Some (length (krl_revoked_certs krl))),
                krl\<lparr>krl_revoked_certs := krl_revoked_certs krl @ [\<lparr>rc_ca_key = k, rc_serials = [], rc_key_ids = []\<rparr>]\<rparr>)))"

text \<open>The two loops that merge neighbours; the first gets the predecessors nearest first.\<close>

fun coalesce_prev :: "revoked_serial list \<Rightarrow> revoked_serial \<Rightarrow> revoked_serial list \<times> revoked_serial" where
  "coalesce_prev [] ers = ([], ers)"
| "coalesce_prev (crs # ps) ers =
     (if rs_lo ers \<noteq> 0 \<and> rs_hi crs < rs_lo ers - 1 then (crs # ps, ers)
      else coalesce_prev ps (if rs_lo crs < rs_lo ers then ers\<lparr>rs_lo := rs_lo crs\<rparr> else ers))"

fun coalesce_next :: "revoked_serial list \<Rightarrow> revoked_serial \<Rightarrow> revoked_serial list \<times> revoked_serial" where
  "coalesce_next [] ers = ([], ers)"
| "coalesce_next (crs # ns) ers =
     (if rs_hi ers \<noteq> -1 \<and> rs_lo crs > rs_hi ers + 1 then (crs # ns, ers)
      else coalesce_next ns (if rs_hi crs > rs_hi ers then ers\<lparr>rs_hi := rs_hi crs\<rparr> else ers))"

definition coalesce :: "revoked_serial list \<Rightarrow> revoked_serial \<Rightarrow> revoked_serial list \<Rightarrow> revoked_serial list" where
  "coalesce before ers after =
     (case coalesce_prev (rev before) ers of (ps, e1) \<Rightarrow>
      case coalesce_next after e1 of (ns, e2) \<Rightarrow> rev ps @ e2 # ns)"

definition insert_serial_range ::
  "rb_lib \<Rightarrow> allocator \<Rightarrow> u64 \<Rightarrow> u64 \<Rightarrow> (ssh_err, revoked_serial list, unit) action" where
  "insert_serial_range R am lo hi rt =
     (let rs = \<lparr>rs_lo = lo, rs_hi = hi\<rparr>;
          insert_new = (if am (sizeof_serial R) = None then (Inl SSH_ERR_ALLOC_FAIL, rt)
            else case rb_insert serial_cmp rs rt of (True, _) \<Rightarrow> (Inl SSH_ERR_INTERNAL_ERROR, rt)
              | (False, _) \<Rightarrow>
                  (Inr (), coalesce (takeWhile (\<lambda>y. serial_cmp rs y > 0) rt) rs (dropWhile (\<lambda>y. serial_cmp rs y > 0) rt)))
      in case rb_nfind R rt rs of None \<Rightarrow> insert_new
         | Some i \<Rightarrow>
             if serial_cmp (rt ! i) rs \<noteq> 0 then insert_new
             else let ers = rt ! i;
                      e1 = (if rs_lo ers > lo then ers\<lparr>rs_lo := lo\<rparr> else ers);
                      e2 = (if rs_hi e1 < hi then e1\<lparr>rs_hi := hi\<rparr> else e1)
                  in (Inr (), coalesce (take i rt) e2 (drop (Suc i) rt)))"

definition with_certs :: "nat \<Rightarrow> (ssh_err, ('bn, 'k) revoked_certs, unit) action \<Rightarrow> (ssh_err, ('bn, 'k) ssh_krl, unit) action" where
  "with_certs i f krl =
     (case f (krl_revoked_certs krl ! i) of (r, rc) \<Rightarrow> (r, krl\<lparr>krl_revoked_certs := (krl_revoked_certs krl)[i := rc]\<rparr>))"

definition ssh_krl_revoke_cert_by_serial_range ::
  "('bn, 'g, 'p, 'k) key_lib \<Rightarrow> rb_lib \<Rightarrow> allocator \<Rightarrow> ('bn, 'k) sshkey \<Rightarrow> u64 \<Rightarrow> u64 \<Rightarrow>
   (ssh_err, ('bn, 'k) ssh_krl, unit) action" where
  "ssh_krl_revoke_cert_by_serial_range L R am ca lo hi =
     (if lo > hi \<or> lo = 0 then act_fail SSH_ERR_INVALID_ARGUMENT
      else act_bind (revoked_certs_for_ca_key L R am ca True) (\<lambda>i.
        with_certs (the i) (\<lambda>rc. case insert_serial_range R am lo hi (rc_serials rc) of
          (r, rt) \<Rightarrow> (r, rc\<lparr>rc_serials := rt\<rparr>))))"

definition ssh_krl_revoke_cert_by_serial where
  "ssh_krl_revoke_cert_by_serial L R am ca serial = ssh_krl_revoke_cert_by_serial_range L R am ca serial serial"

definition ssh_krl_revoke_cert_by_key_id ::
  "('bn, 'g, 'p, 'k) key_lib \<Rightarrow> rb_lib \<Rightarrow> allocator \<Rightarrow> ('bn, 'k) sshkey \<Rightarrow> byte list \<Rightarrow> (ssh_err, ('bn, 'k) ssh_krl, unit) action" where
  "ssh_krl_revoke_cert_by_key_id L R am ca key_id =
     act_bind (revoked_certs_for_ca_key L R am ca True) (\<lambda>i.
       if am (sizeof_key_id R) = None \<or> am (length (c_str key_id) + 1) = None then act_fail SSH_ERR_ALLOC_FAIL
       else with_certs (the i) (\<lambda>rc. (Inr (), rc\<lparr>rc_key_ids := snd (rb_insert key_id_cmp (c_str key_id) (rc_key_ids rc))\<rparr>)))"

text \<open>The length of the blob goes through a \<open>u_int\<close>.\<close>

definition revoke_blob :: "rb_lib \<Rightarrow> allocator \<Rightarrow> byte list \<Rightarrow> (ssh_err, byte list list, unit) action" where
  "revoke_blob R am blob rbt =
     (if am (sizeof_blob R) = None then (Inl SSH_ERR_ALLOC_FAIL, rbt) else (Inr (), snd (rb_insert blob_cmp (take (unat (of_nat (length blob) :: u32)) blob) rbt)))"

text \<open>
  \<open>Wild\<close> is the use of a pointer that is null or was never set, as in \<open>sshkey_fingerprint_raw\<close>.
  A certificate without a CA key or an identity, which reading never gives, makes
  \<open>ssh_krl_revoke_key\<close> \<open>Wild\<close> also where an allocation would have failed before the use.
\<close>

type_synonym ('bn, 'k) krl_op = "('bn, 'k) ssh_krl \<Rightarrow> (unit res \<times> ('bn, 'k) ssh_krl) c_ptr"

definition ssh_krl_revoke_key_explicit ::
  "('bn, 'g, 'p, 'k) key_lib \<Rightarrow> rb_lib \<Rightarrow> allocator \<Rightarrow> ('bn, 'k) sshkey \<Rightarrow> (ssh_err, ('bn, 'k) ssh_krl, unit) action" where
  "ssh_krl_revoke_key_explicit L R am key krl =
     (case sshkey_plain_to_blob L am key of Inl e \<Rightarrow> (Inl e, krl)
      | Inr blob \<Rightarrow> (case revoke_blob R am blob (krl_revoked_keys krl) of (r, t) \<Rightarrow> (r, krl\<lparr>krl_revoked_keys := t\<rparr>)))"

definition ssh_krl_revoke_key_sha1 ::
  "('bn, 'g, 'p, 'k) key_lib \<Rightarrow> rb_lib \<Rightarrow> allocator \<Rightarrow> (sshkey_fp_type \<Rightarrow> byte list \<Rightarrow> byte list) \<Rightarrow> ('bn, 'k) sshkey \<Rightarrow> ('bn, 'k) krl_op" where
  "ssh_krl_revoke_key_sha1 L R am md key krl =
     (case sshkey_fingerprint_raw L am md key SSH_FP_SHA1 of Wild \<Rightarrow> Wild
      | Null \<Rightarrow> Ptr (Inl SSH_ERR_ALLOC_FAIL, krl)
      | Ptr blob \<Rightarrow> (case revoke_blob R am blob (krl_revoked_sha1s krl) of (r, t) \<Rightarrow> Ptr (r, krl\<lparr>krl_revoked_sha1s := t\<rparr>)))"

definition ssh_krl_revoke_key ::
  "('bn, 'g, 'p, 'k) key_lib \<Rightarrow> rb_lib \<Rightarrow> allocator \<Rightarrow> (sshkey_fp_type \<Rightarrow> byte list \<Rightarrow> byte list) \<Rightarrow> ('bn, 'k) sshkey \<Rightarrow>
   ('bn, 'k) krl_op" where
  "ssh_krl_revoke_key L R am md key krl =
     (if \<not> sshkey_is_cert key then ssh_krl_revoke_key_sha1 L R am md key krl
      else case k_cert key of None \<Rightarrow> Wild
      | Some c \<Rightarrow>
          (case c_signature_key c of None \<Rightarrow> Wild
           | Some ca \<Rightarrow>
               if sshkey_cert_is_legacy key \<or> c_serial c = 0 then
                 (case c_key_id c of None \<Rightarrow> Wild | Some kid \<Rightarrow> Ptr (ssh_krl_revoke_cert_by_key_id L R am ca kid krl))
               else Ptr (ssh_krl_revoke_cert_by_serial L R am ca (c_serial c) krl)))"

section \<open>Checking\<close>

definition is_key_revoked ::
  "('bn, 'g, 'p, 'k) key_lib \<Rightarrow> allocator \<Rightarrow> (sshkey_fp_type \<Rightarrow> byte list \<Rightarrow> byte list) \<Rightarrow> ('bn, 'k) ssh_krl \<Rightarrow>
   ('bn, 'k) sshkey \<Rightarrow> unit res c_ptr" where
  "is_key_revoked L am md krl key =
     (case sshkey_fingerprint_raw L am md key SSH_FP_SHA1 of Wild \<Rightarrow> Wild
      | Null \<Rightarrow> Ptr (Inl SSH_ERR_ALLOC_FAIL)
      | Ptr d \<Rightarrow>
          if rb_find blob_cmp d (krl_revoked_sha1s krl) then Ptr (Inl SSH_ERR_KEY_REVOKED)
          else case sshkey_plain_to_blob L am key of Inl e \<Rightarrow> Ptr (Inl e)
            | Inr blob \<Rightarrow>
                if rb_find blob_cmp blob (krl_revoked_keys krl) then Ptr (Inl SSH_ERR_KEY_REVOKED)
                else if \<not> sshkey_is_cert key then Ptr (Inr ())
                else case k_cert key of None \<Rightarrow> Wild
                  | Some c \<Rightarrow>
                      (case c_signature_key c of None \<Rightarrow> Ptr (Inr ())
                       | Some ca \<Rightarrow>
                           (case find_ca L ca (krl_revoked_certs krl) of None \<Rightarrow> Ptr (Inr ())
                            | Some i \<Rightarrow>
                                let rc = krl_revoked_certs krl ! i in
                                case (case c_key_id c of Some kid \<Rightarrow> Some (rb_find key_id_cmp kid (rc_key_ids rc))
                                      | None \<Rightarrow> if rc_key_ids rc = [] then Some False else None) of
                                  None \<Rightarrow> Wild
                                | Some True \<Rightarrow> Ptr (Inl SSH_ERR_KEY_REVOKED)
                                | Some False \<Rightarrow>
                                    if sshkey_cert_is_legacy key \<or> c_serial c = 0 then Ptr (Inr ())
                                    else if rb_find serial_cmp \<lparr>rs_lo = c_serial c, rs_hi = c_serial c\<rparr> (rc_serials rc)
                                      then Ptr (Inl SSH_ERR_KEY_REVOKED)
                                    else Ptr (Inr ()))))"

definition ssh_krl_check_key ::
  "('bn, 'g, 'p, 'k) key_lib \<Rightarrow> allocator \<Rightarrow> (sshkey_fp_type \<Rightarrow> byte list \<Rightarrow> byte list) \<Rightarrow> ('bn, 'k) ssh_krl \<Rightarrow>
   ('bn, 'k) sshkey \<Rightarrow> unit res c_ptr" where
  "ssh_krl_check_key L am md krl key =
     ptr_bind (is_key_revoked L am md krl key) (\<lambda>r. case r of Inl e \<Rightarrow> Ptr (Inl e)
       | Inr _ \<Rightarrow>
           if \<not> sshkey_is_cert key then Ptr (Inr ())
           else case k_cert key of None \<Rightarrow> Wild
             | Some c \<Rightarrow> (case c_signature_key c of None \<Rightarrow> Wild | Some ca \<Rightarrow> is_key_revoked L am md krl ca))"

end
