(* ===== verification/Krl_Serials.thy ===== *)
theory Krl_Serials
  imports Krl
begin

text \<open>
  The tree of revoked serial numbers of \<open>ssh/krl.c\<close> as a set of numbers: it is kept as ranges that
  neither overlap nor touch, inserting a range is the union, and looking up is membership.
\<close>

section \<open>Ranges\<close>

definition srange :: "revoked_serial \<Rightarrow> u64 set" where
  "srange r = {rs_lo r .. rs_hi r}"

definition serials :: "revoked_serial list \<Rightarrow> u64 set" where
  "serials rt = (\<Union>r\<in>set rt. srange r)"

definition rgap :: "revoked_serial \<Rightarrow> revoked_serial \<Rightarrow> bool" where
  "rgap a b \<longleftrightarrow> unat (rs_hi a) + 1 < unat (rs_lo b)"

definition canonical :: "revoked_serial list \<Rightarrow> bool" where
  "canonical rt \<longleftrightarrow> sorted_wrt rgap rt \<and> list_all (\<lambda>r. rs_lo r \<le> rs_hi r) rt"

text \<open>The manual of \<open>RB_NFIND\<close>: an element that compares equal, or else the least greater one.\<close>

definition nfind_ok :: "rb_lib \<Rightarrow> bool" where
  "nfind_ok R \<longleftrightarrow>
     (\<forall>rt x. canonical rt \<longrightarrow> rs_lo x \<le> rs_hi x \<longrightarrow>
        (case rb_nfind R rt x of None \<Rightarrow> (\<forall>y\<in>set rt. serial_cmp x y > 0)
         | Some i \<Rightarrow> i < length rt \<and> serial_cmp x (rt ! i) \<le> 0 \<and>
             (serial_cmp x (rt ! i) \<noteq> 0 \<longrightarrow> (\<forall>j<i. serial_cmp x (rt ! j) > 0))))"

named_theorems range_simps

lemmas range_words [range_simps] = word_le_nat_alt word_less_nat_alt

lemma serials_simps [simp]:
  "serials [] = {}" "serials (r # rt) = srange r \<union> serials rt" "serials (xs @ ys) = serials xs \<union> serials ys"
  "serials (rev xs) = serials xs"
  by (auto simp: serials_def)

lemma in_srange: "n \<in> srange r \<longleftrightarrow> unat (rs_lo r) \<le> unat n \<and> unat n \<le> unat (rs_hi r)"
  by (simp add: srange_def range_simps)

lemma canonical_append:
  "canonical (xs @ ys) \<longleftrightarrow> canonical xs \<and> canonical ys \<and> (\<forall>x\<in>set xs. \<forall>y\<in>set ys. rgap x y)"
  by (auto simp: canonical_def sorted_wrt_append)

lemma canonical_Cons:
  "canonical (x # xs) \<longleftrightarrow> rs_lo x \<le> rs_hi x \<and> canonical xs \<and> (\<forall>y\<in>set xs. rgap x y)"
  by (auto simp: canonical_def)

lemma canonical_Nil [simp]: "canonical []"
  by (simp add: canonical_def)

lemma canonical_valid: "canonical xs \<Longrightarrow> x \<in> set xs \<Longrightarrow> rs_lo x \<le> rs_hi x"
  by (simp add: canonical_def list_all_iff)

lemma unat_pred: "(x :: u64) \<noteq> 0 \<Longrightarrow> unat (x - 1) = unat x - 1"
  by (simp add: unat_minus_one)

lemma unat_succ: "(x :: u64) \<noteq> -1 \<Longrightarrow> unat (x + 1) = unat x + 1"
  by (metis Suc_eq_plus1 add.commute unatSuc add_eq_0_iff2 add.inverse_inverse minus_equation_iff)

lemma unat_top: "unat (x :: u64) \<le> unat (-1 :: u64)"
  using word_order.extremum [of x] by (simp add: word_le_nat_alt)

section \<open>Merging\<close>

lemma srange_join:
  assumes "unat (rs_lo e) \<le> unat (rs_hi c) + 1" "unat (rs_hi c) \<le> unat (rs_hi e)" "rs_lo c \<le> rs_hi c" "rs_lo e \<le> rs_hi e"
  shows "srange (if rs_lo c < rs_lo e then e\<lparr>rs_lo := rs_lo c\<rparr> else e) = srange c \<union> srange e"
  using assms by (auto simp: in_srange range_simps set_eq_iff)

lemma srange_join_next:
  assumes "unat (rs_lo c) \<le> unat (rs_hi e) + 1" "unat (rs_lo e) \<le> unat (rs_lo c)" "rs_lo c \<le> rs_hi c" "rs_lo e \<le> rs_hi e"
  shows "srange (if rs_hi c > rs_hi e then e\<lparr>rs_hi := rs_hi c\<rparr> else e) = srange c \<union> srange e"
  using assms by (auto simp: in_srange range_simps set_eq_iff)

lemma coalesce_prev_spec:
  assumes "canonical (rev ps)" "rs_lo e \<le> rs_hi e" "\<forall>p\<in>set ps. rs_hi p \<le> rs_hi e" "coalesce_prev ps e = (ps', e')"
  shows "canonical (rev ps') \<and> rs_lo e' \<le> rs_hi e' \<and> rs_hi e' = rs_hi e \<and> rs_lo e' \<le> rs_lo e \<and>
    (\<forall>p\<in>set ps'. rgap p e') \<and> serials ps' \<union> srange e' = serials ps \<union> srange e \<and> set ps' \<subseteq> set ps"
  using assms
proof (induction ps arbitrary: e)
  case Nil
  then show ?case by auto
next
  case (Cons c ps)
  have c: "canonical (rev ps)" "rs_lo c \<le> rs_hi c" "\<forall>p\<in>set ps. rgap p c"
    using Cons.prems(1) by (auto simp: canonical_append canonical_Cons)
  show ?case
  proof (cases "rs_lo e \<noteq> 0 \<and> rs_hi c < rs_lo e - 1")
    case True
    then have "rgap c e" by (auto simp: rgap_def range_simps unat_pred)
    moreover have "\<forall>p\<in>set ps. rgap p e" using c(2,3) \<open>rgap c e\<close> by (fastforce simp: rgap_def range_simps)
    ultimately show ?thesis using True Cons.prems by auto
  next
    case False
    let ?e = "if rs_lo c < rs_lo e then e\<lparr>rs_lo := rs_lo c\<rparr> else e"
    have "unat (rs_lo e) \<le> unat (rs_hi c) + 1" using False by (cases "rs_lo e = 0") (simp_all add: range_simps unat_pred)
    then have j: "srange ?e = srange c \<union> srange e"
      using Cons.prems(2,3) c(2) by (intro srange_join) (auto simp: range_simps)
    have "rs_lo ?e \<le> rs_hi ?e" "\<forall>p\<in>set ps. rs_hi p \<le> rs_hi ?e" "coalesce_prev ps ?e = (ps', e')"
      using Cons.prems(2,3,4) False by (auto simp: range_simps)
    from Cons.IH [OF c(1) this] j show ?thesis by (auto simp: range_simps split: if_splits)
  qed
qed

lemma coalesce_next_spec:
  assumes "canonical ns" "rs_lo e \<le> rs_hi e" "\<forall>p\<in>set ns. rs_lo e \<le> rs_lo p" "coalesce_next ns e = (ns', e')"
  shows "canonical ns' \<and> rs_lo e' \<le> rs_hi e' \<and> rs_lo e' = rs_lo e \<and>
    (\<forall>p\<in>set ns'. rgap e' p) \<and> serials ns' \<union> srange e' = serials ns \<union> srange e"
  using assms
proof (induction ns arbitrary: e)
  case Nil
  then show ?case by auto
next
  case (Cons c ns)
  have c: "canonical ns" "rs_lo c \<le> rs_hi c" "\<forall>p\<in>set ns. rgap c p"
    using Cons.prems(1) by (auto simp: canonical_Cons)
  show ?case
  proof (cases "rs_hi e \<noteq> -1 \<and> rs_lo c > rs_hi e + 1")
    case True
    then have "rgap e c" by (auto simp: rgap_def range_simps unat_succ)
    moreover have "\<forall>p\<in>set ns. rgap e p" using c(2,3) \<open>rgap e c\<close> by (fastforce simp: rgap_def range_simps)
    ultimately show ?thesis using True Cons.prems by auto
  next
    case False
    let ?e = "if rs_hi c > rs_hi e then e\<lparr>rs_hi := rs_hi c\<rparr> else e"
    have "unat (rs_lo c) \<le> unat (rs_hi e) + 1"
      using False unat_top [of "rs_lo c"] by (cases "rs_hi e = -1") (simp_all add: range_simps unat_succ)
    then have j: "srange ?e = srange c \<union> srange e"
      using Cons.prems(2,3) c(2) by (intro srange_join_next) (auto simp: range_simps)
    have "rs_lo ?e \<le> rs_hi ?e" "\<forall>p\<in>set ns. rs_lo ?e \<le> rs_lo p" "coalesce_next ns ?e = (ns', e')"
      using Cons.prems(2,3,4) False by (auto simp: range_simps)
    from Cons.IH [OF c(1) this] j show ?thesis by (auto split: if_splits)
  qed
qed

lemma coalesce_spec:
  assumes "canonical xs" "canonical ys" "rs_lo e \<le> rs_hi e"
    "\<forall>p\<in>set xs. rs_hi p \<le> rs_hi e" "\<forall>p\<in>set ys. rs_lo e \<le> rs_lo p" "\<forall>x\<in>set xs. \<forall>y\<in>set ys. rgap x y"
  shows "canonical (coalesce xs e ys)" "serials (coalesce xs e ys) = serials xs \<union> srange e \<union> serials ys"
proof -
  obtain ps e1 where p: "coalesce_prev (rev xs) e = (ps, e1)" by (cases "coalesce_prev (rev xs) e")
  obtain ns e2 where n: "coalesce_next ys e1 = (ns, e2)" by (cases "coalesce_next ys e1")
  have P: "canonical (rev ps)" "rs_lo e1 \<le> rs_hi e1" "rs_lo e1 \<le> rs_lo e" "\<forall>p\<in>set ps. rgap p e1"
    "serials ps \<union> srange e1 = serials xs \<union> srange e" "set ps \<subseteq> set xs"
    using coalesce_prev_spec [OF _ assms(3) _ p] assms(1,4) by auto
  have le: "\<forall>p\<in>set ys. rs_lo e1 \<le> rs_lo p" using assms(5) P(3) by (meson order_trans)
  note N = coalesce_next_spec [OF assms(2) P(2) le n]
  have e2: "\<forall>p\<in>set ps. rgap p e2" using P(4) N by (simp add: rgap_def)
  have far: "\<forall>p\<in>set ps. \<forall>q\<in>set ns. rgap p q"
    using e2 N by (fastforce simp: rgap_def range_simps)
  show "canonical (coalesce xs e ys)"
    using P(1) N e2 far by (auto simp: coalesce_def p n canonical_append canonical_Cons)
  show "serials (coalesce xs e ys) = serials xs \<union> srange e \<union> serials ys"
    using P(5) N by (auto simp: coalesce_def p n)
qed

section \<open>Inserting and looking up\<close>

lemma serial_cmp_cases:
  assumes "rs_lo x \<le> rs_hi x" "rs_lo y \<le> rs_hi y"
  shows "serial_cmp x y = 0 \<longleftrightarrow> srange x \<inter> srange y \<noteq> {}"
    "serial_cmp x y > 0 \<longleftrightarrow> rs_hi y < rs_lo x" "serial_cmp x y < 0 \<longleftrightarrow> rs_hi x < rs_lo y"
    "serial_cmp y x = 0 \<longleftrightarrow> serial_cmp x y = 0"
proof -
  have "srange x \<inter> srange y \<noteq> {} \<longleftrightarrow> rs_hi x \<ge> rs_lo y \<and> rs_lo x \<le> rs_hi y"
    using assms by (auto simp: srange_def)
  then show "serial_cmp x y = 0 \<longleftrightarrow> srange x \<inter> srange y \<noteq> {}" by (simp add: serial_cmp_def)
qed (use assms in \<open>auto simp: serial_cmp_def\<close>)

lemma find_serial: "rb_find serial_cmp \<lparr>rs_lo = n, rs_hi = n\<rparr> rt \<longleftrightarrow> n \<in> serials rt"
  by (auto simp: rb_find_def list_ex_iff serial_cmp_def serials_def srange_def)

lemma split_new:
  assumes "canonical rt" "rs_lo x \<le> rs_hi x" "\<forall>y\<in>set rt. serial_cmp x y \<noteq> 0"
  shows "canonical (coalesce (takeWhile (\<lambda>y. serial_cmp x y > 0) rt) x (dropWhile (\<lambda>y. serial_cmp x y > 0) rt))"
    "serials (coalesce (takeWhile (\<lambda>y. serial_cmp x y > 0) rt) x (dropWhile (\<lambda>y. serial_cmp x y > 0) rt)) = serials rt \<union> srange x"
proof -
  let ?P = "\<lambda>y. serial_cmp x y > 0"
  have c: "canonical (takeWhile ?P rt @ dropWhile ?P rt)" using assms(1) by simp
  have before: "\<forall>p\<in>set (takeWhile ?P rt). rs_hi p \<le> rs_hi x"
    using assms(2) canonical_valid [OF assms(1)] serial_cmp_cases(2) [OF assms(2)]
    by (fastforce dest: set_takeWhileD)
  have after: "\<forall>p\<in>set (dropWhile ?P rt). rs_lo x \<le> rs_lo p"
  proof (cases "dropWhile ?P rt")
    case Nil
    show ?thesis unfolding Nil by simp
  next
    case (Cons d ds)
    then have "d \<in> set (dropWhile ?P rt)" by simp
    then have d: "d \<in> set rt" "\<not> ?P d" using Cons hd_dropWhile [of ?P rt] set_dropWhileD [of d ?P rt] by auto
    then have "rs_hi x < rs_lo d"
      using assms(3) serial_cmp_cases(3) [OF assms(2) canonical_valid [OF assms(1) d(1)]] by force
    moreover have "\<forall>p\<in>set ds. rs_lo d \<le> rs_lo p"
      using c Cons by (auto simp: canonical_append canonical_Cons rgap_def range_simps)
    ultimately show ?thesis using Cons assms(2) by (auto intro: order_trans)
  qed
  have parts: "canonical (takeWhile ?P rt)" "canonical (dropWhile ?P rt)"
    "\<forall>a\<in>set (takeWhile ?P rt). \<forall>b\<in>set (dropWhile ?P rt). rgap a b"
    using c unfolding canonical_append by blast+
  note s = coalesce_spec [OF parts(1,2) assms(2) before after parts(3)]
  show "canonical (coalesce (takeWhile ?P rt) x (dropWhile ?P rt))" by (rule s(1))
  have "serials (takeWhile ?P rt) \<union> serials (dropWhile ?P rt) = serials rt"
    using serials_simps(3) [of "takeWhile ?P rt" "dropWhile ?P rt"] by simp
  then show "serials (coalesce (takeWhile ?P rt) x (dropWhile ?P rt)) = serials rt \<union> srange x"
    using s(2) by auto
qed

lemma split_old:
  assumes "canonical rt" "i < length rt" "lo \<le> hi" "serial_cmp (rt ! i) \<lparr>rs_lo = lo, rs_hi = hi\<rparr> = 0"
    and e: "rs_lo e = min lo (rs_lo (rt ! i))" "rs_hi e = max hi (rs_hi (rt ! i))"
  shows "canonical (coalesce (take i rt) e (drop (Suc i) rt))"
    "serials (coalesce (take i rt) e (drop (Suc i) rt)) = serials rt \<union> {lo..hi}"
proof -
  let ?r = "rt ! i"
  have rt: "rt = take i rt @ ?r # drop (Suc i) rt" using assms(2) by (rule id_take_nth_drop)
  then have c: "canonical (take i rt @ ?r # drop (Suc i) rt)" using assms(1) by simp
  then have r: "rs_lo ?r \<le> rs_hi ?r" by (simp add: canonical_append canonical_Cons)
  have "srange e = srange ?r \<union> {lo..hi}"
    using assms(3,4) r e by (auto simp: srange_def serial_cmp_def min_def max_def split: if_splits)
  moreover have "rs_lo e \<le> rs_hi e" using e r by (simp add: min_le_iff_disj le_max_iff_disj)
  moreover have "\<forall>p\<in>set (take i rt). rs_hi p \<le> rs_hi e" "\<forall>p\<in>set (drop (Suc i) rt). rs_lo e \<le> rs_lo p"
    using c r by (fastforce simp: canonical_append canonical_Cons rgap_def range_simps e max_def min_def)+
  moreover have "serials rt = serials (take i rt) \<union> srange ?r \<union> serials (drop (Suc i) rt)"
    by (subst rt) auto
  ultimately show "canonical (coalesce (take i rt) e (drop (Suc i) rt))"
    "serials (coalesce (take i rt) e (drop (Suc i) rt)) = serials rt \<union> {lo..hi}"
    using coalesce_spec [of "take i rt" "drop (Suc i) rt" e] c by (auto simp: canonical_append canonical_Cons)
qed

lemma no_overlap:
  assumes "canonical rt" "rs_lo x \<le> rs_hi x"
    and law: "case f of None \<Rightarrow> (\<forall>y\<in>set rt. serial_cmp x y > 0)
     | Some i \<Rightarrow> i < length rt \<and> serial_cmp x (rt ! i) \<le> 0 \<and> (serial_cmp x (rt ! i) \<noteq> 0 \<longrightarrow> (\<forall>j<i. serial_cmp x (rt ! j) > 0))"
    and none: "\<nexists>i. f = Some i \<and> serial_cmp (rt ! i) x = 0"
  shows "\<forall>y\<in>set rt. serial_cmp x y \<noteq> 0"
proof (cases f)
  case None
  then show ?thesis using law by auto
next
  case (Some i)
  note valid = canonical_valid [OF assms(1)]
  have i: "i < length rt" "serial_cmp x (rt ! i) < 0" "\<forall>j<i. serial_cmp x (rt ! j) > 0"
    using law none Some serial_cmp_cases(4) [OF assms(2) valid] by (auto simp: less_le)
  have "serial_cmp x (rt ! j) < 0" if "i < j" "j < length rt" for j
  proof -
    have "rgap (rt ! i) (rt ! j)" using assms(1) that by (simp add: canonical_def sorted_wrt_iff_nth_less)
    then have "rs_hi x < rs_lo (rt ! j)"
      using i(1,2) serial_cmp_cases(3) [OF assms(2) valid] valid [of "rt ! i"] by (fastforce simp: rgap_def range_simps)
    then show ?thesis using serial_cmp_cases(3) [OF assms(2) valid] that by simp
  qed
  with i have "serial_cmp x (rt ! j) \<noteq> 0" if "j < length rt" for j using that by (cases i j rule: linorder_cases) force+
  then show ?thesis by (auto simp: in_set_conv_nth)
qed

lemma insert_spec:
  assumes "nfind_ok R" "canonical rt" "lo \<le> hi"
  shows "insert_serial_range R am lo hi rt = (Inl SSH_ERR_ALLOC_FAIL, rt) \<and> am (sizeof_serial R) = None \<or>
    (\<exists>rt'. insert_serial_range R am lo hi rt = (Inr (), rt') \<and> canonical rt' \<and> serials rt' = serials rt \<union> {lo..hi})"
proof -
  define x where "x = \<lparr>rs_lo = lo, rs_hi = hi\<rparr>"
  have x: "rs_lo x \<le> rs_hi x" "srange x = {lo..hi}" using assms(3) by (simp_all add: x_def srange_def)
  note valid = canonical_valid [OF assms(2)]
  have law: "case rb_nfind R rt x of None \<Rightarrow> (\<forall>y\<in>set rt. serial_cmp x y > 0)
     | Some i \<Rightarrow> i < length rt \<and> serial_cmp x (rt ! i) \<le> 0 \<and> (serial_cmp x (rt ! i) \<noteq> 0 \<longrightarrow> (\<forall>j<i. serial_cmp x (rt ! j) > 0))"
    using assms(1,2) x(1) by (simp add: nfind_ok_def)
  show ?thesis
  proof (cases "\<exists>i. rb_nfind R rt x = Some i \<and> serial_cmp (rt ! i) x = 0")
    case True
    then obtain i where i: "rb_nfind R rt x = Some i" "serial_cmp (rt ! i) x = 0" by blast
    define e1 where "e1 = (if rs_lo (rt ! i) > lo then (rt ! i)\<lparr>rs_lo := lo\<rparr> else rt ! i)"
    define e2 where "e2 = (if rs_hi e1 < hi then e1\<lparr>rs_hi := hi\<rparr> else e1)"
    have e: "rs_lo e2 = min lo (rs_lo (rt ! i))" "rs_hi e2 = max hi (rs_hi (rt ! i))"
      by (auto simp: e1_def e2_def min_def max_def)
    have "insert_serial_range R am lo hi rt = (Inr (), coalesce (take i rt) e2 (drop (Suc i) rt))"
      using i by (simp add: insert_serial_range_def Let_def x_def e1_def e2_def)
    moreover have "i < length rt" using law i(1) by simp
    ultimately show ?thesis using split_old [OF assms(2) _ assms(3) _ e] i(2) by (simp add: x_def)
  next
    case False
    have new: "\<forall>y\<in>set rt. serial_cmp x y \<noteq> 0" using no_overlap [OF assms(2) x(1) law] False by blast
    then have "\<not> rb_find serial_cmp x rt" by (auto simp: rb_find_def list_ex_iff)
    then have "insert_serial_range R am lo hi rt = (if am (sizeof_serial R) = None then (Inl SSH_ERR_ALLOC_FAIL, rt)
        else (Inr (), coalesce (takeWhile (\<lambda>y. serial_cmp x y > 0) rt) x (dropWhile (\<lambda>y. serial_cmp x y > 0) rt)))"
      using False by (auto simp: insert_serial_range_def Let_def x_def rb_insert_def split: option.split)
    then show ?thesis using split_new [OF assms(2) x(1) new] x(2) by auto
  qed
qed

section \<open>One tree for each set\<close>

lemma serials_lower:
  assumes "canonical (r # rt)" "n \<in> serials rt"
  shows "unat (rs_hi r) + 1 < unat n"
  using assms by (fastforce simp: canonical_Cons serials_def in_srange rgap_def)

lemma head_determined:
  assumes r: "canonical (r # rt)" and s: "canonical (s # st)" and eq: "serials (r # rt) = serials (s # st)"
  shows "rs_lo r \<le> rs_lo s" "rs_hi r \<le> rs_hi s"
proof -
  have ends: "rs_lo r \<le> rs_hi r" "rs_lo s \<le> rs_hi s" using r s by (simp_all add: canonical_Cons)
  have "rs_lo s \<in> serials (r # rt)" using ends eq by (simp add: in_srange range_simps)
  then show lo: "rs_lo r \<le> rs_lo s"
    using serials_lower [OF r, of "rs_lo s"] ends by (auto simp: in_srange range_simps)
  have "rs_lo r \<in> serials (s # st)" using ends eq [symmetric] by (simp add: in_srange range_simps)
  then have lo': "rs_lo s \<le> rs_lo r"
    using serials_lower [OF s, of "rs_lo r"] ends by (auto simp: in_srange range_simps)
  show "rs_hi r \<le> rs_hi s"
  proof (rule ccontr)
    assume "\<not> rs_hi r \<le> rs_hi s"
    then have gt: "unat (rs_hi s) < unat (rs_hi r)" by (simp add: range_simps)
    then have "unat (rs_hi s + 1) = unat (rs_hi s) + 1" using unat_top [of "rs_hi r"] by (intro unat_succ) auto
    moreover from this have "rs_hi s + 1 \<in> serials (s # st)"
      using eq [symmetric] gt lo ends lo' by (simp add: in_srange range_simps)
    ultimately show False using serials_lower [OF s, of "rs_hi s + 1"] by (auto simp: in_srange)
  qed
qed

lemma canonical_unique:
  assumes "canonical rt" "canonical st" "serials rt = serials st"
  shows "rt = st"
  using assms
proof (induction rt arbitrary: st)
  case Nil
  then show ?case by (cases st) (auto simp: canonical_Cons srange_def)
next
  case (Cons r rt)
  then obtain s st' where st: "st = s # st'" by (cases st) (auto simp: canonical_Cons srange_def)
  have "rs_lo r = rs_lo s" "rs_hi r = rs_hi s"
    using head_determined [of r rt s st'] head_determined [of s st' r rt] Cons.prems st by (auto intro: order_antisym)
  then have rs: "r = s" by simp
  have "srange r \<inter> serials rt = {}" "srange r \<inter> serials st' = {}"
    using serials_lower [of r] Cons.prems(1,2) st rs by (fastforce simp: in_srange)+
  then have "serials rt = serials st'" using Cons.prems(3) st rs by auto
  then show ?case using Cons.IH [of st'] Cons.prems st rs by (simp add: canonical_Cons)
qed

section \<open>The interface\<close>

primrec rel_run :: "('a \<Rightarrow> 's \<Rightarrow> 's \<Rightarrow> bool) \<Rightarrow> 'a list \<Rightarrow> 's \<Rightarrow> 's \<Rightarrow> bool" where
  "rel_run step [] s t \<longleftrightarrow> s = t"
| "rel_run step (x # xs) s t \<longleftrightarrow> (\<exists>u. step x s u \<and> rel_run step xs u t)"

text \<open>What the rest of \<open>krl.c\<close> relies on: a set of numbers to which ranges are added.\<close>

locale range_store =
  fixes empty :: 's and step :: "'s \<Rightarrow> u64 \<Rightarrow> u64 \<Rightarrow> 's \<Rightarrow> bool" and mem :: "u64 \<Rightarrow> 's \<Rightarrow> bool"
    and members :: "'s \<Rightarrow> u64 set" and inv :: "'s \<Rightarrow> bool"
  assumes inv_empty: "inv empty" and members_empty: "members empty = {}"
    and step_inv: "inv s \<Longrightarrow> lo \<le> hi \<Longrightarrow> step s lo hi s' \<Longrightarrow> inv s'"
    and step_members: "inv s \<Longrightarrow> lo \<le> hi \<Longrightarrow> step s lo hi s' \<Longrightarrow> members s' = members s \<union> {lo..hi}"
    and mem_members: "inv s \<Longrightarrow> mem n s \<longleftrightarrow> n \<in> members s"
    and members_inj: "inv s \<Longrightarrow> inv t \<Longrightarrow> members s = members t \<Longrightarrow> s = t"
begin

lemma run_members:
  assumes "rel_run (\<lambda>(lo, hi) s s'. lo \<le> hi \<and> step s lo hi s') rs s t" "inv s"
  shows "inv t \<and> members t = members s \<union> (\<Union>(lo, hi)\<in>set rs. {lo..hi})"
  using assms
proof (induction rs arbitrary: s)
  case (Cons r rs)
  obtain lo hi where r: "r = (lo, hi)" by (cases r)
  then obtain u where u: "lo \<le> hi" "step s lo hi u" "rel_run (\<lambda>(lo, hi) s s'. lo \<le> hi \<and> step s lo hi s') rs u t"
    using Cons.prems(1) by auto
  show ?case using Cons.IH [OF u(3) step_inv [OF Cons.prems(2) u(1,2)]] step_members [OF Cons.prems(2) u(1,2)] r by auto
qed simp

lemma run_mem:
  assumes "rel_run (\<lambda>(lo, hi) s s'. lo \<le> hi \<and> step s lo hi s') rs empty t"
  shows "mem n t \<longleftrightarrow> (\<exists>(lo, hi)\<in>set rs. lo \<le> n \<and> n \<le> hi)"
proof -
  have "mem n t \<longleftrightarrow> n \<in> (\<Union>(lo, hi)\<in>set rs. {lo..hi})"
    using run_members [OF assms inv_empty] mem_members [of t n] by (simp add: members_empty)
  then show ?thesis by (simp add: case_prod_beta)
qed

lemma run_order:
  assumes "rel_run (\<lambda>(lo, hi) s s'. lo \<le> hi \<and> step s lo hi s') rs empty t"
    "rel_run (\<lambda>(lo, hi) s s'. lo \<le> hi \<and> step s lo hi s') rs' empty t'" "set rs = set rs'"
  shows "t = t'"
  using run_members [OF assms(1) inv_empty] run_members [OF assms(2) inv_empty] assms(3) by (intro members_inj) auto

end

definition serial_step :: "revoked_serial list \<Rightarrow> u64 \<Rightarrow> u64 \<Rightarrow> revoked_serial list \<Rightarrow> bool" where
  "serial_step rt lo hi rt' \<longleftrightarrow> (\<exists>R am. nfind_ok R \<and> insert_serial_range R am lo hi rt = (Inr (), rt'))"

lemma serial_step_spec:
  assumes "canonical rt" "lo \<le> hi" "serial_step rt lo hi rt'"
  shows "canonical rt' \<and> serials rt' = serials rt \<union> {lo..hi}"
proof -
  obtain R am where "nfind_ok R" and run: "insert_serial_range R am lo hi rt = (Inr (), rt')"
    using assms(3) by (auto simp: serial_step_def)
  from insert_spec [OF this(1) assms(1,2), of am] show ?thesis by (simp add: run)
qed

interpretation serial_tree:
  range_store "[]" serial_step "\<lambda>n. rb_find serial_cmp \<lparr>rs_lo = n, rs_hi = n\<rparr>" serials canonical
proof unfold_locales
  show "canonical s'" if "canonical s" "lo \<le> hi" "serial_step s lo hi s'" for s lo hi s'
    using serial_step_spec [OF that] by simp
  show "serials s' = serials s \<union> {lo..hi}" if "canonical s" "lo \<le> hi" "serial_step s lo hi s'" for s lo hi s'
    using serial_step_spec [OF that] by simp
  show "s = t" if "canonical s" "canonical t" "serials s = serials t" for s t
    by (rule canonical_unique [OF that])
qed (simp_all add: find_serial)

section \<open>Properties\<close>

text \<open>Several ranges, one call after the other.\<close>

fun insert_ranges :: "rb_lib \<Rightarrow> allocator \<Rightarrow> (u64 \<times> u64) list \<Rightarrow> (ssh_err, revoked_serial list, unit) action" where
  "insert_ranges R am [] = act_return ()"
| "insert_ranges R am ((lo, hi) # rs) = act_seq (insert_serial_range R am lo hi) (insert_ranges R am rs)"

lemma insert_ranges_run:
  assumes "nfind_ok R" "insert_ranges R am rs s = (Inr (), t)" "\<forall>(lo, hi)\<in>set rs. lo \<le> hi"
  shows "rel_run (\<lambda>(lo, hi) s s'. lo \<le> hi \<and> serial_step s lo hi s') rs s t"
  using assms(2,3)
proof (induction rs arbitrary: s)
  case (Cons r rs)
  obtain lo hi where r: "r = (lo, hi)" by (cases r)
  obtain u where u: "insert_serial_range R am lo hi s = (Inr (), u)" "insert_ranges R am rs u = (Inr (), t)"
    using Cons.prems(1) r by (auto simp: act_simps split: sum.splits prod.splits)
  then show ?case using Cons.IH [OF u(2)] Cons.prems(2) r assms(1) by (auto simp: serial_step_def)
qed (simp add: act_simps)

definition rb_example :: rb_lib where
  "rb_example = \<lparr>rb_nfind = (\<lambda>rt x. if \<exists>y\<in>set rt. serial_cmp x y \<le> 0 then Some (length (takeWhile (\<lambda>y. serial_cmp x y > 0) rt)) else None),
     sizeof_ssh_krl = 64, sizeof_certs = 40, sizeof_serial = 48, sizeof_key_id = 40, sizeof_blob = 48\<rparr>"

lemma first_not:
  assumes "y \<in> set rt" "\<not> P y"
  shows "length (takeWhile P rt) < length rt" "\<not> P (rt ! length (takeWhile P rt))"
proof -
  have "takeWhile P rt \<noteq> rt" using assms by (auto simp: takeWhile_eq_all_conv)
  then show l: "length (takeWhile P rt) < length rt"
    by (metis length_takeWhile_le le_neq_implies_less order_refl take_all takeWhile_eq_take)
  show "\<not> P (rt ! length (takeWhile P rt))" using nth_length_takeWhile [OF l] .
qed

lemma rb_example_ok: "nfind_ok rb_example"
  unfolding nfind_ok_def
proof (intro allI impI)
  fix rt x
  let ?P = "\<lambda>y. serial_cmp x y > 0"
  have before: "?P (rt ! j)" if "j < length (takeWhile ?P rt)" for j
    using that nth_mem [OF that] by (metis (no_types, lifting) set_takeWhileD takeWhile_nth)
  show "case rb_nfind rb_example rt x of None \<Rightarrow> (\<forall>y\<in>set rt. serial_cmp x y > 0)
     | Some i \<Rightarrow> i < length rt \<and> serial_cmp x (rt ! i) \<le> 0 \<and> (serial_cmp x (rt ! i) \<noteq> 0 \<longrightarrow> (\<forall>j<i. serial_cmp x (rt ! j) > 0))"
  proof (cases "\<exists>y\<in>set rt. serial_cmp x y \<le> 0")
    case True
    then obtain y where "y \<in> set rt" "\<not> ?P y" by (auto simp: not_less)
    from first_not [where P = ?P, OF this] before True show ?thesis by (simp add: rb_example_def not_less)
  next
    case False
    then show ?thesis by (auto simp: rb_example_def not_le)
  qed
qed

text \<open>C4: Inserting a range of serial numbers succeeds whenever memory for one element can be had. On a
  tree whose ranges are ordered, disjoint and not adjacent it gives such a tree again, whose numbers
  are those of the old one together with the range, for every \<open>RB_NFIND\<close> that follows its manual and
  up to the largest 64-bit number.
\<close>

theorem insert_serial_range_refines:
  assumes "nfind_ok R" "canonical rt" "lo \<le> hi" "am (sizeof_serial R) \<noteq> None"
  shows "\<exists>rt'. insert_serial_range R am lo hi rt = (Inr (), rt') \<and> canonical rt' \<and> serials rt' = serials rt \<union> {lo..hi}"
  using insert_spec [OF assms(1-3), of am] assms(4) by blast

theorem insert_serial_range_refines_witness:
  "\<exists>rt'. insert_serial_range rb_example alloc_zero 5 (-1) [\<lparr>rs_lo = 1, rs_hi = 4\<rparr>, \<lparr>rs_lo = 9, rs_hi = 12\<rparr>] = (Inr (), rt') \<and>
     canonical rt' \<and> serials rt' = {1..4} \<union> {9..12} \<union> {5..-1}"
proof -
  have "canonical [\<lparr>rs_lo = 1, rs_hi = 4\<rparr>, \<lparr>rs_lo = 9, rs_hi = 12\<rparr>]" by (simp add: canonical_def rgap_def)
  from insert_serial_range_refines [OF rb_example_ok this, of 5 "-1" alloc_zero] show ?thesis
    by (simp add: alloc_zero_total srange_def)
qed

text \<open>C12: The tree depends only on which ranges were revoked: inserted in another order, more than once
  or with another \<open>RB_NFIND\<close> they give the same tree, and a serial number is found in it exactly
  when one of the ranges has it.
\<close>

theorem insert_ranges_order:
  assumes "nfind_ok R" "nfind_ok R'" "\<forall>(lo, hi)\<in>set rs. lo \<le> hi" "set rs' = set rs"
    "insert_ranges R am rs [] = (Inr (), t)" "insert_ranges R' am' rs' [] = (Inr (), t')"
  shows "t' = t \<and> (rb_find serial_cmp \<lparr>rs_lo = n, rs_hi = n\<rparr> t \<longleftrightarrow> (\<exists>(lo, hi)\<in>set rs. lo \<le> n \<and> n \<le> hi))"
proof -
  note run = insert_ranges_run [OF assms(1,5,3)] insert_ranges_run [OF assms(2,6), unfolded assms(4), OF assms(3)]
  show ?thesis using serial_tree.run_order [OF run] serial_tree.run_mem [OF run(1)] assms(4) by simp
qed

lemma example_ranges:
  "insert_ranges rb_example alloc_zero [(1, 4), (5, 9)] [] = (Inr (), [\<lparr>rs_lo = 1, rs_hi = 9\<rparr>])"
  "insert_ranges rb_example alloc_zero [(5, 9), (1, 4), (5, 9)] [] = (Inr (), [\<lparr>rs_lo = 1, rs_hi = 9\<rparr>])"
  by code_simp+

theorem insert_ranges_order_witness:
  "insert_ranges rb_example alloc_zero [(5, 9), (1, 4), (5, 9)] [] = insert_ranges rb_example alloc_zero [(1, 4), (5, 9)] [] \<and>
   rb_find serial_cmp \<lparr>rs_lo = 7, rs_hi = 7\<rparr> (snd (insert_ranges rb_example alloc_zero [(1, 4), (5, 9)] []))"
proof -
  have "rb_find serial_cmp \<lparr>rs_lo = 7, rs_hi = 7\<rparr> [\<lparr>rs_lo = 1, rs_hi = 9\<rparr>]"
    using insert_ranges_order [OF rb_example_ok rb_example_ok _ _ example_ranges, of 7] by auto
  then show ?thesis unfolding example_ranges by simp
qed

end
