(* ===== verification/Krl_Check.thy ===== *)
theory Krl_Check
  imports Sshkey_Accept Krl_Serials
begin

text \<open>
  Revoking and checking, \<open>ssh/krl.c\<close>: every operation keeps the trees of serial numbers canonical,
  and a key that has been revoked is reported as revoked.
\<close>

section \<open>Comparisons\<close>

lemma memcmp_refl [simp]: "memcmp a a = 0"
proof -
  have "filter (\<lambda>(x, y). x \<noteq> y) (zip a a) = []" by (auto simp: filter_empty_conv in_set_zip)
  then show ?thesis by (simp add: memcmp_def)
qed

lemma blob_cmp_refl [simp]: "blob_cmp a a = 0"
  by (simp add: blob_cmp_def)

lemma c_str_idem [simp]: "c_str (c_str v) = c_str v"
  by (simp add: c_str_def takeWhile_idem)

lemma key_id_cmp_c_str: "key_id_cmp (c_str a) b = key_id_cmp a b" "key_id_cmp a (c_str a) = 0"
  by (simp_all add: key_id_cmp_def strcmp_def)

lemma find_inserted: "cmp x x = 0 \<Longrightarrow> rb_find cmp x (snd (rb_insert cmp x xs))"
  by (auto simp: rb_insert_def rb_find_def)

lemma find_inserted_id: "rb_find key_id_cmp a (snd (rb_insert key_id_cmp (c_str a) xs))"
  using find_inserted [of key_id_cmp "c_str a" xs] by (simp add: rb_find_def key_id_cmp_c_str)

section \<open>Keys\<close>

text \<open>What OpenSSL documents of its comparisons.\<close>

definition eq_lib_ok :: "('bn, 'g, 'p, 'k) key_lib \<Rightarrow> bool" where
  "eq_lib_ok L \<longleftrightarrow> (\<forall>x. kl_bn_cmp L x x = 0) \<and> (\<forall>g. kl_group_eq L g g) \<and> (\<forall>g p. kl_point_eq L g p p)"

definition plain_ok :: "('bn, 'g, 'p, 'k) key_lib \<Rightarrow> ('bn, 'k) sshkey \<Rightarrow> bool" where
  "plain_ok L k \<longleftrightarrow> key_pub_ok L k \<and> \<not> sshkey_is_cert k \<and> k_cert k = None"

lemma plain_equal:
  assumes "eq_lib_ok L" "key_pub_ok L k" "\<not> sshkey_is_cert k"
  shows "sshkey_equal L k k"
  using assms by (auto simp: sshkey_equal_def sshkey_equal_public_def key_pub_ok_def eq_lib_ok_def ec_ok_def
    sshkey_ec_validate_public_def Let_def split: if_splits)

lemma plain_copy:
  assumes "plain_ok L k"
  shows "sshkey_from_private L am k = Inr k"
proof (cases k)
  case (Sshkey t rsa dsa nid ec cert)
  then show ?thesis
    using assms by (auto simp: plain_ok_def key_pub_ok_def ec_ok_def Let_def sshkey_is_cert_def split: option.splits)
qed

lemma plain_of_cert:
  "to_blob L am k True = to_blob L am (with_type (sshkey_type_plain (k_type k)) None k) True"
proof -
  have "sshkey_type_plain (sshkey_type_plain t) = sshkey_type_plain t" for t by (cases t) simp_all
  then have "to_blob_buf L am k True b = to_blob_buf L am (with_type (sshkey_type_plain (k_type k)) None k) True b" for b
    by (cases "k_type k") (simp_all add: to_blob_buf_def with_type_def Let_def split: option.split)
  then show ?thesis by (simp add: to_blob_def split: option.split)
qed

lemma plain_blob:
  assumes "\<forall>n. am n \<noteq> None" "bn_lib_ok (kl_bn L)" "key_pub_ok L k"
  shows "\<exists>blob. to_blob L am k True = Inr blob"
proof -
  let ?p = "with_type (sshkey_type_plain (k_type k)) None k"
  have "sshkey_type_plain (sshkey_type_plain t) = sshkey_type_plain t" for t by (cases t) simp_all
  then have "key_pub_ok L ?p" using assms(3) by (simp add: key_pub_ok_def with_type_def)
  moreover have "\<not> sshkey_is_cert ?p" by (cases "k_type k") (simp_all add: sshkey_is_cert_def with_type_def)
  ultimately show ?thesis using to_blob_enc [OF assms(1,2)] plain_of_cert by metis
qed

lemma fingerprint_total:
  assumes "\<forall>n. am n \<noteq> None" "bn_lib_ok (kl_bn L)" "key_pub_ok L k"
  shows "\<exists>blob. sshkey_fingerprint_raw L am md k SSH_FP_SHA1 = Ptr (md SSH_FP_SHA1 blob)"
proof -
  have "k_type k \<noteq> KEY_RSA1" "k_type k \<noteq> KEY_UNSPEC" using assms(3) by (auto simp: key_pub_ok_def)
  moreover have "\<exists>blob. to_blob L am k (sshkey_is_cert k) = Inr blob"
    using plain_blob [OF assms] to_blob_enc [OF assms] by (cases "sshkey_is_cert k") auto
  ultimately show ?thesis using assms(1) by (auto simp: sshkey_fingerprint_raw_def Let_def)
qed

section \<open>The entry of a CA\<close>

definition krl_ok :: "('bn, 'k) ssh_krl \<Rightarrow> bool" where
  "krl_ok krl \<longleftrightarrow> list_all (\<lambda>rc. canonical (rc_serials rc)) (krl_revoked_certs krl)"

lemma find_ca_Some: "find_ca L ca rcs = Some i \<Longrightarrow> i < length rcs \<and> sshkey_equal L (rc_ca_key (rcs ! i)) ca"
proof -
  assume "find_ca L ca rcs = Some i"
  then have "i \<in> set (filter (\<lambda>i. sshkey_equal L (rc_ca_key (rcs ! i)) ca) [0..<length rcs])"
    by (auto simp: find_ca_def simp del: set_filter split: list.splits)
  then show ?thesis by simp
qed

lemma find_ca_update:
  assumes "find_ca L ca rcs = Some i" "rc_ca_key rc = rc_ca_key (rcs ! i)"
  shows "find_ca L ca (rcs[i := rc]) = Some i"
proof -
  have "rc_ca_key (rcs[i := rc] ! j) = rc_ca_key (rcs ! j)" for j
    using assms(2) by (cases "i < length rcs") (simp_all add: nth_list_update list_update_beyond)
  then show ?thesis using assms(1) by (simp add: find_ca_def)
qed

lemma find_ca_append:
  assumes "find_ca L ca rcs = None" "sshkey_equal L (rc_ca_key rc) ca"
  shows "find_ca L ca (rcs @ [rc]) = Some (length rcs)"
proof -
  have none: "filter (\<lambda>i. sshkey_equal L (rc_ca_key (rcs ! i)) ca) [0..<length rcs] = []"
    using assms(1) by (auto simp: find_ca_def split: list.splits)
  have "filter (\<lambda>i. sshkey_equal L (rc_ca_key ((rcs @ [rc]) ! i)) ca) [0..<length rcs] = []"
    using none by (auto simp: filter_empty_conv nth_append)
  then show ?thesis using assms(2) by (simp add: find_ca_def)
qed

lemma ca_entry:
  assumes "eq_lib_ok L" "\<forall>n. am n \<noteq> None" "plain_ok L ca" "krl_ok krl"
  obtains i krl' where "revoked_certs_for_ca_key L R am ca True krl = (Inr (Some i), krl')" "krl_ok krl'"
    "find_ca L ca (krl_revoked_certs krl') = Some i" "i < length (krl_revoked_certs krl')"
proof (cases "find_ca L ca (krl_revoked_certs krl)")
  case (Some i)
  then show ?thesis using that [of i krl] assms(4) find_ca_Some [OF Some] by (simp add: revoked_certs_for_ca_key_def)
next
  case None
  let ?rc = "\<lparr>rc_ca_key = ca, rc_serials = [], rc_key_ids = []\<rparr>"
  let ?k = "krl\<lparr>krl_revoked_certs := krl_revoked_certs krl @ [?rc]\<rparr>"
  have "sshkey_equal L ca ca" using plain_equal [OF assms(1)] assms(3) by (simp add: plain_ok_def)
  then have "find_ca L ca (krl_revoked_certs ?k) = Some (length (krl_revoked_certs krl))"
    using find_ca_append [OF None, of ?rc] by simp
  moreover have "revoked_certs_for_ca_key L R am ca True krl = (Inr (Some (length (krl_revoked_certs krl))), ?k)"
    using None assms(2) by (auto simp: revoked_certs_for_ca_key_def plain_copy [OF assms(3)])
  ultimately show ?thesis using that [of "length (krl_revoked_certs krl)" ?k] assms(4) by (simp add: krl_ok_def)
qed

lemma revoke_in_entry:
  assumes "find_ca L ca (krl_revoked_certs krl) = Some i" "krl_ok krl" "rc_ca_key rc = rc_ca_key (krl_revoked_certs krl ! i)"
    "canonical (rc_serials rc)"
  defines "krl' \<equiv> krl\<lparr>krl_revoked_certs := (krl_revoked_certs krl)[i := rc]\<rparr>"
  shows "krl_ok krl'" "find_ca L ca (krl_revoked_certs krl') = Some i" "krl_revoked_certs krl' ! i = rc"
  using assms(2,4) find_ca_update [OF assms(1,3)] find_ca_Some [OF assms(1)]
  by (auto simp: krl'_def krl_ok_def list_all_length nth_list_update)

lemma by_serial:
  assumes "eq_lib_ok L" "\<forall>n. am n \<noteq> None" "plain_ok L ca" "krl_ok krl" "nfind_ok R" "serial \<noteq> 0"
  shows "\<exists>krl' i. ssh_krl_revoke_cert_by_serial L R am ca serial krl = (Inr (), krl') \<and> krl_ok krl' \<and>
    find_ca L ca (krl_revoked_certs krl') = Some i \<and>
    rb_find serial_cmp \<lparr>rs_lo = serial, rs_hi = serial\<rparr> (rc_serials (krl_revoked_certs krl' ! i))"
proof -
  obtain i k where e: "revoked_certs_for_ca_key L R am ca True krl = (Inr (Some i), k)" "krl_ok k"
    "find_ca L ca (krl_revoked_certs k) = Some i" "i < length (krl_revoked_certs k)"
    using ca_entry [OF assms(1-4)] by metis
  let ?rc = "krl_revoked_certs k ! i"
  have "canonical (rc_serials ?rc)" using e(2,4) by (simp add: krl_ok_def list_all_length)
  then obtain rt where rt: "insert_serial_range R am serial serial (rc_serials ?rc) = (Inr (), rt)" "canonical rt"
    "serials rt = serials (rc_serials ?rc) \<union> {serial..serial}"
    using insert_spec [OF assms(5), of _ serial serial am] assms(2) by blast
  have "ssh_krl_revoke_cert_by_serial L R am ca serial krl =
      (Inr (), k\<lparr>krl_revoked_certs := (krl_revoked_certs k)[i := ?rc\<lparr>rc_serials := rt\<rparr>]\<rparr>)"
    using assms(6) by (simp add: ssh_krl_revoke_cert_by_serial_def ssh_krl_revoke_cert_by_serial_range_def act_simps e(1) with_certs_def rt(1))
  then show ?thesis
    using revoke_in_entry [OF e(3,2), of "?rc\<lparr>rc_serials := rt\<rparr>"] rt(2,3) by (auto simp: find_serial)
qed

lemma by_key_id:
  assumes "eq_lib_ok L" "\<forall>n. am n \<noteq> None" "plain_ok L ca" "krl_ok krl"
  shows "\<exists>krl' i. ssh_krl_revoke_cert_by_key_id L R am ca kid krl = (Inr (), krl') \<and> krl_ok krl' \<and>
    find_ca L ca (krl_revoked_certs krl') = Some i \<and> rb_find key_id_cmp kid (rc_key_ids (krl_revoked_certs krl' ! i))"
proof -
  obtain i k where e: "revoked_certs_for_ca_key L R am ca True krl = (Inr (Some i), k)" "krl_ok k"
    "find_ca L ca (krl_revoked_certs k) = Some i" "i < length (krl_revoked_certs k)"
    using ca_entry [OF assms(1-4)] by metis
  let ?rc = "krl_revoked_certs k ! i"
  let ?new = "?rc\<lparr>rc_key_ids := snd (rb_insert key_id_cmp (c_str kid) (rc_key_ids ?rc))\<rparr>"
  have "canonical (rc_serials ?new)" using e(2,4) by (simp add: krl_ok_def list_all_length)
  moreover have "ssh_krl_revoke_cert_by_key_id L R am ca kid krl =
      (Inr (), k\<lparr>krl_revoked_certs := (krl_revoked_certs k)[i := ?new]\<rparr>)"
    using assms(2) by (auto simp: ssh_krl_revoke_cert_by_key_id_def act_simps e(1) with_certs_def)
  ultimately show ?thesis
    using revoke_in_entry [OF e(3,2), of ?new] find_inserted_id [of kid "rc_key_ids ?rc"] by auto
qed

section \<open>Checking\<close>

lemma check_cert:
  assumes "\<forall>n. am n \<noteq> None" "bn_lib_ok (kl_bn L)" "key_pub_ok L k" "sshkey_is_cert k" "k_cert k = Some c"
    "c_signature_key c = Some ca" "c_key_id c = Some kid" "find_ca L ca (krl_revoked_certs krl) = Some i"
    and hit: "rb_find key_id_cmp kid (rc_key_ids (krl_revoked_certs krl ! i)) \<or>
      \<not> sshkey_cert_is_legacy k \<and> c_serial c \<noteq> 0 \<and>
      rb_find serial_cmp \<lparr>rs_lo = c_serial c, rs_hi = c_serial c\<rparr> (rc_serials (krl_revoked_certs krl ! i))"
  shows "ssh_krl_check_key L am md krl k = Ptr (Inl SSH_ERR_KEY_REVOKED)"
proof -
  obtain d where d: "sshkey_fingerprint_raw L am md k SSH_FP_SHA1 = Ptr d" using fingerprint_total [OF assms(1-3)] by blast
  obtain blob where "sshkey_plain_to_blob L am k = Inr blob"
    using plain_blob [OF assms(1-3)] by (auto simp: sshkey_plain_to_blob_def)
  then have "is_key_revoked L am md krl k = Ptr (Inl SSH_ERR_KEY_REVOKED)"
    using hit by (auto simp: is_key_revoked_def d assms(4-8) Let_def split: bool.split)
  then show ?thesis by (simp add: ssh_krl_check_key_def ptr_bind_def)
qed

lemma by_sha1:
  assumes "\<forall>n. am n \<noteq> None" "bn_lib_ok (kl_bn L)" "key_pub_ok L k" "\<forall>t d. length (md t d) \<le> EVP_MAX_MD_SIZE" "krl_ok krl"
  shows "\<exists>krl'. ssh_krl_revoke_key_sha1 L R am md k krl = Ptr (Inr (), krl') \<and> krl_ok krl' \<and>
    ssh_krl_check_key L am md krl' k = Ptr (Inl SSH_ERR_KEY_REVOKED)"
proof -
  obtain b where d: "sshkey_fingerprint_raw L am md k SSH_FP_SHA1 = Ptr (md SSH_FP_SHA1 b)"
    using fingerprint_total [OF assms(1-3)] by blast
  let ?d = "md SSH_FP_SHA1 b"
  have "length ?d \<le> 64" using assms(4) by (simp add: EVP_MAX_MD_SIZE_def)
  then have "take (unat (of_nat (length ?d) :: u32)) ?d = ?d" by (simp add: unat_of_nat)
  then have run: "ssh_krl_revoke_key_sha1 L R am md k krl =
      Ptr (Inr (), krl\<lparr>krl_revoked_sha1s := snd (rb_insert blob_cmp ?d (krl_revoked_sha1s krl))\<rparr>)"
    using assms(1) by (auto simp: ssh_krl_revoke_key_sha1_def d revoke_blob_def)
  show ?thesis
    using assms(5) find_inserted [of blob_cmp ?d "krl_revoked_sha1s krl"]
    by (simp add: run krl_ok_def ssh_krl_check_key_def is_key_revoked_def d ptr_bind_def)
qed

section \<open>Properties\<close>

definition cert_named :: "('bn, 'g, 'p, 'k) key_lib \<Rightarrow> ('bn, 'k) sshkey \<Rightarrow> bool" where
  "cert_named L k \<longleftrightarrow> (\<exists>c ca kid. k_cert k = Some c \<and> c_signature_key c = Some ca \<and> plain_ok L ca \<and> c_key_id c = Some kid)"

text \<open>C5: A key or certificate that is put on a revocation list with \<open>ssh_krl_revoke_key\<close> is reported as
  revoked by \<open>ssh_krl_check_key\<close>, whatever the list held before: plain keys by their digest,
  certificates by serial number, or by identity when they are of the old format or have no serial
  number. While memory lasts revoking never fails, and it keeps every tree of serial numbers
  canonical.
\<close>

theorem ssh_krl_revoke_key_checked:
  assumes "bn_lib_ok (kl_bn L)" "eq_lib_ok L" "\<forall>n. am n \<noteq> None" "nfind_ok R" "\<forall>t d. length (md t d) \<le> EVP_MAX_MD_SIZE"
    "key_pub_ok L k" "sshkey_is_cert k \<longrightarrow> cert_named L k" "krl_ok krl"
  shows "\<exists>krl'. ssh_krl_revoke_key L R am md k krl = Ptr (Inr (), krl') \<and> krl_ok krl' \<and>
    ssh_krl_check_key L am md krl' k = Ptr (Inl SSH_ERR_KEY_REVOKED)"
proof (cases "sshkey_is_cert k")
  case False
  then show ?thesis using by_sha1 [OF assms(3,1,6,5,8)] by (simp add: ssh_krl_revoke_key_def)
next
  case True
  then obtain c ca kid where c: "k_cert k = Some c" "c_signature_key c = Some ca" "plain_ok L ca" "c_key_id c = Some kid"
    using assms(7) by (auto simp: cert_named_def)
  note check = check_cert [OF assms(3,1,6) True c(1,2,4)]
  show ?thesis
  proof (cases "sshkey_cert_is_legacy k \<or> c_serial c = 0")
    case old: True
    then show ?thesis using by_key_id [OF assms(2,3) c(3) assms(8), of R kid] check True c
      by (auto simp: ssh_krl_revoke_key_def)
  next
    case new: False
    then show ?thesis using by_serial [OF assms(2,3) c(3) assms(8,4), of "c_serial c"] check True c
      by (auto simp: ssh_krl_revoke_key_def)
  qed
qed

theorem ssh_krl_revoke_key_checked_witness:
  "\<exists>krl'. ssh_krl_revoke_key lib_example rb_example alloc_zero (\<lambda>_ d. take 20 d)
      (with_type KEY_RSA_CERT (Some (cert_signed cert_example blob_example ca_example)) key_example) empty_krl = Ptr (Inr (), krl') \<and>
    ssh_krl_check_key lib_example alloc_zero (\<lambda>_ d. take 20 d) krl'
      (with_type KEY_RSA_CERT (Some (cert_signed cert_example blob_example ca_example)) key_example) = Ptr (Inl SSH_ERR_KEY_REVOKED)"
proof -
  let ?k = "with_type KEY_RSA_CERT (Some (cert_signed cert_example blob_example ca_example)) key_example"
  have "eq_lib_ok lib_example" by (simp add: eq_lib_ok_def lib_example_def ec_none_def)
  moreover have "\<forall>t d. length (take 20 (d :: byte list)) \<le> EVP_MAX_MD_SIZE" by (simp add: EVP_MAX_MD_SIZE_def min_le_iff_disj)
  moreover have "key_pub_ok lib_example ?k" using example_keys(2) by (simp add: key_pub_ok_def with_type_def key_example_def)
  moreover have "cert_named lib_example ?k"
    using example_keys(1,5) by (simp add: cert_named_def with_type_def cert_signed_def cert_example_def plain_ok_def ca_example_def)
  moreover have "krl_ok empty_krl" by (simp add: krl_ok_def empty_krl_def)
  ultimately show ?thesis
    using ssh_krl_revoke_key_checked [OF example_keys(3) _ alloc_zero_total rb_example_ok, of "\<lambda>_ d. take 20 d" ?k empty_krl] by blast
qed

end
