(* ===== verification/Krl_Wire.thy ===== *)
theory Krl_Wire
  imports Krl_Check
begin

text \<open>
  The format of key revocation lists, \<open>ssh/krl.c\<close>: writing with \<open>ssh_krl_to_blob\<close>, reading with
  \<open>ssh_krl_from_blob\<close>.
\<close>

section \<open>Constants\<close>

definition KRL_MAGIC :: "byte list" where "KRL_MAGIC = [83, 83, 72, 75, 82, 76, 10, 0]"
definition KRL_FORMAT_VERSION :: u32 where "KRL_FORMAT_VERSION = 1"
definition KRL_SECTION_CERTIFICATES :: byte where "KRL_SECTION_CERTIFICATES = 1"
definition KRL_SECTION_EXPLICIT_KEY :: byte where "KRL_SECTION_EXPLICIT_KEY = 2"
definition KRL_SECTION_FINGERPRINT_SHA1 :: byte where "KRL_SECTION_FINGERPRINT_SHA1 = 3"
definition KRL_SECTION_SIGNATURE :: byte where "KRL_SECTION_SIGNATURE = 4"
definition KRL_SECTION_CERT_SERIAL_LIST :: byte where "KRL_SECTION_CERT_SERIAL_LIST = 0x20"
definition KRL_SECTION_CERT_SERIAL_RANGE :: byte where "KRL_SECTION_CERT_SERIAL_RANGE = 0x21"
definition KRL_SECTION_CERT_SERIAL_BITMAP :: byte where "KRL_SECTION_CERT_SERIAL_BITMAP = 0x22"
definition KRL_SECTION_CERT_KEY_ID :: byte where "KRL_SECTION_CERT_KEY_ID = 0x23"

lemmas krl_sections = KRL_SECTION_CERTIFICATES_def KRL_SECTION_EXPLICIT_KEY_def KRL_SECTION_FINGERPRINT_SHA1_def
  KRL_SECTION_SIGNATURE_def KRL_SECTION_CERT_SERIAL_LIST_def KRL_SECTION_CERT_SERIAL_RANGE_def
  KRL_SECTION_CERT_SERIAL_BITMAP_def KRL_SECTION_CERT_KEY_ID_def

text \<open>The functions of OpenSSL on single bits.\<close>

record 'bn bit_lib =
  BN_new :: "'bn option"
  BN_set_bit :: "'bn \<Rightarrow> int \<Rightarrow> 'bn option"
  BN_is_bit_set :: "'bn \<Rightarrow> int \<Rightarrow> bool"

section \<open>Choosing a section\<close>

definition choose_next_state :: "byte \<Rightarrow> u64 \<Rightarrow> bool \<Rightarrow> u64 \<Rightarrow> u64 \<Rightarrow> byte \<times> bool" where
  "choose_next_state current_state contig0 final last_gap0 next_gap0 =
     (let contig = min contig0 0x80000000; last_gap = min last_gap0 0x80000000; next_gap = min next_gap0 0x80000000;
          to_list = (if current_state = KRL_SECTION_CERT_SERIAL_BITMAP \<or> current_state = KRL_SECTION_CERT_SERIAL_RANGE \<or>
            current_state = 0 then 8 else 0 :: u64);
          to_bitmap = (if current_state = KRL_SECTION_CERT_SERIAL_LIST \<or> current_state = KRL_SECTION_CERT_SERIAL_RANGE \<or>
            current_state = 0 then 8 + 64 else 0);
          to_restart = (if current_state = KRL_SECTION_CERT_SERIAL_LIST \<or> current_state = KRL_SECTION_CERT_SERIAL_BITMAP \<or>
            current_state = KRL_SECTION_CERT_SERIAL_RANGE \<or> current_state = 0 then 8 + 64 else 0);
          cost_list = (to_list + (64 * contig + (if final then 0 else 8 + 64)) + 7) div 8;
          cost_range = (8 + (2 * 64 + (if final then 0 else 8 + 64)) + 7) div 8;
          cost_bitmap = (to_bitmap + (last_gap + contig + (if final then 0 else min next_gap (8 + 64))) + 7) div 8;
          cost_bitmap_restart = (to_restart + (contig + (if final then 0 else min next_gap (8 + 64))) + 7) div 8;
          (s1, c1) = (if cost_range < cost_bitmap then (KRL_SECTION_CERT_SERIAL_RANGE, cost_range)
            else (KRL_SECTION_CERT_SERIAL_BITMAP, cost_bitmap));
          (s2, c2) = (if cost_list < c1 then (KRL_SECTION_CERT_SERIAL_LIST, cost_list) else (s1, c1))
      in if cost_bitmap_restart < c2 then (KRL_SECTION_CERT_SERIAL_BITMAP, True) else (s2, False))"

section \<open>Writing\<close>

text \<open>
  \<open>revoked_certs_generate\<close>: the variable \<open>state\<close>, with the bitmap and its offset in the one state in
  which the code has them. An exit with \<open>r == 0\<close> in the middle of the function is the error \<open>None\<close>.
\<close>

datatype 'bn sect_state = S_none | S_list | S_range | S_bitmap 'bn u64

fun sect_type :: "'bn sect_state \<Rightarrow> byte" where
  "sect_type S_none = 0"
| "sect_type S_list = KRL_SECTION_CERT_SERIAL_LIST"
| "sect_type S_range = KRL_SECTION_CERT_SERIAL_RANGE"
| "sect_type (S_bitmap _ _) = KRL_SECTION_CERT_SERIAL_BITMAP"

record 'bn gen =
  g_buf :: sshbuf
  g_sect :: sshbuf
  g_state :: "'bn sect_state"
  g_last :: u64

type_synonym 'bn gen_op = "(ssh_err option, 'bn gen, unit) action"

definition on_buf :: "(ssh_err, sshbuf, unit) action \<Rightarrow> 'bn gen_op" where
  "on_buf f g = (case f (g_buf g) of (Inl e, b) \<Rightarrow> (Inl (Some e), g\<lparr>g_buf := b\<rparr>) | (Inr _, b) \<Rightarrow> (Inr (), g\<lparr>g_buf := b\<rparr>))"

definition on_sect :: "(ssh_err, sshbuf, unit) action \<Rightarrow> 'bn gen_op" where
  "on_sect f g = (case f (g_sect g) of (Inl e, b) \<Rightarrow> (Inl (Some e), g\<lparr>g_sect := b\<rparr>) | (Inr _, b) \<Rightarrow> (Inr (), g\<lparr>g_sect := b\<rparr>))"

definition gen_flush :: "('bn, 'g, 'p, 'k) key_lib \<Rightarrow> allocator \<Rightarrow> 'bn gen_op" where
  "gen_flush L am g =
     act_seq (case g_state g of S_bitmap v _ \<Rightarrow> on_sect (sshbuf_put_bignum2 (kl_bn L) am v) | _ \<Rightarrow> act_return ())
       (act_seq (on_buf (sshbuf_put_u8 am (sect_type (g_state g)))) (\<lambda>h. on_buf (sshbuf_put_stringb am (g_sect h)) h)) g"

definition gen_start :: "'bn bit_lib \<Rightarrow> allocator \<Rightarrow> byte \<Rightarrow> u64 \<Rightarrow> 'bn gen_op" where
  "gen_start B am next_state lo g =
     (let h = g\<lparr>g_sect := sshbuf_reset am (g_sect g)\<rparr> in
      if next_state = KRL_SECTION_CERT_SERIAL_BITMAP then
        (case BN_new B of None \<Rightarrow> (Inl (Some SSH_ERR_ALLOC_FAIL), h)
         | Some v \<Rightarrow> on_sect (sshbuf_put_u64 am lo) (h\<lparr>g_state := S_bitmap v lo\<rparr>))
      else (Inr (), h\<lparr>g_state := (if next_state = KRL_SECTION_CERT_SERIAL_LIST then S_list else S_range)\<rparr>))"

text \<open>The number of the bit goes through an \<open>int\<close>.\<close>

fun set_bits :: "'bn bit_lib \<Rightarrow> u64 list \<Rightarrow> 'bn \<Rightarrow> 'bn option" where
  "set_bits B [] v = Some v"
| "set_bits B (n # ns) v = (case BN_set_bit B v (sint (ucast n :: u32)) of None \<Rightarrow> None | Some v' \<Rightarrow> set_bits B ns v')"

definition gen_emit :: "'bn bit_lib \<Rightarrow> allocator \<Rightarrow> revoked_serial \<Rightarrow> u64 \<Rightarrow> 'bn gen_op" where
  "gen_emit B am rs contig g =
     (let offs = map of_nat [0..<unat contig] in
      case g_state g of S_none \<Rightarrow> (Inr (), g)
      | S_list \<Rightarrow> act_all (map (\<lambda>i. on_sect (sshbuf_put_u64 am (rs_lo rs + i))) offs) g
      | S_range \<Rightarrow> act_seq (on_sect (sshbuf_put_u64 am (rs_lo rs))) (on_sect (sshbuf_put_u64 am (rs_hi rs))) g
      | S_bitmap v off \<Rightarrow>
          if rs_lo rs - off > 0x7fffffff then (Inl None, g)
          else (case set_bits B (map (\<lambda>i. rs_lo rs + i - off) offs) v of
              None \<Rightarrow> (Inl (Some SSH_ERR_LIBCRYPTO_ERROR), g) | Some v' \<Rightarrow> (Inr (), g\<lparr>g_state := S_bitmap v' off\<rparr>)))"

definition gen_serial ::
  "('bn, 'g, 'p, 'k) key_lib \<Rightarrow> 'bn bit_lib \<Rightarrow> allocator \<Rightarrow> revoked_serial \<Rightarrow> revoked_serial option \<Rightarrow> 'bn gen_op" where
  "gen_serial L B am rs nrs g =
     (let final = (nrs = None); gap = (case nrs of None \<Rightarrow> 0 | Some n \<Rightarrow> rs_lo n - rs_hi rs);
          contig = 1 + (rs_hi rs - rs_lo rs); state = sect_type (g_state g);
          (next_state, force) = choose_next_state state contig final (if state = 0 then 0 else rs_lo rs - g_last g) gap
      in act_seq (if state \<noteq> 0 \<and> (force \<or> next_state \<noteq> state \<or> state = KRL_SECTION_CERT_SERIAL_RANGE) then gen_flush L am
                  else act_return ())
         (act_seq (if next_state \<noteq> state \<or> force then gen_start B am next_state (rs_lo rs) else act_return ())
         (act_seq (gen_emit B am rs contig) (\<lambda>h. (Inr (), h\<lparr>g_last := rs_hi rs\<rparr>)))) g)"

fun gen_serials :: "('bn, 'g, 'p, 'k) key_lib \<Rightarrow> 'bn bit_lib \<Rightarrow> allocator \<Rightarrow> revoked_serial list \<Rightarrow> 'bn gen_op" where
  "gen_serials L B am [] = act_return ()"
| "gen_serials L B am (rs # rest) =
     act_seq (gen_serial L B am rs (case rest of [] \<Rightarrow> None | n # _ \<Rightarrow> Some n)) (gen_serials L B am rest)"

definition gen_key_ids :: "allocator \<Rightarrow> byte list list \<Rightarrow> 'bn gen_op" where
  "gen_key_ids am ids =
     act_seq (\<lambda>g. (Inr (), g\<lparr>g_sect := sshbuf_reset am (g_sect g)\<rparr>))
     (act_seq (act_all (map (\<lambda>i. on_sect (sshbuf_put_cstring am i)) ids))
       (\<lambda>g. if sshbuf_len (g_sect g) \<noteq> 0 then
              act_seq (on_buf (sshbuf_put_u8 am KRL_SECTION_CERT_KEY_ID)) (on_buf (sshbuf_put_stringb am (g_sect g))) g
            else (Inr (), g)))"

definition revoked_certs_generate ::
  "('bn, 'g, 'p, 'k) key_lib \<Rightarrow> 'bn bit_lib \<Rightarrow> allocator \<Rightarrow> ('bn, 'k) revoked_certs \<Rightarrow> (ssh_err, sshbuf, unit) action" where
  "revoked_certs_generate L B am rc buf =
     (case sshkey_to_blob L am (rc_ca_key rc) of Inl e \<Rightarrow> (Inl e, buf)
      | Inr kblob \<Rightarrow>
     (case sshbuf_new am of None \<Rightarrow> (Inl SSH_ERR_ALLOC_FAIL, buf)
      | Some sect \<Rightarrow>
     (case act_seq (on_buf (sshbuf_put_string am kblob)) (act_seq (on_buf (sshbuf_put_string am []))
            (act_seq (gen_serials L B am (rc_serials rc))
            (act_seq (\<lambda>g. if sect_type (g_state g) \<noteq> 0 then gen_flush L am g else (Inr (), g))
              (gen_key_ids am (rc_key_ids rc)))))
          \<lparr>g_buf = buf, g_sect = sect, g_state = S_none, g_last = 0\<rparr> of
        (Inl (Some e), g) \<Rightarrow> (Inl e, g_buf g) | (Inl None, g) \<Rightarrow> (Inr (), g_buf g) | (Inr _, g) \<Rightarrow> (Inr (), g_buf g))))"

text \<open>The sections of \<open>ssh_krl_to_blob\<close>, on the pair of \<open>buf\<close> and \<open>sect\<close>.\<close>

definition on_fst :: "(ssh_err, 's, 'a) action \<Rightarrow> (ssh_err, 's \<times> 't, 'a) action" where
  "on_fst f st = (case f (fst st) of (r, x) \<Rightarrow> (r, (x, snd st)))"

definition on_snd :: "(ssh_err, 't, 'a) action \<Rightarrow> (ssh_err, 's \<times> 't, 'a) action" where
  "on_snd f st = (case f (snd st) of (r, x) \<Rightarrow> (r, (fst st, x)))"

definition put_section :: "allocator \<Rightarrow> byte \<Rightarrow> (ssh_err, sshbuf \<times> sshbuf, unit) action" where
  "put_section am ty = act_seq (on_fst (sshbuf_put_u8 am ty)) (\<lambda>st. on_fst (sshbuf_put_stringb am (snd st)) st)"

definition put_blobs :: "allocator \<Rightarrow> byte \<Rightarrow> byte list list \<Rightarrow> (ssh_err, sshbuf \<times> sshbuf, unit) action" where
  "put_blobs am ty blobs =
     act_seq (on_snd (\<lambda>s. (Inr (), sshbuf_reset am s)))
     (act_seq (act_all (map (\<lambda>v. on_snd (sshbuf_put_string am v)) blobs))
       (\<lambda>st. if sshbuf_len (snd st) \<noteq> 0 then put_section am ty st else (Inr (), st)))"

definition krl_header :: "allocator \<Rightarrow> ('bn, 'k) ssh_krl \<Rightarrow> (ssh_err, sshbuf, unit) action" where
  "krl_header am krl =
     act_all [sshbuf_put am KRL_MAGIC, sshbuf_put_u32 am KRL_FORMAT_VERSION, sshbuf_put_u64 am (krl_version krl),
       sshbuf_put_u64 am (krl_generated_date krl), sshbuf_put_u64 am (krl_flags krl), sshbuf_put_string am [],
       sshbuf_put_cstring am (case krl_comment krl of None \<Rightarrow> [] | Some c \<Rightarrow> c)]"

definition krl_body ::
  "('bn, 'g, 'p, 'k) key_lib \<Rightarrow> 'bn bit_lib \<Rightarrow> allocator \<Rightarrow> ('bn, 'k) ssh_krl \<Rightarrow> (ssh_err, sshbuf \<times> sshbuf, unit) action" where
  "krl_body L B am krl =
     act_seq (on_fst (krl_header am krl))
     (act_seq (act_all (map (\<lambda>rc. act_seq (on_snd (revoked_certs_generate L B am rc)) (put_section am KRL_SECTION_CERTIFICATES))
         (krl_revoked_certs krl)))
     (act_seq (put_blobs am KRL_SECTION_EXPLICIT_KEY (krl_revoked_keys krl))
       (put_blobs am KRL_SECTION_FINGERPRINT_SHA1 (krl_revoked_sha1s krl))))"

text \<open>
  The loop over the signing keys leaves the function with \<open>r == 0\<close> when the first key can be
  written; when it cannot, the length of its blob is used without having been set.
\<close>

definition krl_sign ::
  "('bn, 'g, 'p, 'k) key_lib \<Rightarrow> allocator \<Rightarrow> ('bn, 'k) sshkey list \<Rightarrow> sshbuf \<Rightarrow> (unit res \<times> sshbuf) c_ptr" where
  "krl_sign L am keys buf =
     (case keys of [] \<Rightarrow> Ptr (Inr (), buf)
      | k # _ \<Rightarrow>
          (case sshkey_to_blob L am k of Inr _ \<Rightarrow> Ptr (Inr (), buf)
           | Inl _ \<Rightarrow> (case sshbuf_put_u8 am KRL_SECTION_SIGNATURE buf of (Inl e, b) \<Rightarrow> Ptr (Inl e, b) | (Inr _, _) \<Rightarrow> Wild)))"

text \<open>\<open>now\<close> is what \<open>time\<close> returns. The result holds the list, whose date may have been set, and the buffer.\<close>

definition ssh_krl_to_blob ::
  "('bn, 'g, 'p, 'k) key_lib \<Rightarrow> 'bn bit_lib \<Rightarrow> allocator \<Rightarrow> u64 \<Rightarrow> ('bn, 'k) sshkey list \<Rightarrow> ('bn, 'k) ssh_krl \<Rightarrow> sshbuf \<Rightarrow>
   (unit res \<times> ('bn, 'k) ssh_krl \<times> sshbuf) c_ptr" where
  "ssh_krl_to_blob L B am now sign_keys krl0 buf =
     (let krl = (if krl_generated_date krl0 = 0 then krl0\<lparr>krl_generated_date := now\<rparr> else krl0) in
      case sshbuf_new am of None \<Rightarrow> Ptr (Inl SSH_ERR_ALLOC_FAIL, krl, buf)
      | Some sect \<Rightarrow>
          (case krl_body L B am krl (buf, sect) of (Inl e, (b, _)) \<Rightarrow> Ptr (Inl e, krl, b)
           | (Inr _, (b, _)) \<Rightarrow> ptr_bind (krl_sign L am sign_keys b) (\<lambda>(r, b'). Ptr (r, krl, b'))))"

section \<open>Reading\<close>

text \<open>
  \<open>sshbuf_froms\<close>: the view of a string, and the reference the view holds on its parent. The
  references of the views that \<open>parse_revoked_certs\<close> does not free stay.
\<close>

definition view_string :: "allocator \<Rightarrow> (ssh_err, sshbuf, sshbuf) action" where
  "view_string am b =
     (case sshbuf_peek_string_direct b of Inl e \<Rightarrow> (Inl e, b)
      | Inr (i, len) \<Rightarrow>
          (case sshbuf_from am (Some (take len (drop i (block b)))) of None \<Rightarrow> (Inl SSH_ERR_ALLOC_FAIL, b)
           | Some c \<Rightarrow>
               (case sshbuf_consume (size_add len 4) b of (Inl e, b') \<Rightarrow> (Inl e, b')
                | (Inr _, b') \<Rightarrow> (Inr c, b'\<lparr>sb_refcount := sb_refcount b' + 1\<rparr>))))"

definition unref :: "sshbuf \<Rightarrow> sshbuf" where
  "unref b = b\<lparr>sb_refcount := sb_refcount b - 1\<rparr>"

text \<open>\<open>while (sshbuf_len(b) > 0)\<close>, for as many rounds as there are bytes.\<close>

fun while_data :: "nat \<Rightarrow> (ssh_err, sshbuf \<times> 's, unit) action \<Rightarrow> (ssh_err, sshbuf \<times> 's, unit) action" where
  "while_data 0 f st = (Inr (), st)"
| "while_data (Suc n) f st =
     (if sshbuf_len (fst st) > 0 then
        (case f st of (Inl e, st') \<Rightarrow> (Inl e, st') | (Inr _, st') \<Rightarrow> while_data n f st')
      else (Inr (), st))"

definition loop_data :: "(ssh_err, sshbuf \<times> 's, unit) action \<Rightarrow> (ssh_err, sshbuf \<times> 's, unit) action" where
  "loop_data f st = while_data (sshbuf_len (fst st)) f st"

definition parse_bitmap ::
  "('bn, 'g, 'p, 'k) key_lib \<Rightarrow> 'bn bit_lib \<Rightarrow> rb_lib \<Rightarrow> allocator \<Rightarrow> ('bn, 'k) sshkey \<Rightarrow>
   (ssh_err, sshbuf \<times> ('bn, 'k) ssh_krl, unit) action" where
  "parse_bitmap L B R am ca =
     (if BN_new B = None then act_fail SSH_ERR_ALLOC_FAIL
      else act_bind (on_fst sshbuf_get_u64) (\<lambda>lo. act_bind (on_fst (sshbuf_get_bignum2 (kl_bn L) True)) (\<lambda>v.
        if BN_num_bits (kl_bn L) (the v) < 0 then act_fail SSH_ERR_INVALID_FORMAT
        else act_all (map (\<lambda>n. let serial = of_nat n :: u64 in
          if serial > 0 \<and> lo + serial = 0 then act_fail SSH_ERR_INVALID_FORMAT
          else if \<not> BN_is_bit_set B (the v) (int n) then act_return ()
          else on_snd (ssh_krl_revoke_cert_by_serial L R am ca (lo + serial))) [0..<nat (BN_num_bits (kl_bn L) (the v))]))))"

text \<open>The bodies of the two loops over a subsection.\<close>

definition serial_round ::
  "('bn, 'g, 'p, 'k) key_lib \<Rightarrow> rb_lib \<Rightarrow> allocator \<Rightarrow> ('bn, 'k) sshkey \<Rightarrow> (ssh_err, sshbuf \<times> ('bn, 'k) ssh_krl, unit) action" where
  "serial_round L R am ca = act_bind (on_fst sshbuf_get_u64) (\<lambda>n. on_snd (ssh_krl_revoke_cert_by_serial L R am ca n))"

definition key_id_round ::
  "('bn, 'g, 'p, 'k) key_lib \<Rightarrow> rb_lib \<Rightarrow> allocator \<Rightarrow> ('bn, 'k) sshkey \<Rightarrow> (ssh_err, sshbuf \<times> ('bn, 'k) ssh_krl, unit) action" where
  "key_id_round L R am ca = act_bind (on_fst (sshbuf_get_cstring am)) (\<lambda>kid. on_snd (ssh_krl_revoke_cert_by_key_id L R am ca kid))"

definition parse_subsection ::
  "('bn, 'g, 'p, 'k) key_lib \<Rightarrow> 'bn bit_lib \<Rightarrow> rb_lib \<Rightarrow> allocator \<Rightarrow> ('bn, 'k) sshkey \<Rightarrow> byte \<Rightarrow>
   (ssh_err, sshbuf \<times> ('bn, 'k) ssh_krl, unit) action" where
  "parse_subsection L B R am ca ty =
     act_seq
       (if ty = KRL_SECTION_CERT_SERIAL_LIST then
          loop_data (serial_round L R am ca)
        else if ty = KRL_SECTION_CERT_SERIAL_RANGE then
          act_bind (on_fst sshbuf_get_u64) (\<lambda>lo. act_bind (on_fst sshbuf_get_u64) (\<lambda>hi.
            on_snd (ssh_krl_revoke_cert_by_serial_range L R am ca lo hi)))
        else if ty = KRL_SECTION_CERT_SERIAL_BITMAP then parse_bitmap L B R am ca
        else if ty = KRL_SECTION_CERT_KEY_ID then
          loop_data (key_id_round L R am ca)
        else act_fail SSH_ERR_INVALID_FORMAT)
       (\<lambda>st. if sshbuf_len (fst st) > 0 then (Inl SSH_ERR_INVALID_FORMAT, st) else (Inr (), st))"

text \<open>Running a reader on a view, with the list from the outer state.\<close>

definition on_view ::
  "sshbuf \<Rightarrow> (ssh_err, sshbuf \<times> 's, unit) action \<Rightarrow> (ssh_err, sshbuf \<times> 's, unit) action" where
  "on_view v f st = (case f (v, snd st) of (r, (_, x)) \<Rightarrow> (r, (fst st, x)))"

definition cert_round ::
  "('bn, 'g, 'p, 'k) key_lib \<Rightarrow> 'bn bit_lib \<Rightarrow> rb_lib \<Rightarrow> allocator \<Rightarrow> ('bn, 'k) sshkey \<Rightarrow>
   (ssh_err, sshbuf \<times> ('bn, 'k) ssh_krl, unit) action" where
  "cert_round L B R am ca = act_bind (on_fst sshbuf_get_u8) (\<lambda>ty. act_bind (on_fst (view_string am)) (\<lambda>v.
     on_view v (parse_subsection L B R am ca ty)))"

definition parse_revoked_certs ::
  "('bn, 'g, 'p, 'k) key_lib \<Rightarrow> 'bn bit_lib \<Rightarrow> rb_lib \<Rightarrow> allocator \<Rightarrow> (ssh_err, sshbuf \<times> ('bn, 'k) ssh_krl, unit) action" where
  "parse_revoked_certs L B R am =
     act_bind (on_fst sshbuf_get_string_direct) (\<lambda>(i, len). act_seq (on_fst sshbuf_get_string_direct)
       (\<lambda>st. case sshkey_from_blob L am (take len (drop i (block (fst st)))) of Inl e \<Rightarrow> (Inl e, st)
         | Inr ca \<Rightarrow> loop_data (cert_round L B R am ca) st))"

text \<open>
  The header, from the copy of the buffer. The first three numbers are compared before they are
  assigned: when one of them is missing the function returns 1.
\<close>

definition krl_read_header :: "allocator \<Rightarrow> ('bn, 'k) ssh_krl \<Rightarrow> (ssh_err, sshbuf, ('bn, 'k) ssh_krl) action" where
  "krl_read_header am krl =
     act_seq (sshbuf_consume (length KRL_MAGIC)) (act_bind sshbuf_get_u32 (\<lambda>version.
       if version \<noteq> KRL_FORMAT_VERSION then act_fail SSH_ERR_INVALID_FORMAT
       else act_bind (act_err (RAW_RC 1) sshbuf_get_u64) (\<lambda>v. act_bind (act_err (RAW_RC 1) sshbuf_get_u64) (\<lambda>d.
         act_bind (act_err (RAW_RC 1) sshbuf_get_u64) (\<lambda>f. act_seq sshbuf_get_string_direct
           (act_bind (sshbuf_get_cstring am) (\<lambda>c.
             act_return (krl\<lparr>krl_version := v, krl_generated_date := d, krl_flags := f, krl_comment := Some (c_str c)\<rparr>))))))))"

text \<open>
  The first pass, up to the first signature: the key that made it, and the rest of the copy. The
  signature is checked over as many bytes as follow the signing key.
\<close>

fun first_pass ::
  "nat \<Rightarrow> ('bn, 'g, 'p, 'k) key_lib \<Rightarrow> allocator \<Rightarrow> sshbuf \<Rightarrow> (ssh_err, sshbuf, ('bn, 'k) sshkey option) action" where
  "first_pass 0 L am buf copy = (Inr None, copy)"
| "first_pass (Suc n) L am buf copy =
     (if sshbuf_len copy = 0 then (Inr None, copy)
      else act_bind sshbuf_get_u8 (\<lambda>ty. act_bind sshbuf_get_string_direct (\<lambda>(i, len).
        if ty \<noteq> KRL_SECTION_SIGNATURE then first_pass n L am buf
        else (\<lambda>c. case sshkey_from_blob L am (take len (drop i (block c))) of Inl e \<Rightarrow> (Inl e, c)
          | Inr key \<Rightarrow>
              let sig_off = size_sub (sshbuf_len buf) (sshbuf_len c) in
              act_bind sshbuf_get_string_direct (\<lambda>(j, slen) c2.
                case sshkey_verify L key (take slen (drop j (block c2)))
                  (take (size_sub (sshbuf_len buf) sig_off) (sshbuf_bytes buf)) 0 of
                  Inl e \<Rightarrow> (Inl e, c2)
                | Inr _ \<Rightarrow> if am 8 = None then (Inl SSH_ERR_ALLOC_FAIL, c2) else (Inr (Some key), c2)) c))) copy)"

text \<open>
  The second pass, on the buffer, the copy and the list. A signature is skipped in the copy, and the
  length of the null pointer \<open>sect\<close> is then 0.
\<close>

definition blob_round :: "rb_lib \<Rightarrow> allocator \<Rightarrow> byte \<Rightarrow> (ssh_err, sshbuf \<times> ('bn, 'k) ssh_krl, unit) action" where
  "blob_round R am ty =
     act_bind (on_fst (sshbuf_get_string am)) (\<lambda>d.
       if ty = KRL_SECTION_FINGERPRINT_SHA1 \<and> length d \<noteq> 20 then act_fail SSH_ERR_INVALID_FORMAT
       else on_snd (\<lambda>krl. if ty = KRL_SECTION_EXPLICIT_KEY
         then (case revoke_blob R am d (krl_revoked_keys krl) of (r, t) \<Rightarrow> (r, krl\<lparr>krl_revoked_keys := t\<rparr>))
         else (case revoke_blob R am d (krl_revoked_sha1s krl) of (r, t) \<Rightarrow> (r, krl\<lparr>krl_revoked_sha1s := t\<rparr>))))"

definition parse_blobs :: "rb_lib \<Rightarrow> allocator \<Rightarrow> byte \<Rightarrow> (ssh_err, sshbuf \<times> ('bn, 'k) ssh_krl, unit) action" where
  "parse_blobs R am ty = loop_data (blob_round R am ty)"

definition second_section ::
  "('bn, 'g, 'p, 'k) key_lib \<Rightarrow> 'bn bit_lib \<Rightarrow> rb_lib \<Rightarrow> allocator \<Rightarrow> byte \<Rightarrow> sshbuf \<Rightarrow>
   (ssh_err, sshbuf \<times> sshbuf \<times> ('bn, 'k) ssh_krl, unit) action" where
  "second_section L B R am ty sect =
     (let within = (\<lambda>f (b, copy, krl). case act_seq f (\<lambda>st. if sshbuf_len (fst st) > 0 then (Inl SSH_ERR_INVALID_FORMAT, st)
            else (Inr (), st)) (sect, krl) of (r, (_, krl')) \<Rightarrow> (r, (b, copy, krl'))) in
      if ty = KRL_SECTION_CERTIFICATES then within (parse_revoked_certs L B R am)
      else if ty = KRL_SECTION_EXPLICIT_KEY \<or> ty = KRL_SECTION_FINGERPRINT_SHA1 then within (parse_blobs R am ty)
      else if ty = KRL_SECTION_SIGNATURE then on_snd (act_seq (on_fst sshbuf_get_string_direct) (act_return ()))
      else act_fail SSH_ERR_INVALID_FORMAT)"

definition second_round ::
  "('bn, 'g, 'p, 'k) key_lib \<Rightarrow> 'bn bit_lib \<Rightarrow> rb_lib \<Rightarrow> allocator \<Rightarrow> (ssh_err, sshbuf \<times> sshbuf \<times> ('bn, 'k) ssh_krl, unit) action" where
  "second_round L B R am = act_bind (on_fst sshbuf_get_u8) (\<lambda>ty. act_bind (on_fst (view_string am)) (\<lambda>sect.
     act_seq (second_section L B R am ty sect) (on_fst (\<lambda>b. (Inr (), unref b)))))"

definition second_pass ::
  "('bn, 'g, 'p, 'k) key_lib \<Rightarrow> 'bn bit_lib \<Rightarrow> rb_lib \<Rightarrow> allocator \<Rightarrow> (ssh_err, sshbuf \<times> sshbuf \<times> ('bn, 'k) ssh_krl, unit) action" where
  "second_pass L B R am = loop_data (second_round L B R am)"

text \<open>
  What is done with the key that signed. The result \<open>Inr None\<close> is a return of 0 that leaves
  \<open>*krlp\<close> null: no trusted key among the signers.
\<close>

definition krl_accept ::
  "('bn, 'g, 'p, 'k) key_lib \<Rightarrow> allocator \<Rightarrow> (sshkey_fp_type \<Rightarrow> byte list \<Rightarrow> byte list) \<Rightarrow> ('bn, 'k) sshkey list \<Rightarrow>
   ('bn, 'k) sshkey option \<Rightarrow> ('bn, 'k) ssh_krl \<Rightarrow> ('bn, 'k) ssh_krl option res c_ptr" where
  "krl_accept L am md sign_ca_keys signer krl =
     (case signer of None \<Rightarrow> Ptr (Inr (Some krl))
      | Some k \<Rightarrow>
          ptr_bind (ssh_krl_check_key L am md krl k) (\<lambda>r. case r of Inl e \<Rightarrow> Ptr (Inl e)
            | Inr _ \<Rightarrow>
                if sign_ca_keys \<noteq> [] \<and> \<not> list_ex (sshkey_equal L k) sign_ca_keys then Ptr (Inr None)
                else Ptr (Inr (Some krl))))"

definition ssh_krl_from_blob ::
  "('bn, 'g, 'p, 'k) key_lib \<Rightarrow> 'bn bit_lib \<Rightarrow> rb_lib \<Rightarrow> allocator \<Rightarrow> (sshkey_fp_type \<Rightarrow> byte list \<Rightarrow> byte list) \<Rightarrow>
   ('bn, 'k) sshkey list \<Rightarrow> sshbuf \<Rightarrow> ('bn, 'k) ssh_krl option res c_ptr" where
  "ssh_krl_from_blob L B R am md sign_ca_keys buf =
     (if sshbuf_len buf < length KRL_MAGIC \<or> take (length KRL_MAGIC) (sshbuf_bytes buf) \<noteq> KRL_MAGIC then Ptr (Inl SSH_ERR_KRL_BAD_MAGIC)
      else case (sshbuf_from am (Some (sshbuf_bytes buf)), ssh_krl_init R am) of
        (Some copy, Some krl0) \<Rightarrow>
          (case krl_read_header am krl0 copy of (Inl e, _) \<Rightarrow> Ptr (Inl e)
           | (Inr krl, copy1) \<Rightarrow>
               let sects_off = size_sub (sshbuf_len buf) (sshbuf_len copy1) in
               (case first_pass (sshbuf_len copy1) L am buf copy1 of (Inl e, _) \<Rightarrow> Ptr (Inl e)
                | (Inr signer, copy2) \<Rightarrow>
                    (case act_seq (on_fst (sshbuf_consume sects_off)) (second_pass L B R am)
                       (buf\<lparr>sb_refcount := sb_refcount buf + 1\<rparr>, copy2, krl) of
                       (Inl e, _) \<Rightarrow> Ptr (Inl e)
                     | (Inr _, (_, _, krl')) \<Rightarrow> krl_accept L am md sign_ca_keys signer krl')))
      | _ \<Rightarrow> Ptr (Inl SSH_ERR_ALLOC_FAIL))"

text \<open>
  \<open>ssh_krl_file_contains_key\<close>: \<open>file\<close> is \<open>None\<close> for a null path, otherwise the error of opening,
  allocating or reading, or the buffer that was read. The result is the number returned.
\<close>

definition ssh_krl_file_contains_key ::
  "('bn, 'g, 'p, 'k) key_lib \<Rightarrow> 'bn bit_lib \<Rightarrow> rb_lib \<Rightarrow> allocator \<Rightarrow> (sshkey_fp_type \<Rightarrow> byte list \<Rightarrow> byte list) \<Rightarrow>
   sshbuf res option \<Rightarrow> ('bn, 'k) sshkey \<Rightarrow> int c_ptr" where
  "ssh_krl_file_contains_key L B R am md file key =
     (case file of None \<Rightarrow> Ptr 0
      | Some (Inl e) \<Rightarrow> Ptr (err_code e)
      | Some (Inr buf) \<Rightarrow>
          ptr_bind (ssh_krl_from_blob L B R am md [] buf) (\<lambda>r. case r of Inl _ \<Rightarrow> Ptr (-1)
            | Inr None \<Rightarrow> Ptr (-2)
            | Inr (Some krl) \<Rightarrow> ptr_bind (ssh_krl_check_key L am md krl key) (\<lambda>c. Ptr (if c = Inr () then 0 else -1))))"

end
