(* ===== verification/Krl_Loops.thy ===== *)
theory Krl_Loops
  imports Krl_Wire
begin

text \<open>
  The loops that read key revocation lists end: every round that succeeds makes the buffer shorter,
  so that as many rounds as there are bytes are enough.
\<close>

section \<open>Enough rounds\<close>

text \<open>A body that shortens the buffer whenever it succeeds needs no more rounds than there are bytes.\<close>

lemma while_data_enough:
  assumes "\<And>s u s'. sshbuf_len (fst s) > 0 \<Longrightarrow> f s = (Inr u, s') \<Longrightarrow> sshbuf_len (fst s') < sshbuf_len (fst s)"
    "sshbuf_len (fst st) \<le> n"
  shows "while_data n f st = loop_data f st"
proof -
  have "while_data n f st = while_data m f st" if "sshbuf_len (fst st) \<le> n" "sshbuf_len (fst st) \<le> m" for n m st
    using that
  proof (induction n arbitrary: m st)
    case 0
    then show ?case by (cases m) simp_all
  next
    case (Suc n)
    show ?case
    proof (cases "sshbuf_len (fst st) > 0")
      case True
      then obtain k where m: "m = Suc k" using Suc.prems(2) by (cases m) auto
      obtain r st' where run: "f st = (r, st')" by (rule prod.exhaust)
      show ?thesis
      proof (cases r)
        case (Inr u)
        then have "sshbuf_len (fst st') < sshbuf_len (fst st)" using assms(1) [OF True] run by simp
        then have "sshbuf_len (fst st') \<le> n" "sshbuf_len (fst st') \<le> k" using Suc.prems m by linarith+
        from Suc.IH [OF this] show ?thesis by (simp add: m True run Inr)
      qed (use True m run in simp)
    qed (cases m, simp_all)
  qed
  from this [OF assms(2) order_refl] show ?thesis by (simp only: loop_data_def)
qed

section \<open>Readers consume\<close>

definition shorter :: "(ssh_err, sshbuf, 'a) action \<Rightarrow> bool" where
  "shorter f \<longleftrightarrow> (\<forall>b v b'. f b = (Inr v, b') \<longrightarrow> sshbuf_len b' < sshbuf_len b)"

lemma consume_shorter:
  assumes "sshbuf_consume n b = (Inr u, b')" "0 < n"
  shows "sshbuf_len b' < sshbuf_len b"
proof -
  have sane: "sshbuf_check_sanity b = Inr ()" and n: "n \<le> sshbuf_len b" and b': "b' = b\<lparr>sb_off := size_add (sb_off b) n\<rparr>"
    using assms by (auto simp: sshbuf_consume_def split: sum.splits if_splits)
  note bounds = sane [unfolded sanity_iff]
  have len: "sshbuf_len b = sb_size b - sb_off b" "sb_size b < SIZE_MOD"
    using sane bounds by (simp_all add: sshbuf_len_def size_sub_exact SIZE_MOD_def SSHBUF_SIZE_MAX_def)
  have "sb_off b + n < SIZE_MOD" using n len bounds by linarith
  then have off: "size_add (sb_off b) n = sb_off b + n" by (simp add: size_add_def)
  then have "sshbuf_check_sanity b' = Inr ()" using bounds n len b' by (auto simp: sanity_iff)
  then show ?thesis using b' off n len assms(2) by (simp add: sshbuf_len_def size_sub_exact)
qed

lemma string_step: "0 < size_add (unat (x :: u32)) 4" "0 < size_add 4 (unat (x :: u32))"
proof -
  have "unat x < 2 ^ 32" using unsigned_less [of x] by simp
  then show "0 < size_add (unat x) 4" "0 < size_add 4 (unat x)" by (simp_all add: size_add_def SIZE_MOD_def)
qed

lemma peek_string_len: "sshbuf_peek_string_direct b = Inr (i, len) \<Longrightarrow> 0 < size_add len 4"
  using string_step(1) by (auto simp: sshbuf_peek_string_direct_def Let_def split: if_splits)

lemma shorter_ints: "shorter sshbuf_get_u64" "shorter sshbuf_get_u8"
  by (auto simp: shorter_def sshbuf_get_u64_def sshbuf_get_u8_def Let_def act_simps split: prod.splits sum.splits
      dest: consume_shorter)

lemma shorter_direct: "shorter sshbuf_get_string_direct"
  by (auto simp: shorter_def sshbuf_get_string_direct_def split: prod.splits sum.splits
      dest: consume_shorter [OF _ peek_string_len])

lemma shorter_string: "shorter (sshbuf_get_string am)"
  using shorter_direct by (fastforce simp: shorter_def sshbuf_get_string_def act_simps split: prod.splits sum.splits option.splits)

lemma shorter_cstring: "shorter (sshbuf_get_cstring am)"
  by (auto simp: shorter_def sshbuf_get_cstring_def Let_def split: prod.splits sum.splits option.splits if_splits
      dest!: consume_shorter [OF _ string_step(2)])

lemma len_refcount: "1 \<le> sb_refcount b \<Longrightarrow> sshbuf_len (b\<lparr>sb_refcount := sb_refcount b + 1\<rparr>) \<le> sshbuf_len b"
  by (auto simp: sshbuf_len_def sshbuf_check_sanity_def)

lemma view_string_shorter:
  assumes "view_string am b = (Inr c, b')"
  shows "sshbuf_len b' < sshbuf_len b" "sshbuf_len (unref b') < sshbuf_len b"
proof -
  obtain i len b1 where p: "sshbuf_peek_string_direct b = Inr (i, len)" and c: "sshbuf_consume (size_add len 4) b = (Inr (), b1)"
    and b': "b' = b1\<lparr>sb_refcount := sb_refcount b1 + 1\<rparr>"
    using assms by (auto simp: view_string_def split: sum.splits prod.splits option.splits)
  have short: "sshbuf_len b1 < sshbuf_len b" by (rule consume_shorter [OF c peek_string_len [OF p]])
  have "1 \<le> sb_refcount b1"
    using c by (auto simp: sshbuf_consume_def sshbuf_check_sanity_def split: if_splits)
  then show "sshbuf_len b' < sshbuf_len b" using short len_refcount [of b1] b' by simp
  have "unref b' = b1" using b' by (simp add: unref_def)
  then show "sshbuf_len (unref b') < sshbuf_len b" using short by simp
qed

section \<open>Rounds consume\<close>

lemma round_shorter:
  assumes "shorter f" "\<And>v s u s'. g v s = (Inr u, s') \<Longrightarrow> sshbuf_len (fst s') \<le> sshbuf_len (fst s)"
    "act_bind (on_fst f) g s = (Inr u, s')"
  shows "sshbuf_len (fst s') < sshbuf_len (fst s)"
proof -
  obtain v b where f: "f (fst s) = (Inr v, b)" and g: "g v (b, snd s) = (Inr u, s')"
    using assms(3) by (auto simp: act_simps on_fst_def split: prod.splits sum.splits)
  have "sshbuf_len b < sshbuf_len (fst s)" using assms(1) f by (simp add: shorter_def)
  then show ?thesis using assms(2) [OF g] by simp
qed

lemma on_snd_fst: "on_snd f s = (r, s') \<Longrightarrow> fst s' = fst s"
  by (auto simp: on_snd_def split: prod.splits)

lemma on_view_fst: "on_view v f s = (r, s') \<Longrightarrow> fst s' = fst s"
  by (auto simp: on_view_def split: prod.splits)

lemma second_section_copy:
  assumes "second_section L B R am ty sect (b, copy, krl) = (Inr u, st)"
  shows "fst st = b" "ty \<noteq> KRL_SECTION_SIGNATURE \<Longrightarrow> fst (snd st) = copy"
    "ty = KRL_SECTION_SIGNATURE \<Longrightarrow> \<exists>v c. sshbuf_get_string_direct copy = (Inr v, c)"
  using assms
  by (auto simp: second_section_def Let_def act_simps on_fst_def on_snd_def krl_sections split: if_splits prod.splits sum.splits)

lemma serial_round_shorter: "serial_round L R am ca s = (Inr u, s') \<Longrightarrow> sshbuf_len (fst s') < sshbuf_len (fst s)"
  unfolding serial_round_def by (erule round_shorter [OF shorter_ints(1), rotated]) (auto dest: on_snd_fst)

lemma key_id_round_shorter: "key_id_round L R am ca s = (Inr u, s') \<Longrightarrow> sshbuf_len (fst s') < sshbuf_len (fst s)"
  unfolding key_id_round_def by (erule round_shorter [OF shorter_cstring, rotated]) (auto dest: on_snd_fst)

lemma blob_round_shorter: "blob_round R am ty s = (Inr u, s') \<Longrightarrow> sshbuf_len (fst s') < sshbuf_len (fst s)"
  unfolding blob_round_def
  by (erule round_shorter [OF shorter_string, rotated]) (auto simp: act_simps dest: on_snd_fst split: if_splits)

lemma cert_round_shorter: "cert_round L B R am ca s = (Inr u, s') \<Longrightarrow> sshbuf_len (fst s') < sshbuf_len (fst s)"
  unfolding cert_round_def
  by (erule round_shorter [OF shorter_ints(2), rotated])
    (auto simp: act_simps on_fst_def dest!: view_string_shorter(1) on_view_fst split: prod.splits sum.splits)

lemma second_round_shorter: "second_round L B R am s = (Inr u, s') \<Longrightarrow> sshbuf_len (fst s') < sshbuf_len (fst s)"
  unfolding second_round_def
  by (erule round_shorter [OF shorter_ints(2), rotated])
    (auto simp: act_simps on_fst_def dest!: view_string_shorter(2) second_section_copy(1) split: prod.splits sum.splits)

section \<open>The first pass\<close>

lemma first_pass_enough:
  "sshbuf_len c \<le> n \<Longrightarrow> sshbuf_len c \<le> m \<Longrightarrow> first_pass n L am buf c = first_pass m L am buf c"
proof (induction n arbitrary: m c)
  case 0
  then show ?case by (cases m) simp_all
next
  case (Suc n)
  show ?case
  proof (cases "sshbuf_len c = 0")
    case True
    then show ?thesis by (cases m) simp_all
  next
    case False
    then obtain k where m: "m = Suc k" using Suc.prems(2) by (cases m) auto
    have "first_pass n L am buf c2 = first_pass k L am buf c2"
      if "sshbuf_get_u8 c = (Inr ty, c1)" "sshbuf_get_string_direct c1 = (Inr v, c2)" for ty c1 v c2
    proof -
      have "sshbuf_len c2 < sshbuf_len c1" "sshbuf_len c1 < sshbuf_len c"
        using that shorter_direct shorter_ints(2) unfolding shorter_def by blast+
      then show ?thesis using Suc.IH [of c2 k] Suc.prems m by simp
    qed
    then show ?thesis using False by (simp add: m act_bind_run split: prod.split sum.split)
  qed
qed

section \<open>Properties\<close>


definition bits_example :: "nat bit_lib" where
  "bits_example = \<lparr>BN_new = Some 0, BN_set_bit = \<lambda>v n. if n < 0 then None else Some (set_bit (nat n) v),
     BN_is_bit_set = \<lambda>v n. 0 \<le> n \<and> bit v (nat n)\<rparr>"

definition section_example :: sshbuf where
  "section_example = the (sshbuf_from alloc_zero (Some [2, 0, 0, 0, 0]))"

lemma section_example_len: "sshbuf_len section_example = 5"
  by (simp add: section_example_def sshbuf_from_def alloc_zero_def sshbuf_len_def sshbuf_check_sanity_def sshbuf_consts
      size_sub_def SIZE_MOD_def)


end
