(* ===== verification/Krl_Signed.thy ===== *)
theory Krl_Signed
  imports Krl_Loops
begin

text \<open>
  Signatures of key revocation lists: what \<open>ssh_krl_to_blob\<close> does with signing keys and what
  \<open>ssh_krl_from_blob\<close> does with a signed list.
\<close>

section \<open>Sections\<close>

definition krl_sec :: "byte \<times> byte list \<Rightarrow> byte list" where
  "krl_sec s = fst s # wire_string (snd s)"

lemma skip_string:
  assumes "sshbuf_wf b" "contents b = wire_string d @ rest" "length d < 2 ^ 32"
  shows "sshbuf_get_string_direct b = (Inr (sb_off b + 4, length d), advance (4 + length d) b)"
    "sshbuf_wf (advance (4 + length d) b)" "contents (advance (4 + length d) b) = rest" "same_frame b (advance (4 + length d) b)"
  using assms advance [OF assms(1), of "4 + length d"]
  by (simp_all add: get_string_direct_wf wire_len_string wire_complete_string)

lemma string_bytes:
  assumes "sshbuf_wf b" "contents b = wire_string d @ rest" "length d < 2 ^ 32"
  shows "take (length d) (drop (sb_off b + 4) (block b)) = d"
  using drop_block_string [OF assms(1)] assms(2,3)
  by (simp add: wire_len_string wire_complete_string)

lemma skip_empty: "sshbuf_wf b \<Longrightarrow> contents b = [] \<Longrightarrow> sshbuf_get_string_direct b = (Inl SSH_ERR_MESSAGE_INCOMPLETE, b)"
  by (simp add: get_string_direct_wf wire_complete_def)

lemma refcount_wf: "sshbuf_wf b \<Longrightarrow> 1 \<le> n \<Longrightarrow> n \<le> SSHBUF_REFS_MAX \<Longrightarrow> sshbuf_wf (b\<lparr>sb_refcount := n\<rparr>)"
  by (simp add: wf_iff block_def)

lemma refcount_contents [simp]: "contents (b\<lparr>sb_refcount := n\<rparr>) = contents b"
  by (simp add: contents_def block_def)

lemma refcount_pos: "sshbuf_wf b \<Longrightarrow> 1 \<le> sb_refcount b"
  by (simp add: wf_iff)

lemma view_string_cases:
  assumes "sshbuf_wf b" "contents b = wire_string d @ rest" "length d < 2 ^ 32" "view_string am b = (r, b1)"
  shows "(\<exists>e. r = Inl e) \<or> (\<exists>c. r = Inr c \<and> b1 = (advance (4 + length d) b)\<lparr>sb_refcount := sb_refcount b + 1\<rparr>)"
proof -
  have "sshbuf_consume (size_add (length d) 4) b = (Inr (), advance (4 + length d) b)"
    using assms(1-3) contents_small [OF assms(1)]
    by (simp add: consume_advance size_add_def SIZE_MOD_def add.commute del: length_contents)
  moreover have "sb_refcount (advance (4 + length d) b) = sb_refcount b" by (simp add: advance_def)
  ultimately show ?thesis
    using assms by (auto simp: view_string_def peek_string_wf wire_len_string wire_complete_string split: option.splits)
qed

section \<open>The second pass\<close>

lemma second_round_cases:
  assumes "sshbuf_wf b" "sb_refcount b < SSHBUF_REFS_MAX" "contents b = krl_sec (ty, d) @ rest" "length d < 2 ^ 32"
    "second_round L B R am (b, copy, krl) = (Inr u, st)"
  shows "sshbuf_wf (fst st)" "sb_refcount (fst st) = sb_refcount b" "contents (fst st) = rest"
    "ty \<noteq> KRL_SECTION_SIGNATURE \<Longrightarrow> fst (snd st) = copy"
    "ty = KRL_SECTION_SIGNATURE \<Longrightarrow> \<exists>v c. sshbuf_get_string_direct copy = (Inr v, c)"
proof -
  obtain b1 where b1: "sshbuf_get_u8 b = (Inr ty, b1)" "sshbuf_wf b1" "same_frame b b1" "contents b1 = wire_string d @ rest"
    using readsD [OF reads_u8 assms(1), of ty "wire_string d @ rest"] assms(3) by (auto simp: krl_sec_def)
  obtain r b2 where v: "view_string am b1 = (r, b2)" by (cases "view_string am b1")
  let ?b2 = "(advance (4 + length d) b1)\<lparr>sb_refcount := sb_refcount b1 + 1\<rparr>"
  obtain c st1 where c: "r = Inr c" "second_section L B R am ty c (b2, copy, krl) = (Inr (), st1)" "st = (unref (fst st1), snd st1)"
    using assms(5) by (auto simp: second_round_def act_simps on_fst_def b1(1) v split: prod.splits sum.splits)
  have b2: "b2 = ?b2" using view_string_cases [OF b1(2,4) assms(4) v] c(1) by auto
  note adv = skip_string [OF b1(2,4) assms(4)]
  note copy = second_section_copy [OF c(2)]
  have rc: "sb_refcount b1 = sb_refcount b" using b1(3) by (simp add: same_frame_def)
  have "fst st = (advance (4 + length d) b1)\<lparr>sb_refcount := sb_refcount b\<rparr>"
    using c(3) copy(1) b2 rc by (simp add: unref_def)
  then show "sshbuf_wf (fst st)" "sb_refcount (fst st) = sb_refcount b" "contents (fst st) = rest"
    using adv(2,3) refcount_pos [OF assms(1)] assms(2) by (simp_all add: refcount_wf)
  show "ty \<noteq> KRL_SECTION_SIGNATURE \<Longrightarrow> fst (snd st) = copy" using c(3) copy(2) by simp
  show "ty = KRL_SECTION_SIGNATURE \<Longrightarrow> \<exists>v c. sshbuf_get_string_direct copy = (Inr v, c)" using copy(3) by simp
qed

lemma second_pass_refuses:
  assumes "sshbuf_wf b" "sb_refcount b < SSHBUF_REFS_MAX"
    "contents b = concat (map krl_sec ss) @ krl_sec (KRL_SECTION_SIGNATURE, k) @ tail"
    "list_all (\<lambda>(ty, d). ty \<noteq> KRL_SECTION_SIGNATURE \<and> length d < 2 ^ 32) ss" "length k < 2 ^ 32"
    "sshbuf_wf copy" "contents copy = []" "length (contents b) \<le> n"
  shows "\<exists>e. fst (while_data n (second_round L B R am) (b, copy, krl)) = Inl e"
  using assms(1-4,8)
proof (induction ss arbitrary: b n krl)
  case Nil
  then obtain m where n: "n = Suc m" "sshbuf_len b > 0" by (cases n) (auto simp: krl_sec_def simp del: length_contents)
  obtain r st where run: "second_round L B R am (b, copy, krl) = (r, st)" by (rule prod.exhaust)
  have c: "contents b = krl_sec (KRL_SECTION_SIGNATURE, k) @ tail" using Nil(3) by simp
  show ?case
  proof (cases r)
    case (Inr u)
    show ?thesis
      using second_round_cases(5) [OF Nil(1,2) c assms(5) run [unfolded Inr]] skip_empty [OF assms(6,7)] by simp
  qed (use n run in simp)
next
  case (Cons s ss)
  obtain ty d where s: "s = (ty, d)" by (cases s)
  obtain m where n: "n = Suc m" "sshbuf_len b > 0"
    using Cons.prems(1,3,5) by (cases n) (auto simp: krl_sec_def simp del: length_contents)
  obtain r st where run: "second_round L B R am (b, copy, krl) = (r, st)" by (rule prod.exhaust)
  show ?case
  proof (cases r)
    case (Inr u)
    have c: "contents b = krl_sec (ty, d) @ concat (map krl_sec ss) @ krl_sec (KRL_SECTION_SIGNATURE, k) @ tail"
      using Cons.prems(3) s by simp
    have d: "length d < 2 ^ 32" "ty \<noteq> KRL_SECTION_SIGNATURE" using Cons.prems(4) s by simp_all
    note step = second_round_cases [OF Cons.prems(1,2) c d(1) run [unfolded Inr]]
    obtain b' krl' where st: "st = (b', copy, krl')" using step(4) [OF d(2)] by (cases st) auto
    have "length (contents b') \<le> m" using step(3) c n(1) Cons.prems(5) st by (simp add: krl_sec_def del: length_contents)
    then show ?thesis using Cons.IH [of b' m krl'] step(1-3) Cons.prems(2,4) n run Inr st by simp
  qed (use n run in simp)
qed

section \<open>The header and the first pass\<close>

definition krl_head :: "u64 \<Rightarrow> u64 \<Rightarrow> u64 \<Rightarrow> byte list \<Rightarrow> byte list \<Rightarrow> byte list" where
  "krl_head v d f res comment = KRL_MAGIC @ POKE_U32 (ucast KRL_FORMAT_VERSION) @ POKE_U64 v @ POKE_U64 d @ POKE_U64 f @
     wire_string res @ wire_string comment"

lemma reads_consume: "reads (sshbuf_consume (length e)) e ()"
  unfolding reads_def
proof (intro allI impI)
  fix b rest assume wf: "sshbuf_wf b" and c: "contents b = e @ rest"
  then show "\<exists>b'. sshbuf_consume (length e) b = (Inr (), b') \<and> sshbuf_wf b' \<and> same_frame b b' \<and> contents b' = rest"
    using advance [OF wf, of "length e"] by (simp add: consume_advance del: length_contents)
qed

lemma reads_header:
  assumes "\<forall>n. am n \<noteq> None" "length res < 2 ^ 32" "0 \<notin> set comment" "length comment < 2 ^ 32"
  shows "reads (krl_read_header am krl) (krl_head v d f res comment)
    (krl\<lparr>krl_version := v, krl_generated_date := d, krl_flags := f, krl_comment := Some (c_str comment)\<rparr>)"
  unfolding krl_read_header_def krl_head_def
  by (rule reads_seq reads_bind reads_consume reads_u32 reads_err reads_u64 reads_skip reads_cstring reads_map assms | simp)+

lemma from_copy:
  assumes "sshbuf_wf b" "\<forall>n. am n \<noteq> None"
  shows "\<exists>c. sshbuf_from am (Some (sshbuf_bytes b)) = Some c \<and> sshbuf_wf c \<and> contents c = contents b"
proof -
  have bytes: "sshbuf_bytes b = contents b" using assms(1) by (simp add: sshbuf_bytes_wf)
  have "length (contents b) \<le> SSHBUF_SIZE_MAX" using contents_small [OF assms(1)] by (simp only: SSHBUF_SIZE_MAX_def)
  then obtain c where "sshbuf_from am (Some (contents b)) = Some c" using assms(2) by (auto simp: sshbuf_from_def)
  then show ?thesis using from_wf [of am "Some (contents b)" c] bytes by auto
qed

lemma magic_head: "take (length KRL_MAGIC) (krl_head v d f res comment @ r) = KRL_MAGIC" "length KRL_MAGIC \<le> length (krl_head v d f res comment)"
  by (simp_all add: krl_head_def)

lemma first_pass_step:
  assumes "sshbuf_wf c" "contents c = krl_sec (ty, d) @ rest" "length d < 2 ^ 32" "ty \<noteq> KRL_SECTION_SIGNATURE"
  obtains c2 where "first_pass (Suc n) L am buf c = first_pass n L am buf c2" "sshbuf_wf c2" "contents c2 = rest"
proof -
  obtain c1 where c1: "sshbuf_get_u8 c = (Inr ty, c1)" "sshbuf_wf c1" "contents c1 = wire_string d @ rest"
    using readsD [OF reads_u8 assms(1), of ty "wire_string d @ rest"] assms(2) by (auto simp: krl_sec_def)
  note adv = skip_string [OF c1(2,3) assms(3)]
  have "sshbuf_len c > 0" using assms(1,2) by (simp add: krl_sec_def del: length_contents)
  then show thesis using that [OF _ adv(2,3)] assms(4) by (simp add: act_simps c1(1) adv(1))
qed

lemma first_pass_signature:
  assumes "sshbuf_wf c" "contents c = krl_sec (KRL_SECTION_SIGNATURE, k) @ wire_string sig" "length k < 2 ^ 32" "length sig < 2 ^ 32"
    "first_pass (Suc n) L am buf c = (Inr signer, c')"
  shows "sshbuf_wf c' \<and> contents c' = []"
proof -
  obtain c1 where c1: "sshbuf_get_u8 c = (Inr KRL_SECTION_SIGNATURE, c1)" "sshbuf_wf c1" "contents c1 = wire_string k @ wire_string sig"
    using readsD [OF reads_u8 assms(1), of KRL_SECTION_SIGNATURE "wire_string k @ wire_string sig"] assms(2) by (auto simp: krl_sec_def)
  note a1 = skip_string [OF c1(2,3) assms(3)]
  have "contents (advance (4 + length k) c1) = wire_string sig @ []" using a1(3) by simp
  note a2 = skip_string [OF a1(2) this assms(4)]
  have "sshbuf_len c > 0" using assms(1,2) by (simp add: krl_sec_def del: length_contents)
  then have "c' = advance (4 + length sig) (advance (4 + length k) c1)"
    using assms(5) by (auto simp: act_simps c1(1) a1(1) a2(1) Let_def split: sum.splits if_splits)
  then show ?thesis using a2(2,3) by simp
qed

lemma first_pass_rest:
  assumes "sshbuf_wf c" "contents c = concat (map krl_sec ss) @ krl_sec (KRL_SECTION_SIGNATURE, k) @ wire_string sig"
    "list_all (\<lambda>(ty, d). ty \<noteq> KRL_SECTION_SIGNATURE \<and> length d < 2 ^ 32) ss" "length k < 2 ^ 32" "length sig < 2 ^ 32"
    "length (contents c) \<le> n" "first_pass n L am buf c = (Inr signer, c')"
  shows "sshbuf_wf c' \<and> contents c' = []"
  using assms(1-3,6,7)
proof (induction ss arbitrary: c n)
  case Nil
  then obtain m where "n = Suc m" by (cases n) (auto simp: krl_sec_def simp del: length_contents)
  then show ?case using first_pass_signature [OF Nil(1) _ assms(4,5), of m L am buf signer c'] Nil(2,5) by simp
next
  case (Cons s ss)
  obtain ty d where s: "s = (ty, d)" by (cases s)
  obtain m where n: "n = Suc m" using Cons.prems(2,4) by (cases n) (auto simp: krl_sec_def simp del: length_contents)
  have c: "contents c = krl_sec (ty, d) @ concat (map krl_sec ss) @ krl_sec (KRL_SECTION_SIGNATURE, k) @ wire_string sig"
    using Cons.prems(2) s by simp
  have d: "length d < 2 ^ 32" "ty \<noteq> KRL_SECTION_SIGNATURE" using Cons.prems(3) s by simp_all
  obtain c2 where c2: "first_pass (Suc m) L am buf c = first_pass m L am buf c2" "sshbuf_wf c2"
    "contents c2 = concat (map krl_sec ss) @ krl_sec (KRL_SECTION_SIGNATURE, k) @ wire_string sig"
    using first_pass_step [OF Cons.prems(1) c d] by blast
  have "length (contents c2) \<le> m" using Cons.prems(4) c c2(3) n by (simp add: krl_sec_def del: length_contents)
  then show ?case using Cons.IH [OF c2(2,3)] Cons.prems(3,5) c2(1) n by simp
qed

section \<open>Properties\<close>

definition signed_krl :: "byte list \<Rightarrow> (byte \<times> byte list) list \<Rightarrow> byte list \<Rightarrow> byte list \<Rightarrow> byte list" where
  "signed_krl head ss k sig = head @ concat (map krl_sec ss) @ krl_sec (KRL_SECTION_SIGNATURE, k) @ wire_string sig"

text \<open>A signature that the first pass accepts.\<close>

lemma example_first_pass:
  defines "k \<equiv> name_enc ca_example @ pub_enc lib_example ca_example"
  assumes "sshbuf_wf buf" "contents buf = signed_krl (krl_head 1 1 0 [] []) [] k [139]"
    "sshbuf_wf copy" "contents copy = krl_sec (KRL_SECTION_SIGNATURE, k) @ wire_string [139]"
  shows "fst (first_pass (sshbuf_len copy) lib_example alloc_zero buf copy) = Inr (Some ca_example)"
proof -
  have k: "length k < 2 ^ 32" using pub_enc_small [OF example_keys(1)] by (simp add: k_def)
  obtain c1 where c1: "sshbuf_get_u8 copy = (Inr KRL_SECTION_SIGNATURE, c1)" "sshbuf_wf c1" "contents c1 = wire_string k @ wire_string [139]"
    using readsD [OF reads_u8 assms(4), of KRL_SECTION_SIGNATURE "wire_string k @ wire_string [139]"] assms(5) by (auto simp: krl_sec_def)
  note a1 = skip_string [OF c1(2,3) k]
  let ?c2 = "advance (4 + length k) c1"
  have c2: "contents ?c2 = wire_string [139] @ []" using a1(3) by simp
  have one: "length [139 :: byte] < 2 ^ 32" by simp
  note a2 = skip_string [OF a1(2) c2 one]
  have key: "sshkey_from_blob lib_example alloc_zero (take (length k) (drop (sb_off c1 + 4) (block ?c2))) = Inr ca_example"
    using string_bytes [OF c1(2,3) k] from_blob_plain [OF example_keys(3) alloc_zero_total example_keys(1,5)]
    by (simp add: sshkey_from_blob_def k_def ca_example_def)
  have sig: "take 1 (drop (sb_off ?c2 + 4) (block (advance 5 ?c2))) = [139]" using string_bytes [OF a1(2) c2 one] by simp
  have "size_sub (sshbuf_len buf) (size_sub (sshbuf_len buf) (sshbuf_len ?c2)) = 5"
    using assms(2,3) a1(2) c2 contents_small [OF assms(2)]
    by (simp add: size_sub_exact SIZE_MOD_def signed_krl_def krl_sec_def del: length_contents)
  moreover have "take 5 (sshbuf_bytes buf) = [83, 83, 72, 75, 82]"
    using assms(2,3) by (simp add: signed_krl_def krl_head_def KRL_MAGIC_def)
  moreover have "sshkey_verify lib_example ca_example [139] [83, 83, 72, 75, 82] 0 = Inr ()"
    by (simp add: sshkey_verify_def ca_example_def lib_example_def SSH_KEY_MAX_SIGN_DATA_SIZE_def)
  moreover obtain m where "sshbuf_len copy = Suc m" using assms(4,5) by (simp add: krl_sec_def del: length_contents)
  ultimately show ?thesis
    using a1(1) a2(1) key sig alloc_zero_total by (simp add: act_bind_run c1(1) Let_def)
qed

text \<open>C16: A key revocation list that ends with one signature is never loaded, whatever its sections are,
  who signed it and which keys are trusted: \<open>ssh_krl_from_blob\<close> reports an error even when the
  signature is good, because the second pass skips the signature in the wrong buffer.
\<close>

theorem ssh_krl_from_blob_refuses_signed:
  fixes L :: "('bn, 'g, 'p, 'k) key_lib"
  assumes "\<forall>n. am n \<noteq> None" "sshbuf_wf buf" "sb_refcount buf = 1"
    "contents buf = signed_krl (krl_head v d f res comment) ss k sig" "length res < 2 ^ 32" "0 \<notin> set comment"
    "length comment < 2 ^ 32" "list_all (\<lambda>(ty, d). ty \<noteq> KRL_SECTION_SIGNATURE \<and> length d < 2 ^ 32) ss" "length k < 2 ^ 32"
    "length sig < 2 ^ 32"
  shows "\<exists>e. ssh_krl_from_blob L B R am md cas buf = Ptr (Inl e)"
proof -
  define rest where "rest = concat (map krl_sec ss) @ krl_sec (KRL_SECTION_SIGNATURE, k) @ wire_string sig"
  define hd where "hd = krl_head v d f res comment"
  have c: "contents buf = hd @ rest" using assms(4) by (simp add: signed_krl_def rest_def hd_def)
  obtain copy where copy: "sshbuf_from am (Some (sshbuf_bytes buf)) = Some copy" "sshbuf_wf copy" "contents copy = hd @ rest"
    using from_copy [OF assms(2,1)] c by metis
  obtain krl :: "('bn, 'k) ssh_krl" and copy1 where h: "krl_read_header am empty_krl copy = (Inr krl, copy1)" "sshbuf_wf copy1" "contents copy1 = rest"
    using readsD [OF reads_header [OF assms(1,5,6,7), of empty_krl v d f] copy(2,3) [unfolded hd_def]] by metis
  have off: "size_sub (sshbuf_len buf) (sshbuf_len copy1) = length hd"
    using contents_small [OF assms(2)] c h(2,3) assms(2) by (simp add: size_sub_exact SIZE_MOD_def del: length_contents)
  let ?buf = "buf\<lparr>sb_refcount := sb_refcount buf + 1\<rparr>"
  have wf: "sshbuf_wf ?buf" by (rule refcount_wf [OF assms(2)]) (simp_all add: assms(3) SSHBUF_REFS_MAX_def)
  obtain b1 where b1: "sshbuf_consume (length hd) ?buf = (Inr (), b1)" "sshbuf_wf b1" "same_frame ?buf b1" "contents b1 = rest"
    using readsD [OF reads_consume wf] c by (metis refcount_contents)
  have init: "ssh_krl_init R am = Some empty_krl" using assms(1) by (simp add: ssh_krl_init_def)
  have magic: "\<not> (sshbuf_len buf < length KRL_MAGIC \<or> take (length KRL_MAGIC) (sshbuf_bytes buf) \<noteq> KRL_MAGIC)"
    using magic_head [of v d f res comment] assms(2) c by (simp add: hd_def del: length_contents)
  have run: "ssh_krl_from_blob L B R am md cas buf = (case first_pass (sshbuf_len copy1) L am buf copy1 of (Inl e, _) \<Rightarrow> Ptr (Inl e)
      | (Inr signer, copy2) \<Rightarrow> (case second_pass L B R am (b1, copy2, krl) of (Inl e, _) \<Rightarrow> Ptr (Inl e)
        | (Inr _, (_, _, krl')) \<Rightarrow> krl_accept L am md cas signer krl'))"
    unfolding ssh_krl_from_blob_def if_not_P [OF magic] copy(1) init option.case prod.case h(1) sum.case Let_def off
    using b1(1) by (simp add: act_seq_run on_fst_def split: prod.split sum.split)
  obtain r copy2 where fp: "first_pass (sshbuf_len copy1) L am buf copy1 = (r, copy2)" by (rule prod.exhaust)
  show ?thesis
  proof (cases r)
    case (Inr signer)
    have c2: "sshbuf_wf copy2 \<and> contents copy2 = []"
      using first_pass_rest [OF h(2) h(3) [unfolded rest_def] assms(8-10), of "sshbuf_len copy1" L am buf signer copy2] fp Inr h(2) by simp
    have rc: "sb_refcount b1 < SSHBUF_REFS_MAX" using b1(3) assms(3) by (simp add: same_frame_def SSHBUF_REFS_MAX_def)
    have "\<exists>e. fst (second_pass L B R am (b1, copy2, krl)) = Inl e"
      using second_pass_refuses [OF b1(2) rc b1(4) [unfolded rest_def] assms(8,9), of copy2 "sshbuf_len b1" L B R am krl] c2 b1(2)
      by (simp add: second_pass_def loop_data_def)
    then show ?thesis by (auto simp: run fp Inr split: prod.split)
  qed (simp add: run fp)
qed

theorem ssh_krl_from_blob_refuses_signed_witness:
  "\<exists>buf copy. sshbuf_from alloc_zero (Some (signed_krl (krl_head 1 1 0 [] []) [] (name_enc ca_example @ pub_enc lib_example ca_example) [139])) = Some buf \<and>
     sshbuf_from alloc_zero (Some (krl_sec (KRL_SECTION_SIGNATURE, name_enc ca_example @ pub_enc lib_example ca_example) @ wire_string [139])) = Some copy \<and>
     fst (first_pass (sshbuf_len copy) lib_example alloc_zero buf copy) = Inr (Some ca_example) \<and>
     (\<exists>e. ssh_krl_from_blob lib_example bits_example rb_example alloc_zero (\<lambda>_ d. take 20 d) [ca_example] buf = Ptr (Inl e))"
proof -
  let ?k = "name_enc ca_example @ pub_enc lib_example ca_example"
  let ?s = "krl_sec (KRL_SECTION_SIGNATURE, ?k) @ wire_string [139]"
  let ?d = "signed_krl (krl_head 1 1 0 [] []) [] ?k [139]"
  have k: "length ?k \<le> 5000" using pub_enc_small [OF example_keys(1)] by simp
  have "length ?d \<le> SSHBUF_SIZE_MAX" "length ?s \<le> SSHBUF_SIZE_MAX"
    using k by (simp_all add: signed_krl_def krl_head_def KRL_MAGIC_def krl_sec_def SSHBUF_SIZE_MAX_def)
  then obtain buf copy where b: "sshbuf_from alloc_zero (Some ?d) = Some buf" and c: "sshbuf_from alloc_zero (Some ?s) = Some copy"
    using alloc_zero_total by (auto simp: sshbuf_from_def)
  have w: "sshbuf_wf buf" "sb_refcount buf = 1" "contents buf = ?d" using from_wf [OF b] by simp_all
  have "\<exists>e. ssh_krl_from_blob lib_example bits_example rb_example alloc_zero (\<lambda>_ d. take 20 d) [ca_example] buf = Ptr (Inl e)"
    using k by (intro ssh_krl_from_blob_refuses_signed [OF alloc_zero_total w]) simp_all
  moreover have "fst (first_pass (sshbuf_len copy) lib_example alloc_zero buf copy) = Inr (Some ca_example)"
    by (rule example_first_pass [OF w(1,3)]) (use from_wf [OF c] in simp_all)
  ultimately show ?thesis using b c by blast
qed

text \<open>
  Signing keys have no effect on what \<open>ssh_krl_to_blob\<close> writes: when the first of them can be
  encoded, the function reports success and the buffer holds the same bytes as without keys.
\<close>

theorem ssh_krl_to_blob_unsigned:
  assumes "sshkey_to_blob L am k = Inr blob"
  shows "ssh_krl_to_blob L B am now (k # ks) krl buf = ssh_krl_to_blob L B am now [] krl buf"
proof -
  have "krl_sign L am (k # ks) = krl_sign L am []" by (rule ext) (simp add: krl_sign_def assms)
  then show ?thesis unfolding ssh_krl_to_blob_def by (simp only:)
qed

theorem ssh_krl_to_blob_unsigned_witness:
  "ssh_krl_to_blob lib_example bits_example alloc_zero 5 [ca_example] empty_krl fresh_buf =
   ssh_krl_to_blob lib_example bits_example alloc_zero 5 [] empty_krl fresh_buf"
proof -
  have "sshkey_to_blob lib_example alloc_zero ca_example = Inr (name_enc ca_example @ pub_enc lib_example ca_example)"
    using to_blob_enc [OF alloc_zero_total example_keys(3,1,5)] by (simp add: sshkey_to_blob_def)
  then show ?thesis by (rule ssh_krl_to_blob_unsigned)
qed

end
