(* ===== verification/Krl_Ranges.thy ===== *)
theory Krl_Ranges
  imports Krl_Signed
begin

text \<open>
  Sections of serial number ranges: what \<open>revoked_certs_generate\<close> writes for two long ranges, and
  that \<open>parse_revoked_certs\<close> refuses it.
\<close>

section \<open>The choice of a range section\<close>

lemma unat_add_small: "unat (a :: u64) \<le> m \<Longrightarrow> unat b \<le> n \<Longrightarrow> m + n < 2 ^ 64 \<Longrightarrow> unat (a + b) = unat a + unat b"
  by (subst unat_add_lem [symmetric]) simp

lemma cost_big:
  assumes "unat (a :: u64) \<le> 2 ^ 40" "unat b \<le> 2 ^ 40" "1000 \<le> unat b"
  shows "26 < (a + b + 7) div 8"
proof -
  have ab: "unat (a + b) = unat a + unat b" using unat_add_small [OF assms(1,2)] by simp
  have "unat (a + b + 7) = unat a + unat b + 7" using unat_add_small [of "a + b" "2 ^ 41" 7 7] assms ab by simp
  then show ?thesis using assms(3) by (simp add: word_less_nat_alt unat_div)
qed

lemma long_range_state:
  assumes "1000 \<le> contig" "state = 0 \<or> state = KRL_SECTION_CERT_SERIAL_RANGE"
  shows "choose_next_state state contig final last_gap next_gap = (KRL_SECTION_CERT_SERIAL_RANGE, False)"
proof -
  define c where "c = min contig 0x80000000"
  define l where "l = min last_gap 0x80000000"
  define x where "x = (if final then 0 else min (min next_gap 0x80000000) (8 + 64) :: u64)"
  have c: "1000 \<le> unat c" "unat c \<le> 2 ^ 31" using assms(1) by (auto simp: c_def min_def word_le_nat_alt)
  have l: "unat l \<le> 2 ^ 31" by (auto simp: l_def min_def word_le_nat_alt)
  have x: "unat x \<le> 72" by (auto simp: x_def min_def word_le_nat_alt)
  have lc: "unat (l + c) = unat l + unat c" using unat_add_small [OF l c(2)] by simp
  have lcx: "unat (l + c + x) = unat l + unat c + unat x" using unat_add_small [of "l + c" "2 ^ 32" x 72] l c x lc by simp
  have cx: "unat (c + x) = unat c + unat x" using unat_add_small [OF c(2) x] by simp
  have m: "unat (64 * c) = 64 * unat c" using c(2) by (subst unat_mult_lem [THEN iffD1]) simp_all
  define y where "y = (if final then 0 else 8 + 64 :: u64)"
  have y: "unat y \<le> 72" by (simp add: y_def)
  have my: "unat (64 * c + y) = 64 * unat c + unat y"
    using unat_add_small [of "64 * c" "2 ^ 37" y 72] m c(2) y by simp
  define r where "r = (8 + (2 * 64 + y) + 7) div 8"
  have r: "r \<le> 26" by (simp add: r_def y_def)
  have bl: "26 < (8 + (64 * c + y) + 7) div 8" by (rule cost_big) (use c my y in simp_all)
  have bb: "26 < (8 + 64 + (l + c + x) + 7) div 8" by (rule cost_big) (use c l x lcx in simp_all)
  have br: "26 < (8 + 64 + (c + x) + 7) div 8" by (rule cost_big) (use c x cx in simp_all)
  have lt: "\<not> (8 + (64 * c + y) + 7) div 8 < r" "r < (8 + 64 + (l + c + x) + 7) div 8" "\<not> (8 + 64 + (c + x) + 7) div 8 < r"
    using order.strict_trans1 [OF r bl] order.strict_trans1 [OF r bb] order.strict_trans1 [OF r br] less_asym by blast+
  have st: "(state = KRL_SECTION_CERT_SERIAL_BITMAP \<or> state = KRL_SECTION_CERT_SERIAL_RANGE \<or> state = 0) = True"
    "(state = KRL_SECTION_CERT_SERIAL_LIST \<or> state = KRL_SECTION_CERT_SERIAL_RANGE \<or> state = 0) = True"
    "(state = KRL_SECTION_CERT_SERIAL_LIST \<or> state = KRL_SECTION_CERT_SERIAL_BITMAP \<or> state = KRL_SECTION_CERT_SERIAL_RANGE \<or> state = 0) = True"
    using assms(2) by auto
  show ?thesis
    unfolding choose_next_state_def Let_def c_def [symmetric] l_def [symmetric] x_def [symmetric] y_def [symmetric] st if_True
      r_def [symmetric]
    by (simp only: lt if_True if_False prod.case simp_thms)
qed

section \<open>Writing\<close>

lemma on_sect_writes:
  assumes "writes f e" "ready (g_sect g)" "length (contents (g_sect g)) + length e \<le> SSHBUF_SIZE_MAX"
  obtains s where "on_sect f g = (Inr (), g\<lparr>g_sect := s\<rparr>)" "ready s" "contents s = contents (g_sect g) @ e"
  using writesD [OF assms] that by (force simp: on_sect_def)

lemma on_buf_writes:
  assumes "writes f e" "ready (g_buf g)" "length (contents (g_buf g)) + length e \<le> SSHBUF_SIZE_MAX"
  obtains b where "on_buf f g = (Inr (), g\<lparr>g_buf := b\<rparr>)" "ready b" "contents b = contents (g_buf g) @ e"
  using writesD [OF assms] that by (force simp: on_buf_def)

definition range_enc :: "revoked_serial \<Rightarrow> byte list" where
  "range_enc rs = POKE_U64 (rs_lo rs) @ POKE_U64 (rs_hi rs)"

lemma length_range_enc [simp]: "length (range_enc rs) = 16"
  by (simp add: range_enc_def)

lemma emit_range:
  assumes "\<forall>n. am n \<noteq> None" "g_state g = S_range" "ready (g_sect g)" "length (contents (g_sect g)) \<le> 1000"
  obtains s where "gen_emit B am rs contig g = (Inr (), g\<lparr>g_sect := s\<rparr>)" "ready s" "contents s = contents (g_sect g) @ range_enc rs"
proof -
  have "writes (act_seq (sshbuf_put_u64 am (rs_lo rs)) (sshbuf_put_u64 am (rs_hi rs))) (range_enc rs)"
    unfolding range_enc_def by (intro writes_seq writes_int assms(1))
  then obtain s where s: "act_seq (sshbuf_put_u64 am (rs_lo rs)) (sshbuf_put_u64 am (rs_hi rs)) (g_sect g) = (Inr (), s)" "ready s"
    "contents s = contents (g_sect g) @ range_enc rs"
    using writesD [OF _ assms(3)] assms(4) by (force simp: SSHBUF_SIZE_MAX_def simp del: length_contents)
  have "gen_emit B am rs contig g = (Inr (), g\<lparr>g_sect := s\<rparr>)"
    using s(1) by (auto simp: gen_emit_def Let_def assms(2) act_seq_run on_sect_def split: prod.splits sum.splits)
  then show thesis using that s(2,3) by blast
qed

lemma flush_range:
  assumes "\<forall>n. am n \<noteq> None" "g_state g = S_range" "ready (g_sect g)" "length (contents (g_sect g)) \<le> 1000"
    "ready (g_buf g)" "length (contents (g_buf g)) \<le> 100000"
  obtains b where "gen_flush L am g = (Inr (), g\<lparr>g_buf := b\<rparr>)" "ready b"
    "contents b = contents (g_buf g) @ krl_sec (KRL_SECTION_CERT_SERIAL_RANGE, contents (g_sect g))"
proof -
  have "writes (act_seq (sshbuf_put_u8 am KRL_SECTION_CERT_SERIAL_RANGE) (sshbuf_put_stringb am (g_sect g)))
      ([KRL_SECTION_CERT_SERIAL_RANGE] @ wire_string (contents (g_sect g)))"
    using writes_string [OF assms(1)] ready_wf [OF assms(3)]
    by (intro writes_seq writes_int assms(1)) (simp add: sshbuf_put_stringb_def)
  then obtain b where b: "act_seq (sshbuf_put_u8 am KRL_SECTION_CERT_SERIAL_RANGE) (sshbuf_put_stringb am (g_sect g)) (g_buf g) = (Inr (), b)"
    "ready b" "contents b = contents (g_buf g) @ krl_sec (KRL_SECTION_CERT_SERIAL_RANGE, contents (g_sect g))"
    using writesD [OF _ assms(5)] assms(4,6) by (force simp: SSHBUF_SIZE_MAX_def krl_sec_def simp del: length_contents)
  have "gen_flush L am g = (Inr (), g\<lparr>g_buf := b\<rparr>)"
    using b(1) by (auto simp: gen_flush_def assms(2) act_simps on_buf_def split: prod.splits sum.splits)
  then show thesis using that b(2,3) by blast
qed

definition long_range :: "revoked_serial \<Rightarrow> bool" where
  "long_range rs \<longleftrightarrow> 1000 \<le> 1 + (rs_hi rs - rs_lo rs)"

lemma gen_first:
  assumes "\<forall>n. am n \<noteq> None" "long_range rs" "g_state g = S_none" "ready (g_sect g)"
  obtains s where "gen_serial L B am rs nrs g = (Inr (), g\<lparr>g_sect := s, g_state := S_range, g_last := rs_hi rs\<rparr>)" "ready s"
    "contents s = range_enc rs"
proof -
  let ?g = "g\<lparr>g_sect := sshbuf_reset am (g_sect g), g_state := S_range\<rparr>"
  have r: "ready (g_sect ?g)" "contents (g_sect ?g) = []" using ready_reset [OF assms(4)] by simp_all
  obtain s where s: "gen_emit B am rs (1 + (rs_hi rs - rs_lo rs)) ?g = (Inr (), ?g\<lparr>g_sect := s\<rparr>)" "ready s" "contents s = range_enc rs"
    using emit_range [OF assms(1) _ r(1), of B rs "1 + (rs_hi rs - rs_lo rs)"] r(2) by auto
  have "gen_serial L B am rs nrs g = (Inr (), g\<lparr>g_sect := s, g_state := S_range, g_last := rs_hi rs\<rparr>)"
    using s(1) assms(2,3) by (simp add: gen_serial_def Let_def long_range_state long_range_def act_simps gen_start_def krl_sections)
  then show thesis using that s(2,3) by blast
qed

lemma gen_next:
  assumes "\<forall>n. am n \<noteq> None" "long_range rs" "g_state g = S_range" "ready (g_sect g)" "length (contents (g_sect g)) \<le> 1000"
    "ready (g_buf g)" "length (contents (g_buf g)) \<le> 100000"
  obtains b s where "gen_serial L B am rs nrs g = (Inr (), g\<lparr>g_buf := b, g_sect := s, g_last := rs_hi rs\<rparr>)" "ready b" "ready s"
    "contents b = contents (g_buf g) @ krl_sec (KRL_SECTION_CERT_SERIAL_RANGE, contents (g_sect g))"
    "contents s = contents (g_sect g) @ range_enc rs"
proof -
  obtain b where b: "gen_flush L am g = (Inr (), g\<lparr>g_buf := b\<rparr>)" "ready b"
    "contents b = contents (g_buf g) @ krl_sec (KRL_SECTION_CERT_SERIAL_RANGE, contents (g_sect g))"
    using flush_range [OF assms(1,3-7)] by metis
  let ?g = "g\<lparr>g_buf := b\<rparr>"
  obtain s where s: "gen_emit B am rs (1 + (rs_hi rs - rs_lo rs)) ?g = (Inr (), ?g\<lparr>g_sect := s\<rparr>)" "ready s"
    "contents s = contents (g_sect g) @ range_enc rs"
    using emit_range [OF assms(1), of ?g B rs "1 + (rs_hi rs - rs_lo rs)"] assms(3-5) by (auto simp del: length_contents)
  have "gen_serial L B am rs nrs g = (Inr (), g\<lparr>g_buf := b, g_sect := s, g_last := rs_hi rs\<rparr>)"
    using b(1) s(1) assms(2,3) by (simp add: gen_serial_def Let_def long_range_state long_range_def act_simps krl_sections)
  then show thesis using that b(2,3) s(2,3) by blast
qed

definition two_ranges_enc :: "byte list \<Rightarrow> revoked_serial \<Rightarrow> revoked_serial \<Rightarrow> byte list" where
  "two_ranges_enc kblob r1 r2 = wire_string kblob @ wire_string [] @ krl_sec (KRL_SECTION_CERT_SERIAL_RANGE, range_enc r1) @
     krl_sec (KRL_SECTION_CERT_SERIAL_RANGE, range_enc r1 @ range_enc r2)"

lemma generate_two:
  assumes "\<forall>n. am n \<noteq> None" "bn_lib_ok (kl_bn L)" "plain_ok L ca" "long_range r1" "long_range r2" "ready buf" "contents buf = []"
  shows "\<exists>b. revoked_certs_generate L B am \<lparr>rc_ca_key = ca, rc_serials = [r1, r2], rc_key_ids = []\<rparr> buf = (Inr (), b) \<and> ready b \<and>
    contents b = two_ranges_enc (name_enc ca @ pub_enc L ca) r1 r2"
proof -
  let ?k = "name_enc ca @ pub_enc L ca"
  have ca: "key_pub_ok L ca" "\<not> sshkey_is_cert ca" using assms(3) by (simp_all add: plain_ok_def)
  have blob: "sshkey_to_blob L am ca = Inr ?k" using to_blob_enc [OF assms(1,2) ca] by (simp add: sshkey_to_blob_def)
  have len: "length ?k \<le> 5000" using pub_enc_small [OF ca(1)] by simp
  obtain sect where sect: "sshbuf_new am = Some sect" "ready sect" using new_total [OF assms(1)] ready_new by blast
  let ?g0 = "\<lparr>g_buf = buf, g_sect = sect, g_state = S_none :: 'a sect_state, g_last = 0\<rparr>"
  obtain b1 where b1: "on_buf (sshbuf_put_string am ?k) ?g0 = (Inr (), ?g0\<lparr>g_buf := b1\<rparr>)" "ready b1" "contents b1 = wire_string ?k"
    using on_buf_writes [OF writes_string [OF assms(1)], of ?g0 ?k] assms(6,7) len
    by (auto simp: SSHBUF_SIZE_MAX_def simp del: length_contents)
  let ?g1 = "?g0\<lparr>g_buf := b1\<rparr>"
  obtain b2 where b2: "on_buf (sshbuf_put_string am []) ?g1 = (Inr (), ?g0\<lparr>g_buf := b2\<rparr>)" "ready b2"
    "contents b2 = wire_string ?k @ wire_string []"
    using on_buf_writes [OF writes_string [OF assms(1)], of ?g1 "[]"] b1(2,3) len
    by (auto simp: SSHBUF_SIZE_MAX_def simp del: length_contents)
  let ?g2 = "?g0\<lparr>g_buf := b2\<rparr>"
  obtain s1 where s1: "gen_serial L B am r1 (Some r2) ?g2 = (Inr (), ?g2\<lparr>g_sect := s1, g_state := S_range, g_last := rs_hi r1\<rparr>)"
    "ready s1" "contents s1 = range_enc r1"
    using gen_first [OF assms(1,4), of ?g2 L B "Some r2"] sect(2) by auto
  let ?g3 = "?g2\<lparr>g_sect := s1, g_state := S_range, g_last := rs_hi r1\<rparr>"
  have small: "length (contents (g_sect ?g3)) \<le> 1000" "length (contents (g_buf ?g3)) \<le> 100000"
    using s1(3) b2(3) len by (simp_all del: length_contents)
  obtain b3 s2 where g4: "gen_serial L B am r2 None ?g3 = (Inr (), ?g3\<lparr>g_buf := b3, g_sect := s2, g_last := rs_hi r2\<rparr>)"
    "ready b3" "ready s2" "contents b3 = contents b2 @ krl_sec (KRL_SECTION_CERT_SERIAL_RANGE, contents s1)"
    "contents s2 = contents s1 @ range_enc r2"
    using gen_next [OF assms(1,5), of ?g3 L B None] small s1(2) b2(2) by simp metis
  let ?g4 = "?g3\<lparr>g_buf := b3, g_sect := s2, g_last := rs_hi r2\<rparr>"
  have small4: "length (contents (g_sect ?g4)) \<le> 1000" "length (contents (g_buf ?g4)) \<le> 100000"
    using s1(3) b2(3) len g4(4,5) by (simp_all add: krl_sec_def del: length_contents)
  obtain b4 where b4: "gen_flush L am ?g4 = (Inr (), ?g4\<lparr>g_buf := b4\<rparr>)" "ready b4"
    "contents b4 = contents b3 @ krl_sec (KRL_SECTION_CERT_SERIAL_RANGE, contents s2)"
    using flush_range [OF assms(1), of ?g4 L] small4 g4(2,3) by auto
  have ids: "gen_key_ids am [] (?g4\<lparr>g_buf := b4\<rparr>) = (Inr (), ?g4\<lparr>g_buf := b4, g_sect := sshbuf_reset am s2\<rparr>)"
    using ready_reset [OF g4(3), of am] ready_wf by (simp add: gen_key_ids_def act_simps)
  have "revoked_certs_generate L B am \<lparr>rc_ca_key = ca, rc_serials = [r1, r2], rc_key_ids = []\<rparr> buf = (Inr (), b4)"
    using b1(1) b2(1) s1(1) g4(1) b4(1) ids
    by (simp add: revoked_certs_generate_def blob sect(1) act_simps krl_sections)
  then show ?thesis using b4(2,3) g4(4,5) s1(3) b2(3) by (simp add: two_ranges_enc_def)
qed

section \<open>Reading\<close>

lemma by_range:
  assumes "eq_lib_ok L" "\<forall>n. am n \<noteq> None" "plain_ok L ca" "krl_ok krl" "nfind_ok R" "lo \<noteq> 0" "lo \<le> hi"
  shows "\<exists>krl'. ssh_krl_revoke_cert_by_serial_range L R am ca lo hi krl = (Inr (), krl') \<and> krl_ok krl'"
proof -
  obtain i k where e: "revoked_certs_for_ca_key L R am ca True krl = (Inr (Some i), k)" "krl_ok k"
    "find_ca L ca (krl_revoked_certs k) = Some i" "i < length (krl_revoked_certs k)"
    using ca_entry [OF assms(1-4)] by metis
  let ?rc = "krl_revoked_certs k ! i"
  have "canonical (rc_serials ?rc)" using e(2,4) by (simp add: krl_ok_def list_all_length)
  then obtain rt where rt: "insert_serial_range R am lo hi (rc_serials ?rc) = (Inr (), rt)" "canonical rt"
    using insert_spec [OF assms(5), of _ lo hi am] assms(2,7) by blast
  have "ssh_krl_revoke_cert_by_serial_range L R am ca lo hi krl =
      (Inr (), k\<lparr>krl_revoked_certs := (krl_revoked_certs k)[i := ?rc\<lparr>rc_serials := rt\<rparr>]\<rparr>)"
    using assms(6,7) by (simp add: ssh_krl_revoke_cert_by_serial_range_def act_simps e(1) with_certs_def rt(1) not_less)
  then show ?thesis using revoke_in_entry [OF e(3,2), of "?rc\<lparr>rc_serials := rt\<rparr>"] rt(2) by auto
qed

lemma parse_range:
  assumes "eq_lib_ok L" "\<forall>n. am n \<noteq> None" "plain_ok L ca" "krl_ok krl" "nfind_ok R" "rs_lo r \<noteq> 0" "rs_lo r \<le> rs_hi r"
    "sshbuf_wf v" "contents v = range_enc r @ e"
  shows "\<exists>krl' v'. parse_subsection L B R am ca KRL_SECTION_CERT_SERIAL_RANGE (v, krl) =
    (if e = [] then Inr () else Inl SSH_ERR_INVALID_FORMAT, (v', krl')) \<and> krl_ok krl'"
proof -
  obtain v1 where v1: "sshbuf_get_u64 v = (Inr (rs_lo r), v1)" "sshbuf_wf v1" "contents v1 = POKE_U64 (rs_hi r) @ e"
    using readsD [OF reads_u64 assms(8)] assms(9) by (metis append.assoc range_enc_def)
  obtain v2 where v2: "sshbuf_get_u64 v1 = (Inr (rs_hi r), v2)" "sshbuf_wf v2" "contents v2 = e"
    using readsD [OF reads_u64 v1(2,3)] by metis
  obtain krl' where k: "ssh_krl_revoke_cert_by_serial_range L R am ca (rs_lo r) (rs_hi r) krl = (Inr (), krl')" "krl_ok krl'"
    using by_range [OF assms(1-7)] by blast
  have "sshbuf_len v2 = length e" using v2(2,3) by (metis sshbuf_len_wf)
  then show ?thesis using k(2)
    by (simp add: parse_subsection_def act_simps on_fst_def on_snd_def v1(1) v2(1) k(1) krl_sections)
qed

lemma loop_second:
  assumes "2 \<le> sshbuf_len (fst st)" "f st = (Inr u, st1)" "sshbuf_len (fst st1) > 0" "f st1 = (Inl e, st2)"
  shows "fst (loop_data f st) = Inl e"
proof -
  obtain n where "sshbuf_len (fst st) = Suc (Suc n)" using assms(1) by (metis Suc_le_D numeral_2_eq_2 Suc_le_mono)
  then show ?thesis using assms(2-4) by (simp add: loop_data_def)
qed

lemma view_string_run:
  assumes "\<forall>n. am n \<noteq> None" "sshbuf_wf b" "contents b = wire_string d @ rest" "length d < 2 ^ 32" "sb_refcount b < SSHBUF_REFS_MAX"
  obtains c b' where "view_string am b = (Inr c, b')" "sshbuf_wf c" "contents c = d" "sshbuf_wf b'" "contents b' = rest"
    "sb_refcount b' = sb_refcount b + 1"
proof -
  have "length d \<le> SSHBUF_SIZE_MAX" using contents_small [OF assms(2)] assms(3) by (simp add: SSHBUF_SIZE_MAX_def del: length_contents)
  then obtain c where c: "sshbuf_from am (Some d) = Some c" using assms(1) by (auto simp: sshbuf_from_def)
  have "sshbuf_peek_string_direct b = Inr (sb_off b + 4, length d)"
    using assms(2-4) by (simp add: peek_string_wf wire_len_string wire_complete_string)
  moreover obtain r b1 where v: "view_string am b = (r, b1)" by (rule prod.exhaust)
  moreover have "sshbuf_consume (size_add (length d) 4) b = (Inr (), advance (4 + length d) b)"
    using assms(2-4) contents_small [OF assms(2)]
    by (simp add: consume_advance size_add_def SIZE_MOD_def add.commute del: length_contents)
  ultimately have "view_string am b = (Inr c, (advance (4 + length d) b)\<lparr>sb_refcount := sb_refcount b + 1\<rparr>)"
    by (simp add: view_string_def string_bytes [OF assms(2-4)] c) (simp add: advance_def)
  then show thesis
    using that skip_string(2,3) [OF assms(2-4)] from_wf(1,3) [OF c] refcount_pos [OF assms(2)] assms(5) refcount_wf by auto
qed

lemma range_round:
  assumes "eq_lib_ok L" "\<forall>n. am n \<noteq> None" "plain_ok L ca" "krl_ok krl" "nfind_ok R" "rs_lo r \<noteq> 0" "rs_lo r \<le> rs_hi r"
    "sshbuf_wf b" "contents b = krl_sec (KRL_SECTION_CERT_SERIAL_RANGE, range_enc r @ e) @ rest" "length e \<le> 1000"
    "sb_refcount b < SSHBUF_REFS_MAX"
  obtains b' krl' where "cert_round L B R am ca (b, krl) = (if e = [] then Inr () else Inl SSH_ERR_INVALID_FORMAT, (b', krl'))"
    "krl_ok krl'" "sshbuf_wf b'" "contents b' = rest" "sb_refcount b' = sb_refcount b + 1"
proof -
  let ?d = "range_enc r @ e"
  obtain b1 where b1: "sshbuf_get_u8 b = (Inr KRL_SECTION_CERT_SERIAL_RANGE, b1)" "sshbuf_wf b1" "same_frame b b1"
    "contents b1 = wire_string ?d @ rest"
    using readsD [OF reads_u8 assms(8), of KRL_SECTION_CERT_SERIAL_RANGE "wire_string ?d @ rest"] assms(9)
    by (auto simp: krl_sec_def)
  have d: "length ?d < 2 ^ 32" "sb_refcount b1 < SSHBUF_REFS_MAX" "sb_refcount b1 = sb_refcount b"
    using assms(10,11) b1(3) by (simp_all add: same_frame_def)
  obtain v b2 where v: "view_string am b1 = (Inr v, b2)" "sshbuf_wf v" "contents v = ?d" "sshbuf_wf b2" "contents b2 = rest"
    "sb_refcount b2 = sb_refcount b + 1"
    using view_string_run [OF assms(2) b1(2,4) d(1,2)] d(3) by metis
  obtain krl' v' where p: "parse_subsection L B R am ca KRL_SECTION_CERT_SERIAL_RANGE (v, krl) =
    (if e = [] then Inr () else Inl SSH_ERR_INVALID_FORMAT, (v', krl'))" "krl_ok krl'"
    using parse_range [OF assms(1-7) v(2,3)] by blast
  show thesis
    by (rule that [OF _ p(2) v(4-6)]) (simp add: cert_round_def act_bind_run on_fst_def b1(1) v(1) on_view_def p(1))
qed

section \<open>Properties\<close>

text \<open>C13: Two separate ranges of at least a thousand serial numbers, revoked for one CA, cannot be saved:
  \<open>revoked_certs_generate\<close> reports success, but the second range section it writes still holds the
  first range, and \<open>parse_revoked_certs\<close> refuses the result as malformed, whatever list it reads
  it into.
\<close>

theorem two_ranges_unreadable:
  assumes "\<forall>n. am n \<noteq> None" "bn_lib_ok (kl_bn L)" "eq_lib_ok L" "nfind_ok R" "plain_ok L ca" "long_range r1" "long_range r2"
    "rs_lo r1 \<noteq> 0" "rs_lo r1 \<le> rs_hi r1" "ready buf" "contents buf = []" "krl_ok krl"
  shows "\<exists>b. revoked_certs_generate L B am \<lparr>rc_ca_key = ca, rc_serials = [r1, r2], rc_key_ids = []\<rparr> buf = (Inr (), b) \<and>
    (\<exists>v. sshbuf_from am (Some (contents b)) = Some v \<and> fst (parse_revoked_certs L B R am (v, krl)) = Inl SSH_ERR_INVALID_FORMAT)"
proof -
  let ?k = "name_enc ca @ pub_enc L ca"
  have ca: "key_pub_ok L ca" "\<not> sshkey_is_cert ca" "k_cert ca = None" using assms(5) by (simp_all add: plain_ok_def)
  obtain b where b: "revoked_certs_generate L B am \<lparr>rc_ca_key = ca, rc_serials = [r1, r2], rc_key_ids = []\<rparr> buf = (Inr (), b)"
    "ready b" "contents b = two_ranges_enc ?k r1 r2"
    using generate_two [OF assms(1,2,5-7,10,11)] by blast
  obtain v where v: "sshbuf_from am (Some (contents b)) = Some v" "sshbuf_wf v" "contents v = contents b" "sb_refcount v = 1"
    using from_copy [OF ready_wf [OF b(2)] assms(1)] ready_wf [OF b(2)] from_wf(5) by auto
  let ?s1 = "krl_sec (KRL_SECTION_CERT_SERIAL_RANGE, range_enc r1 @ [])"
  let ?s2 = "krl_sec (KRL_SECTION_CERT_SERIAL_RANGE, range_enc r1 @ range_enc r2) @ []"
  have c: "contents v = wire_string ?k @ wire_string [] @ ?s1 @ ?s2" using v(3) b(3) by (simp add: two_ranges_enc_def)
  have k: "length ?k < 2 ^ 32" using pub_enc_small [OF ca(1)] by simp
  note a1 = skip_string [OF v(2) c k]
  have e: "length ([] :: byte list) < 2 ^ 32" by simp
  note a2 = skip_string [OF a1(2,3) e]
  let ?v = "advance (4 + length ([] :: byte list)) (advance (4 + length ?k) v)"
  have rc: "sb_refcount ?v = 1" using a1(4) a2(4) v(4) by (simp add: same_frame_def)
  have blob: "sshkey_from_blob L am (take (length ?k) (drop (sb_off v + 4) (block ?v))) = Inr ca"
    using string_bytes [OF v(2) c k] from_blob_plain [OF assms(2,1) ca] by (simp add: sshkey_from_blob_def)
  let ?f = "cert_round L B R am ca"
  obtain b1 krl1 where r1: "?f (?v, krl) = (Inr (), (b1, krl1))" "krl_ok krl1" "sshbuf_wf b1" "contents b1 = ?s2" "sb_refcount b1 = Suc 1"
    using range_round [OF assms(3,1,5,12,4,8,9) a2(2,3), where B = B] rc by (simp add: SSHBUF_REFS_MAX_def) metis
  obtain st where r2: "?f (b1, krl1) = (Inl SSH_ERR_INVALID_FORMAT, st)"
    using range_round [OF assms(3,1,5) r1(2) assms(4,8,9) r1(3,4), where B = B] r1(5)
    by (simp add: SSHBUF_REFS_MAX_def range_enc_def POKE_U64_def) metis
  have n: "2 \<le> sshbuf_len (fst (?v, krl))" "sshbuf_len (fst (b1, krl1)) > 0"
    using a2(2,3) r1(3,4) by (simp_all add: krl_sec_def del: length_contents)
  have "fst (loop_data ?f (?v, krl)) = Inl SSH_ERR_INVALID_FORMAT"
    by (rule loop_second [OF n(1) r1(1) n(2) r2])
  then have "fst (parse_revoked_certs L B R am (v, krl)) = Inl SSH_ERR_INVALID_FORMAT"
    using a1(1) a2(1) blob by (simp add: parse_revoked_certs_def act_bind_run act_seq_run on_fst_def)
  then show ?thesis using b(1) v(1) by blast
qed

theorem two_ranges_unreadable_witness:
  "\<exists>b v. revoked_certs_generate lib_example bits_example alloc_zero
      \<lparr>rc_ca_key = ca_example, rc_serials = [\<lparr>rs_lo = 1, rs_hi = 2000\<rparr>, \<lparr>rs_lo = 5000, rs_hi = 9000\<rparr>], rc_key_ids = []\<rparr> fresh_buf =
      (Inr (), b) \<and> sshbuf_from alloc_zero (Some (contents b)) = Some v \<and>
    fst (parse_revoked_certs lib_example bits_example rb_example alloc_zero (v, empty_krl)) = Inl SSH_ERR_INVALID_FORMAT"
proof -
  have "eq_lib_ok lib_example" by (simp add: eq_lib_ok_def lib_example_def)
  moreover have "plain_ok lib_example ca_example" using example_keys(1,5) by (simp add: plain_ok_def ca_example_def)
  moreover have "krl_ok (empty_krl :: (nat, unit) ssh_krl)" by (simp add: krl_ok_def empty_krl_def)
  moreover have "ready fresh_buf" "contents fresh_buf = []" using ready_new [OF fresh_buf_new] by simp_all
  moreover have "long_range \<lparr>rs_lo = 1, rs_hi = 2000\<rparr>" "long_range \<lparr>rs_lo = 5000, rs_hi = 9000\<rparr>" by (simp_all add: long_range_def)
  ultimately show ?thesis
    using two_ranges_unreadable [OF alloc_zero_total example_keys(3) _ rb_example_ok, of ca_example "\<lparr>rs_lo = 1, rs_hi = 2000\<rparr>"
      "\<lparr>rs_lo = 5000, rs_hi = 9000\<rparr>" fresh_buf empty_krl bits_example] by simp
qed

end
